(* ===== verification/Prelude.thy ===== *)
theory Prelude
  imports Main "HOL-Library.Word" "HOL-Library.Monad_Syntax"
begin

text \<open>
  Shared vocabulary of the development: the machine integer types, byte buffers and the two
  ways the code moves bytes (reading a chunk, copying over a part), the little-endian and
  big-endian byte codings of a word, byte-addressed memory, and C's integer conversions.

  The collections: \<open>buf_simps\<close> holds the length and content facts of byte buffers.
\<close>

unbundle bit_operations_syntax

named_theorems buf_simps

type_synonym u8 = "8 word"
type_synonym u16 = "16 word"
type_synonym u32 = "32 word"
type_synonym u64 = "64 word"

text \<open>The error numbers the code returns, as the positive constants of errno.h.\<close>

definition ENOENT :: int where "ENOENT = 2"
definition EINTR :: int where "EINTR = 4"
definition EIO :: int where "EIO = 5"
definition EAGAIN :: int where "EAGAIN = 11"
definition ENOMEM :: int where "ENOMEM = 12"
definition EFAULT :: int where "EFAULT = 14"
definition EBUSY :: int where "EBUSY = 16"
definition ENODEV :: int where "ENODEV = 19"
definition ENOTDIR :: int where "ENOTDIR = 20"
definition EINVAL :: int where "EINVAL = 22"
definition EPERM :: int where "EPERM = 1"

lemmas errno_defs = ENOENT_def EINTR_def EIO_def EAGAIN_def ENOMEM_def EFAULT_def EBUSY_def
  ENODEV_def ENOTDIR_def EINVAL_def EPERM_def

subsection \<open>Byte buffers\<close>

text \<open>\<open>chunk off n xs\<close> is the part read by a copy of \<open>n\<close> elements from \<open>off\<close>;
  \<open>put off ys xs\<close> is \<open>xs\<close> after a copy of \<open>ys\<close> to \<open>off\<close>.\<close>

definition chunk :: "nat \<Rightarrow> nat \<Rightarrow> 'a list \<Rightarrow> 'a list" where
  "chunk off n xs = take n (drop off xs)"

definition put :: "nat \<Rightarrow> 'a list \<Rightarrow> 'a list \<Rightarrow> 'a list" where
  "put off ys xs = take off xs @ ys @ drop (off + length ys) xs"

lemma length_chunk [buf_simps]: "length (chunk off n xs) = min n (length xs - off)"
  by (simp add: chunk_def min.commute)

lemma length_chunk_in [simp]: "off + n \<le> length xs \<Longrightarrow> length (chunk off n xs) = n"
  by (simp add: chunk_def)

lemma chunk_0 [simp]: "chunk off 0 xs = []"
  by (simp add: chunk_def)

lemma chunk_Nil [simp]: "chunk off n [] = []"
  by (simp add: chunk_def)

lemma chunk_all: "length xs \<le> n \<Longrightarrow> chunk 0 n xs = xs"
  by (simp add: chunk_def)

lemma nth_chunk [buf_simps]: "i < n \<Longrightarrow> off + n \<le> length xs \<Longrightarrow> chunk off n xs ! i = xs ! (off + i)"
  by (simp add: chunk_def)

lemma chunk_append: "chunk off m xs @ chunk (off + m) n xs = chunk off (m + n) xs"
  by (simp add: chunk_def take_add add.commute)

lemma chunk_chunk: "i + k \<le> n \<Longrightarrow> chunk i k (chunk off n xs) = chunk (off + i) k xs"
  by (simp add: chunk_def drop_take add.commute)

lemma chunk_app_left: "off + n \<le> length xs \<Longrightarrow> chunk off n (xs @ ys) = chunk off n xs"
  by (simp add: chunk_def)

lemma chunk_app_right: "length xs \<le> off \<Longrightarrow> chunk off n (xs @ ys) = chunk (off - length xs) n ys"
  by (simp add: chunk_def)

lemma chunk_Cons: "0 < off \<Longrightarrow> chunk off n (x # xs) = chunk (off - 1) n xs"
  by (cases off) (simp_all add: chunk_def)

lemma chunk_0_Cons: "0 < n \<Longrightarrow> chunk 0 n (x # xs) = x # chunk 0 (n - 1) xs"
  by (cases n) (simp_all add: chunk_def)

lemma length_put [buf_simps]: "off + length ys \<le> length xs \<Longrightarrow> length (put off ys xs) = length xs"
  by (simp add: put_def)

lemma chunk_put_same [buf_simps]:
  "off + length ys \<le> length xs \<Longrightarrow> chunk off (length ys) (put off ys xs) = ys"
  by (simp add: chunk_def put_def)

lemma nth_put [buf_simps]:
  assumes "off + length ys \<le> length xs" and "i < length xs"
  shows "put off ys xs ! i = (if off \<le> i \<and> i < off + length ys then ys ! (i - off) else xs ! i)"
  using assms by (auto simp: put_def nth_append min_def)

lemma chunk_put_below [buf_simps]:
  assumes "i + n \<le> off" and "off + length ys \<le> length xs"
  shows "chunk i n (put off ys xs) = chunk i n xs"
  using assms by (intro nth_equalityI) (auto simp: buf_simps)

lemma chunk_put_above [buf_simps]:
  assumes "off + length ys \<le> i" and "off + length ys \<le> length xs"
  shows "chunk i n (put off ys xs) = chunk i n xs"
  using assms by (simp add: chunk_def put_def)

lemma put_nil [simp]: "put off [] xs = xs"
  by (simp add: put_def)

text \<open>Tables of records of one length.\<close>

lemma length_concat_const: "\<forall>r\<in>set rs. length r = n \<Longrightarrow> length (concat rs) = n * length rs"
  by (induction rs) auto

lemma chunk_concat:
  "\<forall>r\<in>set rs. length r = n \<Longrightarrow> i < length rs \<Longrightarrow> chunk (i * n) n (concat rs) = rs ! i"
proof (induction rs arbitrary: i)
  case (Cons r rs)
  then show ?case
    by (cases i) (simp_all add: chunk_app_left chunk_app_right chunk_all)
qed simp

text \<open>\<open>overlay bs buf\<close>: a driver has stored the bytes \<open>bs\<close> at the start of \<open>buf\<close>,
  never past its end.\<close>

definition overlay :: "'a list \<Rightarrow> 'a list \<Rightarrow> 'a list" where
  "overlay bs buf = take (length buf) (bs @ drop (length bs) buf)"

lemma length_overlay [simp]: "length (overlay bs buf) = length buf"
  by (simp add: overlay_def)

lemma overlay_full: "length bs = length buf \<Longrightarrow> overlay bs buf = bs"
  by (simp add: overlay_def)

text \<open>A checked array read: \<open>None\<close> where C would read outside the array.\<close>

definition nth_opt :: "'a list \<Rightarrow> nat \<Rightarrow> 'a option" where
  "nth_opt xs i = (if i < length xs then Some (xs ! i) else None)"

lemma nth_opt_in [simp]: "i < length xs \<Longrightarrow> nth_opt xs i = Some (xs ! i)"
  by (simp add: nth_opt_def)

lemma nth_opt_Some: "nth_opt xs i = Some x \<longleftrightarrow> i < length xs \<and> xs ! i = x"
  by (auto simp: nth_opt_def)

subsection \<open>Words as bytes\<close>

fun le_word :: "u8 list \<Rightarrow> 'a::len word" where
  "le_word [] = 0"
| "le_word (b # bs) = ucast b OR push_bit 8 (le_word bs)"

fun word_le :: "nat \<Rightarrow> 'a::len word \<Rightarrow> u8 list" where
  "word_le 0 w = []"
| "word_le (Suc n) w = ucast w # word_le n (drop_bit 8 w)"

lemma length_word_le [simp]: "length (word_le n w) = n"
  by (induction n arbitrary: w) auto

lemma le_word_word_le: "le_word (word_le n w) = take_bit (8 * n) (w :: 'a::len word)"
proof (induction n arbitrary: w)
  case 0
  then show ?case by simp
next
  case (Suc n)
  show ?case
    by (rule bit_word_eqI) (auto simp: Suc.IH bit_simps)
qed

lemma le_word_word_le_full: "LENGTH('a::len) \<le> 8 * n \<Longrightarrow> le_word (word_le n w) = (w :: 'a word)"
  by (simp add: le_word_word_le take_bit_word_eq_self)

lemma bit_le_word_bound:
  "bit (le_word bs :: 'a::len word) n \<Longrightarrow> n < 8 * length bs"
proof (induction bs arbitrary: n)
  case Nil
  then show ?case by simp
next
  case (Cons b bs)
  from Cons.prems have "bit b n \<or> 8 \<le> n \<and> bit (le_word bs :: 'a word) (n - 8)"
    by (auto simp: bit_simps)
  then show ?case
  proof
    assume "bit b n"
    then have "n < 8" using bit_imp_le_length by fastforce
    then show ?thesis by simp
  next
    assume "8 \<le> n \<and> bit (le_word bs :: 'a word) (n - 8)"
    with Cons.IH [of "n - 8"] show ?thesis by simp
  qed
qed

lemma word_le_le_word:
  "8 * length bs \<le> LENGTH('a::len) \<Longrightarrow> word_le (length bs) (le_word bs :: 'a word) = bs"
proof (induction bs)
  case Nil
  then show ?case by simp
next
  case (Cons b bs)
  have low: "ucast (ucast b OR push_bit 8 (le_word bs) :: 'a word) = b"
    using Cons.prems by (intro bit_word_eqI) (auto simp: bit_simps)
  have high: "drop_bit 8 (ucast b OR push_bit 8 (le_word bs) :: 'a word) = le_word bs"
  proof (rule bit_word_eqI)
    fix n assume "n < LENGTH('a)"
    have "\<not> bit b (8 + n)" using bit_imp_le_length [of b "8 + n"] by auto
    moreover have "bit (le_word bs :: 'a word) n \<Longrightarrow> 8 + n < LENGTH('a)"
      using bit_le_word_bound [where 'a='a and bs=bs and n=n] Cons.prems by auto
    ultimately show "bit (drop_bit 8 (ucast b OR push_bit 8 (le_word bs) :: 'a word)) n
        = bit (le_word bs :: 'a word) n"
      by (auto simp: bit_simps)
  qed
  from low high Cons show ?case by simp
qed

text \<open>Big-endian is the same byte string, most significant byte first.\<close>

definition be_word :: "u8 list \<Rightarrow> 'a::len word" where
  "be_word bs = le_word (rev bs)"

definition word_be :: "nat \<Rightarrow> 'a::len word \<Rightarrow> u8 list" where
  "word_be n w = rev (word_le n w)"

lemma length_word_be [simp]: "length (word_be n w) = n"
  by (simp add: word_be_def)

lemma be_word_word_be_full: "LENGTH('a::len) \<le> 8 * n \<Longrightarrow> be_word (word_be n w) = (w :: 'a word)"
  by (simp add: be_word_def word_be_def le_word_word_le_full)

lemma word_be_be_word:
  "8 * length bs \<le> LENGTH('a::len) \<Longrightarrow> word_be (length bs) (be_word bs :: 'a word) = bs"
  using word_le_le_word [where 'a='a and bs="rev bs"] by (simp add: be_word_def word_be_def)

subsection \<open>Memory\<close>

text \<open>
  Byte-addressed memory of a host: \<open>None\<close> at an address that is not mapped, where an access
  is a fault. A multi-byte access faults when one of its bytes does.
\<close>

type_synonym mem = "u64 \<Rightarrow> u8 option"

fun load_bytes :: "mem \<Rightarrow> u64 \<Rightarrow> nat \<Rightarrow> u8 list option" where
  "load_bytes m a 0 = Some []"
| "load_bytes m a (Suc n) = do { b \<leftarrow> m a; bs \<leftarrow> load_bytes m (a + 1) n; Some (b # bs) }"

definition image_at :: "u64 \<Rightarrow> u8 list \<Rightarrow> mem" where
  \<comment> \<open>a mapping of the bytes \<open>img\<close> at address \<open>a\<close>, nothing else mapped\<close>
  "image_at a img = (\<lambda>x. nth_opt img (unat (x - a)))"

lemma length_load_bytes: "load_bytes m a n = Some bs \<Longrightarrow> length bs = n"
  by (induction n arbitrary: a bs) (auto simp: bind_eq_Some_conv)

lemma load_bytes_append:
  "load_bytes m a (n + k) =
     do { xs \<leftarrow> load_bytes m a n; ys \<leftarrow> load_bytes m (a + of_nat n) k; Some (xs @ ys) }"
proof (induction n arbitrary: a)
  case 0
  show ?case by simp
next
  case (Suc n)
  show ?case by (simp add: Suc.IH add.assoc add.commute [of 1])
qed

lemma load_bytes_image:
  assumes "off + n \<le> length img" and "length img \<le> 2 ^ 64"
  shows "load_bytes (image_at a img) (a + of_nat off) n = Some (chunk off n img)"
  using assms
proof (induction n arbitrary: off)
  case 0
  then show ?case by simp
next
  case (Suc n)
  have off: "unat (of_nat off :: u64) = off"
    using Suc.prems by (simp add: unat_of_nat)
  have rest: "load_bytes (image_at a img) (a + of_nat off + 1) n = Some (chunk (Suc off) n img)"
    using Suc.IH [of "Suc off"] Suc.prems by (simp add: ac_simps)
  have "chunk off (Suc n) img = img ! off # chunk (Suc off) n img"
    using Suc.prems by (simp add: chunk_def Cons_nth_drop_Suc [symmetric])
  with Suc.prems rest show ?case
    by (simp add: image_at_def off add.left_commute add.commute)
qed

text \<open>A memory that holds \<open>img\<close> at \<open>a\<close>, without reaching the end of the address space.\<close>

definition maps_file :: "mem \<Rightarrow> u64 \<Rightarrow> u8 list \<Rightarrow> bool" where
  "maps_file m a img \<longleftrightarrow> a \<noteq> 0 \<and> unat a + length img < 2 ^ 64
     \<and> (\<forall>i < length img. m (a + of_nat i) = Some (img ! i))"

lemma load_bytes_at:
  "\<forall>i < n. m (a + of_nat i) = Some (xs ! i) \<Longrightarrow> n \<le> length xs \<Longrightarrow> load_bytes m a n = Some (take n xs)"
proof (induction n arbitrary: a xs)
  case (Suc n)
  then obtain x ys where xs: "xs = x # ys" by (cases xs) auto
  have "m (a + 1 + of_nat i) = Some (ys ! i)" if "i < n" for i
    using Suc.prems(1) that xs by (auto simp: add.assoc dest: spec [of _ "Suc i"])
  moreover have "m a = Some x" using Suc.prems(1) xs by (auto dest: spec [of _ 0])
  ultimately show ?case using Suc.IH [of "a + 1" ys] Suc.prems(2) xs by simp
qed simp

lemma maps_file_load:
  assumes "maps_file m a img" and "unat off + n \<le> length img"
  shows "load_bytes m (a + off) n = Some (chunk (unat off) n img)"
  unfolding chunk_def
proof (rule load_bytes_at)
  show "\<forall>i < n. m (a + off + of_nat i) = Some (drop (unat off) img ! i)"
  proof (intro allI impI)
    fix i assume "i < n"
    moreover have "a + off + of_nat i = a + of_nat (unat off + i)" by simp
    ultimately show "m (a + off + of_nat i) = Some (drop (unat off) img ! i)"
      using assms unfolding maps_file_def by (simp only:) simp
  qed
qed (use assms(2) in simp)

lemma maps_file_nz:
  assumes "maps_file m a img" and "unat off < length img"
  shows "a + off \<noteq> 0"
proof -
  have "unat a + unat off < 2 ^ LENGTH(64)" "0 < unat a"
    using assms by (auto simp: maps_file_def unat_gt_0)
  then have "unat (a + off) \<noteq> 0" by (simp only: unat_add_lem)
  then show ?thesis by auto
qed

lemma maps_file_image: "a \<noteq> 0 \<Longrightarrow> unat a + length img < 2 ^ 64 \<Longrightarrow> maps_file (image_at a img) a img"
  by (simp add: maps_file_def image_at_def unat_of_nat)

subsection \<open>C integers\<close>

text \<open>\<open>int\<close> values are kept as 32-bit words and read with \<open>sint\<close>; converting one to a
  64-bit \<open>unsigned long\<close> (or \<open>size_t\<close>) extends the sign.\<close>

definition int_to_ulong :: "u32 \<Rightarrow> u64" where
  "int_to_ulong i = scast i"

definition ulong_to_int :: "u64 \<Rightarrow> u32" where
  "ulong_to_int w = ucast w"


lemma unat_ucast_up [simp]: "unat (ucast (x :: u32) :: u64) = unat x"
proof -
  have "unat x < 2 ^ LENGTH(32)" by (rule unsigned_less)
  then have "unat x < 2 ^ 64" by simp
  then show ?thesis by (simp add: unsigned_ucast_eq take_bit_nat_eq_self)
qed

text \<open>Below \<open>2 ^ 31\<close> the signed reading is the unsigned one, and no conversion changes it.\<close>

lemma sint_small: "unat (x :: u32) < 2 ^ 31 \<Longrightarrow> sint x = int (unat x)"
proof -
  assume "unat x < 2 ^ 31"
  then have "int (unat x) < int (2 ^ 31)" by (rule iffD2 [OF of_nat_less_iff])
  moreover have "uint x = int (unat x)" by (rule uint_nat)
  ultimately have "uint x < 2 ^ 31" by (metis of_nat_numeral of_nat_power)
  moreover have "0 \<le> uint x" by simp
  ultimately have "signed_take_bit 31 (uint x) = uint x"
    by (intro signed_take_bit_int_eq_self) linarith+
  then show ?thesis by (simp add: sint_uint)
qed

lemma unat_int_to_ulong: "unat x < 2 ^ 31 \<Longrightarrow> unat (int_to_ulong x) = unat x"
  by (simp add: int_to_ulong_def scast_eq sint_small unsigned_ucast_eq take_bit_nat_eq_self)

lemma int_to_ulong_small: "unat x < 2 ^ 31 \<Longrightarrow> int_to_ulong x = ucast x"
  by (simp add: int_to_ulong_def scast_eq sint_small)

lemma unat_ulong_to_int: "unat w < 2 ^ 32 \<Longrightarrow> unat (ulong_to_int w) = unat w"
  by (simp add: ulong_to_int_def unsigned_ucast_eq take_bit_nat_eq_self)

end
