(* ===== verification/ByteOrder.thy ===== *)
theory ByteOrder
  imports Prelude
begin

text \<open>
  Byte order: the host's endianness, its loads and stores, the C library's \<open>htonl\<close>,
  \<open>htons\<close> (and the kernel's \<open>be32_to_cpu\<close> and kin, the same functions), and the
  64-bit \<open>htonll\<close> that the library, the kernel module and gensdbfs each define in their own
  header out of two \<open>htonl\<close> calls (src/sdbfs/lib/libsdbfs.h, src/sdbfs/userspace/gensdbfs.h,
  src/sdbfs/kernel/sdbfs-int.h).
\<close>

named_theorems endian_simps

datatype endian = Big | Little

text \<open>How the host reads and writes a word of \<open>n\<close> bytes.\<close>

definition host_word :: "endian \<Rightarrow> u8 list \<Rightarrow> 'a::len word" where
  "host_word e bs = (case e of Big \<Rightarrow> be_word bs | Little \<Rightarrow> le_word bs)"

definition host_bytes :: "endian \<Rightarrow> nat \<Rightarrow> 'a::len word \<Rightarrow> u8 list" where
  "host_bytes e n w = (case e of Big \<Rightarrow> word_be n w | Little \<Rightarrow> word_le n w)"

text \<open>The C library's conversions: the identity on a big-endian host, a byte swap otherwise.\<close>

definition htonl :: "endian \<Rightarrow> u32 \<Rightarrow> u32" where
  "htonl e x = (case e of Big \<Rightarrow> x | Little \<Rightarrow> be_word (word_le 4 x))"

definition ntohl :: "endian \<Rightarrow> u32 \<Rightarrow> u32" where
  "ntohl e x = htonl e x"

definition htons :: "endian \<Rightarrow> u16 \<Rightarrow> u16" where
  "htons e x = (case e of Big \<Rightarrow> x | Little \<Rightarrow> be_word (word_le 2 x))"

definition ntohs :: "endian \<Rightarrow> u16 \<Rightarrow> u16" where
  "ntohs e x = htons e x"

definition htonll :: "endian \<Rightarrow> u64 \<Rightarrow> u64" where
  "htonll e ll =
     (if htonl e 1 = 1 then ll
      else ucast (htonl e (ucast (drop_bit 32 ll)))
           OR push_bit 32 (ucast (htonl e (ucast ll))))"

definition ntohll :: "endian \<Rightarrow> u64 \<Rightarrow> u64" where
  "ntohll e ll = htonll e ll"

lemma length_host_bytes [simp]: "length (host_bytes e n w) = n"
  by (cases e) (auto simp: host_bytes_def)

lemma host_word_host_bytes [endian_simps]:
  "LENGTH('a::len) \<le> 8 * n \<Longrightarrow> host_word e (host_bytes e n w) = (w :: 'a word)"
  by (cases e) (auto simp: host_word_def host_bytes_def le_word_word_le_full be_word_word_be_full)

lemma host_bytes_host_word [endian_simps]:
  "8 * length bs \<le> LENGTH('a::len) \<Longrightarrow> n = length bs \<Longrightarrow>
   host_bytes e n (host_word e bs :: 'a word) = bs"
  by (cases e) (auto simp: host_word_def host_bytes_def word_le_le_word word_be_be_word)

lemma htonl_bytes: "length bs = 4 \<Longrightarrow> htonl e (host_word e bs) = be_word bs"
  using word_le_le_word [where 'a = 32 and bs = bs]
  by (cases e) (auto simp: htonl_def host_word_def)

lemma htons_bytes: "length bs = 2 \<Longrightarrow> htons e (host_word e bs) = be_word bs"
  using word_le_le_word [where 'a = 16 and bs = bs]
  by (cases e) (auto simp: htons_def host_word_def)

text \<open>A value built from bytes has the bytes back, so a conversion stores big-endian bytes.\<close>

lemma swap_invol:
  assumes "8 * n = LENGTH('a::len)"
  shows "word_le n (be_word (word_le n w) :: 'a word) = word_be n (w :: 'a word)"
  using word_le_le_word [where 'a = 'a and bs = "rev (word_le n w)"] assms
  by (simp add: be_word_def word_be_def)

lemma htonl_be [endian_simps]: "host_bytes e 4 (htonl e x) = word_be 4 x"
  by (cases e) (auto simp: host_bytes_def htonl_def swap_invol)

lemma htons_be [endian_simps]: "host_bytes e 2 (htons e x) = word_be 2 x"
  by (cases e) (auto simp: host_bytes_def htons_def swap_invol)

subsection \<open>The 64-bit conversion\<close>

lemma le_word_append:
  "le_word (xs @ ys) = (le_word xs OR push_bit (8 * length xs) (le_word ys) :: 'a::len word)"
proof (induction xs)
  case Nil
  then show ?case by simp
next
  case (Cons x xs)
  show ?case
    by (rule bit_word_eqI) (auto simp: Cons.IH bit_simps)
qed

lemma word_le_add: "word_le (n + k) w = word_le n w @ word_le k (drop_bit (8 * n) w)"
  by (induction n arbitrary: w) (auto simp: algebra_simps)

lemma ucast_low_byte:
  "8 \<le> LENGTH('b::len) \<Longrightarrow> (ucast (ucast (w :: 'a::len word) :: 'b word) :: u8) = ucast w"
  by (rule bit_word_eqI) (auto simp: bit_simps)

lemma nth_word_le: "i < n \<Longrightarrow> word_le n w ! i = ucast (drop_bit (8 * i) w)"
proof (induction n arbitrary: i w)
  case 0
  then show ?case by simp
next
  case (Suc n)
  then show ?case by (cases i) (auto simp: algebra_simps)
qed

lemma word_le_ucast:
  "8 * n \<le> LENGTH('b::len) \<Longrightarrow> word_le n (ucast w :: 'b word) = word_le n (w :: 'a::len word)"
  by (intro nth_equalityI bit_word_eqI) (auto simp: nth_word_le bit_simps)

lemma ucast_le_word:
  "8 * length bs \<le> LENGTH('a::len) \<Longrightarrow> LENGTH('a) \<le> LENGTH('b::len) \<Longrightarrow>
   ucast (le_word bs :: 'a word) = (le_word bs :: 'b word)"
proof (induction bs)
  case Nil
  then show ?case by simp
next
  case (Cons b bs)
  have IH: "bit (le_word bs :: 'b word) n \<longleftrightarrow> bit (le_word bs :: 'a word) n" if "n < LENGTH('b)" for n
  proof -
    have "bit (ucast (le_word bs :: 'a word) :: 'b word) n \<longleftrightarrow> bit (le_word bs :: 'b word) n"
      using Cons by simp
    with that show ?thesis by (simp add: bit_simps)
  qed
  have bound: "bit (le_word bs :: 'a word) n \<Longrightarrow> n + 8 < LENGTH('a)" for n
    using bit_le_word_bound [where 'a = 'a and bs = bs and n = n] Cons.prems by auto
  have byte: "bit b n \<Longrightarrow> n < 8" for n
    using bit_imp_le_length [of b n] by simp
  show ?case
    by (rule bit_word_eqI) (use Cons.prems in \<open>auto simp: bit_simps IH dest: bound byte\<close>)
qed

lemma htonll_Little: "htonll Little x = be_word (word_le 8 x)"
proof -
  have le: "htonl Little 1 \<noteq> 1" by code_simp
  have hi: "(ucast (htonl Little (ucast (drop_bit 32 x))) :: u64) = le_word (rev (word_le 4 (drop_bit 32 x)))"
    by (simp add: htonl_def be_word_def word_le_ucast ucast_le_word)
  have lo: "(ucast (htonl Little (ucast x)) :: u64) = le_word (rev (word_le 4 x))"
    by (simp add: htonl_def be_word_def word_le_ucast ucast_le_word)
  have "word_le 8 x = word_le 4 x @ word_le 4 (drop_bit 32 x)"
    using word_le_add [of 4 4 x] by simp
  then show ?thesis
    using le by (simp add: htonll_def hi lo be_word_def le_word_append)
qed

lemma htonll_Big: "htonll Big x = x"
  by (simp add: htonll_def htonl_def)

lemma htonll_be [endian_simps]: "host_bytes e 8 (htonll e x) = word_be 8 x"
  by (cases e) (auto simp: host_bytes_def htonll_Big htonll_Little swap_invol)

lemma htonll_bytes: "length bs = 8 \<Longrightarrow> htonll e (host_word e bs) = be_word bs"
  using word_le_le_word [where 'a = 64 and bs = bs]
  by (cases e) (auto simp: htonll_Big htonll_Little host_word_def)

text \<open>The conversions undo themselves, whichever order the host has.\<close>

lemma htonll_htonll [endian_simps, simp]: "htonll e (htonll e x) = x"
proof -
  have "htonll e (htonll e x) = htonll e (host_word e (word_be 8 x))"
    using host_word_host_bytes [of 8 e "htonll e x"] by (simp add: htonll_be)
  then show ?thesis by (simp add: htonll_bytes be_word_word_be_full)
qed

lemma ntohll_htonll [endian_simps, simp]: "ntohll e (htonll e x) = x"
  by (simp add: ntohll_def)

lemma htonl_htonl [endian_simps, simp]: "htonl e (htonl e x) = x"
proof -
  have "htonl e (htonl e x) = htonl e (host_word e (word_be 4 x))"
    using host_word_host_bytes [of 4 e "htonl e x"] by (simp add: htonl_be)
  then show ?thesis by (simp add: htonl_bytes be_word_word_be_full)
qed

lemma ntohl_htonl [endian_simps, simp]: "ntohl e (htonl e x) = x"
  by (simp add: ntohl_def)

lemma htons_htons [endian_simps, simp]: "htons e (htons e x) = x"
proof -
  have "htons e (htons e x) = htons e (host_word e (word_be 2 x))"
    using host_word_host_bytes [of 2 e "htons e x"] by (simp add: htons_be)
  then show ?thesis by (simp add: htons_bytes be_word_word_be_full)
qed

lemma ntohs_htons [endian_simps, simp]: "ntohs e (htons e x) = x"
  by (simp add: ntohs_def)

lemma htonl_0 [simp]: "htonl e 0 = 0"
  by (cases e) (simp add: htonl_def, simp add: htonl_def, code_simp)

lemma htonll_0 [simp]: "htonll e 0 = 0"
  by (simp add: htonll_def)

end
