(* ===== verification/SdbHeader.thy ===== *)
theory SdbHeader
  imports ByteOrder
begin

text \<open>
  The SDB record formats of src/sdbfs/include/linux/sdb.h. Every C structure is a HOL record
  whose fields hold what the C field holds, that is the value the host loads: the bytes on the
  medium are big-endian, and the code calls \<open>ntohl\<close> and kin on the fields.
  \<open>load_X e r\<close> reads the 64 bytes \<open>r\<close> as the structure X on a host of endianness
  \<open>e\<close>, which is what a cast of a record pointer does; \<open>store_X e x\<close> are the 64 bytes the
  structure occupies in the host's memory.

  The lemmas show that each pair is a bijection between structures and 64-byte records, and that
  the structures overlay each other the way the casts of the code rely on.
\<close>

named_theorems sdb_layout

subsection \<open>Record types and constants\<close>

definition sdb_type_interconnect :: u8 where "sdb_type_interconnect = 0x00"
definition sdb_type_device :: u8 where "sdb_type_device = 0x01"
definition sdb_type_bridge :: u8 where "sdb_type_bridge = 0x02"
definition sdb_type_integration :: u8 where "sdb_type_integration = 0x80"
definition sdb_type_repo_url :: u8 where "sdb_type_repo_url = 0x81"
definition sdb_type_synthesis :: u8 where "sdb_type_synthesis = 0x82"
definition sdb_type_empty :: u8 where "sdb_type_empty = 0xFF"

definition SDB_MAGIC :: u32 where "SDB_MAGIC = 0x5344422d"

definition sdb_wishbone :: u8 where "sdb_wishbone = 0x00"
definition sdb_data :: u8 where "sdb_data = 0x01"

definition SDB_DATA_READ :: u32 where "SDB_DATA_READ = 0x04"
definition SDB_DATA_WRITE :: u32 where "SDB_DATA_WRITE = 0x02"
definition SDB_DATA_EXEC :: u32 where "SDB_DATA_EXEC = 0x01"

lemmas sdb_type_defs = sdb_type_interconnect_def sdb_type_device_def sdb_type_bridge_def
  sdb_type_integration_def sdb_type_repo_url_def sdb_type_synthesis_def sdb_type_empty_def

subsection \<open>Structures\<close>

record sdb_product =
  p_vendor_id :: u64
  p_device_id :: u32
  p_version :: u32
  p_date :: u32
  p_name :: "u8 list"    \<comment> \<open>19 bytes\<close>
  p_record_type :: u8

record sdb_component =
  c_addr_first :: u64
  c_addr_last :: u64
  c_product :: sdb_product

record sdb_interconnect =
  i_sdb_magic :: u32
  i_sdb_records :: u16
  i_sdb_version :: u8
  i_sdb_bus_type :: u8
  i_component :: sdb_component

record sdb_device =
  d_abi_class :: u16
  d_abi_ver_major :: u8
  d_abi_ver_minor :: u8
  d_bus_specific :: u32
  d_component :: sdb_component

record sdb_bridge =
  b_sdb_child :: u64
  b_component :: sdb_component

record sdb_integration =
  n_reserved :: "u8 list"    \<comment> \<open>24 bytes\<close>
  n_product :: sdb_product

record sdb_repo_url =
  r_repo_url :: "u8 list"    \<comment> \<open>63 bytes\<close>
  r_record_type :: u8

record sdb_synthesis =
  s_syn_name :: "u8 list"    \<comment> \<open>16 bytes\<close>
  s_commit_id :: "u8 list"   \<comment> \<open>16 bytes\<close>
  s_tool_name :: "u8 list"   \<comment> \<open>8 bytes\<close>
  s_tool_version :: u32
  s_date :: u32
  s_user_name :: "u8 list"   \<comment> \<open>15 bytes\<close>
  s_record_type :: u8

record sdb_empty =
  e_reserved :: "u8 list"    \<comment> \<open>63 bytes\<close>
  e_record_type :: u8

subsection \<open>Reading a structure out of a 64-byte record\<close>

definition load_product :: "endian \<Rightarrow> u8 list \<Rightarrow> sdb_product" where
  "load_product e r = \<lparr>
     p_vendor_id = host_word e (chunk 0x18 8 r),
     p_device_id = host_word e (chunk 0x20 4 r),
     p_version = host_word e (chunk 0x24 4 r),
     p_date = host_word e (chunk 0x28 4 r),
     p_name = chunk 0x2c 19 r,
     p_record_type = r ! 0x3f\<rparr>"

definition load_component :: "endian \<Rightarrow> u8 list \<Rightarrow> sdb_component" where
  "load_component e r = \<lparr>
     c_addr_first = host_word e (chunk 0x08 8 r),
     c_addr_last = host_word e (chunk 0x10 8 r),
     c_product = load_product e r\<rparr>"

definition load_interconnect :: "endian \<Rightarrow> u8 list \<Rightarrow> sdb_interconnect" where
  "load_interconnect e r = \<lparr>
     i_sdb_magic = host_word e (chunk 0x00 4 r),
     i_sdb_records = host_word e (chunk 0x04 2 r),
     i_sdb_version = r ! 0x06,
     i_sdb_bus_type = r ! 0x07,
     i_component = load_component e r\<rparr>"

definition load_device :: "endian \<Rightarrow> u8 list \<Rightarrow> sdb_device" where
  "load_device e r = \<lparr>
     d_abi_class = host_word e (chunk 0x00 2 r),
     d_abi_ver_major = r ! 0x02,
     d_abi_ver_minor = r ! 0x03,
     d_bus_specific = host_word e (chunk 0x04 4 r),
     d_component = load_component e r\<rparr>"

definition load_bridge :: "endian \<Rightarrow> u8 list \<Rightarrow> sdb_bridge" where
  "load_bridge e r = \<lparr>
     b_sdb_child = host_word e (chunk 0x00 8 r),
     b_component = load_component e r\<rparr>"

definition load_integration :: "endian \<Rightarrow> u8 list \<Rightarrow> sdb_integration" where
  "load_integration e r = \<lparr> n_reserved = chunk 0 24 r, n_product = load_product e r\<rparr>"

definition load_repo_url :: "u8 list \<Rightarrow> sdb_repo_url" where
  "load_repo_url r = \<lparr> r_repo_url = chunk 0 63 r, r_record_type = r ! 0x3f\<rparr>"

definition load_synthesis :: "endian \<Rightarrow> u8 list \<Rightarrow> sdb_synthesis" where
  "load_synthesis e r = \<lparr>
     s_syn_name = chunk 0x00 16 r,
     s_commit_id = chunk 0x10 16 r,
     s_tool_name = chunk 0x20 8 r,
     s_tool_version = host_word e (chunk 0x28 4 r),
     s_date = host_word e (chunk 0x2c 4 r),
     s_user_name = chunk 0x30 15 r,
     s_record_type = r ! 0x3f\<rparr>"

definition load_empty :: "u8 list \<Rightarrow> sdb_empty" where
  "load_empty r = \<lparr> e_reserved = chunk 0 63 r, e_record_type = r ! 0x3f\<rparr>"

subsection \<open>A structure as it lies in memory\<close>

definition store_product :: "endian \<Rightarrow> sdb_product \<Rightarrow> u8 list" where
  "store_product e p =
     host_bytes e 8 (p_vendor_id p) @ host_bytes e 4 (p_device_id p)
     @ host_bytes e 4 (p_version p) @ host_bytes e 4 (p_date p) @ p_name p @ [p_record_type p]"

definition store_component :: "endian \<Rightarrow> sdb_component \<Rightarrow> u8 list" where
  "store_component e c =
     host_bytes e 8 (c_addr_first c) @ host_bytes e 8 (c_addr_last c)
     @ store_product e (c_product c)"

definition store_interconnect :: "endian \<Rightarrow> sdb_interconnect \<Rightarrow> u8 list" where
  "store_interconnect e i =
     host_bytes e 4 (i_sdb_magic i) @ host_bytes e 2 (i_sdb_records i)
     @ [i_sdb_version i, i_sdb_bus_type i] @ store_component e (i_component i)"

definition store_device :: "endian \<Rightarrow> sdb_device \<Rightarrow> u8 list" where
  "store_device e d =
     host_bytes e 2 (d_abi_class d) @ [d_abi_ver_major d, d_abi_ver_minor d]
     @ host_bytes e 4 (d_bus_specific d) @ store_component e (d_component d)"

definition store_bridge :: "endian \<Rightarrow> sdb_bridge \<Rightarrow> u8 list" where
  "store_bridge e b = host_bytes e 8 (b_sdb_child b) @ store_component e (b_component b)"

definition store_integration :: "endian \<Rightarrow> sdb_integration \<Rightarrow> u8 list" where
  "store_integration e n = n_reserved n @ store_product e (n_product n)"

definition store_repo_url :: "sdb_repo_url \<Rightarrow> u8 list" where
  "store_repo_url u = r_repo_url u @ [r_record_type u]"

definition store_synthesis :: "endian \<Rightarrow> sdb_synthesis \<Rightarrow> u8 list" where
  "store_synthesis e s =
     s_syn_name s @ s_commit_id s @ s_tool_name s @ host_bytes e 4 (s_tool_version s)
     @ host_bytes e 4 (s_date s) @ s_user_name s @ [s_record_type s]"

definition store_empty :: "sdb_empty \<Rightarrow> u8 list" where
  "store_empty x = e_reserved x @ [e_record_type x]"

subsection \<open>The two directions are inverse\<close>

text \<open>What it means for the byte-array fields to have their C lengths.\<close>

definition product_ok :: "sdb_product \<Rightarrow> bool" where
  "product_ok p \<longleftrightarrow> length (p_name p) = 19"

definition component_ok :: "sdb_component \<Rightarrow> bool" where
  "component_ok c \<longleftrightarrow> product_ok (c_product c)"

definition synthesis_ok :: "sdb_synthesis \<Rightarrow> bool" where
  "synthesis_ok s \<longleftrightarrow> length (s_syn_name s) = 16 \<and> length (s_commit_id s) = 16
     \<and> length (s_tool_name s) = 8 \<and> length (s_user_name s) = 15"

lemmas load_defs = load_product_def load_component_def load_interconnect_def load_device_def
  load_bridge_def load_integration_def load_repo_url_def load_synthesis_def load_empty_def

lemmas store_defs = store_product_def store_component_def store_interconnect_def store_device_def
  store_bridge_def store_integration_def store_repo_url_def store_synthesis_def store_empty_def

lemmas ok_defs = product_ok_def component_ok_def synthesis_ok_def

lemmas chunk_app = chunk_app_left chunk_app_right chunk_all chunk_Cons

lemma length_store [sdb_layout]:
  "product_ok p \<Longrightarrow> length (store_product e p) = 40"
  "component_ok c \<Longrightarrow> length (store_component e c) = 56"
  "component_ok (i_component i) \<Longrightarrow> length (store_interconnect e i) = 64"
  "component_ok (d_component d) \<Longrightarrow> length (store_device e d) = 64"
  "component_ok (b_component b) \<Longrightarrow> length (store_bridge e b) = 64"
  "length (n_reserved n) = 24 \<Longrightarrow> product_ok (n_product n) \<Longrightarrow> length (store_integration e n) = 64"
  "length (r_repo_url u) = 63 \<Longrightarrow> length (store_repo_url u) = 64"
  "synthesis_ok s \<Longrightarrow> length (store_synthesis e s) = 64"
  "length (e_reserved x) = 63 \<Longrightarrow> length (store_empty x) = 64"
  by (simp_all add: store_defs ok_defs)

text \<open>A product or component may be preceded by whatever the record type puts before it.\<close>

lemma load_product_store:
  "product_ok p \<Longrightarrow> length pre = 24 \<Longrightarrow> load_product e (pre @ store_product e p) = p"
  by (simp add: load_product_def store_product_def product_ok_def chunk_app nth_append
      host_word_host_bytes)

lemma load_component_store:
  "component_ok c \<Longrightarrow> length pre = 8 \<Longrightarrow> load_component e (pre @ store_component e c) = c"
  using load_product_store [of "c_product c" "pre @ host_bytes e 8 (c_addr_first c) @ host_bytes e 8 (c_addr_last c)" e]
  by (simp add: load_component_def store_component_def component_ok_def chunk_app
      host_word_host_bytes)

lemma load_store_interconnect [sdb_layout]:
  "component_ok (i_component i) \<Longrightarrow> load_interconnect e (store_interconnect e i) = i"
  using load_component_store [of "i_component i" "host_bytes e 4 (i_sdb_magic i) @ host_bytes e 2 (i_sdb_records i)
     @ [i_sdb_version i, i_sdb_bus_type i]" e]
  by (simp add: load_interconnect_def store_interconnect_def chunk_app nth_append host_word_host_bytes)

lemma load_store_device [sdb_layout]:
  "component_ok (d_component d) \<Longrightarrow> load_device e (store_device e d) = d"
  using load_component_store [of "d_component d" "host_bytes e 2 (d_abi_class d)
     @ [d_abi_ver_major d, d_abi_ver_minor d] @ host_bytes e 4 (d_bus_specific d)" e]
  by (simp add: load_device_def store_device_def chunk_app nth_append host_word_host_bytes)

lemma load_store_bridge [sdb_layout]:
  "component_ok (b_component b) \<Longrightarrow> load_bridge e (store_bridge e b) = b"
  using load_component_store [of "b_component b" "host_bytes e 8 (b_sdb_child b)" e]
  by (simp add: load_bridge_def store_bridge_def chunk_app host_word_host_bytes)

lemma load_store_integration [sdb_layout]:
  "length (n_reserved n) = 24 \<Longrightarrow> product_ok (n_product n) \<Longrightarrow>
   load_integration e (store_integration e n) = n"
  by (simp add: load_integration_def store_integration_def load_product_store chunk_app)

lemma load_store_repo_url [sdb_layout]:
  "length (r_repo_url u) = 63 \<Longrightarrow> load_repo_url (store_repo_url u) = u"
  by (simp add: load_repo_url_def store_repo_url_def chunk_app nth_append)

lemma load_store_synthesis [sdb_layout]:
  "synthesis_ok s \<Longrightarrow> load_synthesis e (store_synthesis e s) = s"
  by (simp add: load_synthesis_def store_synthesis_def synthesis_ok_def chunk_app nth_append
      host_word_host_bytes)

lemma load_store_empty [sdb_layout]:
  "length (e_reserved x) = 63 \<Longrightarrow> load_empty (store_empty x) = x"
  by (simp add: load_empty_def store_empty_def chunk_app nth_append)

text \<open>The other direction glues the pieces of a record together again.\<close>

lemma chunk_glue: "b = a + m \<Longrightarrow> chunk a m xs @ chunk b n xs @ zs = chunk a (m + n) xs @ zs"
  by (simp add: chunk_append [symmetric])

lemma chunk_glue_end: "b = a + m \<Longrightarrow> chunk a m xs @ chunk b n xs = chunk a (m + n) xs"
  by (simp add: chunk_append)

lemma nth_as_chunk: "i < length xs \<Longrightarrow> xs ! i # zs = chunk i 1 xs @ zs"
  by (simp add: chunk_def Cons_nth_drop_Suc [symmetric])

lemmas glue = chunk_glue chunk_glue_end chunk_all

lemma store_product_load: "length r = 64 \<Longrightarrow> store_product e (load_product e r) = chunk 24 40 r"
  using nth_as_chunk [of 63 r "[]"]
  by (simp add: load_product_def store_product_def host_bytes_host_word glue)

lemma store_component_load: "length r = 64 \<Longrightarrow> store_component e (load_component e r) = chunk 8 56 r"
  by (simp add: load_component_def store_component_def host_bytes_host_word store_product_load glue)

lemma store_interconnect_load [sdb_layout]:
  "length r = 64 \<Longrightarrow> store_interconnect e (load_interconnect e r) = r"
  using nth_as_chunk [of 6 r "r ! 7 # chunk 8 56 r"] nth_as_chunk [of 7 r "chunk 8 56 r"]
  by (simp add: load_interconnect_def store_interconnect_def host_bytes_host_word
      store_component_load glue)

lemma store_device_load [sdb_layout]: "length r = 64 \<Longrightarrow> store_device e (load_device e r) = r"
  using nth_as_chunk [of 2 r "r ! 3 # chunk 4 60 r"] nth_as_chunk [of 3 r "chunk 4 60 r"]
  by (simp add: load_device_def store_device_def host_bytes_host_word store_component_load glue)

lemma store_bridge_load [sdb_layout]: "length r = 64 \<Longrightarrow> store_bridge e (load_bridge e r) = r"
  by (simp add: load_bridge_def store_bridge_def host_bytes_host_word store_component_load glue)

lemma store_integration_load [sdb_layout]:
  "length r = 64 \<Longrightarrow> store_integration e (load_integration e r) = r"
  by (simp add: load_integration_def store_integration_def store_product_load glue)

lemma store_repo_url_load [sdb_layout]: "length r = 64 \<Longrightarrow> store_repo_url (load_repo_url r) = r"
  using nth_as_chunk [of 63 r "[]"] by (simp add: load_repo_url_def store_repo_url_def glue)

lemma store_synthesis_load [sdb_layout]:
  "length r = 64 \<Longrightarrow> store_synthesis e (load_synthesis e r) = r"
  using nth_as_chunk [of 63 r "[]"]
  by (simp add: load_synthesis_def store_synthesis_def host_bytes_host_word glue)

lemma store_empty_load [sdb_layout]: "length r = 64 \<Longrightarrow> store_empty (load_empty r) = r"
  using nth_as_chunk [of 63 r "[]"] by (simp add: load_empty_def store_empty_def glue)

text \<open>The parts of a record that every cast sees alike.\<close>

lemma casts_agree [simp]:
  "i_component (load_interconnect e r) = load_component e r"
  "d_component (load_device e r) = load_component e r"
  "b_component (load_bridge e r) = load_component e r"
  "c_product (load_component e r) = load_product e r"
  "n_product (load_integration e r) = load_product e r"
  "p_record_type (load_product e r) = r ! 63"
  "r_record_type (load_repo_url r) = r ! 63"
  "s_record_type (load_synthesis e r) = r ! 63"
  "e_record_type (load_empty r) = r ! 63"
  by (simp_all add: load_defs)

end
