(* ===== verification/LibsdbfsGlue.thy ===== *)
theory LibsdbfsGlue
  imports SdbHeader
begin

text \<open>
  The library of src/sdbfs/lib: the \<open>struct sdbfs\<close> of libsdbfs.h and every function of
  glue.c. A pointer to a record is a datatype (null, into the mapped data, or
  to the structure's own \<open>current_record\<close>), so that the aliasing of \<open>currentp\<close> is the code's.
  A function that touches memory returns an option: \<open>None\<close> is an access outside mapped memory,
  the use of an uninitialised value or a call through a null method, none of which the code
  checks for. \<open>unsigned long\<close> and pointers have 64 bits, \<open>int\<close> has 32.

  The driver's methods are parameters of the model: fields of the structure, as in the code,
  acting on the driver's own data.
\<close>

subsection \<open>The file system structure\<close>

record host =
  h_endian :: endian
  h_mem :: mem

datatype devp = NullP | InMem u64 | InCurrent

text \<open>A read method gets the driver's data, an offset and a count; it returns the new driver
  data, the bytes it stored at the start of the buffer and its \<open>int\<close> result, or \<open>None\<close> when it
  faults.\<close>

type_synonym 'd read_method = "'d \<Rightarrow> u32 \<Rightarrow> u32 \<Rightarrow> ('d \<times> u8 list \<times> u32) option"
type_synonym 'd write_method = "'d \<Rightarrow> u32 \<Rightarrow> u8 list \<Rightarrow> u32 \<Rightarrow> 'd \<times> u32"
type_synonym 'd erase_method = "'d \<Rightarrow> u32 \<Rightarrow> u32 \<Rightarrow> 'd \<times> u32"

record 'd sdbfs =
  fs_name :: "u8 list option"
  drvdata :: 'd
  blocksize :: u64
  entrypoint :: u64
  fs_flags :: u64
  fs_data :: u64
  datalen :: u64
  fs_read :: "'d read_method option"
  fs_write :: "'d write_method option"
  fs_erase :: "'d erase_method option"
  currentp :: devp
  current_record :: "u8 list"
  f_len :: u64
  f_offset :: u64
  read_offset :: u64
  fs_next :: u64
  fs_base :: "u64 list"
  fs_this :: "u64 list"
  nleft :: "u32 list"
  fs_depth :: nat

definition SDBFS_DEPTH :: nat where "SDBFS_DEPTH = 4"

definition SDBFS_F_VERBOSE :: u64 where "SDBFS_F_VERBOSE = 0x0001"
definition SDBFS_F_CONVERT32 :: u64 where "SDBFS_F_CONVERT32 = 0x0002"
definition SDBFS_F_ZEROBASED :: u64 where "SDBFS_F_ZEROBASED = 0x0004"

definition has_flag :: "'d sdbfs \<Rightarrow> u64 \<Rightarrow> bool" where
  "has_flag fs f \<longleftrightarrow> fs_flags fs AND f \<noteq> 0"

text \<open>\<open>fs->data || (fs->flags & SDBFS_F_ZEROBASED)\<close>\<close>

definition direct :: "'d sdbfs \<Rightarrow> bool" where
  "direct fs \<longleftrightarrow> fs_data fs \<noteq> 0 \<or> has_flag fs SDBFS_F_ZEROBASED"

text \<open>A null test on a record pointer: a zero-based device has records at address zero, and a
  pointer to one is null.\<close>

definition is_null :: "devp \<Rightarrow> bool" where
  "is_null p \<longleftrightarrow> p = NullP \<or> p = InMem 0"

definition deref :: "host \<Rightarrow> 'd sdbfs \<Rightarrow> devp \<Rightarrow> u8 list option" where
  "deref h fs p = (case p of
     NullP \<Rightarrow> None
   | InMem a \<Rightarrow> load_bytes (h_mem h) a 64
   | InCurrent \<Rightarrow> Some (current_record fs))"

subsection \<open>The list of file systems\<close>

text \<open>The structures live at addresses; \<open>sdbfs_list\<close> and the \<open>next\<close> fields link them,
  0 ends the list.\<close>

record 'd lib =
  lib_heap :: "u64 \<Rightarrow> 'd sdbfs option"
  sdbfs_list :: u64

definition put_fs :: "'d lib \<Rightarrow> u64 \<Rightarrow> 'd sdbfs \<Rightarrow> 'd lib" where
  "put_fs L p fs = L\<lparr>lib_heap := (lib_heap L)(p \<mapsto> fs)\<rparr>"

text \<open>The first word of the storage, by the data pointer or by the read method (a short read
  leaves the local variable uninitialised).\<close>

definition read_magic :: "host \<Rightarrow> 'd sdbfs \<Rightarrow> ('d sdbfs \<times> u32) option" where
  "read_magic h fs =
     (if direct fs then do {
        bs \<leftarrow> load_bytes (h_mem h) (fs_data fs + entrypoint fs) 4;
        Some (fs, host_word (h_endian h) bs) }
      else do {
        rd \<leftarrow> fs_read fs;
        (d, bs, ret) \<leftarrow> rd (drvdata fs) (ulong_to_int (entrypoint fs)) 4;
        if length bs < 4 then None
        else Some (fs\<lparr>drvdata := d\<rparr>, host_word (h_endian h) (take 4 bs)) })"

definition sdbfs_dev_create :: "host \<Rightarrow> 'd lib \<Rightarrow> u64 \<Rightarrow> ('d lib \<times> int) option" where
  "sdbfs_dev_create h L p = do {
     fs \<leftarrow> lib_heap L p;
     (fs1, magic) \<leftarrow> read_magic h fs;
     if magic = SDB_MAGIC then
       (let fs2 = (if ntohl (h_endian h) 1 \<noteq> 1
                   then fs1\<lparr>fs_flags := fs_flags fs1 OR SDBFS_F_CONVERT32\<rparr> else fs1)
        in Some ((put_fs L p (fs2\<lparr>fs_next := sdbfs_list L\<rparr>))\<lparr>sdbfs_list := p\<rparr>, 0))
     else if htonl (h_endian h) magic = SDB_MAGIC then
       Some ((put_fs L p (fs1\<lparr>fs_next := sdbfs_list L\<rparr>))\<lparr>sdbfs_list := p\<rparr>, 0)
     else Some (put_fs L p fs1, - ENOTDIR) }"

text \<open>\<open>struct sdbfs **p\<close>: the address of the list head or of a node's \<open>next\<close> field.\<close>

datatype link = HeadLink | NextLink u64

definition read_link :: "'d lib \<Rightarrow> link \<Rightarrow> u64 option" where
  "read_link L p = (case p of
     HeadLink \<Rightarrow> Some (sdbfs_list L)
   | NextLink q \<Rightarrow> map_option fs_next (lib_heap L q))"

definition write_link :: "'d lib \<Rightarrow> link \<Rightarrow> u64 \<Rightarrow> 'd lib option" where
  "write_link L p v = (case p of
     HeadLink \<Rightarrow> Some (L\<lparr>sdbfs_list := v\<rparr>)
   | NextLink q \<Rightarrow> (case lib_heap L q of
       None \<Rightarrow> None
     | Some fs \<Rightarrow> Some (put_fs L q (fs\<lparr>fs_next := v\<rparr>))))"

partial_function (option) find_link :: "'d lib \<Rightarrow> u64 \<Rightarrow> link \<Rightarrow> link option" where
  "find_link L fs p =
     (case read_link L p of
        None \<Rightarrow> None
      | Some q \<Rightarrow> if q = 0 \<or> q = fs then Some p else find_link L fs (NextLink q))"

definition sdbfs_dev_destroy :: "'d lib \<Rightarrow> u64 \<Rightarrow> ('d lib \<times> int) option" where
  "sdbfs_dev_destroy L fs = do {
     p \<leftarrow> find_link L fs HeadLink;
     q \<leftarrow> read_link L p;
     if q = 0 then Some (L, - ENOENT)
     else do {
       f \<leftarrow> lib_heap L fs;
       L' \<leftarrow> write_link L p (fs_next f);
       Some (L', 0) } }"

partial_function (option) dev_find_loop :: "'d lib \<Rightarrow> u8 list \<Rightarrow> u64 \<Rightarrow> u64 option" where
  "dev_find_loop L name l =
     (if l = 0 then Some 0
      else (case lib_heap L l of
        None \<Rightarrow> None
      | Some fs \<Rightarrow> (case fs_name fs of
          None \<Rightarrow> None
        | Some n \<Rightarrow> if n = name then Some l else dev_find_loop L name (fs_next fs))))"

definition sdbfs_dev_find :: "'d lib \<Rightarrow> u8 list \<Rightarrow> u64 option" where
  "sdbfs_dev_find L name = dev_find_loop L name (sdbfs_list L)"

lemma destroy_first:
  assumes "sdbfs_list L = a" and "a \<noteq> 0" and "lib_heap L a = Some f"
  shows "sdbfs_dev_destroy L a = Some (L\<lparr>sdbfs_list := fs_next f\<rparr>, 0)"
proof -
  have "find_link L a HeadLink = Some HeadLink"
    using assms(1) by (subst find_link.simps) (simp add: read_link_def)
  then show ?thesis using assms by (simp add: sdbfs_dev_destroy_def read_link_def write_link_def)
qed

subsection \<open>Reading one record\<close>

definition convert32 :: "endian \<Rightarrow> u8 list \<Rightarrow> u8 list" where
  "convert32 e r =
     concat (map (\<lambda>i. host_bytes e 4 (ntohl e (host_word e (chunk (4 * i) 4 r)))) [0..<16])"

definition sdbfs_readentry :: "host \<Rightarrow> 'd sdbfs \<Rightarrow> u64 \<Rightarrow> ('d sdbfs \<times> devp) option" where
  "sdbfs_readentry h fs offset =
     (let convert = (\<lambda>f. if has_flag f SDBFS_F_CONVERT32
                         then f\<lparr>current_record := convert32 (h_endian h) (current_record f)\<rparr>
                         else f)
      in if direct fs then
           if \<not> has_flag fs SDBFS_F_CONVERT32 then Some (fs, InMem (fs_data fs + offset))
           else do {
             bs \<leftarrow> load_bytes (h_mem h) (fs_data fs + offset) 64;
             Some (convert (fs\<lparr>current_record := bs\<rparr>), InCurrent) }
         else (case fs_read fs of
             None \<Rightarrow> Some (fs, NullP)
           | Some rd \<Rightarrow> do {
               (d, bs, ret) \<leftarrow> rd (drvdata fs) (ulong_to_int offset) 64;
               Some (convert (fs\<lparr>drvdata := d, current_record := overlay bs (current_record fs)\<rparr>),
                     InCurrent) }))"

subsection \<open>Scanning\<close>

definition is_intercon :: "endian \<Rightarrow> u8 list \<Rightarrow> bool" where
  "is_intercon e r \<longleftrightarrow>
     p_record_type (c_product (d_component (load_device e r))) = sdb_type_interconnect
     \<and> ntohl e (i_sdb_magic (load_interconnect e r)) = SDB_MAGIC"

definition intercon_nleft :: "endian \<Rightarrow> u8 list \<Rightarrow> u32" where
  "intercon_nleft e r = ucast (ntohs e (i_sdb_records (load_interconnect e r))) - 1"

text \<open>\<open>scan_newdir\<close>: the second component is the returned pointer. \<open>currentp\<close> is set even
  when the record turns out not to be an interconnect.\<close>

definition scan_newdir :: "host \<Rightarrow> 'd sdbfs \<Rightarrow> nat \<Rightarrow> ('d sdbfs \<times> devp) option" where
  "scan_newdir h fs depth = do {
     off \<leftarrow> nth_opt (fs_this fs) depth;
     (fs1, dev) \<leftarrow> sdbfs_readentry h fs off;
     let fs2 = fs1\<lparr>currentp := dev\<rparr>;
     r \<leftarrow> deref h fs2 dev;
     if \<not> is_intercon (h_endian h) r then Some (fs2, NullP)
     else Some (fs2\<lparr>nleft := (nleft fs2)[depth := intercon_nleft (h_endian h) r],
                    fs_this := (fs_this fs2)[depth := off + 64],
                    fs_depth := depth\<rparr>, dev) }"

text \<open>The loop that goes back up while a level has no entry left; \<open>None\<close> in the second
  component is the code's return of NULL at the top.\<close>

fun scan_up :: "'d sdbfs \<Rightarrow> nat \<Rightarrow> ('d sdbfs \<times> nat option) option" where
  "scan_up fs depth =
     (case nth_opt (nleft fs) depth of
        None \<Rightarrow> None
      | Some n \<Rightarrow>
          if n \<noteq> 0 then Some (fs, Some depth)
          else (case depth of
             0 \<Rightarrow> Some (fs, None)
           | Suc d \<Rightarrow> scan_up (fs\<lparr>fs_depth := d\<rparr>) d))"

definition first_of :: "endian \<Rightarrow> u8 list \<Rightarrow> u64" where
  "first_of e r = htonll e (c_addr_first (d_component (load_device e r)))"

definition last_of :: "endian \<Rightarrow> u8 list \<Rightarrow> u64" where
  "last_of e r = htonll e (c_addr_last (d_component (load_device e r)))"

definition scan_out :: "host \<Rightarrow> 'd sdbfs \<Rightarrow> devp \<Rightarrow> ('d sdbfs \<times> devp) option" where
  "scan_out h fs dev = do {
     r \<leftarrow> deref h fs (currentp fs);
     b \<leftarrow> nth_opt (fs_base fs) (fs_depth fs);
     Some (fs\<lparr>f_offset := b + first_of (h_endian h) r\<rparr>, dev) }"

definition scan_entries :: "host \<Rightarrow> 'd sdbfs \<Rightarrow> nat \<Rightarrow> ('d sdbfs \<times> devp) option" where
  "scan_entries h fs depth = do {
     (fs1, d) \<leftarrow> scan_up fs depth;
     (case d of
        None \<Rightarrow> Some (fs1, NullP)
      | Some d \<Rightarrow> do {
          off \<leftarrow> nth_opt (fs_this fs1) d;
          (fs2, dev) \<leftarrow> sdbfs_readentry h fs1 off;
          scan_out h (fs2\<lparr>currentp := dev,
                          fs_this := (fs_this fs2)[d := fs_this fs2 ! d + 64],
                          nleft := (nleft fs2)[d := nleft fs2 ! d - 1]\<rparr>) dev }) }"

definition scan_label :: "host \<Rightarrow> 'd sdbfs \<Rightarrow> nat \<Rightarrow> bool \<Rightarrow> ('d sdbfs \<times> devp) option" where
  "scan_label h fs depth newdir =
     (if newdir then do {
        (fs1, dev) \<leftarrow> scan_newdir h fs depth;
        if \<not> is_null dev then scan_out h fs1 dev
        else if depth = 0 then Some (fs1, NullP)
        else scan_entries h fs1 (depth - 1) }
      else scan_entries h fs depth)"

definition sdbfs_scan :: "host \<Rightarrow> 'd sdbfs \<Rightarrow> bool \<Rightarrow> ('d sdbfs \<times> devp) option" where
  "sdbfs_scan h fs newscan =
     (if newscan then
        scan_label h (fs\<lparr>fs_base := (fs_base fs)[0 := 0],
                         fs_this := (fs_this fs)[0 := entrypoint fs],
                         fs_depth := 0\<rparr>) 0 True
      else do {
        let depth = fs_depth fs;
        r \<leftarrow> deref h fs (currentp fs);
        if p_record_type (c_product (d_component (load_device (h_endian h) r))) = sdb_type_bridge
           \<and> depth + 1 < SDBFS_DEPTH then do {
          let b = load_bridge (h_endian h) r;
          bs \<leftarrow> nth_opt (fs_base fs) depth;
          scan_label h
            (fs\<lparr>fs_this := (fs_this fs)[depth + 1 := bs + ntohll (h_endian h) (b_sdb_child b)],
                fs_base := (fs_base fs)[depth + 1 :=
                   bs + ntohll (h_endian h) (c_addr_first (b_component b))]\<rparr>)
            (depth + 1) True }
        else scan_label h fs depth False })"

subsection \<open>Opening and finding\<close>

definition open_current :: "host \<Rightarrow> 'd sdbfs \<Rightarrow> 'd sdbfs option" where
  \<comment> \<open>the static function \<open>__open\<close>\<close>
  "open_current h fs = do {
     r \<leftarrow> deref h fs (currentp fs);
     b \<leftarrow> nth_opt (fs_base fs) (fs_depth fs);
     let e = h_endian h;
     Some (fs\<lparr>f_offset := b + first_of e r,
              f_len := last_of e r + 1 - first_of e r,
              read_offset := 0\<rparr>) }"

text \<open>\<open>strncmp(a, b, n) == 0\<close>; a string's list ends where its terminator would be.\<close>

definition c_head :: "u8 list \<Rightarrow> u8" where
  "c_head s = (case s of [] \<Rightarrow> 0 | c # _ \<Rightarrow> c)"

fun strncmp_eq :: "u8 list \<Rightarrow> u8 list \<Rightarrow> nat \<Rightarrow> bool" where
  "strncmp_eq a b 0 = True"
| "strncmp_eq a b (Suc n) =
     (c_head a = c_head b \<and> (c_head a = 0 \<or> strncmp_eq (tl a) (tl b) n))"

definition name_matches :: "endian \<Rightarrow> u8 list \<Rightarrow> u8 list \<Rightarrow> bool" where
  \<comment> \<open>neither of the two \<open>continue\<close>s of the loop of \<open>sdbfs_open_name\<close>\<close>
  "name_matches e name r =
     (let pn = p_name (c_product (d_component (load_device e r))); len = length name
      in strncmp_eq name pn len \<and> \<not> (len < 19 \<and> pn ! len \<noteq> 0x20))"

definition id_matches :: "endian \<Rightarrow> u64 \<Rightarrow> u32 \<Rightarrow> u8 list \<Rightarrow> bool" where
  "id_matches e vid did r =
     (let p = c_product (d_component (load_device e r))
      in vid = p_vendor_id p \<and> did = p_device_id p)"

text \<open>The loop both open functions share, over the test that decides.\<close>

partial_function (option) open_loop ::
    "host \<Rightarrow> (u8 list \<Rightarrow> bool) \<Rightarrow> 'd sdbfs \<Rightarrow> ('d sdbfs \<times> int) option" where
  "open_loop h matches fs =
     Option.bind (sdbfs_scan h fs False) (\<lambda>(fs1, d).
       if is_null d then Some (fs1, - ENOENT)
       else Option.bind (deref h fs1 d) (\<lambda>r.
         if matches r then
           Option.bind (open_current h (fs1\<lparr>currentp := d\<rparr>)) (\<lambda>fs2. Some (fs2, 0))
         else open_loop h matches fs1))"

definition sdbfs_open_name :: "host \<Rightarrow> 'd sdbfs \<Rightarrow> u8 list \<Rightarrow> ('d sdbfs \<times> int) option" where
  "sdbfs_open_name h fs name =
     (if 19 < length name then Some (fs, - ENOENT)
      else do {
        (fs1, ignored) \<leftarrow> sdbfs_scan h fs True;
        open_loop h (name_matches (h_endian h) name) fs1 })"

definition sdbfs_open_id :: "host \<Rightarrow> 'd sdbfs \<Rightarrow> u64 \<Rightarrow> u32 \<Rightarrow> ('d sdbfs \<times> int) option" where
  "sdbfs_open_id h fs vid did = do {
     (fs1, ignored) \<leftarrow> sdbfs_scan h fs True;
     open_loop h (id_matches (h_endian h) vid did) fs1 }"

definition sdbfs_close :: "'d sdbfs \<Rightarrow> 'd sdbfs \<times> int" where
  "sdbfs_close fs = (fs\<lparr>currentp := NullP\<rparr>, 0)"

definition sdbfs_find_name :: "host \<Rightarrow> 'd sdbfs \<Rightarrow> u8 list \<Rightarrow> ('d sdbfs \<times> u64) option" where
  "sdbfs_find_name h fs name = do {
     (fs1, ret) \<leftarrow> sdbfs_open_name h fs name;
     if ret < 0 then Some (fs1, word_of_int ret)
     else (let offset = f_offset fs1 in Some (fst (sdbfs_close fs1), offset)) }"

definition sdbfs_find_id :: "host \<Rightarrow> 'd sdbfs \<Rightarrow> u64 \<Rightarrow> u32 \<Rightarrow> ('d sdbfs \<times> u64) option" where
  "sdbfs_find_id h fs vid did = do {
     (fs1, ret) \<leftarrow> sdbfs_open_id h fs vid did;
     if ret < 0 then Some (fs1, word_of_int ret)
     else (let offset = f_offset fs1 in Some (fst (sdbfs_close fs1), offset)) }"

end
