(* ===== verification/LibsdbfsScan.thy ===== *)
theory LibsdbfsScan
  imports LibsdbfsGlue
begin

text \<open>
  What a scan of src/sdbfs/lib/glue.c promises. The abstract specification \<open>listing\<close> is a
  recursive pre-order walk of the tree of directories: each record, a bridge followed by the
  contents of its directory, down to \<^const>\<open>SDBFS_DEPTH\<close> levels. The library does this walk with
  four arrays and one call per record; the refinement lemmas show that the calls return exactly
  the records of the walk, in its order, and then NULL.
\<close>

subsection \<open>The walk\<close>

text \<open>An item: the 64 bytes of a record, the absolute offset of what it describes, its depth.\<close>

type_synonym item = "u8 list \<times> u64 \<times> nat"

definition child_of :: "endian \<Rightarrow> u8 list \<Rightarrow> u64" where
  "child_of e r = ntohll e (b_sdb_child (load_bridge e r))"

definition records_of :: "endian \<Rightarrow> u8 list \<Rightarrow> nat" where
  "records_of e r = unat (intercon_nleft e r)"

definition enters :: "nat \<Rightarrow> u8 list \<Rightarrow> bool" where
  "enters d r \<longleftrightarrow> r ! 63 = sdb_type_bridge \<and> d + 1 < SDBFS_DEPTH"

function walk ::
    "endian \<Rightarrow> (u64 \<Rightarrow> u8 list option) \<Rightarrow> nat \<Rightarrow> u64 \<Rightarrow> u64 \<Rightarrow> nat \<Rightarrow> item list option" where
  "walk e ent d b off 0 = Some []"
| "walk e ent d b off (Suc n) = do {
     r \<leftarrow> ent off;
     sub \<leftarrow> (if enters d r then do {
               ic \<leftarrow> ent (b + child_of e r);
               if is_intercon e ic then do {
                 xs \<leftarrow> walk e ent (d + 1) (b + first_of e r) (b + child_of e r + 64) (records_of e ic);
                 Some ((ic, b + first_of e r + first_of e ic, d + 1) # xs) }
               else Some [] }
             else Some []);
     rest \<leftarrow> walk e ent d b (off + 64) n;
     Some ((r, b + first_of e r, d) # sub @ rest) }"
  by pat_completeness auto
termination
  by (relation "measures [\<lambda>(e, ent, d, b, off, n). SDBFS_DEPTH - d, \<lambda>(e, ent, d, b, off, n). n]")
    (auto simp: enters_def)

definition listing :: "endian \<Rightarrow> (u64 \<Rightarrow> u8 list option) \<Rightarrow> u64 \<Rightarrow> item list option" where
  "listing e ent off = do {
     ic \<leftarrow> ent off;
     if is_intercon e ic then do {
       xs \<leftarrow> walk e ent 0 0 (off + 64) (records_of e ic);
       Some ((ic, first_of e ic, 0) # xs) }
     else Some [] }"

text \<open>What is below a record: nothing, or the directory a bridge leads to.\<close>

definition sub_items ::
    "endian \<Rightarrow> (u64 \<Rightarrow> u8 list option) \<Rightarrow> nat \<Rightarrow> u64 \<Rightarrow> u8 list \<Rightarrow> item list option" where
  "sub_items e ent d b r =
     (if enters d r then do {
        ic \<leftarrow> ent (b + child_of e r);
        if is_intercon e ic then do {
          xs \<leftarrow> walk e ent (d + 1) (b + first_of e r) (b + child_of e r + 64) (records_of e ic);
          Some ((ic, b + first_of e r + first_of e ic, d + 1) # xs) }
        else Some [] }
      else Some [])"

lemma walk_Suc: "walk e ent d b off (Suc n) = do {
     r \<leftarrow> ent off;
     sub \<leftarrow> sub_items e ent d b r;
     rest \<leftarrow> walk e ent d b (off + 64) n;
     Some ((r, b + first_of e r, d) # sub @ rest) }"
  by (simp add: sub_items_def)

declare walk.simps(2) [simp del]

subsection \<open>What the library reads at an offset\<close>

text \<open>
  The record the library gets at an offset, as a function of the fields that say where the data
  is. For a device read through its method, it is defined where the method stores the whole
  record and keeps the driver's data as it was.
\<close>

definition entry :: "host \<Rightarrow> 'd sdbfs \<Rightarrow> u64 \<Rightarrow> u8 list option" where
  "entry h fs off =
     (let conv = (if has_flag fs SDBFS_F_CONVERT32 then convert32 (h_endian h) else id)
      in if direct fs then
           (if \<not> has_flag fs SDBFS_F_CONVERT32 \<and> fs_data fs + off = 0 then None
            else map_option conv (load_bytes (h_mem h) (fs_data fs + off) 64))
         else (case fs_read fs of
             None \<Rightarrow> None
           | Some rd \<Rightarrow> do {
               (d, bs, ret) \<leftarrow> rd (drvdata fs) (ulong_to_int off) 64;
               if d = drvdata fs \<and> length bs = 64 then Some (conv bs) else None }))"

text \<open>Two states of one device, as far as its data is concerned.\<close>

definition same_source :: "'d sdbfs \<Rightarrow> 'd sdbfs \<Rightarrow> bool" where
  "same_source fs g \<longleftrightarrow> fs_data g = fs_data fs \<and> fs_flags g = fs_flags fs \<and> fs_read g = fs_read fs
     \<and> drvdata g = drvdata fs \<and> entrypoint g = entrypoint fs"

definition scan_ok :: "'d sdbfs \<Rightarrow> bool" where
  "scan_ok fs \<longleftrightarrow> length (fs_base fs) = SDBFS_DEPTH \<and> length (fs_this fs) = SDBFS_DEPTH
     \<and> length (nleft fs) = SDBFS_DEPTH \<and> fs_depth fs < SDBFS_DEPTH
     \<and> length (current_record fs) = 64"

lemma entry_cong: "same_source fs g \<Longrightarrow> entry h g = entry h fs"
  by (rule ext) (simp add: entry_def same_source_def direct_def has_flag_def split: option.split)

lemma same_source_refl [simp]: "same_source fs fs"
  by (simp add: same_source_def)

lemma same_source_trans: "same_source f g \<Longrightarrow> same_source g k \<Longrightarrow> same_source f k"
  by (simp add: same_source_def)

lemma length_convert32 [simp]: "length (convert32 e r) = 64"
proof -
  have "length (concat (map f xs)) = 4 * length xs" if "\<And>i. length (f i) = 4"
    for f :: "nat \<Rightarrow> u8 list" and xs
    by (induction xs) (auto simp: that)
  then show ?thesis by (simp add: convert32_def)
qed

lemma readentry_entry:
  assumes "entry h fs off = Some r" and "scan_ok fs"
  obtains cr p where "sdbfs_readentry h fs off = Some (fs\<lparr>current_record := cr\<rparr>, p)"
    and "length cr = 64" and "\<not> is_null p" and "\<And>g. current_record g = cr \<Longrightarrow> deref h g p = Some r"
proof (cases "direct fs")
  case True
  then show ?thesis
  proof (cases "has_flag fs SDBFS_F_CONVERT32")
    case conv: True
    from assms True conv obtain bs where
      bs: "load_bytes (h_mem h) (fs_data fs + off) 64 = Some bs" and r: "r = convert32 (h_endian h) bs"
      by (auto simp: entry_def)
    show ?thesis
    proof (rule that)
      show "sdbfs_readentry h fs off = Some (fs\<lparr>current_record := r\<rparr>, InCurrent)"
        using True conv bs r by (simp add: sdbfs_readentry_def has_flag_def)
    qed (use r in \<open>auto simp: is_null_def deref_def\<close>)
  next
    case raw: False
    from assms True raw have l: "load_bytes (h_mem h) (fs_data fs + off) 64 = Some r"
      and nz: "fs_data fs + off \<noteq> 0"
      by (auto simp: entry_def split: if_splits)
    show ?thesis
    proof (rule that)
      show "sdbfs_readentry h fs off
          = Some (fs\<lparr>current_record := current_record fs\<rparr>, InMem (fs_data fs + off))"
        using True raw by (simp add: sdbfs_readentry_def)
      show "length (current_record fs) = 64" using assms(2) by (simp add: scan_ok_def)
    qed (use l nz in \<open>auto simp: is_null_def deref_def\<close>)
  qed
next
  case False
  with assms obtain rd bs ret where rd: "fs_read fs = Some rd"
    and run: "rd (drvdata fs) (ulong_to_int off) 64 = Some (drvdata fs, bs, ret)" and "length bs = 64"
    and r: "r = (if has_flag fs SDBFS_F_CONVERT32 then convert32 (h_endian h) bs else bs)"
    by (auto simp: entry_def bind_eq_Some_conv split: option.splits if_splits)
  moreover from this assms(2) have "overlay bs (current_record fs) = bs"
    by (simp add: overlay_full scan_ok_def)
  ultimately have read: "sdbfs_readentry h fs off = Some (fs\<lparr>current_record := r\<rparr>, InCurrent)"
    using False by (simp add: sdbfs_readentry_def has_flag_def)
  show ?thesis
    by (rule that [OF read]) (use r \<open>length bs = 64\<close> in \<open>auto simp: is_null_def deref_def\<close>)
qed

subsection \<open>What is left to return\<close>

definition level_items ::
    "endian \<Rightarrow> (u64 \<Rightarrow> u8 list option) \<Rightarrow> 'd sdbfs \<Rightarrow> nat \<Rightarrow> item list option" where
  "level_items e ent fs d = walk e ent d (fs_base fs ! d) (fs_this fs ! d) (unat (nleft fs ! d))"

fun rest_items ::
    "endian \<Rightarrow> (u64 \<Rightarrow> u8 list option) \<Rightarrow> 'd sdbfs \<Rightarrow> nat \<Rightarrow> item list option" where
  "rest_items e ent fs 0 = level_items e ent fs 0"
| "rest_items e ent fs (Suc d) = do {
     xs \<leftarrow> level_items e ent fs (Suc d);
     ys \<leftarrow> rest_items e ent fs d;
     Some (xs @ ys) }"

definition pending ::
    "endian \<Rightarrow> (u64 \<Rightarrow> u8 list option) \<Rightarrow> 'd sdbfs \<Rightarrow> u8 list \<Rightarrow> item list option" where
  "pending e ent fs r = do {
     sub \<leftarrow> sub_items e ent (fs_depth fs) (fs_base fs ! fs_depth fs) r;
     rest \<leftarrow> rest_items e ent fs (fs_depth fs);
     Some (sub @ rest) }"

lemma rest_items_cong:
  "(\<And>i. i \<le> d \<Longrightarrow> fs_base g ! i = fs_base fs ! i \<and> fs_this g ! i = fs_this fs ! i
      \<and> nleft g ! i = nleft fs ! i) \<Longrightarrow> rest_items e ent g d = rest_items e ent fs d"
  by (induction d) (simp_all add: level_items_def)

text \<open>The result of a call that returns the first of \<open>items\<close>, or NULL when there is none.\<close>

definition yields :: "host \<Rightarrow> 'd sdbfs \<Rightarrow> ('d sdbfs \<times> devp) option \<Rightarrow> item list \<Rightarrow> bool" where
  "yields h fs res items \<longleftrightarrow> (case items of
     [] \<Rightarrow> (\<exists>g. res = Some (g, NullP))
   | (r, off, d) # xs \<Rightarrow> (\<exists>g p. res = Some (g, p) \<and> \<not> is_null p \<and> currentp g = p
       \<and> deref h g p = Some r \<and> f_offset g = off \<and> fs_depth g = d \<and> scan_ok g
       \<and> fs_base g ! d + first_of (h_endian h) r = off
       \<and> same_source fs g \<and> pending (h_endian h) (entry h fs) g r = Some xs))"

lemma unat_minus_1: "w \<noteq> 0 \<Longrightarrow> unat w = Suc (unat (w - 1))"
  by (metis Suc_pred' unat_gt_0 unat_minus_one)

lemma scan_up_skip:
  "depth < length (nleft fs) \<Longrightarrow> scan_up fs depth =
     (if nleft fs ! depth \<noteq> 0 then Some (fs, Some depth)
      else case depth of 0 \<Rightarrow> Some (fs, None) | Suc d \<Rightarrow> scan_up (fs\<lparr>fs_depth := d\<rparr>) d)"
  by (subst scan_up.simps) simp

declare scan_up.simps [simp del]

definition below_items ::
    "endian \<Rightarrow> (u64 \<Rightarrow> u8 list option) \<Rightarrow> 'd sdbfs \<Rightarrow> nat \<Rightarrow> item list option" where
  "below_items e ent fs d = (case d of 0 \<Rightarrow> Some [] | Suc k \<Rightarrow> rest_items e ent fs k)"

lemma rest_items_split:
  "rest_items e ent fs d =
     do { xs \<leftarrow> level_items e ent fs d; ys \<leftarrow> below_items e ent fs d; Some (xs @ ys) }"
  by (cases d) (simp_all add: below_items_def)

lemma below_items_cong:
  "(\<And>i. i < d \<Longrightarrow> fs_base g ! i = fs_base fs ! i \<and> fs_this g ! i = fs_this fs ! i
      \<and> nleft g ! i = nleft fs ! i) \<Longrightarrow> below_items e ent g d = below_items e ent fs d"
  by (cases d) (auto simp: below_items_def intro: rest_items_cong)

text \<open>Taking the next entry of the current level.\<close>

lemma scan_entries_take:
  fixes fs :: "'d sdbfs"
  assumes ok: "scan_ok fs" and d: "fs_depth fs = d" and left: "nleft fs ! d \<noteq> 0"
    and items: "rest_items (h_endian h) (entry h fs) fs d = Some items"
  shows "yields h fs (scan_entries h fs d) items"
proof -
  let ?e = "h_endian h" and ?ent = "entry h fs"
  let ?b = "fs_base fs ! d" and ?off = "fs_this fs ! d" and ?n = "unat (nleft fs ! d - 1)"
  have dl: "d < SDBFS_DEPTH" using ok d by (simp add: scan_ok_def)
  have len: "d < length (nleft fs)" "d < length (fs_this fs)" "d < length (fs_base fs)"
    using ok dl by (auto simp: scan_ok_def)
  from items obtain r sub xs ys where r: "?ent ?off = Some r"
    and sub: "sub_items ?e ?ent d ?b r = Some sub"
    and xs: "walk ?e ?ent d ?b (?off + 64) ?n = Some xs"
    and ys: "below_items ?e ?ent fs d = Some ys"
    and eq: "items = (r, ?b + first_of ?e r, d) # sub @ xs @ ys"
    by (auto simp: rest_items_split level_items_def unat_minus_1 [OF left] walk_Suc bind_eq_Some_conv)
  obtain cr p where read: "sdbfs_readentry h fs ?off = Some (fs\<lparr>current_record := cr\<rparr>, p)"
    and cr: "length cr = 64" and p: "\<not> is_null p"
    and deref: "\<And>g :: 'd sdbfs. current_record g = cr \<Longrightarrow> deref h g p = Some r"
    using readentry_entry [OF r ok] by blast
  define g where "g = fs\<lparr>current_record := cr, currentp := p,
      fs_this := (fs_this fs)[d := ?off + 64], nleft := (nleft fs)[d := nleft fs ! d - 1],
      f_offset := ?b + first_of ?e r\<rparr>"
  have "scan_entries h fs d = Some (g, p)"
    using len left read d
    by (simp add: scan_entries_def scan_up_skip scan_out_def g_def deref)
  moreover have "below_items ?e ?ent g d = Some ys"
    using ys below_items_cong [of d g fs ?e ?ent] by (simp add: g_def)
  then have "pending ?e ?ent g r = Some (sub @ xs @ ys)"
    using sub xs len d by (simp add: pending_def rest_items_split level_items_def g_def)
  ultimately show ?thesis
    using ok p cr d deref [of g] eq
    by (simp add: yields_def g_def scan_ok_def same_source_def)
qed

lemma yields_mono: "same_source fs f \<Longrightarrow> yields h f res items \<Longrightarrow> yields h fs res items"
  by (auto simp: yields_def entry_cong dest: same_source_trans split: list.splits)

lemma scan_entries_yields:
  assumes "scan_ok fs" and "fs_depth fs = d"
    and "rest_items (h_endian h) (entry h fs) fs d = Some items"
  shows "yields h fs (scan_entries h fs d) items"
  using assms
proof (induction d arbitrary: fs)
  case 0
  show ?case
  proof (cases "nleft fs ! 0 = 0")
    case True
    with 0 show ?thesis
      by (auto simp: scan_entries_def scan_up_skip scan_ok_def level_items_def yields_def)
  next
    case False
    with 0 show ?thesis by (intro scan_entries_take)
  qed
next
  case (Suc d)
  show ?case
  proof (cases "nleft fs ! Suc d = 0")
    case True
    let ?f = "fs\<lparr>fs_depth := d\<rparr>"
    have f: "same_source fs ?f" "scan_ok ?f" using Suc.prems(1,2) by (simp_all add: same_source_def scan_ok_def)
    have up: "scan_entries h fs (Suc d) = scan_entries h ?f d"
      using True Suc.prems(1,2) by (simp add: scan_entries_def scan_up_skip [of "Suc d"] scan_ok_def)
    have "rest_items (h_endian h) (entry h ?f) ?f d = rest_items (h_endian h) (entry h fs) fs d"
      using entry_cong [OF f(1)] rest_items_cong [of d ?f fs] by simp
    also have "\<dots> = Some items"
      using Suc.prems(3) True by (simp add: level_items_def)
    finally have "yields h ?f (scan_entries h ?f d) items"
      using f(2) by (intro Suc.IH) auto
    then show ?thesis
      unfolding up by (rule yields_mono [OF f(1)])
  next
    case False
    with Suc.prems show ?thesis by (intro scan_entries_take)
  qed
qed

end
