(* ===== verification/LibsdbfsOpen.thy ===== *)
theory LibsdbfsOpen
  imports LibsdbfsScan
begin

text \<open>
  The calls of the library as a whole: \<open>sdbfs_scan\<close> returns the items of \<^const>\<open>listing\<close> one by
  one, and the functions that open or find by name or identifier stop at the first item that
  matches, the top interconnect (which the first scan returns and the code ignores) excepted.
\<close>

subsection \<open>One call of the scan\<close>

lemma intercon_not_entered: "is_intercon e r \<Longrightarrow> \<not> enters d r"
  by (auto simp: is_intercon_def enters_def sdb_type_defs)

lemma scan_label_enter:
  fixes fs :: "'d sdbfs"
  assumes ok: "scan_ok fs" and k: "k < SDBFS_DEPTH"
    and ic: "entry h fs (fs_this fs ! k) = Some ic" "is_intercon (h_endian h) ic"
    and xs: "walk (h_endian h) (entry h fs) k (fs_base fs ! k) (fs_this fs ! k + 64)
               (records_of (h_endian h) ic) = Some xs"
    and ys: "below_items (h_endian h) (entry h fs) fs k = Some ys"
  shows "yields h fs (scan_label h fs k True)
           ((ic, fs_base fs ! k + first_of (h_endian h) ic, k) # xs @ ys)"
proof -
  let ?e = "h_endian h"
  have len: "k < length (nleft fs)" "k < length (fs_this fs)" "k < length (fs_base fs)"
    using ok k by (auto simp: scan_ok_def)
  obtain cr p where read: "sdbfs_readentry h fs (fs_this fs ! k) = Some (fs\<lparr>current_record := cr\<rparr>, p)"
    and cr: "length cr = 64" and p: "\<not> is_null p"
    and deref: "\<And>g :: 'd sdbfs. current_record g = cr \<Longrightarrow> deref h g p = Some ic"
    using readentry_entry [OF ic(1) ok] by blast
  define g where "g = fs\<lparr>current_record := cr, currentp := p,
      nleft := (nleft fs)[k := intercon_nleft ?e ic], fs_this := (fs_this fs)[k := fs_this fs ! k + 64],
      fs_depth := k, f_offset := fs_base fs ! k + first_of ?e ic\<rparr>"
  have "scan_label h fs k True = Some (g, p)"
    using len read p ic(2)
    by (simp add: scan_label_def scan_newdir_def scan_out_def g_def deref Let_def)
  moreover have "below_items ?e (entry h fs) g k = Some ys"
    using ys below_items_cong [of k g fs ?e "entry h fs"] by (simp add: g_def)
  then have "pending ?e (entry h fs) g ic = Some (xs @ ys)"
    using xs len intercon_not_entered [OF ic(2)]
    by (simp add: pending_def rest_items_split level_items_def g_def sub_items_def records_of_def)
  ultimately show ?thesis
    using ok p cr k deref [of g]
    by (simp add: yields_def g_def scan_ok_def same_source_def)
qed

lemma scan_label_skip:
  fixes fs :: "'d sdbfs"
  assumes ok: "scan_ok fs" and k: "k < SDBFS_DEPTH"
    and ic: "entry h fs (fs_this fs ! k) = Some ic" "\<not> is_intercon (h_endian h) ic"
  obtains cr p where "length cr = 64"
    and "scan_label h fs k True =
      (let g = fs\<lparr>current_record := cr, currentp := p\<rparr>
       in if k = 0 then Some (g, NullP) else scan_entries h g (k - 1))"
proof -
  obtain cr p where "sdbfs_readentry h fs (fs_this fs ! k) = Some (fs\<lparr>current_record := cr\<rparr>, p)"
    and "length cr = 64" and "\<not> is_null p"
    and deref: "\<And>g :: 'd sdbfs. current_record g = cr \<Longrightarrow> deref h g p = Some ic"
    using readentry_entry [OF ic(1) ok] by blast
  then show ?thesis
    using ok k ic(2)
    by (intro that [of cr p])
      (auto simp: scan_label_def scan_newdir_def deref Let_def scan_ok_def is_null_def)
qed

lemma scan_first:
  assumes ok: "scan_ok fs"
    and items: "listing (h_endian h) (entry h fs) (entrypoint fs) = Some items"
  shows "yields h fs (sdbfs_scan h fs True) items"
proof -
  let ?f = "fs\<lparr>fs_base := (fs_base fs)[0 := 0], fs_this := (fs_this fs)[0 := entrypoint fs], fs_depth := 0\<rparr>"
  have f: "same_source fs ?f" "scan_ok ?f" "fs_base ?f ! 0 = 0" "fs_this ?f ! 0 = entrypoint fs"
    "fs_this fs \<noteq> []" "fs_base fs \<noteq> []"
    using ok by (auto simp: same_source_def scan_ok_def SDBFS_DEPTH_def)
  note ent = entry_cong [OF f(1)]
  have call: "sdbfs_scan h fs True = scan_label h ?f 0 True" by (simp add: sdbfs_scan_def)
  from items obtain ic where ic: "entry h ?f (fs_this ?f ! 0) = Some ic"
    by (auto simp: listing_def bind_eq_Some_conv ent f(5))
  show ?thesis
  proof (cases "is_intercon (h_endian h) ic")
    case True
    with items ic obtain xs where
      "walk (h_endian h) (entry h ?f) 0 (fs_base ?f ! 0) (fs_this ?f ! 0 + 64)
         (records_of (h_endian h) ic) = Some xs" and "items = (ic, first_of (h_endian h) ic, 0) # xs"
      by (auto simp: listing_def bind_eq_Some_conv ent f(5,6))
    then have "yields h ?f (scan_label h ?f 0 True) items"
      using scan_label_enter [OF f(2) _ ic True, where ys = "[]"] f(5,6)
      by (simp add: below_items_def SDBFS_DEPTH_def)
    then show ?thesis unfolding call by (rule yields_mono [OF f(1)])
  next
    case False
    obtain cr p where "scan_label h ?f 0 True = Some (?f\<lparr>current_record := cr, currentp := p\<rparr>, NullP)"
      using scan_label_skip [OF f(2) _ ic False] by (simp add: SDBFS_DEPTH_def Let_def) blast
    moreover have "items = []"
      using items ic False by (auto simp: listing_def ent f(5))
    ultimately show ?thesis by (simp add: yields_def call)
  qed
qed

lemma scan_next:
  fixes fs :: "'d sdbfs"
  assumes ok: "scan_ok fs" and r: "deref h fs (currentp fs) = Some r"
    and items: "pending (h_endian h) (entry h fs) fs r = Some items"
  shows "yields h fs (sdbfs_scan h fs False) items"
proof -
  let ?e = "h_endian h" and ?d = "fs_depth fs"
  from items obtain sub rest where sub: "sub_items ?e (entry h fs) ?d (fs_base fs ! ?d) r = Some sub"
    and rest: "rest_items ?e (entry h fs) fs ?d = Some rest" and eq: "items = sub @ rest"
    by (auto simp: pending_def bind_eq_Some_conv)
  have b: "nth_opt (fs_base fs) ?d = Some (fs_base fs ! ?d)" using ok by (simp add: scan_ok_def)
  show ?thesis
  proof (cases "enters ?d r")
    case False
    then have "sdbfs_scan h fs False = scan_entries h fs ?d"
      using r by (auto simp: sdbfs_scan_def enters_def scan_label_def Let_def)
    moreover have "items = rest" using sub eq False by (simp add: sub_items_def)
    ultimately show ?thesis using scan_entries_yields [OF ok refl rest] by simp
  next
    case True
    define k where "k = ?d + 1"
    define f where "f = fs\<lparr>fs_this := (fs_this fs)[k := fs_base fs ! ?d + child_of ?e r],
        fs_base := (fs_base fs)[k := fs_base fs ! ?d + first_of ?e r]\<rparr>"
    have k: "k < SDBFS_DEPTH" "k - 1 = ?d" "k \<noteq> 0" "?d < k" using True by (simp_all add: enters_def k_def)
    have call: "sdbfs_scan h fs False = scan_label h f k True"
      using r b True
      by (simp add: sdbfs_scan_def enters_def Let_def child_of_def first_of_def ntohll_def k_def f_def)
    have f: "same_source fs f" "scan_ok f" "fs_base f ! k = fs_base fs ! ?d + first_of ?e r"
      "fs_this f ! k = fs_base fs ! ?d + child_of ?e r" "fs_depth f = ?d"
      using ok k(1) by (auto simp: same_source_def scan_ok_def f_def)
    note ent = entry_cong [OF f(1)]
    have below: "rest_items ?e (entry h fs) f ?d = Some rest"
      using rest rest_items_cong [of ?d f fs ?e "entry h fs"] k(4) by (simp add: f_def)
    have sub': "do { ic \<leftarrow> entry h f (fs_this f ! k);
        if is_intercon ?e ic then do {
          xs \<leftarrow> walk ?e (entry h f) k (fs_base f ! k) (fs_this f ! k + 64) (records_of ?e ic);
          Some ((ic, fs_base f ! k + first_of ?e ic, k) # xs) }
        else Some [] } = Some sub"
      using sub True unfolding ent f(3,4) by (simp only: sub_items_def k_def if_True)
    then obtain ic where ic: "entry h f (fs_this f ! k) = Some ic" by (cases "entry h f (fs_this f ! k)") auto
    show ?thesis
    proof (cases "is_intercon ?e ic")
      case inter: True
      with sub' ic obtain xs where
        "walk ?e (entry h f) k (fs_base f ! k) (fs_this f ! k + 64) (records_of ?e ic) = Some xs"
        and "sub = (ic, fs_base f ! k + first_of ?e ic, k) # xs"
        by (auto simp: bind_eq_Some_conv)
      moreover have "below_items ?e (entry h f) f k = Some rest"
        using below unfolding ent by (simp add: below_items_def k_def)
      ultimately have "yields h f (scan_label h f k True) items"
        using scan_label_enter [OF f(2) k(1) ic inter] unfolding eq by simp
      then show ?thesis unfolding call by (rule yields_mono [OF f(1)])
    next
      case plain: False
      obtain cr p where cr: "length cr = 64"
        and lab: "scan_label h f k True = scan_entries h (f\<lparr>current_record := cr, currentp := p\<rparr>) ?d"
        using scan_label_skip [OF f(2) k(1) ic plain] k(2,3) by (auto simp: Let_def)
      define g where "g = f\<lparr>current_record := cr, currentp := p\<rparr>"
      have g: "same_source fs g" "scan_ok g" "fs_depth g = ?d"
        using f cr by (auto simp: same_source_def scan_ok_def g_def)
      have "sub = []" using sub' ic plain by simp
      have "rest_items ?e (entry h g) g ?d = Some items"
        using below rest_items_cong [of ?d g f ?e "entry h fs"] entry_cong [OF g(1)] \<open>sub = []\<close> eq
        by (simp add: g_def)
      then have "yields h g (scan_entries h g ?d) items" by (rule scan_entries_yields [OF g(2,3)])
      then show ?thesis
        unfolding call lab g_def [symmetric] by (rule yields_mono [OF g(1)])
    qed
  qed
qed

subsection \<open>Opening and finding\<close>

text \<open>The state after an open of the item: the file the access functions work on.\<close>

definition opened :: "host \<Rightarrow> 'd sdbfs \<Rightarrow> item \<Rightarrow> 'd sdbfs \<Rightarrow> bool" where
  "opened h fs it g \<longleftrightarrow> (case it of (r, off, d) \<Rightarrow>
     same_source fs g \<and> deref h g (currentp g) = Some r \<and> \<not> is_null (currentp g) \<and> fs_depth g = d \<and> f_offset g = off
     \<and> f_len g = last_of (h_endian h) r + 1 - first_of (h_endian h) r \<and> read_offset g = 0)"

definition open_result ::
    "host \<Rightarrow> 'd sdbfs \<Rightarrow> item option \<Rightarrow> ('d sdbfs \<times> int) option \<Rightarrow> bool" where
  "open_result h fs found res \<longleftrightarrow> (case found of
     None \<Rightarrow> (\<exists>g. res = Some (g, - ENOENT))
   | Some it \<Rightarrow> (\<exists>g. res = Some (g, 0) \<and> opened h fs it g))"

lemma open_result_mono:
  "same_source fs f \<Longrightarrow> open_result h f found res \<Longrightarrow> open_result h fs found res"
  by (auto simp: open_result_def opened_def dest: same_source_trans split: option.splits prod.splits)

lemma deref_cong: "current_record g = current_record f \<Longrightarrow> deref h g p = deref h f p"
  by (simp add: deref_def split: devp.split)

lemma open_current_opened:
  assumes "scan_ok g" and "deref h g (currentp g) = Some r" and "\<not> is_null (currentp g)"
    and "fs_base g ! fs_depth g + first_of (h_endian h) r = off"
  shows "\<exists>k. open_current h g = Some k \<and> opened h g (r, off, fs_depth g) k"
  using assms
  by (auto simp: open_current_def opened_def scan_ok_def Let_def same_source_def
      intro: deref_cong [THEN trans])

text \<open>The loop stops at the first pending item that matches.\<close>

lemma open_loop_find:
  assumes "scan_ok fs" and "deref h fs (currentp fs) = Some r"
    and "pending (h_endian h) (entry h fs) fs r = Some items"
  shows "open_result h fs (find (\<lambda>it. m (fst it)) items) (open_loop h m fs)"
  using assms
proof (induction items arbitrary: fs r)
  case Nil
  from scan_next [OF Nil] obtain g where "sdbfs_scan h fs False = Some (g, NullP)"
    by (auto simp: yields_def)
  then show ?case by (subst open_loop.simps) (simp add: is_null_def open_result_def)
next
  case (Cons it items)
  obtain r1 off d where it: "it = (r1, off, d)" by (cases it)
  from scan_next [OF Cons.prems] obtain g p where scan: "sdbfs_scan h fs False = Some (g, p)"
    and p: "\<not> is_null p" "currentp g = p" "deref h g p = Some r1"
    and g: "fs_depth g = d" "scan_ok g" "fs_base g ! d + first_of (h_endian h) r1 = off" "same_source fs g"
    and more: "pending (h_endian h) (entry h fs) g r1 = Some items"
    unfolding yields_def it by auto
  show ?case
  proof (cases "m r1")
    case True
    obtain k where "open_current h g = Some k" "opened h g (r1, off, d) k"
      using open_current_opened [OF g(2)] p g by metis
    moreover have same: "g\<lparr>currentp := p\<rparr> = g" using p(2) by simp
    ultimately have "open_result h g (Some it) (open_loop h m fs)"
      using scan p(1,3) True by (subst open_loop.simps) (simp add: same open_result_def it)
    then show ?thesis using True g(4) by (auto simp: it intro: open_result_mono)
  next
    case False
    then have "open_loop h m fs = open_loop h m g"
      using scan p by (subst open_loop.simps) simp
    moreover have "open_result h g (find (\<lambda>it. m (fst it)) items) (open_loop h m g)"
      using Cons.IH [OF g(2)] p more entry_cong [OF g(4)] by auto
    ultimately show ?thesis using False g(4) by (auto simp: it intro: open_result_mono)
  qed
qed

text \<open>A whole open: the scan from the start, its first item dropped, and the loop.\<close>

lemma open_from_start:
  assumes ok: "scan_ok fs"
    and items: "listing (h_endian h) (entry h fs) (entrypoint fs) = Some (it # items)"
  shows "open_result h fs (find (\<lambda>it. m (fst it)) items)
           (do { (fs1, ignored) \<leftarrow> sdbfs_scan h fs True; open_loop h m fs1 })"
proof -
  obtain r off d where it: "it = (r, off, d)" by (cases it)
  from scan_first [OF ok items] obtain g p where "sdbfs_scan h fs True = Some (g, p)"
    and p: "currentp g = p" "deref h g p = Some r"
    and g: "scan_ok g" "same_source fs g"
    and more: "pending (h_endian h) (entry h fs) g r = Some items"
    unfolding yields_def it by auto
  moreover have "open_result h g (find (\<lambda>it. m (fst it)) items) (open_loop h m g)"
    using open_loop_find [OF g(1)] p more entry_cong [OF g(2)] by auto
  ultimately show ?thesis by (auto intro: open_result_mono)
qed

end
