(* ===== verification/LibsdbfsAccess.thy ===== *)
theory LibsdbfsAccess
  imports LibsdbfsGlue
begin

text \<open>
  src/sdbfs/lib/access.c: \<open>sdbfs_fstat\<close>, \<open>sdbfs_fread\<close> and \<open>sdbfs_fwrite\<close> on an opened
  file. The caller's buffer is a byte list, passed in and returned. \<open>None\<close> is undefined
  behaviour the code does not guard against: a signed overflow, a copy past the buffer or from
  unmapped memory, a null method. Results are C \<open>int\<close>s.
\<close>

text \<open>Signed 32-bit addition, undefined on overflow.\<close>

definition sadd :: "u32 \<Rightarrow> u32 \<Rightarrow> u32 option" where
  "sadd a b = (let s = sint a + sint b in
     if - (2 ^ 31) \<le> s \<and> s < 2 ^ 31 then Some (a + b) else None)"

definition sdbfs_fstat :: "host \<Rightarrow> 'd sdbfs \<Rightarrow> (u8 list \<times> int) option" where
  "sdbfs_fstat h fs =
     (if is_null (currentp fs) then Some ([], - ENOENT)
      else do { r \<leftarrow> deref h fs (currentp fs); Some (r, 0) })"

text \<open>The part the two functions share: where to start and how much to move.\<close>

definition access_range :: "'d sdbfs \<Rightarrow> u32 \<Rightarrow> u32 \<Rightarrow> (u32 \<times> u32) option" where
  "access_range fs offset count = do {
     let offset = (if sint offset < 0 then ulong_to_int (read_offset fs) else offset);
     end \<leftarrow> sadd offset count;
     let count = (if f_len fs < int_to_ulong end
                  then ulong_to_int (f_len fs - int_to_ulong offset) else count);
     Some (offset, count) }"

text \<open>\<open>memcpy(buf, src, count)\<close> with an \<open>int\<close> count: a negative one is a huge size.\<close>

definition memcpy_in :: "mem \<Rightarrow> u64 \<Rightarrow> u8 list \<Rightarrow> u32 \<Rightarrow> u8 list option" where
  "memcpy_in m src buf count =
     (let n = unat (int_to_ulong count) in
      if length buf < n then None
      else do { bs \<leftarrow> load_bytes m src n; Some (put 0 bs buf) })"

definition advance :: "'d sdbfs \<Rightarrow> u32 \<Rightarrow> u32 \<Rightarrow> 'd sdbfs option" where
  "advance fs offset ret =
     (if 0 < sint ret then do {
        pos \<leftarrow> sadd offset ret;
        Some (fs\<lparr>read_offset := int_to_ulong pos\<rparr>) }
      else Some fs)"

definition sdbfs_fread ::
    "host \<Rightarrow> 'd sdbfs \<Rightarrow> u32 \<Rightarrow> u8 list \<Rightarrow> u32 \<Rightarrow> ('d sdbfs \<times> u8 list \<times> int) option" where
  "sdbfs_fread h fs offset buf count =
     (if is_null (currentp fs) then Some (fs, buf, - ENOENT)
      else do {
        (offset, count) \<leftarrow> access_range fs offset count;
        if fs_data fs \<noteq> 0 then do {
          buf' \<leftarrow> memcpy_in (h_mem h) (fs_data fs + f_offset fs + int_to_ulong offset) buf count;
          fs' \<leftarrow> advance fs offset count;
          Some (fs', buf', sint count) }
        else do {
          rd \<leftarrow> fs_read fs;
          (d, bs, ret) \<leftarrow> rd (drvdata fs) (ulong_to_int (f_offset fs + int_to_ulong offset)) count;
          fs' \<leftarrow> advance (fs\<lparr>drvdata := d\<rparr>) offset ret;
          Some (fs', overlay bs buf, sint ret) } })"

text \<open>\<open>sdbfs_fwrite\<close>: with a data pointer it copies \<open>from\<close> the data into the caller's buffer,
  as \<open>sdbfs_fread\<close> does.\<close>

definition sdbfs_fwrite ::
    "host \<Rightarrow> 'd sdbfs \<Rightarrow> u32 \<Rightarrow> u8 list \<Rightarrow> u32 \<Rightarrow> ('d sdbfs \<times> u8 list \<times> int) option" where
  "sdbfs_fwrite h fs offset buf count =
     (if is_null (currentp fs) then Some (fs, buf, - ENOENT)
      else do {
        (offset, count) \<leftarrow> access_range fs offset count;
        if fs_data fs \<noteq> 0 then do {
          buf' \<leftarrow> memcpy_in (h_mem h) (fs_data fs + f_offset fs + int_to_ulong offset) buf count;
          fs' \<leftarrow> advance fs offset count;
          Some (fs', buf', sint count) }
        else do {
          wr \<leftarrow> fs_write fs;
          (case wr (drvdata fs) (ulong_to_int (f_offset fs + int_to_ulong offset)) buf count of
             (d, ret) \<Rightarrow> do {
               fs' \<leftarrow> advance (fs\<lparr>drvdata := d\<rparr>) offset ret;
               Some (fs', buf, sint ret) }) } })"

text \<open>
  A file that is open on mapped data: its extent lies in an image, within the range of \<open>int\<close>.
\<close>

definition file_open :: "u8 list \<Rightarrow> host \<Rightarrow> 'd sdbfs \<Rightarrow> bool" where
  "file_open img h fs \<longleftrightarrow>
     \<not> is_null (currentp fs) \<and> fs_data fs \<noteq> 0 \<and> h_mem h = image_at (fs_data fs) img
     \<and> length img \<le> 2 ^ 64 \<and> unat (f_offset fs) + unat (f_len fs) \<le> length img
     \<and> unat (f_len fs) < 2 ^ 30 \<and> read_offset fs \<le> f_len fs"

definition file_bytes :: "u8 list \<Rightarrow> 'd sdbfs \<Rightarrow> u8 list" where
  "file_bytes img fs = chunk (unat (f_offset fs)) (unat (f_len fs)) img"

lemma sadd_small:
  assumes "unat a + unat b < 2 ^ 31"
  shows "sadd a b = Some (a + b)" and "unat (a + b) = unat a + unat b"
proof -
  have "unat a < 2 ^ 31" "unat b < 2 ^ 31" using assms by simp_all
  then have "sint a = int (unat a)" "sint b = int (unat b)" by (simp_all only: sint_small)
  moreover have "int (unat a + unat b) < int (2 ^ 31)"
    using assms by (rule iffD2 [OF of_nat_less_iff])
  moreover have "0 \<le> uint a + uint b" by (intro add_nonneg_nonneg) simp_all
  then have "- 2147483648 \<le> uint a + uint b" by linarith
  ultimately show "sadd a b = Some (a + b)" by (simp add: sadd_def)
  have "unat a + unat b < 2 ^ LENGTH(32)" using assms by simp
  then show "unat (a + b) = unat a + unat b" by (simp only: unat_add_lem)
qed

text \<open>The offset a call works from: the explicit one, or the current position.\<close>

definition start_at :: "'d sdbfs \<Rightarrow> u32 \<Rightarrow> nat \<Rightarrow> bool" where
  "start_at fs offset off \<longleftrightarrow> off \<le> unat (f_len fs)
     \<and> (if sint offset < 0 then off = unat (read_offset fs) else off = unat offset)"

lemma access_range_ok:
  assumes len: "unat (f_len fs) < 2 ^ 30" and start: "start_at fs offset off"
    and count: "unat count < 2 ^ 30"
  obtains b c where "access_range fs offset count = Some (b, c)" and "unat b = off"
    and "unat c = min (unat count) (unat (f_len fs) - off)"
proof -
  define b where "b = (if sint offset < 0 then ulong_to_int (read_offset fs) else offset)"
  define c where "c = (if f_len fs < int_to_ulong (b + count)
      then ulong_to_int (f_len fs - int_to_ulong b) else count)"
  have off: "off < 2 ^ 30" "off \<le> unat (f_len fs)" using start len by (auto simp: start_at_def)
  have b: "unat b = off"
    using start len by (auto simp: b_def start_at_def unat_ulong_to_int)
  have sum: "sadd b count = Some (b + count)" "unat (b + count) = off + unat count"
    using sadd_small [of b count] b off count by auto
  have fin: "unat (int_to_ulong (b + count)) = off + unat count"
    using sum off count by (simp add: unat_int_to_ulong)
  have ob: "unat (int_to_ulong b) = off" using b off by (simp add: unat_int_to_ulong)
  then have "int_to_ulong b \<le> f_len fs" using off by (simp add: word_le_nat_alt)
  then have diff: "unat (f_len fs - int_to_ulong b) = unat (f_len fs) - off"
    using ob by (simp add: unat_sub)
  have c: "unat c = min (unat count) (unat (f_len fs) - off)"
    using fin diff len off by (auto simp: c_def word_less_nat_alt unat_ulong_to_int)
  have "access_range fs offset count = Some (b, c)"
    using sum by (simp add: access_range_def b_def [symmetric] c_def)
  with b c show ?thesis by (intro that)
qed

lemma memcpy_in_ok:
  assumes "file_open img h fs" and "unat b + unat c \<le> unat (f_len fs)" and "unat c \<le> length buf"
  shows "memcpy_in (h_mem h) (fs_data fs + f_offset fs + int_to_ulong b) buf c
    = Some (put 0 (chunk (unat b) (unat c) (file_bytes img fs)) buf)"
proof -
  have small: "unat b < 2 ^ 31" "unat c < 2 ^ 31"
    using assms by (auto simp: file_open_def)
  have addr: "fs_data fs + f_offset fs + int_to_ulong b
      = fs_data fs + of_nat (unat (f_offset fs) + unat b)"
    by (simp add: int_to_ulong_small [OF small(1)] add.assoc)
  have "load_bytes (h_mem h) (fs_data fs + f_offset fs + int_to_ulong b) (unat c)
      = Some (chunk (unat (f_offset fs) + unat b) (unat c) img)"
    unfolding addr
    using assms load_bytes_image [of "unat (f_offset fs) + unat b" "unat c" img "fs_data fs"]
    by (simp add: file_open_def)
  moreover have "chunk (unat (f_offset fs) + unat b) (unat c) img
      = chunk (unat b) (unat c) (file_bytes img fs)"
    using assms(2) by (simp add: file_bytes_def chunk_chunk)
  ultimately show ?thesis
    using assms(3) small by (simp add: memcpy_in_def unat_int_to_ulong)
qed

lemma advance_ok:
  assumes "unat b + unat c < 2 ^ 31"
  shows "advance fs b c =
    Some (if unat c = 0 then fs else fs\<lparr>read_offset := of_nat (unat b + unat c)\<rparr>)"
proof -
  note sum = sadd_small [OF assms]
  have "unat (b + c) < 2 ^ 31" using sum(2) assms by simp
  then have "int_to_ulong (b + c) = of_nat (unat (b + c))" by (simp add: int_to_ulong_small)
  then have pos: "int_to_ulong (b + c) = of_nat (unat b + unat c)" by (simp only: sum(2))
  have "unat c < 2 ^ 31" using assms by simp
  then have "sint c = int (unat c)" by (rule sint_small)
  then have "0 < sint c \<longleftrightarrow> unat c \<noteq> 0" by (simp only: of_nat_0_less_iff neq0_conv)
  then show ?thesis 
    by (cases "unat c = 0") (simp_all only: advance_def sum(1) pos bind.bind_lunit simp_thms if_True if_False)
qed

text \<open>Reading an open file.\<close>

lemma fread_file:
  assumes "file_open img h fs" and "start_at fs offset off"
    and "unat count < 2 ^ 30" and "unat count \<le> length buf"
    and n: "n = min (unat count) (unat (f_len fs) - off)"
  shows "sdbfs_fread h fs offset buf count =
    Some (if n = 0 then fs else fs\<lparr>read_offset := of_nat (off + n)\<rparr>,
          put 0 (chunk off n (file_bytes img fs)) buf, int n)"
proof -
  from assms have len: "unat (f_len fs) < 2 ^ 30" and off: "off \<le> unat (f_len fs)"
    by (auto simp: file_open_def start_at_def)
  obtain b c where range: "access_range fs offset count = Some (b, c)"
    and b: "unat b = off" and c: "unat c = n"
    using access_range_ok [OF len assms(2,3)] n by metis
  have bound: "off + n \<le> unat (f_len fs)" "n \<le> length buf" using n off assms(4) by auto
  have "memcpy_in (h_mem h) (fs_data fs + f_offset fs + int_to_ulong b) buf c
      = Some (put 0 (chunk off n (file_bytes img fs)) buf)"
    using memcpy_in_ok [OF assms(1), of b c buf] bound by (simp add: b c)
  moreover have "advance fs b c = Some (if n = 0 then fs else fs\<lparr>read_offset := of_nat (off + n)\<rparr>)"
    using advance_ok [of b c fs] bound len by (simp add: b c)
  moreover have "sint c = int n"
    using sint_small [of c] bound len by (simp only: c) simp
  ultimately show ?thesis
    using assms(1) range by (simp add: sdbfs_fread_def file_open_def)
qed

end
