(* ===== verification/SdbRead.thy ===== *)
theory SdbRead
  imports LibsdbfsOpen LibsdbfsAccess
begin

text \<open>
  The tool sdb-read (src/sdbfs/userspace/sdb-read.c) on top of the library: \<open>list_device\<close>,
  \<open>do_list\<close>, \<open>do_cat_name\<close> and \<open>do_cat_id\<close>. What is printed on the standard output is a list of
  \<open>line\<close>s, the arguments of one \<open>printf\<close> each (several for a synthesis record); messages on the
  standard error and the command line are not modelled. \<open>Inl\<close> of the cat functions is the exit
  after a failed open, with its error number.
\<close>

subsection \<open>Listing one record\<close>

datatype line =
    Name "u8 list"
  | Component u64 u32 u64 u64 nat "u8 list"
  | Product u64 u32 nat "u8 list"
  | RepoUrl "u8 list"
  | SynName "u8 list"
  | CommitId "u8 list"
  | ToolName "u8 list"
  | ToolVersion u32
  | BuildDate u32
  | BuildUser "u8 list"
  | UnknownRecord
  | UnknownDump "u8 list"

text \<open>\<open>%.ns\<close>: up to \<open>n\<close> bytes, ended by a zero byte.\<close>

definition c_str :: "nat \<Rightarrow> u8 list \<Rightarrow> u8 list" where
  "c_str n s = takeWhile (\<lambda>c. c \<noteq> 0) (take n s)"

text \<open>The base goes through an \<open>int\<close> parameter.\<close>

definition list_device ::
    "endian \<Rightarrow> bool \<Rightarrow> u8 list \<Rightarrow> nat \<Rightarrow> u64 \<Rightarrow> line list \<times> int" where
  "list_device e opt_long r depth base0 =
     (let base = int_to_ulong (ulong_to_int base0);
          c = d_component (load_device e r); p = c_product c; s = load_synthesis e r;
          type = p_record_type p
      in if type = sdb_type_interconnect \<or> type = sdb_type_device \<or> type = sdb_type_bridge then
           (if \<not> opt_long then [Name (c_str 19 (p_name p))]
            else [Component (ntohll e (p_vendor_id p)) (ntohl e (p_device_id p))
                    (base + ntohll e (c_addr_first c)) (base + ntohll e (c_addr_last c))
                    depth (c_str 19 (p_name p))], 0)
         else if type = sdb_type_integration then
           (if \<not> opt_long then [Name (c_str 19 (p_name p))]
            else [Product (ntohll e (p_vendor_id p)) (ntohl e (p_device_id p)) depth
                    (c_str 19 (p_name p))], 0)
         else if type = sdb_type_repo_url then
           (if opt_long then [RepoUrl (c_str 63 (r_repo_url (load_repo_url r)))] else [], 0)
         else if type = sdb_type_synthesis then
           (if \<not> opt_long then []
            else [SynName (c_str 16 (s_syn_name s)), CommitId (s_commit_id s)]
              @ (if s_tool_name s ! 0 \<noteq> 0 \<and> s_tool_name s ! 0 \<noteq> 0x20
                 then [ToolName (c_str 8 (s_tool_name s))] else [])
              @ (if s_tool_version s \<noteq> 0 then [ToolVersion (ntohl e (s_tool_version s))] else [])
              @ (if s_date s \<noteq> 0 then [BuildDate (ntohl e (s_date s))] else [])
              @ (if s_user_name s ! 0 \<noteq> 0 \<and> s_tool_name s ! 0 \<noteq> 0x20
                 then [BuildUser (c_str 15 (s_user_name s))] else []), 0)
         else if type = sdb_type_empty then ([], 0)
         else (UnknownRecord # (if opt_long then [UnknownDump r] else []),
               if type AND 0x80 \<noteq> 0 then 0 else - 1))"

subsection \<open>Listing and reading\<close>

partial_function (option) list_loop ::
    "host \<Rightarrow> bool \<Rightarrow> 'd sdbfs \<Rightarrow> bool \<Rightarrow> (line list \<times> int) option" where
  "list_loop h opt_long fs newscan =
     Option.bind (sdbfs_scan h fs newscan) (\<lambda>(fs1, d).
       if is_null d then Some ([], 0)
       else Option.bind (deref h fs1 d) (\<lambda>r.
         Option.bind (nth_opt (fs_base fs1) (fs_depth fs1)) (\<lambda>b.
           case list_device (h_endian h) opt_long r (fs_depth fs1) b of (ls, err) \<Rightarrow>
             Option.bind (list_loop h opt_long fs1 False) (\<lambda>(rest, errs).
               Some (ls @ rest, err + errs)))))"

definition do_list :: "host \<Rightarrow> bool \<Rightarrow> 'd sdbfs \<Rightarrow> (line list \<times> int) option" where
  "do_list h opt_long fs = list_loop h opt_long fs True"

partial_function (option) cat_loop ::
    "host \<Rightarrow> 'd sdbfs \<Rightarrow> u8 list \<Rightarrow> u8 list \<Rightarrow> ('d sdbfs \<times> u8 list) option" where
  "cat_loop h fs buf out =
     Option.bind (sdbfs_fread h fs (- 1) buf 4096) (\<lambda>(fs1, buf1, i).
       if i \<le> 0 then Some (fs1, out)
       else cat_loop h fs1 buf1 (out @ take (nat i) buf1))"

definition do_cat_name ::
    "host \<Rightarrow> 'd sdbfs \<Rightarrow> u8 list \<Rightarrow> u8 list \<Rightarrow> ('d sdbfs \<times> (int + u8 list)) option" where
  "do_cat_name h fs buf name = do {
     (fs1, i) \<leftarrow> sdbfs_open_name h fs name;
     if i < 0 then Some (fs1, Inl (- i))
     else do {
       (fs2, out) \<leftarrow> cat_loop h fs1 buf [];
       Some (fst (sdbfs_close fs2), Inr out) } }"

definition do_cat_id ::
    "host \<Rightarrow> 'd sdbfs \<Rightarrow> u8 list \<Rightarrow> u64 \<Rightarrow> u32 \<Rightarrow> ('d sdbfs \<times> (int + u8 list)) option" where
  "do_cat_id h fs buf vendor dev = do {
     (fs1, i) \<leftarrow> sdbfs_open_id h fs (htonll (h_endian h) vendor) (htonl (h_endian h) dev);
     if i < 0 then Some (fs1, Inl (- i))
     else do {
       (fs2, out) \<leftarrow> cat_loop h fs1 buf [];
       Some (fst (sdbfs_close fs2), Inr out) } }"

subsection \<open>What they print\<close>

text \<open>The lines of an item.\<close>

definition item_lines :: "endian \<Rightarrow> bool \<Rightarrow> item \<Rightarrow> line list \<times> int" where
  "item_lines e opt_long it =
     (case it of (r, off, d) \<Rightarrow> list_device e opt_long r d (off - first_of e r))"

definition listed :: "endian \<Rightarrow> bool \<Rightarrow> item list \<Rightarrow> line list \<times> int" where
  "listed e opt_long items =
     (concat (map (fst \<circ> item_lines e opt_long) items), sum_list (map (snd \<circ> item_lines e opt_long) items))"

lemma listed_Cons:
  "listed e long (it # items) = (fst (item_lines e long it) @ fst (listed e long items),
     snd (item_lines e long it) + snd (listed e long items))"
  by (simp add: listed_def)

lemma list_loop_yields:
  assumes "yields h fs (sdbfs_scan h fs new) items"
  shows "list_loop h long fs new = Some (listed (h_endian h) long items)"
  using assms
proof (induction items arbitrary: fs new)
  case Nil
  then show ?case
    by (subst list_loop.simps) (auto simp: yields_def is_null_def listed_def)
next
  case (Cons it items)
  obtain r off d where it: "it = (r, off, d)" by (cases it)
  from Cons.prems obtain g p where scan: "sdbfs_scan h fs new = Some (g, p)"
    and p: "\<not> is_null p" "currentp g = p" "deref h g p = Some r"
    and g: "fs_depth g = d" "scan_ok g" "fs_base g ! d + first_of (h_endian h) r = off" "same_source fs g"
    and more: "pending (h_endian h) (entry h fs) g r = Some items"
    unfolding yields_def it by auto
  have "yields h g (sdbfs_scan h g False) items"
    using scan_next [OF g(2)] p more entry_cong [OF g(4)] by auto
  then have rest: "list_loop h long g False = Some (listed (h_endian h) long items)" by (rule Cons.IH)
  have base: "nth_opt (fs_base g) d = Some (off - first_of (h_endian h) r)"
    using g by (auto simp: scan_ok_def)
  show ?case
    using scan p rest base g(1)
    by (subst list_loop.simps) (simp add: it listed_Cons item_lines_def split: prod.split)
qed

lemma do_list_listing:
  assumes "scan_ok fs" and "listing (h_endian h) (entry h fs) (entrypoint fs) = Some items"
  shows "do_list h opt_long fs = Some (listed (h_endian h) opt_long items)"
  unfolding do_list_def by (rule list_loop_yields [OF scan_first [OF assms]])

subsection \<open>What reading a file asks of the device\<close>

text \<open>An open file within an image, and its length by its record.\<close>

definition file_at :: "u8 list \<Rightarrow> 'd sdbfs \<Rightarrow> bool" where
  "file_at img fs \<longleftrightarrow> \<not> is_null (currentp fs) \<and> unat (f_offset fs) + unat (f_len fs) \<le> length img
     \<and> unat (f_len fs) < 2 ^ 30 \<and> read_offset fs \<le> f_len fs"

definition file_len :: "endian \<Rightarrow> u8 list \<Rightarrow> u64" where
  "file_len e r = last_of e r + 1 - first_of e r"

lemma opened_file_at:
  assumes "opened h fs (r, off, d) g" and "unat off + unat (file_len (h_endian h) r) \<le> length img"
    and "unat (file_len (h_endian h) r) < 2 ^ 30"
  shows "file_at img g" and "unat (read_offset g) = 0" and "same_source fs g"
    and "file_bytes img g = chunk (unat off) (unat (file_len (h_endian h) r)) img"
  using assms by (auto simp: opened_def file_at_def file_bytes_def file_len_def)

text \<open>\<open>serves h fs img\<close>: the device delivers the bytes of \<open>img\<close>, whatever file is open.\<close>

locale file_source =
  fixes serves :: "host \<Rightarrow> 'd sdbfs \<Rightarrow> u8 list \<Rightarrow> bool"
  assumes serves_same: "serves h fs img \<Longrightarrow> same_source fs g \<Longrightarrow> serves h g img"
    and serves_read: "serves h fs img \<Longrightarrow> file_at img fs \<Longrightarrow> start_at fs offset off \<Longrightarrow>
      unat count < 2 ^ 30 \<Longrightarrow> unat count \<le> length buf \<Longrightarrow> n = min (unat count) (unat (f_len fs) - off) \<Longrightarrow>
      sdbfs_fread h fs offset buf count = Some (if n = 0 then fs else fs\<lparr>read_offset := of_nat (off + n)\<rparr>,
        put 0 (chunk off n (file_bytes img fs)) buf, int n)"
begin

text \<open>The rest of an open file, from its position.\<close>

lemma cat_loop_file:
  assumes "serves h fs img" and "file_at img fs" and "length buf = 4096"
  shows "\<exists>g. cat_loop h fs buf out =
    Some (g, out @ drop (unat (read_offset fs)) (file_bytes img fs)) \<and> same_source fs g"
  using assms
proof (induction "unat (f_len fs) - unat (read_offset fs)" arbitrary: fs buf out rule: less_induct)
  case less
  define off len n where "off = unat (read_offset fs)" and "len = unat (f_len fs)"
    and "n = min 4096 (len - off)"
  define data where "data = file_bytes img fs"
  have pos: "off \<le> len" "len < 2 ^ 30"
    using less.prems(2) by (auto simp: file_at_def word_le_nat_alt off_def len_def)
  have "sint (- 1 :: u32) < 0" by simp
  then have start: "start_at fs (- 1) off" using pos by (simp add: start_at_def off_def len_def)
  define g where "g = fs\<lparr>read_offset := of_nat (off + n)\<rparr>"
  define buf1 where "buf1 = put 0 (chunk off n data) buf"
  have "n = min (unat (4096 :: u32)) (unat (f_len fs) - off)" by (simp add: n_def len_def)
  then have read: "sdbfs_fread h fs (- 1) buf 4096 = Some (if n = 0 then fs else g, buf1, int n)"
    using serves_read [OF less.prems(1,2) start, of 4096 buf n] less.prems(3)
    by (simp add: g_def buf1_def data_def)
  have flen: "length data = len"
    using less.prems(2) by (simp add: file_bytes_def file_at_def data_def len_def)
  show ?case
  proof (cases "n = 0")
    case True
    then have "drop off data = []" using pos flen by (simp add: n_def)
    then show ?thesis
      using read True by (subst cat_loop.simps) (simp add: data_def off_def)
  next
    case False
    have inside: "off + n \<le> len" using pos by (simp add: n_def)
    then have "off + n < 2 ^ LENGTH(64)" using pos by simp
    then have "unat (of_nat (off + n) :: u64) = off + n" by (simp only: unat_of_nat mod_less)
    then have g_off: "unat (read_offset g) = off + n" by (simp add: g_def del: of_nat_add)
    have g_file: "file_bytes img g = data" "f_len g = f_len fs" "same_source fs g"
      by (simp_all add: g_def data_def file_bytes_def same_source_def)
    have "read_offset g \<le> f_len g"
      using inside g_off g_file(2) by (simp add: word_le_nat_alt len_def)
    then have g: "file_at img g" using less.prems(2) by (simp add: file_at_def g_def)
    have clen: "length (chunk off n data) = n" using inside flen by simp
    have "n \<le> 4096" by (simp add: n_def)
    then have blen: "length buf1 = 4096" using clen less.prems(3) by (simp add: buf1_def length_put)
    have tk: "take n buf1 = chunk off n data" using clen by (simp add: put_def buf1_def)
    have "unat (f_len g) - unat (read_offset g) < unat (f_len fs) - unat (read_offset fs)"
      using False inside g_off g_file(2) by (simp add: len_def off_def)
    then obtain k where k: "cat_loop h g buf1 (out @ take n buf1)
        = Some (k, (out @ take n buf1) @ drop (off + n) data)" "same_source g k"
      using less.hyps [OF _ serves_same [OF less.prems(1) g_file(3)] g blen, of "out @ take n buf1"]
      unfolding g_off g_file(1) by blast
    have "take n buf1 @ drop (off + n) data = drop off data"
      unfolding tk by (simp add: chunk_def add.commute flip: drop_drop)
    then have "cat_loop h fs buf out = Some (k, out @ drop off data)"
      using read False k(1) by (subst cat_loop.simps) simp
    then show ?thesis using same_source_trans [OF g_file(3) k(2)] by (auto simp: data_def off_def)
  qed
qed

text \<open>An open and the loop together, for any test.\<close>

lemma cat_opened:
  assumes "open_result h fs (find P items) opn" and "serves h fs img"
    and buf: "length buf = 4096"
    and fits: "\<And>r off d. find P items = Some (r, off, d) \<Longrightarrow>
      unat off + unat (file_len (h_endian h) r) \<le> length img \<and> unat (file_len (h_endian h) r) < 2 ^ 30"
  shows "\<exists>g. do { (fs1, i) \<leftarrow> opn;
      if i < 0 then Some (fs1, Inl (- i))
      else do { (fs2, out) \<leftarrow> cat_loop h fs1 buf []; Some (fst (sdbfs_close fs2), Inr out) } }
    = Some (g, case find P items of
        None \<Rightarrow> Inl ENOENT
      | Some (r, off, d) \<Rightarrow> Inr (chunk (unat off) (unat (file_len (h_endian h) r)) img))"
proof (cases "find P items")
  case None
  then show ?thesis using assms(1) by (auto simp: open_result_def ENOENT_def)
next
  case (Some it)
  obtain r off d where it: "it = (r, off, d)" by (cases it)
  from assms(1) Some it obtain g where g: "opn = Some (g, 0)" "opened h fs (r, off, d) g"
    by (auto simp: open_result_def)
  note f = fits [OF Some [unfolded it]]
  note open_g = opened_file_at [OF g(2) f [THEN conjunct1] f [THEN conjunct2]]
  from cat_loop_file [OF serves_same [OF assms(2) open_g(3)] open_g(1) buf, of "[]"] open_g(2,4) obtain k where
    "cat_loop h g buf [] = Some (k, chunk (unat off) (unat (file_len (h_endian h) r)) img)" by auto
  then show ?thesis using g(1) Some it by auto
qed

end

text \<open>Mapped data is such a device.\<close>

definition mapped_data :: "host \<Rightarrow> 'd sdbfs \<Rightarrow> u8 list \<Rightarrow> bool" where
  "mapped_data h fs img \<longleftrightarrow> fs_data fs \<noteq> 0 \<and> h_mem h = image_at (fs_data fs) img \<and> length img \<le> 2 ^ 64"

interpretation mapped: file_source mapped_data
proof (unfold_locales, goal_cases)
  case 1
  then show ?case by (simp add: mapped_data_def same_source_def)
next
  case (2 h fs img offset off count buf n)
  have "file_open img h fs" using 2(1,2) by (simp add: mapped_data_def file_at_def file_open_def)
  then show ?case by (rule fread_file) (rule 2)+
qed

end
