(* ===== verification/Registry.thy ===== *)
theory Registry
  imports Prelude
begin

text \<open>
  The contract that the two lists of SDB devices share: \<open>sdbfs_list\<close> of the library
  (src/sdbfs/lib/glue.c) and \<open>sdbfs_devlist\<close> of the kernel module
  (src/sdbfs/kernel/sdbfs-client.c). A state represents a list of handles, the newest first;
  registering puts a handle in front, unregistering takes it out, and a look-up returns the
  first handle of that name. The lemmas are what a client of either may rely on.
\<close>

locale registry =
  fixes rep :: "'s \<Rightarrow> 'h list \<Rightarrow> bool"
    and name_of :: "'s \<Rightarrow> 'h \<Rightarrow> 'n option"
    and admissible :: "'s \<Rightarrow> 'h list \<Rightarrow> 'h \<Rightarrow> bool"
    and add :: "'s \<Rightarrow> 'h \<Rightarrow> ('s \<times> int) option"
    and del :: "'s \<Rightarrow> 'h \<Rightarrow> 's option"
    and look :: "'s \<Rightarrow> 'n \<Rightarrow> 'h option option"
  assumes rep_distinct: "rep s xs \<Longrightarrow> distinct xs"
    and rep_named: "rep s xs \<Longrightarrow> x \<in> set xs \<Longrightarrow> name_of s x \<noteq> None"
    and add_ok: "rep s xs \<Longrightarrow> admissible s xs h \<Longrightarrow>
      \<exists>s'. add s h = Some (s', 0) \<and> rep s' (h # xs) \<and> name_of s' = name_of s"
    and del_ok: "rep s xs \<Longrightarrow> h \<in> set xs \<Longrightarrow>
      \<exists>s'. del s h = Some s' \<and> rep s' (remove1 h xs) \<and> name_of s' = name_of s"
    and look_ok: "rep s xs \<Longrightarrow> look s n = Some (find (\<lambda>x. name_of s x = Some n) xs)"
begin

lemma look_total: "rep s xs \<Longrightarrow> \<exists>r. look s n = Some r"
  by (simp add: look_ok)

lemma look_member:
  assumes "rep s xs" and "look s n = Some (Some h)"
  shows "h \<in> set xs \<and> name_of s h = Some n"
  using assms by (auto simp: look_ok find_Some_iff)

text \<open>A device is found under its name as soon as it is registered, and other names are not
  affected.\<close>

lemma look_add:
  assumes "rep s xs" and "admissible s xs h" and "name_of s h = Some m"
  obtains s' where "add s h = Some (s', 0)" and "rep s' (h # xs)"
    and "\<forall>n. look s' n = (if n = m then Some (Some h) else look s n)"
proof -
  from add_ok [OF assms(1,2)] obtain s' where s': "add s h = Some (s', 0)" "rep s' (h # xs)"
    "name_of s' = name_of s" by blast
  show ?thesis
    by (rule that [OF s'(1,2)]) (use look_ok [OF s'(2)] look_ok [OF assms(1)] assms(3) s'(3) in auto)
qed

text \<open>Unregistering what was just registered restores every look-up.\<close>

lemma look_add_del:
  assumes "rep s xs" and "admissible s xs h"
  obtains s' s'' where "add s h = Some (s', 0)" and "del s' h = Some s''" and "rep s'' xs"
    and "look s'' = look s"
proof -
  from add_ok [OF assms] obtain s' where s': "add s h = Some (s', 0)" "rep s' (h # xs)"
    "name_of s' = name_of s" by blast
  from del_ok [OF s'(2), of h] obtain s'' where s'': "del s' h = Some s''" "rep s'' xs"
    "name_of s'' = name_of s'" by auto
  show ?thesis
    by (rule that [OF s'(1) s''(1,2)], rule ext)
      (use look_ok [OF s''(2)] look_ok [OF assms(1)] s'(3) s''(3) in auto)
qed

text \<open>Once its only device is gone a name is not found.\<close>

lemma look_del:
  assumes rep: "rep s xs" and "h \<in> set xs" and "name_of s h = Some m"
    and only: "\<And>x. x \<in> set xs \<Longrightarrow> name_of s x = Some m \<Longrightarrow> x = h"
  obtains s' where "del s h = Some s'" and "rep s' (remove1 h xs)" and "look s' m = Some None"
proof -
  from del_ok [OF rep assms(2)] obtain s' where s': "del s h = Some s'" "rep s' (remove1 h xs)"
    "name_of s' = name_of s" by blast
  have "h \<notin> set (remove1 h xs)" using rep_distinct [OF rep] by simp
  then have "find (\<lambda>x. name_of s' x = Some m) (remove1 h xs) = None"
    using only notin_set_remove1 s'(3) by (fastforce simp: find_None_iff dest: set_remove1_subset [THEN subsetD])
  then show ?thesis
    using look_ok [OF s'(2)] by (intro that [OF s'(1,2)]) simp
qed

end

end
