(* ===== verification/LibsdbfsRegistry.thy ===== *)
theory LibsdbfsRegistry
  imports LibsdbfsGlue Registry
begin

text \<open>
  The library's linked list of file systems represents a list of structures: the \<open>next\<close> fields
  are followed from \<open>sdbfs_list\<close>, and \<^const>\<open>sdbfs_dev_create\<close>, \<^const>\<open>sdbfs_dev_destroy\<close> and
  \<^const>\<open>sdbfs_dev_find\<close> obey the laws of \<open>registry\<close>.
\<close>

fun chain :: "'d lib \<Rightarrow> u64 \<Rightarrow> u64 list \<Rightarrow> bool" where
  "chain L p [] \<longleftrightarrow> p = 0"
| "chain L p (x # xs) \<longleftrightarrow> p = x \<and> x \<noteq> 0 \<and>
     (case lib_heap L x of
        None \<Rightarrow> False
      | Some fs \<Rightarrow> fs_name fs \<noteq> None \<and> chain L (fs_next fs) xs)"

definition lib_rep :: "'d lib \<Rightarrow> u64 list \<Rightarrow> bool" where
  "lib_rep L xs \<longleftrightarrow> chain L (sdbfs_list L) xs \<and> distinct xs"

definition lib_name :: "'d lib \<Rightarrow> u64 \<Rightarrow> u8 list option" where
  "lib_name L p = Option.bind (lib_heap L p) fs_name"

text \<open>What \<open>sdbfs_dev_create\<close> asks of a structure: a name, not in the list yet, and storage
  that starts with the magic number in one of the two byte orders.\<close>

definition lib_admissible :: "host \<Rightarrow> 'd lib \<Rightarrow> u64 list \<Rightarrow> u64 \<Rightarrow> bool" where
  "lib_admissible h L xs p \<longleftrightarrow> p \<noteq> 0 \<and> p \<notin> set xs \<and>
     (case lib_heap L p of
        None \<Rightarrow> False
      | Some fs \<Rightarrow> fs_name fs \<noteq> None \<and>
          (case read_magic h fs of
             None \<Rightarrow> False
           | Some (fs1, m) \<Rightarrow> m = SDB_MAGIC \<or> htonl (h_endian h) m = SDB_MAGIC))"

lemma chain_cong:
  "(\<And>x. x \<in> set xs \<Longrightarrow> lib_heap M x = lib_heap L x) \<Longrightarrow> chain M p xs = chain L p xs"
  by (induction xs arbitrary: p) (auto split: option.split)

lemma chain_member:
  "chain L p xs \<Longrightarrow> x \<in> set xs \<Longrightarrow> x \<noteq> 0 \<and> (\<exists>f. lib_heap L x = Some f \<and> fs_name f \<noteq> None)"
  by (induction xs arbitrary: p) (auto split: option.splits)

lemma read_magic_fields:
  assumes "read_magic h fs = Some (fs1, m)"
  shows "\<exists>d. fs1 = fs\<lparr>drvdata := d\<rparr>"
proof (cases "direct fs")
  case True
  then have "fs1 = fs\<lparr>drvdata := drvdata fs\<rparr>"
    using assms by (auto simp: read_magic_def bind_eq_Some_conv)
  then show ?thesis ..
next
  case False
  then obtain rd where rd: "fs_read fs = Some rd" using assms by (auto simp: read_magic_def bind_eq_Some_conv)
  show ?thesis using assms False rd by (auto simp: read_magic_def bind_eq_Some_conv split: if_splits)
qed

lemma create_rep:
  assumes "lib_rep L xs" and "lib_admissible h L xs p"
  shows "\<exists>L'. sdbfs_dev_create h L p = Some (L', 0) \<and> lib_rep L' (p # xs) \<and> lib_name L' = lib_name L"
proof -
  from assms(2) obtain fs fs1 m where fs: "lib_heap L p = Some fs" "fs_name fs \<noteq> None"
    and read: "read_magic h fs = Some (fs1, m)"
    and m: "m = SDB_MAGIC \<or> htonl (h_endian h) m = SDB_MAGIC" and p: "p \<noteq> 0" "p \<notin> set xs"
    by (auto simp: lib_admissible_def split: option.splits)
  from read_magic_fields [OF read] have name: "fs_name fs1 = fs_name fs" by auto
  define g where "g = (if m = SDB_MAGIC \<and> ntohl (h_endian h) 1 \<noteq> 1
      then fs1\<lparr>fs_flags := fs_flags fs1 OR SDBFS_F_CONVERT32\<rparr> else fs1)\<lparr>fs_next := sdbfs_list L\<rparr>"
  have g: "fs_name g = fs_name fs1" "fs_next g = sdbfs_list L" by (simp_all add: g_def)
  have create: "sdbfs_dev_create h L p = Some ((put_fs L p g)\<lparr>sdbfs_list := p\<rparr>, 0)"
    using m by (auto simp: sdbfs_dev_create_def fs read Let_def g_def)
  let ?L = "(put_fs L p g)\<lparr>sdbfs_list := p\<rparr>"
  have "chain ?L (sdbfs_list L) xs"
    using assms(1) p(2) by (subst chain_cong [of xs _ L]) (auto simp: lib_rep_def put_fs_def)
  then have "lib_rep ?L (p # xs)"
    using assms(1) p g name fs(2) by (simp add: lib_rep_def put_fs_def)
  moreover have "lib_name ?L = lib_name L"
    using fs name g by (auto simp: lib_name_def put_fs_def fun_eq_iff)
  ultimately show ?thesis using create by blast
qed

text \<open>The search of \<open>sdbfs_dev_destroy\<close> ends at the link to the structure.\<close>

fun link_before :: "link \<Rightarrow> u64 list \<Rightarrow> u64 \<Rightarrow> link" where
  "link_before p [] x = p"
| "link_before p (y # ys) x = (if y = x then p else link_before (NextLink y) ys x)"

lemma find_link_before:
  "chain L q xs \<Longrightarrow> read_link L p = Some q \<Longrightarrow> find_link L x p = Some (link_before p xs x)
     \<and> read_link L (link_before p xs x) = Some (if x \<in> set xs then x else 0)"
proof (induction xs arbitrary: q p)
  case (Cons y ys)
  then obtain fs where "lib_heap L y = Some fs" "chain L (fs_next fs) ys" "q = y" "y \<noteq> 0"
    by (auto split: option.splits)
  with Cons.IH [of "fs_next fs" "NextLink y"] Cons.prems(2) show ?case
    by (subst find_link.simps) (simp add: read_link_def)
qed (subst find_link.simps; simp)

lemma write_link_frame:
  assumes "read_link L p = Some q"
  shows "\<exists>L'. write_link L p v = Some L' \<and> (\<forall>a. NextLink a \<noteq> p \<longrightarrow> lib_heap L' a = lib_heap L a)
    \<and> read_link L' p = Some v \<and> lib_name L' = lib_name L \<and> (p \<noteq> HeadLink \<longrightarrow> sdbfs_list L' = sdbfs_list L)"
proof (cases p)
  case HeadLink
  then show ?thesis
    by (intro exI [of _ "L\<lparr>sdbfs_list := v\<rparr>"]) (auto simp: write_link_def read_link_def lib_name_def fun_eq_iff)
next
  case (NextLink a)
  with assms show ?thesis
    by (auto simp: write_link_def read_link_def put_fs_def lib_name_def fun_eq_iff)
qed

lemma unlink_chain:
  assumes "chain L q xs" and "read_link L p = Some q" and "distinct xs" and "x \<in> set xs"
    and "lib_heap L x = Some f" and "\<And>z. p = NextLink z \<Longrightarrow> z \<notin> set xs"
  shows "\<exists>L' q'. write_link L (link_before p xs x) (fs_next f) = Some L' \<and> read_link L' p = Some q'
     \<and> chain L' q' (remove1 x xs) \<and> lib_name L' = lib_name L
     \<and> (\<forall>a. NextLink a \<noteq> p \<and> a \<notin> set xs \<longrightarrow> lib_heap L' a = lib_heap L a)
     \<and> (p \<noteq> HeadLink \<longrightarrow> sdbfs_list L' = sdbfs_list L)"
  using assms
proof (induction xs arbitrary: q p)
  case (Cons y ys)
  from Cons.prems(1) obtain fy where y: "lib_heap L y = Some fy" "fs_name fy \<noteq> None"
    "chain L (fs_next fy) ys" "q = y" "y \<noteq> 0" by (auto split: option.splits)
  show ?case
  proof (cases "y = x")
    case True
    then have f: "f = fy" using y Cons.prems(5) by simp
    obtain L' where L': "write_link L p (fs_next f) = Some L'"
      and frame: "\<forall>a. NextLink a \<noteq> p \<longrightarrow> lib_heap L' a = lib_heap L a"
      and new: "read_link L' p = Some (fs_next f)" "lib_name L' = lib_name L"
        "p \<noteq> HeadLink \<longrightarrow> sdbfs_list L' = sdbfs_list L"
      using Cons.prems(2) write_link_frame by metis
    have "chain L' (fs_next f) ys"
      using y(3) f frame Cons.prems(6) chain_cong [of ys L' L] by fastforce
    then show ?thesis using True L' frame new by auto
  next
    case False
    obtain L' q' where L': "write_link L (link_before (NextLink y) ys x) (fs_next f) = Some L'"
      and q': "read_link L' (NextLink y) = Some q'" "chain L' q' (remove1 x ys)"
      and names: "lib_name L' = lib_name L"
      and frame: "\<forall>a. a \<noteq> y \<and> a \<notin> set ys \<longrightarrow> lib_heap L' a = lib_heap L a"
        "sdbfs_list L' = sdbfs_list L"
      using Cons.IH [OF y(3), of "NextLink y"] Cons.prems y(1) False
      by (auto simp: read_link_def)
    from q'(1) obtain g where g: "lib_heap L' y = Some g" "fs_next g = q'"
      by (auto simp: read_link_def)
    have "fs_name g \<noteq> None"
      using fun_cong [OF names, of y] g(1) y(1,2) by (simp add: lib_name_def)
    then have "chain L' y (y # remove1 x ys)" using g q' y(5) by simp
    moreover have "read_link L' p = Some y"
      using Cons.prems(2,6) frame y(4) by (cases p) (auto simp: read_link_def)
    ultimately show ?thesis using False L' names frame by auto
  qed
qed simp

lemma destroy_rep:
  assumes "lib_rep L xs" and "x \<in> set xs"
  shows "\<exists>L'. sdbfs_dev_destroy L x = Some (L', 0) \<and> lib_rep L' (remove1 x xs) \<and> lib_name L' = lib_name L"
proof -
  have ch: "chain L (sdbfs_list L) xs" and d: "distinct xs" using assms(1) by (auto simp: lib_rep_def)
  from chain_member [OF ch assms(2)] obtain f where f: "lib_heap L x = Some f" and "x \<noteq> 0" by blast
  moreover from unlink_chain [OF ch, of HeadLink x f] d assms(2) f obtain L' where
    "write_link L (link_before HeadLink xs x) (fs_next f) = Some L'"
    "chain L' (sdbfs_list L') (remove1 x xs)" "lib_name L' = lib_name L"
    by (auto simp: read_link_def)
  ultimately show ?thesis
    using find_link_before [OF ch, of HeadLink x] assms(2) d
    by (simp add: sdbfs_dev_destroy_def read_link_def lib_rep_def)
qed

lemma destroy_absent:
  assumes "lib_rep L xs" and "x \<notin> set xs"
  shows "sdbfs_dev_destroy L x = Some (L, - ENOENT)"
  using find_link_before [of L "sdbfs_list L" xs HeadLink x] assms
  by (auto simp: sdbfs_dev_destroy_def lib_rep_def read_link_def)

text \<open>A look-up; the code returns a null pointer where no device has the name.\<close>

definition handle_of :: "u64 \<Rightarrow> u64 option" where
  "handle_of p = (if p = 0 then None else Some p)"

lemma dev_find_loop_find:
  "chain L p xs \<Longrightarrow> dev_find_loop L n p
     = Some (case find (\<lambda>x. lib_name L x = Some n) xs of None \<Rightarrow> 0 | Some x \<Rightarrow> x)"
proof (induction xs arbitrary: p)
  case Nil
  then show ?case by (subst dev_find_loop.simps) simp
next
  case (Cons y ys)
  then show ?case
    by (subst dev_find_loop.simps) (auto simp: lib_name_def split: option.splits)
qed

lemma find_rep:
  assumes "lib_rep L xs"
  shows "map_option handle_of (sdbfs_dev_find L n) = Some (find (\<lambda>x. lib_name L x = Some n) xs)"
proof -
  have ch: "chain L (sdbfs_list L) xs" using assms by (simp add: lib_rep_def)
  have "x \<noteq> 0" if "find (\<lambda>x. lib_name L x = Some n) xs = Some x" for x
    using that chain_member [OF ch, of x] by (auto simp: find_Some_iff in_set_conv_nth)
  then show ?thesis
    by (simp add: sdbfs_dev_find_def dev_find_loop_find [OF ch] handle_of_def split: option.split)
qed

interpretation lib: registry lib_rep lib_name "lib_admissible h" "sdbfs_dev_create h"
    "\<lambda>L x. map_option fst (sdbfs_dev_destroy L x)"
    "\<lambda>L n. map_option handle_of (sdbfs_dev_find L n)" for h
proof (unfold_locales, goal_cases)
  case (1 s xs) then show ?case by (simp add: lib_rep_def)
next
  case (2 s xs x) then show ?case
    using chain_member by (fastforce simp: lib_rep_def lib_name_def)
next
  case (3 s xs h) then show ?case by (rule create_rep)
next
  case (4 s xs h) then show ?case using destroy_rep by fastforce
next
  case (5 s xs n) then show ?case by (rule find_rep)
qed

end
