(* ===== verification/SdbfsClient.thy ===== *)
theory SdbfsClient
  imports SdbHeader Registry
begin

text \<open>
  The kernel module's devices: the structures of src/sdbfs/kernel/sdbfs.h, the list of
  src/sdbfs/kernel/sdbfs-client.c and the read methods of the two drivers, sdb-iomem.c and
  sdb-fakedev.c. A device is known by the address of its structure. \<open>try_module_get\<close> and
  \<open>module_put\<close> are the kernel's: whether a reference is granted is a parameter, the references
  this code holds are counted in the state.

  The locale \<open>sdb_backing\<close> is what the file system asks of a device: reads that are clipped to
  the storage. Both drivers provide it.
\<close>

subsection \<open>Devices\<close>

text \<open>A read method: begin, count (a \<open>size_t\<close>); it stores bytes at the start of the buffer and
  returns a \<open>ssize_t\<close>. \<open>None\<close> is a fault.\<close>

type_synonym sdb_reader = "u32 \<Rightarrow> u64 \<Rightarrow> (u8 list \<times> u64) option"

record sdbfs_dev =
  kd_name :: "u8 list"
  kd_flags :: u64
  kd_blocksize :: u32
  kd_entrypoint :: u64
  kd_owner :: nat
  kd_read :: sdb_reader
  kd_size :: u64

definition SDBFS_F_FIXENDIAN :: u64 where "SDBFS_F_FIXENDIAN = 0x0001"

text \<open>A negative error number as a \<open>ssize_t\<close>.\<close>

definition err_size :: "int \<Rightarrow> u64" where
  "err_size e = word_of_int (- e)"

subsection \<open>The list of devices\<close>

record client =
  kd_heap :: "u64 \<Rightarrow> sdbfs_dev option"
  sdbfs_devlist :: "u64 list"
  mod_refs :: "nat \<Rightarrow> int"

definition dev_name :: "client \<Rightarrow> u64 \<Rightarrow> u8 list option" where
  "dev_name C p = map_option kd_name (kd_heap C p)"

text \<open>\<open>list_for_each_entry\<close> with \<open>strcmp\<close>: the first entry of that name; \<open>None\<close> is an entry
  that is not a device.\<close>

fun scan_names :: "client \<Rightarrow> u8 list \<Rightarrow> u64 list \<Rightarrow> u64 option option" where
  "scan_names C n [] = Some None"
| "scan_names C n (p # ps) = (case kd_heap C p of
     None \<Rightarrow> None
   | Some d \<Rightarrow> if kd_name d = n then Some (Some p) else scan_names C n ps)"

text \<open>\<open>Inl\<close> is an error pointer, with its error number.\<close>

definition sdbfs_get_by_name ::
    "(nat \<Rightarrow> bool) \<Rightarrow> client \<Rightarrow> u8 list \<Rightarrow> (client \<times> (int + u64)) option" where
  "sdbfs_get_by_name try_module_get C name = do {
     r \<leftarrow> scan_names C name (sdbfs_devlist C);
     (case r of
        None \<Rightarrow> Some (C, Inl (- ENOENT))
      | Some p \<Rightarrow> do {
          d \<leftarrow> kd_heap C p;
          if try_module_get (kd_owner d)
          then Some (C\<lparr>mod_refs := (mod_refs C)(kd_owner d := mod_refs C (kd_owner d) + 1)\<rparr>, Inr p)
          else Some (C, Inl (- ENOENT)) }) }"

definition sdbfs_put :: "client \<Rightarrow> u64 \<Rightarrow> client option" where
  "sdbfs_put C p = do {
     d \<leftarrow> kd_heap C p;
     Some (C\<lparr>mod_refs := (mod_refs C)(kd_owner d := mod_refs C (kd_owner d) - 1)\<rparr>) }"

definition sdbfs_register_device :: "client \<Rightarrow> u64 \<Rightarrow> (client \<times> int) option" where
  "sdbfs_register_device C p = do {
     d \<leftarrow> kd_heap C p;
     r \<leftarrow> scan_names C (kd_name d) (sdbfs_devlist C);
     if r \<noteq> None then Some (C, - EBUSY)
     else Some (C\<lparr>sdbfs_devlist := p # sdbfs_devlist C\<rparr>, 0) }"

definition sdbfs_unregister_device :: "client \<Rightarrow> u64 \<Rightarrow> client" where
  "sdbfs_unregister_device C p =
     (if p \<in> set (sdbfs_devlist C)
      then C\<lparr>sdbfs_devlist := remove1 p (sdbfs_devlist C)\<rparr> else C)"

text \<open>The list represents itself: distinct devices of distinct names.\<close>

definition client_rep :: "client \<Rightarrow> u64 list \<Rightarrow> bool" where
  "client_rep C xs \<longleftrightarrow> sdbfs_devlist C = xs \<and> distinct xs \<and> inj_on (dev_name C) (set xs)
     \<and> (\<forall>x \<in> set xs. dev_name C x \<noteq> None)"

definition client_admissible :: "client \<Rightarrow> u64 list \<Rightarrow> u64 \<Rightarrow> bool" where
  "client_admissible C xs p \<longleftrightarrow> dev_name C p \<noteq> None \<and> dev_name C p \<notin> dev_name C ` set xs"

lemma scan_names_find:
  "\<forall>x \<in> set xs. dev_name C x \<noteq> None \<Longrightarrow>
   scan_names C n xs = Some (find (\<lambda>x. dev_name C x = Some n) xs)"
  by (induction xs) (auto simp: dev_name_def split: option.splits)

lemma dev_name_list [simp]: "dev_name (C\<lparr>sdbfs_devlist := xs\<rparr>) = dev_name C"
  by (simp add: dev_name_def fun_eq_iff)

lemma register_rep:
  assumes "client_rep C xs" and "client_admissible C xs p"
  shows "sdbfs_register_device C p = Some (C\<lparr>sdbfs_devlist := p # xs\<rparr>, 0)"
    and "client_rep (C\<lparr>sdbfs_devlist := p # xs\<rparr>) (p # xs)"
proof -
  from assms(2) obtain d where d: "kd_heap C p = Some d" "dev_name C p = Some (kd_name d)"
    by (auto simp: client_admissible_def dev_name_def)
  have "find (\<lambda>x. dev_name C x = Some (kd_name d)) xs = None"
    using assms(2) d(2) by (auto simp: find_None_iff client_admissible_def) (metis image_eqI)
  then show "sdbfs_register_device C p = Some (C\<lparr>sdbfs_devlist := p # xs\<rparr>, 0)"
    using assms(1) d(1) scan_names_find [of xs C "kd_name d"]
    by (simp add: sdbfs_register_device_def client_rep_def)
  show "client_rep (C\<lparr>sdbfs_devlist := p # xs\<rparr>) (p # xs)"
    using assms d(2) by (auto simp: client_rep_def client_admissible_def) (metis image_eqI)
qed

lemma register_busy:
  assumes "client_rep C xs" and "x \<in> set xs" and "kd_heap C p = Some d"
    and "dev_name C x = Some (kd_name d)"
  shows "sdbfs_register_device C p = Some (C, - EBUSY)"
proof -
  have "find (\<lambda>x. dev_name C x = Some (kd_name d)) xs \<noteq> None"
    using assms(2,4) by (auto simp: find_None_iff)
  then show ?thesis
    using assms(1,3) scan_names_find [of xs C "kd_name d"]
    by (simp add: sdbfs_register_device_def client_rep_def)
qed

lemma unregister_rep:
  "client_rep C xs \<Longrightarrow> client_rep (sdbfs_unregister_device C p) (remove1 p xs)"
  by (auto simp: client_rep_def sdbfs_unregister_device_def remove1_idem
      dest: notin_set_remove1 set_remove1_subset [THEN subsetD] intro: inj_on_subset)

interpretation client: registry client_rep dev_name client_admissible sdbfs_register_device
    "\<lambda>C p. Some (sdbfs_unregister_device C p)" "\<lambda>C n. scan_names C n (sdbfs_devlist C)"
proof (unfold_locales, goal_cases)
  case (1 s xs) then show ?case by (simp add: client_rep_def)
next
  case (2 s xs x) then show ?case by (simp add: client_rep_def)
next
  case (3 s xs h) then show ?case using register_rep by fastforce
next
  case (4 s xs h) then show ?case
    using unregister_rep by (auto simp: sdbfs_unregister_device_def)
next
  case (5 s xs n) then show ?case by (simp add: client_rep_def scan_names_find)
qed

subsection \<open>What the file system asks of a device\<close>

locale sdb_backing =
  fixes rd :: sdb_reader and img :: "u8 list"
  assumes rd_in: "length img < 2 ^ 31 \<Longrightarrow> unat beg \<le> length img \<Longrightarrow> unat count < 2 ^ 31 \<Longrightarrow>
      rd beg count = Some (chunk (unat beg) (unat count) img,
        of_nat (min (unat count) (length img - unat beg)))"
    and rd_out: "length img < 2 ^ 31 \<Longrightarrow> length img < unat beg \<Longrightarrow>
      rd beg count = Some ([], err_size EINVAL)"
begin

text \<open>A read inside the storage is complete.\<close>

lemma rd_full:
  assumes "length img < 2 ^ 31" and "unat beg + unat count \<le> length img"
  shows "rd beg count = Some (chunk (unat beg) (unat count) img, count)"
proof -
  have "min (unat count) (length img - unat beg) = unat count" using assms(2) by simp
  moreover have "unat beg \<le> length img" "unat count < 2 ^ 31" using assms by linarith+
  ultimately show ?thesis using rd_in [of beg count] assms(1) by simp
qed

text \<open>A read that does not fit is short, or fails; its result differs from the count also as an
  \<open>int\<close>.\<close>

lemma rd_short:
  assumes "length img < 2 ^ 31" and "length img < unat beg + unat count" and "unat count < 2 ^ 31"
  obtains bs i where "rd beg count = Some (bs, i)" and "ulong_to_int i \<noteq> ulong_to_int count"
proof (cases "unat beg \<le> length img")
  case True
  let ?k = "length img - unat beg"
  have "?k < 2 ^ LENGTH(64)" using assms(1) by simp
  then have k: "unat (of_nat ?k :: u64) = ?k" by (simp only: unat_of_nat mod_less)
  have "unat (ulong_to_int (of_nat ?k)) = ?k"
  proof -
    have "?k < 2 ^ 32" using assms(1) by simp
    then show ?thesis using k by (simp add: unat_ulong_to_int)
  qed
  moreover have "unat (ulong_to_int count) = unat count"
    using assms(3) by (simp add: unat_ulong_to_int)
  moreover have "?k \<noteq> unat count" using assms(2) True by simp
  ultimately have "ulong_to_int (of_nat ?k) \<noteq> ulong_to_int count" by metis
  moreover have "min (unat count) ?k = ?k" using assms(2) True by simp
  ultimately show ?thesis using rd_in [OF assms(1) True assms(3)] by (metis that)
next
  case False
  have "ulong_to_int (err_size EINVAL) \<noteq> ulong_to_int count"
  proof
    assume eq: "ulong_to_int (err_size EINVAL) = ulong_to_int count"
    have "unat (ulong_to_int count) < 2 ^ 31" using assms(3) by (simp add: unat_ulong_to_int)
    then have "ulong_to_int count < 0x80000000" by (simp add: word_less_nat_alt)
    moreover have "\<not> ulong_to_int (err_size EINVAL) < 0x80000000" by code_simp
    ultimately show False by (simp add: eq)
  qed
  then show ?thesis using rd_out [of beg count] False assms(1) that by simp
qed

end

subsection \<open>The drivers\<close>

record sdbmem =
  sm_address :: u64
  sm_datalen :: u64

definition sdbmem_read :: "mem \<Rightarrow> sdbmem \<Rightarrow> sdb_reader" where
  "sdbmem_read m fd beg count =
     (let len = sm_datalen fd in
      if len < ucast beg then Some ([], err_size EINVAL)
      else do {
        let count = (if len < ucast beg + count then len - ucast beg else count);
        bs \<leftarrow> load_bytes m (sm_address fd + ucast beg) (unat count);
        Some (bs, count) })"

text \<open>The firmware image: its data, at an address, and its \<open>size\<close>, which \<open>fakedev_read\<close> keeps
  in an \<open>int\<close>. Comparing it with \<open>begin\<close> is a 32-bit unsigned comparison, with a \<open>size_t\<close> a
  64-bit one.\<close>

record firmware =
  fw_data :: u64
  fw_size :: u64

definition fakedev_read :: "mem \<Rightarrow> firmware \<Rightarrow> sdb_reader" where
  "fakedev_read m fw beg count =
     (let len = ulong_to_int (fw_size fw) in
      if len < beg then Some ([], err_size EINVAL)
      else do {
        let count = (if int_to_ulong len < ucast beg + count then ucast (len - beg) else count);
        bs \<leftarrow> load_bytes m (fw_data fw + ucast beg) (unat count);
        Some (bs, count) })"

text \<open>The clipping of both drivers, on a mapped image.\<close>

lemma clip_word:
  fixes beg :: u32 and count len :: u64
  assumes len: "unat len = n" "n < 2 ^ 31" and b: "unat beg \<le> n" and c: "unat count < 2 ^ 31"
  defines "k \<equiv> if len < ucast beg + count then len - ucast beg else count"
  shows "unat k = min (unat count) (n - unat beg)"
proof -
  have "unat (ucast beg + count) = unat beg + unat count"
    using b c len(2) by (simp add: unat_word_ariths(1))
  moreover have "unat (len - ucast beg) = n - unat beg"
    using len b by (simp add: unat_sub word_le_nat_alt)
  ultimately show ?thesis
    using len by (auto simp: k_def word_less_nat_alt)
qed

lemma load_clip:
  assumes "length img < 2 ^ 31" and "unat beg \<le> length img"
    and "unat k = min n (length img - unat beg)"
  shows "load_bytes (image_at a img) (a + ucast beg) (unat k) = Some (chunk (unat beg) n img)"
proof -
  have "a + ucast beg = a + of_nat (unat beg)" by simp
  moreover have "chunk (unat beg) (unat k) img = chunk (unat beg) n img"
    using assms(3) by (simp add: chunk_def min_def)
  ultimately show ?thesis
    using load_bytes_image [of "unat beg" "unat k" img a] assms by simp
qed

interpretation iomem: sdb_backing
    "sdbmem_read (image_at a img) \<lparr>sm_address = a, sm_datalen = of_nat (length img)\<rparr>" img for a img
proof (unfold_locales, goal_cases)
  case (1 beg count)
  let ?len = "of_nat (length img) :: u64"
  define k where "k = (if ?len < ucast beg + count then ?len - ucast beg else count)"
  have len: "unat ?len = length img" using 1(1) by (simp add: unat_of_nat)
  have k: "unat k = min (unat count) (length img - unat beg)"
    unfolding k_def by (rule clip_word [OF len 1])
  have "k = of_nat (unat k)" by simp
  then have "k = of_nat (min (unat count) (length img - unat beg))" by (simp only: k)
  moreover have "\<not> ?len < ucast beg"
    using 1(2) len by (simp add: word_less_nat_alt)
  ultimately show ?case
    using load_clip [OF 1(1,2) k, of a]
    by (simp only: sdbmem_read_def sdbmem.simps Let_def k_def [symmetric] if_False bind.bind_lunit)
next
  case (2 beg count)
  then have "(of_nat (length img) :: u64) < ucast beg"
    by (simp add: word_less_nat_alt unat_of_nat)
  then show ?case by (simp add: sdbmem_read_def)
qed

interpretation fakedev: sdb_backing
    "fakedev_read (image_at a img) \<lparr>fw_data = a, fw_size = of_nat (length img)\<rparr>" img for a img
proof (unfold_locales, goal_cases)
  case (1 beg count)
  let ?len = "ulong_to_int (of_nat (length img))"
  have len32: "unat ?len = length img"
    using 1(1) by (simp add: ulong_to_int_def unsigned_ucast_eq unat_of_nat take_bit_nat_eq_self)
  have len: "unat (int_to_ulong ?len) = length img"
    using 1(1) len32 by (simp add: unat_int_to_ulong)
  define k where "k = (if int_to_ulong ?len < ucast beg + count then int_to_ulong ?len - ucast beg
    else count)"
  have k: "unat k = min (unat count) (length img - unat beg)"
    unfolding k_def by (rule clip_word [OF len 1])
  have le: "beg \<le> ?len" using 1(2) len32 by (simp add: word_le_nat_alt)
  have "unat (ucast (?len - beg) :: u64) = unat (int_to_ulong ?len - ucast beg)"
    using 1(2) len len32 le by (simp add: unat_sub word_le_nat_alt)
  then have "(ucast (?len - beg) :: u64) = int_to_ulong ?len - ucast beg"
    by (simp only: word_unat_eq_iff)
  then have k': "k = (if int_to_ulong ?len < ucast beg + count then ucast (?len - beg) else count)"
    by (simp add: k_def)
  have "k = of_nat (unat k)" by simp
  then have "k = of_nat (min (unat count) (length img - unat beg))" by (simp only: k)
  moreover have "\<not> ?len < beg" using le by simp
  ultimately show ?case
    using load_clip [OF 1(1,2) k, of a]
    by (simp only: fakedev_read_def firmware.simps Let_def k' [symmetric] if_False bind.bind_lunit)
next
  case (2 beg count)
  have "unat (ulong_to_int (of_nat (length img))) = length img"
    using 2(1) by (simp add: ulong_to_int_def unsigned_ucast_eq unat_of_nat take_bit_nat_eq_self)
  then have "ulong_to_int (of_nat (length img)) < beg" using 2 by (simp add: word_less_nat_alt)
  then show ?case by (simp add: fakedev_read_def)
qed

end
