(* ===== verification/SdbfsInode.thy ===== *)
theory SdbfsInode
  imports SdbfsClient
begin

text \<open>
  Directories and inodes of the kernel file system: src/sdbfs/kernel/sdbfs-inode.c and the
  structures of sdbfs-int.h. The kernel's own services are parameters: whether an allocation
  succeeds, what \<open>iget_locked\<close> returns, the \<open>filldir\<close> callback. Memory that the slab allocator
  hands out is not cleared, so a fresh inode is an argument. \<open>None\<close> is a fault: a device read
  that faults, a record the device claims to have stored but has not, a double free.
\<close>

subsection \<open>Structures\<close>

record sdbfs_info =
  inf_rec :: "u8 list"
  inf_name :: "u8 list"
  inf_namelen :: nat

text \<open>The \<open>files\<close> pointer: whatever fresh memory holds, freed memory, or an array.\<close>

datatype files_ptr = Wild | Freed | Files "sdbfs_info list"

datatype i_kind = NoKind | RegFile | Directory

record sdbfs_inode =
  k_rec :: "u8 list"
  nfiles :: int
  k_files :: files_ptr
  i_ino :: u64
  i_size :: u64
  i_kind :: i_kind
  base_data :: u64
  base_sdb :: u64

definition SDBFS_ROOT :: u64 where "SDBFS_ROOT = 1"

definition SDBFS_INO :: "u64 \<Rightarrow> u64" where "SDBFS_INO offset = offset + 2"

definition SDBFS_OFFSET :: "u64 \<Rightarrow> u64" where "SDBFS_OFFSET ino = ino AND NOT 15"

subsection \<open>Reading a directory\<close>

definition swap_words :: "endian \<Rightarrow> nat \<Rightarrow> u8 list \<Rightarrow> u8 list" where
  "swap_words e n p =
     concat (map (\<lambda>i. host_bytes e 4 (htonl e (host_word e (chunk (4 * i) 4 p)))) [0..<n])"

definition sdbfs_fix_endian :: "endian \<Rightarrow> sdbfs_dev \<Rightarrow> u8 list \<Rightarrow> u8 list" where
  "sdbfs_fix_endian e sd p =
     (if kd_flags sd AND SDBFS_F_FIXENDIAN = 0 then p
      else if length p mod 4 \<noteq> 0 then p
      else swap_words e (length p div 4) p)"

text \<open>\<open>strncpy\<close>: up to a zero byte, then zeros.\<close>

fun c_strncpy :: "nat \<Rightarrow> u8 list \<Rightarrow> u8 list" where
  "c_strncpy 0 s = []"
| "c_strncpy (Suc n) s =
     (case s of [] \<Rightarrow> replicate (Suc n) 0
      | c # s' \<Rightarrow> if c = 0 then replicate (Suc n) 0 else c # c_strncpy n s')"

text \<open>The loop that terminates the name after its last character that is not a space.\<close>

fun trim_name :: "nat \<Rightarrow> u8 list \<Rightarrow> u8 list \<times> nat" where
  "trim_name 0 name = (name, 0)"
| "trim_name (Suc j) name =
     (let name' = name[Suc j := 0]
      in if name' ! j \<noteq> 0x20 then (name', Suc j) else trim_name j name')"

definition make_info :: "endian \<Rightarrow> u8 list \<Rightarrow> sdbfs_info" where
  "make_info e r =
     (case trim_name 19 (c_strncpy 19 (p_name (c_product (d_component (load_device e r)))) @ [0]) of
        (name, len) \<Rightarrow> \<lparr>inf_rec = r, inf_name = name, inf_namelen = len\<rparr>)"

text \<open>One record; \<open>Inl\<close> when the device returned anything but its size.\<close>

definition read_record :: "endian \<Rightarrow> sdbfs_dev \<Rightarrow> u32 \<Rightarrow> (int + u8 list) option" where
  "read_record e sd offset = do {
     (bs, n) \<leftarrow> kd_read sd offset 64;
     if ulong_to_int n \<noteq> 64 then Some (Inl (- EIO))
     else if length bs \<noteq> 64 then None
     else Some (Inr (sdbfs_fix_endian e sd bs)) }"

fun read_files :: "endian \<Rightarrow> sdbfs_dev \<Rightarrow> u64 \<Rightarrow> nat \<Rightarrow> (int + sdbfs_info list) option" where
  "read_files e sd offset 0 = Some (Inr [])"
| "read_files e sd offset (Suc n) = do {
     r \<leftarrow> read_record e sd (ucast offset);
     (case r of
        Inl err \<Rightarrow> Some (Inl err)
      | Inr r \<Rightarrow> do {
          rest \<leftarrow> read_files e sd (offset + 64) n;
          Some (map_sum id (\<lambda>fs. make_info e r # fs) rest) }) }"

text \<open>\<open>ok1\<close> and \<open>ok2\<close>: the first and the second \<open>kmalloc\<close> succeed.\<close>

definition sdbfs_read_whole_dir ::
    "endian \<Rightarrow> bool \<Rightarrow> bool \<Rightarrow> sdbfs_dev \<Rightarrow> sdbfs_inode \<Rightarrow> (sdbfs_inode \<times> int) option" where
  "sdbfs_read_whole_dir e ok1 ok2 sd inode =
     (if nfiles inode \<noteq> 0 then Some (inode, 0)
      else if \<not> ok1 then Some (inode, - ENOMEM)
      else do {
        r \<leftarrow> read_record e sd (ucast (base_sdb inode));
        (case r of
           Inl err \<Rightarrow> Some (inode, err)
         | Inr r \<Rightarrow>
             (let ic = load_interconnect e r in
              if i_sdb_magic ic \<noteq> htonl e SDB_MAGIC then Some (inode, - EINVAL)
              else (let n = unat (ntohs e (i_sdb_records ic)) in
                if \<not> ok2 then Some (inode\<lparr>nfiles := 0\<rparr>, - ENOMEM)
                else do {
                  fs \<leftarrow> read_files e sd (base_sdb inode) n;
                  (case fs of
                     Inl err \<Rightarrow> Some (inode\<lparr>nfiles := 0, k_files := Freed\<rparr>, err)
                   | Inr fs \<Rightarrow> Some (inode\<lparr>nfiles := int n, k_files := Files fs\<rparr>, 0)) }))) })"

text \<open>\<open>sdbfs_destroy_inode\<close>: \<open>kfree\<close> of a wild or already freed pointer is a fault.\<close>

definition sdbfs_destroy_inode :: "sdbfs_inode \<Rightarrow> unit option" where
  "sdbfs_destroy_inode inode = (case k_files inode of Files fs \<Rightarrow> Some () | _ \<Rightarrow> None)"

subsection \<open>Listing a directory\<close>

datatype d_type = DT_DIR | DT_REG

text \<open>What \<open>filldir\<close> is called with: name, length, position, inode number, type. It returns
  whether the entry was accepted.\<close>

type_synonym dent = "u8 list \<times> nat \<times> nat \<times> u64 \<times> d_type"
type_synonym 's filldir = "'s \<Rightarrow> dent \<Rightarrow> 's \<times> bool"

text \<open>\<open>emit\<close>: the calls for a list of entries, stopping at the first refusal; the second
  component counts the accepted ones.\<close>

fun emit :: "'s filldir \<Rightarrow> 's \<Rightarrow> dent list \<Rightarrow> 's \<times> nat" where
  "emit fd s [] = (s, 0)"
| "emit fd s (d # ds) =
     (case fd s d of (s', ok) \<Rightarrow>
        if \<not> ok then (s', 0) else (case emit fd s' ds of (s'', n) \<Rightarrow> (s'', Suc n)))"

definition file_type :: "sdbfs_info \<Rightarrow> d_type" where
  "file_type info = (if e_record_type (load_empty (inf_rec info)) = sdb_type_bridge
     then DT_DIR else DT_REG)"

definition file_dent :: "sdbfs_inode \<Rightarrow> nat \<Rightarrow> sdbfs_info \<Rightarrow> dent" where
  "file_dent inode i info =
     (inf_name info, inf_namelen info, i + 2, SDBFS_INO (base_sdb inode), file_type info)"

definition dot_dents :: "sdbfs_inode \<Rightarrow> u64 \<Rightarrow> dent list" where
  "dot_dents inode parent_ino =
     [([0x2e], 1, 0, i_ino inode, DT_DIR), ([0x2e, 0x2e], 2, 1, parent_ino, DT_DIR)]"

definition files_of :: "sdbfs_inode \<Rightarrow> sdbfs_info list" where
  "files_of inode = (case k_files inode of Files fs \<Rightarrow> take (nat (nfiles inode)) fs | _ \<Rightarrow> [])"

text \<open>\<open>sdbfs_readdir\<close> from position \<open>pos\<close>: the new position, the callback's state, the number
  of entries emitted. The dot entries come before the directory is read; a failed read is
  ignored, and leaves no file to list.\<close>

definition sdbfs_readdir ::
    "endian \<Rightarrow> bool \<Rightarrow> bool \<Rightarrow> sdbfs_dev \<Rightarrow> u64 \<Rightarrow> 's filldir \<Rightarrow> 's \<Rightarrow> nat \<Rightarrow> sdbfs_inode
     \<Rightarrow> (sdbfs_inode \<times> 's \<times> nat \<times> nat) option" where
  "sdbfs_readdir e ok1 ok2 sd parent_ino fd s pos inode =
     (let dots = drop pos (dot_dents inode parent_ino) in
      case emit fd s dots of (s1, k) \<Rightarrow>
        if k < length dots then Some (inode, s1, pos + k, k)
        else do {
          (inode', ret) \<leftarrow> sdbfs_read_whole_dir e ok1 ok2 sd inode;
          let first = pos + k - 2;
          let ents = map (\<lambda>i. file_dent inode' i (files_of inode' ! i))
                       [first..<length (files_of inode')];
          (case emit fd s1 ents of (s2, m) \<Rightarrow> Some (inode', s2, pos + k + m, k + m)) })"

subsection \<open>Inodes\<close>

text \<open>\<open>iget_locked\<close>: no memory, an inode in the cache, or a new one (\<open>I_NEW\<close> set, locked).\<close>

datatype ilocked = NoInode | OldInode sdbfs_inode | NewInode sdbfs_inode

definition sdbfs_iget_root :: "endian \<Rightarrow> sdbfs_dev \<Rightarrow> sdbfs_inode \<Rightarrow> sdbfs_inode" where
  "sdbfs_iget_root e sd inode =
     inode\<lparr>k_rec := store_bridge e
             \<lparr>b_sdb_child = htonll e (kd_entrypoint sd),
              b_component = \<lparr>c_addr_first = 0, c_addr_last = htonll e (kd_size sd),
                c_product = \<lparr>p_vendor_id = 0, p_device_id = 0, p_version = 0, p_date = 0,
                  p_name = replicate 19 0, p_record_type = sdb_type_bridge\<rparr>\<rparr>\<rparr>,
           base_data := 0, base_sdb := kd_entrypoint sd,
           i_size := kd_size sd, i_kind := Directory\<rparr>"

text \<open>\<open>sdbfs_iget\<close>: the result, and whether a new inode was left locked.\<close>

definition iget_setup :: "endian \<Rightarrow> sdbfs_inode \<Rightarrow> u8 list \<Rightarrow> sdbfs_inode \<Rightarrow> sdbfs_inode" where
  "iget_setup e parent r inode =
     (let c = d_component (load_device e r);
          base = ntohll e (c_addr_first c);
          size = ntohll e (c_addr_last c) - base + 1;
          type = e_record_type (load_empty r);
          inode = inode\<lparr>k_rec := r\<rparr>
      in if type = sdb_type_interconnect \<or> type = sdb_type_device then
           inode\<lparr>i_kind := RegFile, i_size := size, base_data := base_data parent + base\<rparr>
         else if type = sdb_type_bridge then
           inode\<lparr>i_kind := Directory, base_data := base_data parent + base,
                 base_sdb := base_data parent + ntohll e (b_sdb_child (load_bridge e r))\<rparr>
         else inode)"

definition sdbfs_iget ::
    "endian \<Rightarrow> (u64 \<Rightarrow> ilocked) \<Rightarrow> sdbfs_dev \<Rightarrow> sdbfs_inode option \<Rightarrow> u64
     \<Rightarrow> ((int + sdbfs_inode) \<times> bool) option" where
  "sdbfs_iget e iget_locked sd parent inum =
     (case iget_locked inum of
        NoInode \<Rightarrow> Some (Inl (- ENOMEM), False)
      | OldInode ino \<Rightarrow> Some (Inr ino, False)
      | NewInode ino \<Rightarrow>
          (case parent of
             None \<Rightarrow> Some (Inr (sdbfs_iget_root e sd ino), False)
           | Some p \<Rightarrow> do {
               r \<leftarrow> read_record e sd (ucast (SDBFS_OFFSET inum));
               (case r of
                  Inl err \<Rightarrow> Some (Inl err, True)
                | Inr r \<Rightarrow> Some (Inr (iget_setup e p r ino), False)) }))"

text \<open>\<open>strncmp(info->name, name, len) == 0\<close> with equal lengths.\<close>

fun c_strncmp_eq :: "nat \<Rightarrow> u8 list \<Rightarrow> u8 list \<Rightarrow> bool" where
  "c_strncmp_eq 0 a b = True"
| "c_strncmp_eq (Suc n) a b =
     (case (a, b) of
        (x # a', y # b') \<Rightarrow> x = y \<and> (x = 0 \<or> c_strncmp_eq n a' b')
      | ([], []) \<Rightarrow> True
      | ([], y # _) \<Rightarrow> y = 0
      | (x # _, []) \<Rightarrow> x = 0)"

definition info_matches :: "u8 list \<Rightarrow> sdbfs_info \<Rightarrow> bool" where
  "info_matches name info \<longleftrightarrow>
     inf_namelen info = length name \<and> c_strncmp_eq (length name) (inf_name info) name"

fun first_match :: "(sdbfs_info \<Rightarrow> bool) \<Rightarrow> sdbfs_info list \<Rightarrow> nat" where
  "first_match P [] = 0"
| "first_match P (x # xs) = (if P x then 0 else Suc (first_match P xs))"

text \<open>\<open>sdbfs_lookup\<close>: the directory, and what is added to the dentry: nothing, or what
  \<open>sdbfs_iget\<close> returned (an error pointer included), with the inode left locked or not.\<close>

definition sdbfs_lookup ::
    "endian \<Rightarrow> bool \<Rightarrow> bool \<Rightarrow> (u64 \<Rightarrow> ilocked) \<Rightarrow> sdbfs_dev \<Rightarrow> sdbfs_inode \<Rightarrow> u8 list
     \<Rightarrow> (sdbfs_inode \<times> ((int + sdbfs_inode) \<times> bool) option) option" where
  "sdbfs_lookup e ok1 ok2 iget_locked sd dir name = do {
     (inode, ret) \<leftarrow> sdbfs_read_whole_dir e ok1 ok2 sd dir;
     let i = first_match (info_matches name) (files_of inode);
     if i \<noteq> length (files_of inode) then do {
       res \<leftarrow> sdbfs_iget e iget_locked sd (Some inode) (SDBFS_INO (base_sdb dir + 64 * of_nat i));
       Some (inode, Some res) }
     else Some (inode, None) }"

end
