(* ===== verification/SdbfsDir.thy ===== *)
theory SdbfsDir
  imports SdbfsInode
begin

text \<open>
  What directories of the kernel file system are, on a device with a backing store
  (\<open>sdb_backing\<close>): the records that follow an interconnect, each with its name stripped of the
  trailing spaces; reading, listing and looking up agree on them.
\<close>

subsection \<open>Names\<close>

definition rstrip :: "u8 list \<Rightarrow> u8 list" where
  "rstrip s = rev (dropWhile (\<lambda>c. c = 0x20) (rev s))"

lemma rstrip_snoc: "rstrip (s @ [c]) = (if c = 0x20 then rstrip s else s @ [c])"
  by (simp add: rstrip_def)

lemma rstrip_prefix: "\<exists>n. rstrip s = take n s \<and> n = length (rstrip s)"
proof (induction s rule: rev_induct)
  case (snoc c s)
  then obtain n where n: "rstrip s = take n s" "n = length (rstrip s)" by blast
  then have "n \<le> length s" by (metis length_take min.cobounded1)
  with n show ?case by (simp add: rstrip_snoc)
qed (simp add: rstrip_def)

lemma length_rstrip: "length (rstrip s) \<le> length s"
  using length_dropWhile_le [of "\<lambda>c. c = 0x20" "rev s"] by (simp add: rstrip_def)

lemma length_c_strncpy [simp]: "length (c_strncpy n s) = n"
  by (induction n s rule: c_strncpy.induct) (auto split: list.split)

lemma trim_name_rstrip:
  assumes "j < length name"
  shows "snd (trim_name j name) = length (rstrip (take j name))"
    and "take (snd (trim_name j name)) (fst (trim_name j name)) = rstrip (take j name)"
    and "length (fst (trim_name j name)) = length name"
    and "0 < snd (trim_name j name) \<Longrightarrow> fst (trim_name j name) ! snd (trim_name j name) = 0"
  using assms
proof (induction j arbitrary: name)
  case 0
  { case 1 show ?case by (simp add: rstrip_def) }
  { case 2 show ?case by (simp add: rstrip_def) }
  { case 3 show ?case by simp }
  { case 4 then show ?case by simp }
next
  case (Suc j)
  have take: "take (Suc j) name = take j name @ [name ! j]" if "Suc j < length name" for name :: "u8 list"
    using that by (simp add: take_Suc_conv_app_nth)
  { case 1 then show ?case
      using Suc(1) [of "name[Suc j := 0]"] by (simp add: Let_def take rstrip_snoc) }
  { case 2 then show ?case
      using Suc(2) [of "name[Suc j := 0]"] take by (auto simp: Let_def rstrip_snoc) }
  { case 3 then show ?case using Suc(3) [of "name[Suc j := 0]"] by (simp add: Let_def) }
  { case 4 then show ?case using Suc(4) [of "name[Suc j := 0]"] by (auto simp: Let_def split: if_splits) }
qed

text \<open>The name of a record, as the file system shows it.\<close>

definition shown_name :: "endian \<Rightarrow> u8 list \<Rightarrow> u8 list" where
  "shown_name e r = rstrip (c_strncpy 19 (p_name (c_product (d_component (load_device e r)))))"

lemma make_info_name:
  "inf_rec (make_info e r) = r"
  "inf_namelen (make_info e r) = length (shown_name e r)"
  "take (inf_namelen (make_info e r)) (inf_name (make_info e r)) = shown_name e r"
  "length (inf_name (make_info e r)) = 20"
  using trim_name_rstrip [of 19 "c_strncpy 19 (p_name (load_product e r)) @ [0]"]
  by (auto simp: make_info_def shown_name_def split: prod.split)

lemma c_strncmp_eq_take:
  "n \<le> length a \<Longrightarrow> n \<le> length b \<Longrightarrow> 0 \<notin> set (take n b) \<Longrightarrow>
   c_strncmp_eq n a b \<longleftrightarrow> take n a = take n b"
proof (induction n arbitrary: a b)
  case (Suc n)
  then obtain x a' y b' where "a = x # a'" "b = y # b'" by (metis Suc_le_length_iff)
  with Suc show ?case by auto
qed simp

lemma info_matches_name:
  assumes "0 \<notin> set name"
  shows "info_matches name (make_info e r) \<longleftrightarrow> shown_name e r = name"
proof -
  have "length (shown_name e r) \<le> 19"
    using length_rstrip [of "c_strncpy 19 (p_name (load_product e r))"] by (simp add: shown_name_def)
  then show ?thesis
    using assms make_info_name [of e r] c_strncmp_eq_take [of "length name" "inf_name (make_info e r)" name]
    by (auto simp: info_matches_def)
qed

lemma first_match_find:
  "first_match P xs = length (takeWhile (\<lambda>x. \<not> P x) xs)"
  by (induction xs) auto

subsection \<open>Emitting entries\<close>

text \<open>A callback that collects entries while there is room for \<open>n\<close>.\<close>

definition collector :: "nat \<Rightarrow> dent list filldir" where
  "collector n s d = (if length s < n then (s @ [d], True) else (s, False))"

lemma emit_collector:
  "length s \<le> n \<Longrightarrow>
   emit (collector n) s ds = (s @ take (n - length s) ds, min (n - length s) (length ds))"
proof (induction ds arbitrary: s)
  case (Cons d ds)
  then show ?case by (auto simp: collector_def take_Cons' min_def)
qed simp

text \<open>The entries of a directory: the two dots, then its files in order. The code never advances
  the offset that the inode number is made of: all files are listed with that of the first record.\<close>

definition all_dents :: "sdbfs_inode \<Rightarrow> u64 \<Rightarrow> dent list" where
  "all_dents inode parent_ino = dot_dents inode parent_ino
     @ map (\<lambda>i. file_dent inode i (files_of inode ! i)) [0..<length (files_of inode)]"

lemma same_dots: "i_ino inode' = i_ino inode \<Longrightarrow> dot_dents inode' p = dot_dents inode p"
  by (simp add: dot_dents_def)

lemma read_whole_dir_ino:
  "sdbfs_read_whole_dir e ok1 ok2 sd inode = Some (inode', ret) \<Longrightarrow>
   i_ino inode' = i_ino inode \<and> base_sdb inode' = base_sdb inode"
  by (auto simp: sdbfs_read_whole_dir_def Let_def split: if_splits Option.bind_splits sum.splits)

lemma readdir_collects:
  assumes "sdbfs_read_whole_dir e ok1 ok2 sd inode = Some (inode', ret)"
    and "pos \<le> length (all_dents inode' p)"
  shows "\<exists>inode''. sdbfs_readdir e ok1 ok2 sd p (collector n) [] pos inode =
    Some (inode'', take n (drop pos (all_dents inode' p)),
          pos + min n (length (all_dents inode' p) - pos), min n (length (all_dents inode' p) - pos))"
proof -
  note dots = same_dots [OF conjunct1 [OF read_whole_dir_ino [OF assms(1)]], of p]
  let ?files = "map (\<lambda>i. file_dent inode' i (files_of inode' ! i)) [0..<length (files_of inode')]"
  have two: "length (dot_dents inode p) = 2" by (simp add: dot_dents_def)
  have all: "all_dents inode' p = dot_dents inode p @ ?files" by (simp add: all_dents_def dots)
  define k where "k = min n (2 - pos)"
  have e1: "emit (collector n) [] (drop pos (dot_dents inode p)) = (take n (drop pos (dot_dents inode p)), k)"
    using emit_collector [of "[]" n "drop pos (dot_dents inode p)"] by (simp add: two k_def)
  show ?thesis
  proof (cases "k < 2 - pos")
    case True
    then have "n < 2 - pos" "k = n" by (auto simp: k_def)
    then show ?thesis
      using assms e1 by (simp add: sdbfs_readdir_def two all)
  next
    case False
    then have k: "k = 2 - pos" "2 - pos \<le> n" by (auto simp: k_def)
    let ?m = "min (n - k) (length (files_of inode') - (pos - 2))"
    have "pos + k - 2 = pos - 2" using k by simp
    then have ents: "map (\<lambda>i. file_dent inode' i (files_of inode' ! i)) [pos + k - 2..<length (files_of inode')]
        = drop (pos - 2) ?files"
      by (simp add: drop_map)
    have e2: "emit (collector n) (drop pos (dot_dents inode p)) (drop (pos - 2) ?files)
        = (drop pos (dot_dents inode p) @ take (n - k) (drop (pos - 2) ?files), ?m)"
      using emit_collector [of "drop pos (dot_dents inode p)" n "drop (pos - 2) ?files"] k
      by (simp add: two)
    have e1': "emit (collector n) [] (drop pos (dot_dents inode p)) = (drop pos (dot_dents inode p), k)"
      using e1 k by (simp add: two)
    have "sdbfs_readdir e ok1 ok2 sd p (collector n) [] pos inode = Some (inode',
        drop pos (dot_dents inode p) @ take (n - k) (drop (pos - 2) ?files), pos + k + ?m, k + ?m)"
      using False by (simp add: sdbfs_readdir_def e1' assms(1) two ents e2 Let_def)
    moreover have "take n (drop pos (all_dents inode' p))
        = drop pos (dot_dents inode p) @ take (n - k) (drop (pos - 2) ?files)"
      using k by (simp add: all two)
    moreover have "k + ?m = min n (length (all_dents inode' p) - pos)"
      using k assms(2) by (simp add: all two) linarith
    ultimately show ?thesis by (simp add: add.assoc)
  qed
qed

subsection \<open>Directories of an image\<close>

definition rec_at :: "endian \<Rightarrow> sdbfs_dev \<Rightarrow> u8 list \<Rightarrow> nat \<Rightarrow> u8 list" where
  "rec_at e sd img off = sdbfs_fix_endian e sd (chunk off 64 img)"

definition dir_magic :: "endian \<Rightarrow> sdbfs_dev \<Rightarrow> u8 list \<Rightarrow> nat \<Rightarrow> bool" where
  "dir_magic e sd img base \<longleftrightarrow> base + 64 \<le> length img
     \<and> i_sdb_magic (load_interconnect e (rec_at e sd img base)) = htonl e SDB_MAGIC"

definition dir_count :: "endian \<Rightarrow> sdbfs_dev \<Rightarrow> u8 list \<Rightarrow> nat \<Rightarrow> nat" where
  "dir_count e sd img base = unat (ntohs e (i_sdb_records (load_interconnect e (rec_at e sd img base))))"

definition dir_records :: "endian \<Rightarrow> sdbfs_dev \<Rightarrow> u8 list \<Rightarrow> nat \<Rightarrow> u8 list list" where
  "dir_records e sd img base = map (\<lambda>i. rec_at e sd img (base + 64 * i)) [0..<dir_count e sd img base]"

text \<open>A directory that lies in the image.\<close>

definition dir_ok :: "endian \<Rightarrow> sdbfs_dev \<Rightarrow> u8 list \<Rightarrow> nat \<Rightarrow> bool" where
  "dir_ok e sd img base \<longleftrightarrow> dir_magic e sd img base \<and> base + 64 * dir_count e sd img base \<le> length img"

lemma unat_ucast_down: "unat (w :: u64) < 2 ^ 32 \<Longrightarrow> unat (ucast w :: u32) = unat w"
  using unat_ulong_to_int by (simp add: ulong_to_int_def)

lemma unat_add_64:
  fixes w :: u64 assumes "unat w < 2 ^ 62" shows "unat (w + 64) = unat w + 64"
proof -
  have "unat w + unat (64 :: u64) < 2 ^ LENGTH(64)" using assms by simp
  then have "unat (w + 64) = unat w + unat (64 :: u64)" by (simp only: unat_add_lem)
  then show ?thesis by simp
qed

text \<open>The inode number of an aligned offset leads back to the offset.\<close>

lemma offset_of_ino:
  assumes "x AND 15 = 0" shows "SDBFS_OFFSET (SDBFS_INO x) = x"
proof -
  have two: "x AND 2 = (x AND 15) AND 2" by (simp add: and.assoc)
  have "x AND 2 = 0" unfolding two assms by simp
  then have sum: "x + 2 = x OR 2" using word_plus_and_or [of x 2] by simp
  have dist: "(a OR b) AND c = (a AND c) OR (b AND c)" for a b c :: u64
    by (rule bit_word_eqI) (auto simp: bit_simps)
  have split: "(a AND c) OR (a AND NOT c) = a" for a c :: u64
    by (rule bit_word_eqI) (auto simp: bit_simps)
  have "(2 :: u64) AND NOT 15 = 0" by code_simp
  then have "(x OR 2) AND NOT 15 = x AND NOT 15" by (simp only: dist or.right_neutral)
  also have "\<dots> = x" using split [of x 15] unfolding assms by (simp only: or.left_neutral)
  finally show ?thesis by (simp only: SDBFS_OFFSET_def SDBFS_INO_def sum)
qed

lemma aligned_record:
  fixes x :: u64 assumes "x AND 15 = 0" shows "(x + 64 * w) AND 15 = 0"
proof -
  have m: "y AND 15 = take_bit 4 y" for y :: u64 by (simp add: take_bit_eq_mask mask_eq_exp_minus_1)
  have "64 * w = push_bit 6 w" by (simp add: push_bit_eq_mult)
  then have "take_bit 4 (64 * w) = 0" by (simp add: take_bit_push_bit)
  moreover have "take_bit 4 x = 0" using assms by (simp only: m)
  ultimately have "take_bit 4 (take_bit 4 x + take_bit 4 (64 * w)) = 0" by simp
  moreover have "take_bit 4 (x + y) = take_bit 4 (take_bit 4 x + take_bit 4 y)" for x y :: u64
    by transfer (simp add: take_bit_add min_def)
  ultimately show ?thesis by (simp only: m)
qed

context sdb_backing
begin

lemma read_record_in:
  assumes "kd_read sd = rd" and "length img < 2 ^ 31" and "unat off + 64 \<le> length img"
  shows "read_record e sd off = Some (Inr (rec_at e sd img (unat off)))"
proof -
  have "rd off 64 = Some (chunk (unat off) (unat (64 :: u64)) img, 64)"
    using rd_full [OF assms(2), of off 64] assms(3) by simp
  then show ?thesis
    using assms(1,3) by (simp add: read_record_def ulong_to_int_def rec_at_def)
qed

lemma read_record_out:
  assumes "kd_read sd = rd" and "length img < 2 ^ 31" and "length img < unat off + 64"
  shows "read_record e sd off = Some (Inl (- EIO))"
proof -
  obtain bs i where "rd off 64 = Some (bs, i)" "ulong_to_int i \<noteq> ulong_to_int 64"
    using rd_short [OF assms(2), of off 64] assms(3) by auto
  then show ?thesis using assms(1) by (simp add: read_record_def ulong_to_int_def)
qed

lemma read_files_image:
  assumes sd: "kd_read sd = rd" and size: "length img < 2 ^ 31" and "unat offset \<le> length img"
  shows "read_files e sd offset n =
    Some (if unat offset + 64 * n \<le> length img
          then Inr (map (\<lambda>i. make_info e (rec_at e sd img (unat offset + 64 * i))) [0..<n])
          else Inl (- EIO))"
  using assms(3)
proof (induction n arbitrary: offset)
  case 0
  then show ?case by simp
next
  case (Suc n)
  have off: "unat (ucast offset :: u32) = unat offset"
    using Suc.prems size by (simp add: unat_ucast_down)
  show ?case
  proof (cases "unat offset + 64 \<le> length img")
    case False
    then show ?thesis using read_record_out [OF sd size, of "ucast offset" e] off by simp
  next
    case True
    have next_off: "unat (offset + 64) = unat offset + 64"
      using Suc.prems size by (simp add: unat_add_64)
    have "[0..<Suc n] = 0 # map Suc [0..<n]" by (simp add: map_Suc_upt upt_conv_Cons)
    then show ?thesis
      using True read_record_in [OF sd size, of "ucast offset" e] off next_off Suc.IH [of "offset + 64"]
      by (simp add: o_def add.assoc del: upt_Suc)
  qed
qed

text \<open>Every outcome of reading a directory.\<close>

lemma read_whole_dir_image:
  assumes sd: "kd_read sd = rd" and size: "length img < 2 ^ 31"
    and new: "nfiles inode = 0" and base: "unat (base_sdb inode) < 2 ^ 32"
  shows "sdbfs_read_whole_dir e True True sd inode = Some
    (if length img < unat (base_sdb inode) + 64 then (inode, - EIO)
     else if \<not> dir_magic e sd img (unat (base_sdb inode)) then (inode, - EINVAL)
     else if \<not> dir_ok e sd img (unat (base_sdb inode))
       then (inode\<lparr>nfiles := 0, k_files := Freed\<rparr>, - EIO)
     else (inode\<lparr>nfiles := int (dir_count e sd img (unat (base_sdb inode))),
             k_files := Files (map (make_info e) (dir_records e sd img (unat (base_sdb inode))))\<rparr>, 0))"
proof -
  let ?b = "unat (base_sdb inode)"
  have off: "unat (ucast (base_sdb inode) :: u32) = ?b" using base by (rule unat_ucast_down)
  show ?thesis
  proof (cases "length img < ?b + 64")
    case True
    then show ?thesis
      using read_record_out [OF sd size, of "ucast (base_sdb inode)" e] off new
      by (simp add: sdbfs_read_whole_dir_def)
  next
    case False
    have "read_record e sd (ucast (base_sdb inode)) = Some (Inr (rec_at e sd img ?b))"
      using read_record_in [OF sd size, of "ucast (base_sdb inode)" e] off False by simp
    moreover have "read_files e sd (base_sdb inode) (dir_count e sd img ?b) = Some
        (if ?b + 64 * dir_count e sd img ?b \<le> length img
         then Inr (map (make_info e) (dir_records e sd img ?b)) else Inl (- EIO))"
      using read_files_image [OF sd size, of "base_sdb inode" e] False
      by (simp add: dir_records_def o_def)
    ultimately show ?thesis
      using False new
      by (auto simp: sdbfs_read_whole_dir_def dir_magic_def dir_ok_def dir_count_def Let_def)
  qed
qed

text \<open>Looking up a name: the inode of the first record shown under it.\<close>

lemma lookup_image:
  assumes sd: "kd_read sd = rd" and size: "length img < 2 ^ 31"
    and new: "nfiles dir = 0" and aligned: "base_sdb dir AND 15 = 0"
    and ok: "dir_ok e sd img (unat (base_sdb dir))"
    and name: "0 \<notin> set name" and fresh: "\<And>ino. ig ino = NewInode node"
  defines "rs \<equiv> dir_records e sd img (unat (base_sdb dir))"
  defines "dir' \<equiv> dir\<lparr>nfiles := int (length rs), k_files := Files (map (make_info e) rs)\<rparr>"
  shows "sdbfs_lookup e True True ig sd dir name = Some (dir',
    case find (\<lambda>r. shown_name e r = name) rs of
      None \<Rightarrow> None
    | Some r \<Rightarrow> Some (Inr (iget_setup e dir' r node), False))"
proof -
  let ?b = "unat (base_sdb dir)"
  define i where "i = first_match (info_matches name) (map (make_info e) rs)"
  have b: "?b + 64 \<le> length img" using ok by (simp add: dir_ok_def dir_magic_def)
  have read: "sdbfs_read_whole_dir e True True sd dir = Some (dir', 0)"
    using read_whole_dir_image [OF sd size new, of e] ok b size
    by (simp add: dir_ok_def dir'_def rs_def dir_records_def)
  have files: "files_of dir' = map (make_info e) rs" by (simp add: files_of_def dir'_def)
  have i: "i = length (takeWhile (\<lambda>r. shown_name e r \<noteq> name) rs)"
    by (simp add: i_def first_match_find info_matches_name [OF name] takeWhile_map o_def)
  show ?thesis
  proof (cases "i = length rs")
    case True
    then have "takeWhile (\<lambda>r. shown_name e r \<noteq> name) rs = rs"
      unfolding i by (metis takeWhile_eq_take take_all_iff order_refl)
    then have "find (\<lambda>r. shown_name e r = name) rs = None"
      by (simp add: find_None_iff takeWhile_eq_all_conv)
    then show ?thesis using True read by (simp add: sdbfs_lookup_def files i_def [symmetric])
  next
    case False
    then have il: "i < length rs" unfolding i by (simp add: length_takeWhile_le le_neq_implies_less)
    then have found: "find (\<lambda>r. shown_name e r = name) rs = Some (rs ! i)"
      unfolding i find_Some_iff
      by (metis (mono_tags, lifting) nth_length_takeWhile takeWhile_nth nth_mem set_takeWhileD)
    have small: "?b + 64 * i + 64 \<le> length img"
      using ok il by (simp add: dir_ok_def rs_def dir_records_def)
    have pos: "unat (base_sdb dir + 64 * of_nat i) = ?b + 64 * i"
    proof -
      have "base_sdb dir + 64 * of_nat i = of_nat (?b + 64 * i)" by simp
      moreover have "?b + 64 * i < 2 ^ LENGTH(64)" using small size by simp
      ultimately show ?thesis by (metis unat_of_nat mod_less)
    qed
    let ?off = "SDBFS_OFFSET (SDBFS_INO (base_sdb dir + 64 * of_nat i))"
    have "?off = base_sdb dir + 64 * of_nat i"
      by (rule offset_of_ino [OF aligned_record [OF aligned]])
    then have off: "unat (ucast ?off :: u32) = ?b + 64 * i"
      using pos small size by (simp add: unat_ucast_down)
    have "read_record e sd (ucast ?off) = Some (Inr (rs ! i))"
      using read_record_in [OF sd size, of "ucast ?off" e] off small il
      by (simp add: rs_def dir_records_def)
    then show ?thesis
      using False read found
      by (simp add: sdbfs_lookup_def files i_def [symmetric] sdbfs_iget_def fresh)
  qed
qed

end

end
