(* ===== verification/SdbfsFile.thy ===== *)
theory SdbfsFile
  imports SdbfsDir
begin

text \<open>
  Regular files and mounting: src/sdbfs/kernel/sdbfs-file.c and sdbfs-core.c. The user buffer is
  the list of bytes copied to it, in order. Whether a copy to user space succeeds is a parameter,
  indexed by the bytes copied so far; so are the kernel's answers while mounting.

  The loop of \<open>sdbfs_read\<close> does not advance the offset it reads from: the lemmas show that up to
  16 bytes are read as they should be, and what a longer read returns.
\<close>

subsection \<open>Reading a file\<close>

partial_function (option) read_loop ::
    "sdb_reader \<Rightarrow> (nat \<Rightarrow> bool) \<Rightarrow> u32 \<Rightarrow> u64 \<Rightarrow> u8 list \<Rightarrow> u64 \<Rightarrow> (u8 list \<times> (u64 + u64)) option" where
  "read_loop rd copy_ok from count out dn =
     (if \<not> dn < count then Some (out, Inr dn)
      else (case rd from (if count < 16 then count else 16) of
          None \<Rightarrow> None
        | Some (bs, i) \<Rightarrow>
            if sint i < 0 then Some (out, Inl (if dn \<noteq> 0 then dn else i))
            else if 16 < unat i \<or> length bs < unat i then None
            else if \<not> copy_ok (unat dn) then Some (out, Inl (err_size EFAULT))
            else if i \<noteq> (if count < 16 then count else 16)
              then Some (out @ take (unat i) bs, Inr (dn + i))
            else read_loop rd copy_ok from count (out @ take (unat i) bs) (dn + i)))"

text \<open>The result: the bytes copied, the new offset, the return value. \<open>Inl\<close> of the loop is a
  return from inside it, which leaves the offset alone.\<close>

definition sdbfs_read ::
    "endian \<Rightarrow> (nat \<Rightarrow> bool) \<Rightarrow> sdbfs_dev \<Rightarrow> u8 list \<Rightarrow> u64 \<Rightarrow> u64 \<Rightarrow> (u8 list \<times> u64 \<times> u64) option" where
  "sdbfs_read e copy_ok sd r off count =
     (let c = d_component (load_device e r);
          start = ntohll e (c_addr_first c);
          size = ntohll e (c_addr_last c) + 1 - start
      in if size < off then Some ([], off, 0)
         else do {
           let count = (if size < off + count then size - off else count);
           (out, res) \<leftarrow> read_loop (kd_read sd) copy_ok (ucast (start + off)) count [] 0;
           (case res of
              Inl ret \<Rightarrow> Some (out, off, ret)
            | Inr dn \<Rightarrow> Some (out, off + dn, dn)) })"

text \<open>Where a record's file lies: from its first address, and how long it is.\<close>

definition file_start :: "endian \<Rightarrow> u8 list \<Rightarrow> u64" where
  "file_start e r = ntohll e (c_addr_first (d_component (load_device e r)))"

definition file_size :: "endian \<Rightarrow> u8 list \<Rightarrow> u64" where
  "file_size e r = ntohll e (c_addr_last (d_component (load_device e r))) + 1 - file_start e r"

text \<open>A position within a file of the image; \<open>c\<close> is the count after clipping.\<close>

definition clipped :: "endian \<Rightarrow> u8 list \<Rightarrow> u64 \<Rightarrow> u64 \<Rightarrow> nat" where
  "clipped e r off count = min (unat count) (unat (file_size e r) - unat off)"

definition file_in :: "endian \<Rightarrow> u8 list \<Rightarrow> u8 list \<Rightarrow> u64 \<Rightarrow> bool" where
  "file_in e img r off \<longleftrightarrow> unat off \<le> unat (file_size e r)
     \<and> unat (file_start e r) + unat (file_size e r) \<le> length img \<and> length img < 2 ^ 31"

lemma sint_u64_small: "unat (x :: u64) < 2 ^ 63 \<Longrightarrow> \<not> sint x < 0"
proof -
  assume "unat x < 2 ^ 63"
  then have "\<not> bit (unat x) 63" by (simp add: bit_iff_odd)
  then have "\<not> bit x 63" by (simp add: bit_unsigned_iff)
  then show ?thesis using bit_last_iff [of x] by simp
qed

text \<open>The part of the loop both cases share: one transfer of \<open>n\<close> bytes.\<close>

lemma read_loop_done: "\<not> dn < count \<Longrightarrow> read_loop rd cp from count out dn = Some (out, Inr dn)"
  by (subst read_loop.simps) simp

context sdb_backing
begin

lemma read_loop_step:
  assumes "length img < 2 ^ 31" and "dn < count"
    and n: "n = (if count < 16 then count else 16)" and "unat from + unat n \<le> length img"
  shows "read_loop rd (\<lambda>_. True) from count out dn =
    read_loop rd (\<lambda>_. True) from count (out @ chunk (unat from) (unat n) img) (dn + n)"
proof -
  have n16: "unat n \<le> 16" by (auto simp: n word_less_nat_alt)
  have "rd from n = Some (chunk (unat from) (unat n) img, n)"
    using rd_full assms(1,4) by blast
  moreover have "\<not> sint n < 0" using n16 by (intro sint_u64_small) simp
  moreover have "length (chunk (unat from) (unat n) img) = unat n" using assms(4) by simp
  ultimately show ?thesis
    using assms(2) n16 by (subst read_loop.simps) (simp add: n [symmetric])
qed

lemma read_loop_small:
  assumes "length img < 2 ^ 31" and "unat count \<le> 16" and "unat from + unat count \<le> length img"
  shows "read_loop rd (\<lambda>_. True) from count [] 0 = Some (chunk (unat from) (unat count) img, Inr count)"
proof (cases "count = 0")
  case True
  then show ?thesis by (simp add: read_loop_done)
next
  case False
  have "count = (if count < 16 then count else 16)"
    using assms(2) by (auto simp: word_less_nat_alt word_unat_eq_iff)
  moreover have "0 < count" using False by (simp add: word_gt_0)
  ultimately have "read_loop rd (\<lambda>_. True) from count [] 0 =
      read_loop rd (\<lambda>_. True) from count ([] @ chunk (unat from) (unat count) img) (0 + count)"
    using assms(1,3) by (intro read_loop_step)
  then show ?thesis by (simp add: read_loop_done)
qed

lemma read_loop_repeats:
  assumes "length img < 2 ^ 31" and "16 \<le> unat count" and "unat count < 2 ^ 31"
    and "unat from + 16 \<le> length img" and "m = (unat count + 15) div 16" and "k \<le> m"
  shows "read_loop rd (\<lambda>_. True) from count out (of_nat (16 * k)) =
    Some (out @ concat (replicate (m - k) (chunk (unat from) 16 img)), Inr (of_nat (16 * m)))"
  using assms(6)
proof (induction "m - k" arbitrary: k out)
  case 0
  have "16 * m < 2 ^ LENGTH(64)" using assms(3,5) by simp
  then have "unat (of_nat (16 * m) :: u64) = 16 * m" by (simp only: unat_of_nat mod_less)
  then have "\<not> of_nat (16 * m) < count" using assms(5) by (simp only: word_less_nat_alt)
  moreover have "k = m" using 0 by simp
  ultimately show ?case by (simp add: read_loop_done)
next
  case (Suc x)
  then have k: "k < m" "x = m - Suc k" by auto
  have "16 * k < 2 ^ LENGTH(64)" using k(1) assms(3,5) by simp
  then have "unat (of_nat (16 * k) :: u64) = 16 * k" by (simp only: unat_of_nat mod_less)
  then have less: "of_nat (16 * k) < count" using assms(5) k(1) by (simp only: word_less_nat_alt)
  have n: "16 = (if count < 16 then count else 16)" using assms(2) by (simp add: word_less_nat_alt)
  have "unat from + unat (16 :: u64) \<le> length img" using assms(4) by simp
  then have "read_loop rd (\<lambda>_. True) from count out (of_nat (16 * k)) =
      read_loop rd (\<lambda>_. True) from count (out @ chunk (unat from) (unat (16 :: u64)) img) (of_nat (16 * k) + 16)"
    by (rule read_loop_step [OF assms(1) less n])
  also have "of_nat (16 * k) + 16 = (of_nat (16 * Suc k) :: u64)" by simp
  also have "read_loop rd (\<lambda>_. True) from count (out @ chunk (unat from) (unat (16 :: u64)) img)
      (of_nat (16 * Suc k)) = Some ((out @ chunk (unat from) (unat (16 :: u64)) img)
        @ concat (replicate (m - Suc k) (chunk (unat from) 16 img)), Inr (of_nat (16 * m)))"
    using Suc.hyps(1) [OF k(2)] k(1) by simp
  finally have "read_loop rd (\<lambda>_. True) from count out (of_nat (16 * k)) =
      Some ((out @ chunk (unat from) 16 img) @ concat (replicate x (chunk (unat from) 16 img)),
        Inr (of_nat (16 * m)))"
    using k(2) by simp
  then show ?case using Suc.hyps(2) [symmetric] by simp
qed

end

text \<open>The values of the range check in \<^const>\<open>sdbfs_read\<close>.\<close>

lemma clip_count:
  assumes "file_in e img r off" and "unat count < 2 ^ 31"
  shows "\<not> file_size e r < off"
    and "unat (if file_size e r < off + count then file_size e r - off else count) = clipped e r off count"
    and "unat (ucast (file_start e r + off) :: u32) = unat (file_start e r) + unat off"
proof -
  have le: "unat off \<le> unat (file_size e r)"
    and bound: "unat (file_start e r) + unat (file_size e r) < 2 ^ 31"
    using assms(1) by (auto simp: file_in_def)
  then show "\<not> file_size e r < off" by (simp add: word_less_nat_alt)
  have "unat off + unat count < 2 ^ LENGTH(64)" using le bound assms(2) by simp
  then have "unat (off + count) = unat off + unat count" by (simp only: unat_add_lem)
  moreover have "unat (file_size e r - off) = unat (file_size e r) - unat off"
    using le by (simp add: unat_sub word_le_nat_alt)
  ultimately show "unat (if file_size e r < off + count then file_size e r - off else count)
      = clipped e r off count"
    using le by (auto simp: clipped_def word_less_nat_alt)
  have "unat (file_start e r) + unat off < 2 ^ LENGTH(64)" using le bound by simp
  then have "unat (file_start e r + off) = unat (file_start e r) + unat off" by (simp only: unat_add_lem)
  then show "unat (ucast (file_start e r + off) :: u32) = unat (file_start e r) + unat off"
    using le bound by (simp add: unat_ucast_down)
qed

lemma sdbfs_read_unfold:
  assumes "file_in e img r off" and "unat count < 2 ^ 31"
  shows "sdbfs_read e cp sd r off count = do {
    (out, res) \<leftarrow> read_loop (kd_read sd) cp (ucast (file_start e r + off))
      (of_nat (clipped e r off count)) [] 0;
    (case res of Inl ret \<Rightarrow> Some (out, off, ret) | Inr dn \<Rightarrow> Some (out, off + dn, dn)) }"
proof -
  define c where "c = (if file_size e r < off + count then file_size e r - off else count)"
  have "unat c = clipped e r off count" unfolding c_def by (rule clip_count(2) [OF assms])
  moreover have "c = of_nat (unat c)" by simp
  ultimately have c: "c = of_nat (clipped e r off count)" by (simp only:)
  have "sdbfs_read e cp sd r off count = do {
    (out, res) \<leftarrow> read_loop (kd_read sd) cp (ucast (file_start e r + off)) c [] 0;
    (case res of Inl ret \<Rightarrow> Some (out, off, ret) | Inr dn \<Rightarrow> Some (out, off + dn, dn)) }"
    using clip_count(1) [OF assms]
    by (simp only: sdbfs_read_def Let_def file_size_def file_start_def c_def if_False)
  then show ?thesis by (simp only: c)
qed

context sdb_backing
begin

lemma sdbfs_read_small:
  assumes "kd_read sd = rd" and "file_in e img r off" and "unat count < 2 ^ 31"
    and "clipped e r off count \<le> 16"
  shows "sdbfs_read e (\<lambda>_. True) sd r off count = Some
    (chunk (unat (file_start e r) + unat off) (clipped e r off count) img,
     off + of_nat (clipped e r off count), of_nat (clipped e r off count))"
proof -
  have u: "unat (of_nat (clipped e r off count) :: u64) = clipped e r off count"
    using assms(4) by (simp add: unat_of_nat)
  have "unat (ucast (file_start e r + off) :: u32) + clipped e r off count \<le> length img"
    using clip_count(3) [OF assms(2,3)] assms(2) by (simp add: file_in_def clipped_def) linarith
  then show ?thesis
    using read_loop_small [of "of_nat (clipped e r off count)" "ucast (file_start e r + off)"]
      assms clip_count(3) [OF assms(2,3)]
    by (simp add: sdbfs_read_unfold [OF assms(2,3)] u file_in_def)
qed

lemma sdbfs_read_repeats:
  assumes "kd_read sd = rd" and "file_in e img r off" and "unat count < 2 ^ 31"
    and "16 \<le> clipped e r off count" and "m = (clipped e r off count + 15) div 16"
  shows "sdbfs_read e (\<lambda>_. True) sd r off count = Some
    (concat (replicate m (chunk (unat (file_start e r) + unat off) 16 img)),
     off + of_nat (16 * m), of_nat (16 * m))"
proof -
  have small: "clipped e r off count < 2 ^ 31" using assms(3) by (simp add: clipped_def)
  then have "clipped e r off count < 2 ^ LENGTH(64)" by simp
  then have u: "unat (of_nat (clipped e r off count) :: u64) = clipped e r off count"
    by (simp only: unat_of_nat mod_less)
  have fits: "unat (ucast (file_start e r + off) :: u32) + 16 \<le> length img" "length img < 2 ^ 31"
    using clip_count(3) [OF assms(2,3)] assms(2,4) by (auto simp: file_in_def clipped_def)
  have "read_loop rd (\<lambda>_. True) (ucast (file_start e r + off)) (of_nat (clipped e r off count)) []
      (of_nat (16 * 0)) = Some ([] @ concat (replicate (m - 0)
        (chunk (unat (ucast (file_start e r + off) :: u32)) 16 img)), Inr (of_nat (16 * m)))"
    by (rule read_loop_repeats) (use assms fits small u in auto)
  then show ?thesis
    using assms(1) clip_count(3) [OF assms(2,3)] by (simp add: sdbfs_read_unfold [OF assms(2,3)])
qed

end

subsection \<open>Mounting\<close>

text \<open>The parts of \<open>struct super_block\<close> the code sets.\<close>

record super_block =
  s_fs_info :: u64
  s_root :: "sdbfs_inode option"

text \<open>\<open>sdbfs_fill_super\<close>: \<open>garbage\<close> is what the uninitialised \<open>magic\<close> holds, \<open>root_ok\<close> whether
  \<open>d_make_root\<close> succeeds.\<close>

definition fill_root ::
    "endian \<Rightarrow> (u64 \<Rightarrow> ilocked) \<Rightarrow> bool \<Rightarrow> client \<Rightarrow> super_block \<Rightarrow> u64 \<Rightarrow> sdbfs_dev
     \<Rightarrow> (client \<times> super_block \<times> int) option" where
  \<comment> \<open>from the root inode on\<close>
  "fill_root e iget_locked root_ok C sb p d = do {
     (ino, locked) \<leftarrow> sdbfs_iget e iget_locked d None SDBFS_ROOT;
     (case ino of
        Inl err \<Rightarrow> do { C \<leftarrow> sdbfs_put C p; Some (C, sb, err) }
      | Inr inode \<Rightarrow>
          if \<not> root_ok then do { C \<leftarrow> sdbfs_put C p; Some (C, sb, - ENOMEM) }
          else Some (C, sb\<lparr>s_root := Some inode\<rparr>, 0)) }"

definition sdbfs_fill_super ::
    "endian \<Rightarrow> (nat \<Rightarrow> bool) \<Rightarrow> (u64 \<Rightarrow> ilocked) \<Rightarrow> bool \<Rightarrow> u8 list \<Rightarrow> client \<Rightarrow> super_block
     \<Rightarrow> u8 list \<Rightarrow> (client \<times> super_block \<times> int) option" where
  "sdbfs_fill_super e try_module_get iget_locked root_ok garbage C sb name = do {
     (C, r) \<leftarrow> sdbfs_get_by_name try_module_get C name;
     (case r of
        Inl err \<Rightarrow> Some (C, sb, err)
      | Inr p \<Rightarrow> do {
          d \<leftarrow> kd_heap C p;
          let sb = sb\<lparr>s_fs_info := p\<rparr>;
          (bs, i) \<leftarrow> kd_read d (ucast (kd_entrypoint d)) 4;
          let magic = host_word e (overlay bs garbage);
          if magic = ntohl e SDB_MAGIC then fill_root e iget_locked root_ok C sb p d
          else if magic = SDB_MAGIC then
            (let d = d\<lparr>kd_flags := kd_flags d OR SDBFS_F_FIXENDIAN\<rparr>
             in fill_root e iget_locked root_ok (C\<lparr>kd_heap := (kd_heap C)(p \<mapsto> d)\<rparr>) sb p d)
          else Some (C, sb, - EINVAL) }) }"

definition sdbfs_kill_sb :: "client \<Rightarrow> super_block \<Rightarrow> client option" where
  "sdbfs_kill_sb C sb = (if s_fs_info sb \<noteq> 0 then sdbfs_put C (s_fs_info sb) else Some C)"

text \<open>\<open>sdbfs_mount\<close> leaves it to the kernel's \<open>mount_single\<close> to call \<open>sdbfs_fill_super\<close>, with the name of
  the device as its data; \<open>'k\<close> is the kernel's state, \<open>'r\<close> what it returns.\<close>

definition sdbfs_mount ::
    "((client \<Rightarrow> super_block \<Rightarrow> u8 list \<Rightarrow> (client \<times> super_block \<times> int) option) \<Rightarrow> u8 list \<Rightarrow> 'k \<Rightarrow> 'r)
     \<Rightarrow> endian \<Rightarrow> (nat \<Rightarrow> bool) \<Rightarrow> (u64 \<Rightarrow> ilocked) \<Rightarrow> bool \<Rightarrow> u8 list \<Rightarrow> u8 list \<Rightarrow> 'k \<Rightarrow> 'r" where
  "sdbfs_mount mount_single e try_module_get iget_locked root_ok garbage name K =
     mount_single (sdbfs_fill_super e try_module_get iget_locked root_ok garbage) name K"

text \<open>Looking a device up takes one reference to its module, and nothing else changes.\<close>

lemma scan_names_member: "scan_names C n xs = Some (Some p) \<Longrightarrow> p \<in> set xs"
  by (induction xs) (auto split: option.splits if_splits)

lemma get_by_name_cases:
  assumes "sdbfs_get_by_name tmg C name = Some (C1, r)"
  obtains "r = Inl (- ENOENT)" and "C1 = C"
  | p d where "r = Inr p" and "p \<in> set (sdbfs_devlist C)" and "kd_heap C p = Some d"
      and "C1 = C\<lparr>mod_refs := (mod_refs C)(kd_owner d := mod_refs C (kd_owner d) + 1)\<rparr>"
proof -
  from assms obtain q where q: "scan_names C name (sdbfs_devlist C) = Some q"
    by (auto simp: sdbfs_get_by_name_def bind_eq_Some_conv)
  show ?thesis
  proof (cases q)
    case None
    then show ?thesis using assms q that(1) by (simp add: sdbfs_get_by_name_def)
  next
    case (Some p)
    with q have "p \<in> set (sdbfs_devlist C)" by (simp add: scan_names_member)
    then show ?thesis
      using assms q Some that by (auto simp: sdbfs_get_by_name_def bind_eq_Some_conv split: if_splits)
  qed
qed

lemma put_owner:
  "kd_heap C p = Some d \<Longrightarrow> sdbfs_put C p =
     Some (C\<lparr>mod_refs := (mod_refs C)(kd_owner d := mod_refs C (kd_owner d) - 1)\<rparr>)"
  by (simp add: sdbfs_put_def)

text \<open>What a mount attempt leaves behind: the reference, unless it was dropped already.\<close>

lemma fill_root_outcome:
  assumes "fill_root e ig root_ok C sb p d = Some (C1, sb1, ret)" and "kd_heap C p = Some d"
  shows "s_fs_info sb1 = s_fs_info sb \<and> kd_heap C1 = kd_heap C \<and> ret \<noteq> - EINVAL \<and>
    mod_refs C1 = (if ret = 0 then mod_refs C
      else (mod_refs C)(kd_owner d := mod_refs C (kd_owner d) - 1))"
  using assms
  by (auto simp: fill_root_def sdbfs_iget_def put_owner errno_defs split: ilocked.splits if_splits)

lemma fill_super_outcome:
  assumes "sdbfs_fill_super e tmg ig root_ok garbage C sb name = Some (C1, sb1, ret)"
  shows "(C1, sb1, ret) = (C, sb, - ENOENT) \<or>
    (\<exists>p d d'. p \<in> set (sdbfs_devlist C) \<and> kd_heap C p = Some d \<and> s_fs_info sb1 = p
       \<and> kd_heap C1 p = Some d' \<and> kd_owner d' = kd_owner d
       \<and> mod_refs C1 = (if ret = 0 \<or> ret = - EINVAL
           then (mod_refs C)(kd_owner d := mod_refs C (kd_owner d) + 1) else mod_refs C))"
proof -
  from assms obtain C0 r where get: "sdbfs_get_by_name tmg C name = Some (C0, r)"
    by (auto simp: sdbfs_fill_super_def bind_eq_Some_conv)
  from get show ?thesis
  proof (cases rule: get_by_name_cases)
    case 1
    then show ?thesis using assms get by (simp add: sdbfs_fill_super_def)
  next
    case (2 p d)
    let ?sb = "sb\<lparr>s_fs_info := p\<rparr>" and ?d = "d\<lparr>kd_flags := kd_flags d OR SDBFS_F_FIXENDIAN\<rparr>"
    from assms get 2(1,3,4) consider
        (big) "fill_root e ig root_ok C0 ?sb p d = Some (C1, sb1, ret)"
      | (little) "fill_root e ig root_ok (C0\<lparr>kd_heap := (kd_heap C0)(p \<mapsto> ?d)\<rparr>) ?sb p ?d = Some (C1, sb1, ret)"
      | (bad) "C1 = C0" "sb1 = ?sb" "ret = - EINVAL"
      by (auto simp: sdbfs_fill_super_def Let_def bind_eq_Some_conv split: if_splits)
    then show ?thesis
    proof cases
      case big
      from fill_root_outcome [OF big] 2 show ?thesis by auto
    next
      case little
      from fill_root_outcome [OF little] 2 show ?thesis by auto
    next
      case bad
      then show ?thesis using 2 by auto
    qed
  qed
qed

text \<open>The references held after a mount attempt and the release of its super block, which the
  kernel does also when the attempt failed.\<close>

lemma mount_refs:
  assumes "sdbfs_fill_super e tmg ig root_ok garbage C \<lparr>s_fs_info = 0, s_root = None\<rparr> name
      = Some (C1, sb, ret)"
    and kill: "sdbfs_kill_sb C1 sb = Some C2" and nz: "0 \<notin> set (sdbfs_devlist C)"
  shows "if s_fs_info sb = 0 \<or> ret = 0 \<or> ret = - EINVAL then mod_refs C2 = mod_refs C
    else \<exists>d. kd_heap C (s_fs_info sb) = Some d
      \<and> mod_refs C2 = (mod_refs C)(kd_owner d := mod_refs C (kd_owner d) - 1)"
proof -
  from fill_super_outcome [OF assms(1)] consider
      "C1 = C" "s_fs_info sb = 0"
    | p d d' where "p \<in> set (sdbfs_devlist C)" "kd_heap C p = Some d" "s_fs_info sb = p"
       "kd_heap C1 p = Some d'" "kd_owner d' = kd_owner d"
       "mod_refs C1 = (if ret = 0 \<or> ret = - EINVAL
           then (mod_refs C)(kd_owner d := mod_refs C (kd_owner d) + 1) else mod_refs C)"
    by auto
  then show ?thesis
  proof cases
    case 1
    then show ?thesis using kill by (simp add: sdbfs_kill_sb_def)
  next
    case 2
    then have "p \<noteq> 0" using nz by metis
    then have "sdbfs_put C1 p = Some C2" using kill 2(3) by (simp add: sdbfs_kill_sb_def)
    then show ?thesis using 2 \<open>p \<noteq> 0\<close> by (auto simp: put_owner)
  qed
qed

end
