(* ===== verification/SdbDemo.thy ===== *)
theory SdbDemo
  imports SdbRead LibsdbfsRegistry SdbfsFile
begin

text \<open>
  A small SDB image and the devices that hold it, as concrete inputs for the witnesses: a top
  interconnect with a device and a bridge, the bridge leading to an interconnect of its own, and
  16 bytes of data for the device. The host is little-endian, the records are big-endian.
\<close>

definition demo_product :: "u8 list \<Rightarrow> u8 \<Rightarrow> sdb_product" where
  "demo_product name t = \<lparr>p_vendor_id = htonll Little 0xce42, p_device_id = htonl Little 0x11,
     p_version = 0, p_date = 0, p_name = name @ replicate (19 - length name) 0x20, p_record_type = t\<rparr>"

definition demo_component :: "u64 \<Rightarrow> u64 \<Rightarrow> u8 list \<Rightarrow> u8 \<Rightarrow> sdb_component" where
  "demo_component a b name t = \<lparr>c_addr_first = htonll Little a, c_addr_last = htonll Little b,
     c_product = demo_product name t\<rparr>"

definition demo_ic :: "u16 \<Rightarrow> u8 list \<Rightarrow> u8 list" where
  "demo_ic n name = store_interconnect Little \<lparr>i_sdb_magic = htonl Little SDB_MAGIC,
     i_sdb_records = htons Little n, i_sdb_version = 1, i_sdb_bus_type = 0,
     i_component = demo_component 0 0x10f name sdb_type_interconnect\<rparr>"

definition demo_dev :: "u8 list" where
  "demo_dev = store_device Little \<lparr>d_abi_class = 0, d_abi_ver_major = 0, d_abi_ver_minor = 0,
     d_bus_specific = 0, d_component = demo_component 0x100 0x10f [0x66, 0x6f, 0x6f] sdb_type_device\<rparr>"

definition demo_bridge :: "u8 list" where
  "demo_bridge = store_bridge Little \<lparr>b_sdb_child = htonll Little 0xc0,
     b_component = demo_component 0 0x10f [0x64] sdb_type_bridge\<rparr>"

definition demo_data :: "u8 list" where
  "demo_data = [1, 2, 3, 4, 5, 6, 7, 8, 9, 10, 11, 12, 13, 14, 15, 16]"

definition demo_img :: "u8 list" where
  "demo_img = demo_ic 3 [0x74] @ demo_dev @ demo_bridge @ demo_ic 1 [0x73] @ demo_data"

definition demo_host :: host where
  "demo_host = \<lparr>h_endian = Little, h_mem = image_at 0x1000 demo_img\<rparr>"

definition demo_fs :: "nat sdbfs" where
  "demo_fs = \<lparr>fs_name = Some [0x78], drvdata = 0, blocksize = 256, entrypoint = 0, fs_flags = 0,
     fs_data = 0x1000, datalen = 0, fs_read = None, fs_write = None, fs_erase = None,
     currentp = NullP, current_record = replicate 64 0, f_len = 0, f_offset = 0, read_offset = 0,
     fs_next = 0, fs_base = [0, 0, 0, 0], fs_this = [0, 0, 0, 0], nleft = [0, 0, 0, 0], fs_depth = 0\<rparr>"

lemma demo_lengths [simp]:
  "length (demo_ic n [c]) = 64" "length demo_dev = 64" "length demo_bridge = 64" "length demo_data = 16"
  by (simp_all add: demo_ic_def demo_dev_def demo_bridge_def demo_data_def store_defs
      demo_component_def demo_product_def length_host_bytes)

lemma demo_img_length [simp]: "length demo_img = 272"
  by (simp add: demo_img_def)

lemma demo_chunks [simp]:
  "chunk 0 64 demo_img = demo_ic 3 [0x74]" "chunk 64 64 demo_img = demo_dev"
  "chunk 128 64 demo_img = demo_bridge" "chunk 192 64 demo_img = demo_ic 1 [0x73]"
  "chunk 256 16 demo_img = demo_data"
  by (simp_all add: demo_img_def chunk_app_left chunk_app_right chunk_all)

lemma demo_scan_ok [simp]: "scan_ok demo_fs"
  by (simp add: scan_ok_def demo_fs_def SDBFS_DEPTH_def)

lemma demo_load:
  assumes "unat off + n \<le> 272"
  shows "load_bytes (h_mem demo_host) (0x1000 + off) n = Some (chunk (unat off) n demo_img)"
  using load_bytes_image [of "unat off" n demo_img "0x1000"] assms by (simp add: demo_host_def)

lemma demo_entry:
  "entry demo_host demo_fs 0 = Some (demo_ic 3 [0x74])" "entry demo_host demo_fs 64 = Some demo_dev"
  "entry demo_host demo_fs 128 = Some demo_bridge" "entry demo_host demo_fs 192 = Some (demo_ic 1 [0x73])"
  using demo_load [of 0 64] demo_load [of 64 64] demo_load [of 128 64] demo_load [of 192 64]
  by (simp_all add: entry_def direct_def has_flag_def demo_fs_def)

lemma demo_intercons: "is_intercon Little (demo_ic 3 [0x74])" "is_intercon Little (demo_ic 1 [0x73])"
  by code_simp+

lemma demo_counts:
  "records_of Little (demo_ic 3 [0x74]) = 2" "records_of Little (demo_ic 1 [0x73]) = 0"
  by code_simp+

lemma demo_bridges: "\<not> enters 0 demo_dev" "enters 0 demo_bridge" "child_of Little demo_bridge = 192"
  by code_simp+

lemma demo_firsts:
  "first_of Little demo_bridge = 0" "first_of Little demo_dev = 0x100"
  "first_of Little (demo_ic 3 [0x74]) = 0" "first_of Little (demo_ic 1 [0x73]) = 0"
  by code_simp+

lemma demo_last: "last_of Little demo_dev = 0x10f"
  by code_simp

lemmas demo_records = demo_intercons demo_counts demo_bridges demo_firsts demo_last

definition demo_items :: "item list" where
  "demo_items = [(demo_dev, 0x100, 0), (demo_bridge, 0, 0), (demo_ic 1 [0x73], 0, 1)]"

lemma demo_listing:
  "listing Little (entry demo_host demo_fs) 0 = Some ((demo_ic 3 [0x74], 0, 0) # demo_items)"
  by (simp add: listing_def demo_entry demo_records numeral_2_eq_2 walk_Suc sub_items_def demo_items_def)

end
