(* ===== verification/SdbImage.thy ===== *)
theory SdbImage
  imports SdbRead
begin

text \<open>
  An image as a string of bytes, and what the library of src/sdbfs/lib asks of a device to find it
  there: each record at its offset, the magic number, the bytes of an open file. The locale
  \<open>image_source\<close> is this contract, \<open>file_source\<close> with the records; listing and reading an image are
  proved in it, over the bytes alone. A mapped file, with the rest of its last page, provides it.
\<close>

subsection \<open>What the library asks of an image\<close>

text \<open>The record at an offset of an image.\<close>

definition img_entry :: "u8 list \<Rightarrow> u64 \<Rightarrow> u8 list option" where
  "img_entry img off = (if unat off + 64 \<le> length img then Some (chunk (unat off) 64 img) else None)"

text \<open>The steps of a read inside an open file of the image.\<close>

lemma file_at_read:
  assumes "file_at img fs" and "start_at fs offset off" and "unat count < 2 ^ 30"
    and n: "n = min (unat count) (unat (f_len fs) - off)" and img: "length img < 2 ^ 64"
  obtains b c where "access_range fs offset count = Some (b, c)"
    and "unat c = n" and "unat (int_to_ulong c) = n" and "sint c = int n"
    and "unat (f_offset fs + int_to_ulong b) = unat (f_offset fs) + off"
    and "unat (f_offset fs) + off + n \<le> length img"
    and "chunk (unat (f_offset fs) + off) n img = chunk off n (file_bytes img fs)"
    and "advance fs b c = Some (if n = 0 then fs else fs\<lparr>read_offset := of_nat (off + n)\<rparr>)"
proof -
  from assms(1) have len: "unat (f_len fs) < 2 ^ 30" by (simp add: file_at_def)
  obtain b c where range: "access_range fs offset count = Some (b, c)" and b: "unat b = off" and c: "unat c = n"
    using access_range_ok [OF len assms(2,3)] n by metis
  have bound: "off + n \<le> unat (f_len fs)" using assms(2) n by (auto simp: start_at_def)
  have i: "unat (int_to_ulong b) = off" "unat (int_to_ulong c) = n"
    using unat_int_to_ulong [of b] unat_int_to_ulong [of c] bound len by (simp_all add: b c)
  have fits: "unat (f_offset fs) + off + n \<le> length img" using assms(1) bound by (simp add: file_at_def)
  then have "unat (f_offset fs) + unat (int_to_ulong b) < 2 ^ LENGTH(64)" using i img by simp
  then have at: "unat (f_offset fs + int_to_ulong b) = unat (f_offset fs) + off"
    using i by (simp add: iffD1 [OF unat_add_lem])
  have "chunk (unat (f_offset fs) + off) n img = chunk off n (file_bytes img fs)"
    using bound by (simp add: file_bytes_def chunk_chunk)
  moreover have "advance fs b c = Some (if n = 0 then fs else fs\<lparr>read_offset := of_nat (off + n)\<rparr>)"
    using advance_ok [of b c fs] bound len by (simp add: b c)
  moreover have "sint c = int n" using sint_small [of c] bound len by (simp only: c) simp
  ultimately show ?thesis using that range c i(2) at fits by blast
qed

lemma walk_mono:
  assumes "\<And>off r. ent off = Some r \<Longrightarrow> ent' off = Some r" and "walk e ent d b off n = Some xs"
  shows "walk e ent' d b off n = Some xs"
  using assms
proof (induction e ent d b off n arbitrary: xs rule: walk.induct)
  case (1 e ent d b off)
  then show ?case by simp
next
  case (2 e ent d b off n)
  from "2.prems"(2) obtain r sub rest where r: "ent off = Some r" and sub: "sub_items e ent d b r = Some sub"
    and rest: "walk e ent d b (off + 64) n = Some rest" and xs: "xs = (r, b + first_of e r, d) # sub @ rest"
    by (auto simp: walk_Suc bind_eq_Some_conv)
  have "sub_items e ent' d b r = Some sub"
  proof (cases "enters d r")
    case True
    with sub obtain ic where ic: "ent (b + child_of e r) = Some ic"
      and more: "if is_intercon e ic then \<exists>ys. walk e ent (d + 1) (b + first_of e r) (b + child_of e r + 64) (records_of e ic)
          = Some ys \<and> sub = (ic, b + first_of e r + first_of e ic, d + 1) # ys else sub = []"
      by (auto simp: sub_items_def bind_eq_Some_conv split: if_splits)
    have step: "walk e ent (d + 1) (b + first_of e r) (b + child_of e r + 64) (records_of e ic) = Some ys \<Longrightarrow>
        walk e ent' (d + 1) (b + first_of e r) (b + child_of e r + 64) (records_of e ic) = Some ys"
      if "is_intercon e ic" for ys
      using "2.IH"(1) [OF r True ic that "2.prems"(1)] by simp
    show ?thesis
      using True "2.prems"(1) [OF ic] more step by (auto simp: sub_items_def split: if_splits)
  next
    case False
    then show ?thesis using sub by (simp add: sub_items_def)
  qed
  moreover have "walk e ent' d b (off + 64) n = Some rest"
    using "2.IH"(2) [OF r _ "2.prems"(1) rest] sub by (simp add: sub_items_def)
  ultimately show ?case using "2.prems"(1) [OF r] xs by (simp add: walk_Suc)
qed

lemma host_word_magic: "host_word e (word_be 4 SDB_MAGIC) = htonl e SDB_MAGIC"
  using be_word_word_be_full [of 4 SDB_MAGIC]
  by (cases e) (simp_all add: htonl_def host_word_def be_word_def word_be_def)

locale image_source = file_source serves for serves :: "host \<Rightarrow> 'd sdbfs \<Rightarrow> u8 list \<Rightarrow> bool" +
  assumes serves_entry: "serves h fs img \<Longrightarrow> img_entry img off = Some r \<Longrightarrow> entry h fs off = Some r"
    and serves_magic: "serves h fs img \<Longrightarrow> unat (entrypoint fs) + 4 \<le> length img \<Longrightarrow>
      read_magic h fs = Some (fs, host_word (h_endian h) (chunk (unat (entrypoint fs)) 4 img))"
begin

lemma listing_image:
  assumes "serves h fs img" and "listing e (img_entry img) off = Some items"
  shows "listing e (entry h fs) off = Some items"
  using assms(2) serves_entry [OF assms(1)] walk_mono [OF serves_entry [OF assms(1)]]
  by (auto simp: listing_def bind_eq_Some_conv split: if_splits)

lemma do_list_image:
  assumes "serves h fs img" and "scan_ok fs"
    and "listing (h_endian h) (img_entry img) (entrypoint fs) = Some items"
  shows "do_list h long fs = Some (listed (h_endian h) long items)"
  by (rule do_list_listing [OF assms(2) listing_image [OF assms(1,3)]])

lemma do_cat_image:
  assumes "serves h fs img" and "scan_ok fs"
    and "listing (h_endian h) (img_entry img) (entrypoint fs) = Some (it # items)"
    and "length buf = 4096" and "length name \<le> 19"
    and "\<And>r off d. find (\<lambda>it. name_matches (h_endian h) name (fst it)) items = Some (r, off, d) \<Longrightarrow>
      unat off + unat (file_len (h_endian h) r) \<le> length img \<and> unat (file_len (h_endian h) r) < 2 ^ 30"
  shows "\<exists>g. do_cat_name h fs buf name = Some (g, case find (\<lambda>it. name_matches (h_endian h) name (fst it)) items of
      None \<Rightarrow> Inl ENOENT | Some (r, off, d) \<Rightarrow> Inr (chunk (unat off) (unat (file_len (h_endian h) r)) img))"
proof -
  have "open_result h fs (find (\<lambda>it. name_matches (h_endian h) name (fst it)) items)
      (sdbfs_open_name h fs name)"
    using open_from_start [OF assms(2) listing_image [OF assms(1,3)]] assms(5)
    by (simp add: sdbfs_open_name_def)
  then show ?thesis unfolding do_cat_name_def by (rule cat_opened [OF _ assms(1,4,6)])
qed

text \<open>The image's magic number is big-endian, as gensdbfs writes it.\<close>

lemma create_image:
  assumes "serves h fs img" and "unat (entrypoint fs) + 4 \<le> length img"
    and "chunk (unat (entrypoint fs)) 4 img = word_be 4 SDB_MAGIC"
    and "lib_heap L a = Some fs"
  shows "sdbfs_dev_create h L a = Some ((put_fs L a (fs\<lparr>fs_next := sdbfs_list L\<rparr>))\<lparr>sdbfs_list := a\<rparr>, 0)"
proof -
  have "read_magic h fs = Some (fs, htonl (h_endian h) SDB_MAGIC)"
    using serves_magic [OF assms(1,2)] assms(3) by (simp add: host_word_magic)
  moreover have "ntohl Big 1 = 1" "htonl Little SDB_MAGIC \<noteq> SDB_MAGIC" by code_simp+
  ultimately show ?thesis
    using assms(4) by (cases "h_endian h") (auto simp: sdbfs_dev_create_def Let_def)
qed

end

subsection \<open>A mapped file\<close>

definition mapped_file :: "host \<Rightarrow> 'd sdbfs \<Rightarrow> u8 list \<Rightarrow> bool" where
  "mapped_file h fs img \<longleftrightarrow> maps_file (h_mem h) (fs_data fs) img \<and> fs_flags fs AND SDBFS_F_CONVERT32 = 0"

interpretation whole: image_source mapped_file
proof (unfold_locales, goal_cases)
  case 1
  then show ?case by (simp add: mapped_file_def same_source_def)
next
  case (2 h fs img offset off count buf n)
  have "length img < 2 ^ 64" using 2(1) by (simp add: mapped_file_def maps_file_def)
  from file_at_read [OF 2(2-4,6) this] obtain b c where range: "access_range fs offset count = Some (b, c)"
    and c: "unat (int_to_ulong c) = n" "sint c = int n"
    and at: "unat (f_offset fs + int_to_ulong b) = unat (f_offset fs) + off" "unat (f_offset fs) + off + n \<le> length img"
      "chunk (unat (f_offset fs) + off) n img = chunk off n (file_bytes img fs)"
    and adv: "advance fs b c = Some (if n = 0 then fs else fs\<lparr>read_offset := of_nat (off + n)\<rparr>)" .
  have "load_bytes (h_mem h) (fs_data fs + (f_offset fs + int_to_ulong b)) n = Some (chunk off n (file_bytes img fs))"
    using maps_file_load [of "h_mem h" "fs_data fs" img "f_offset fs + int_to_ulong b" n] 2(1) at
    by (simp add: mapped_file_def)
  then have "memcpy_in (h_mem h) (fs_data fs + f_offset fs + int_to_ulong b) buf c
      = Some (put 0 (chunk off n (file_bytes img fs)) buf)"
    using 2(5,6) by (simp add: memcpy_in_def c add.assoc)
  moreover have "fs_data fs \<noteq> 0" "\<not> is_null (currentp fs)"
    using 2(1,2) by (auto simp: mapped_file_def maps_file_def file_at_def)
  ultimately show ?case using range adv c by (simp add: sdbfs_fread_def)
next
  case (3 h fs img off r)
  then show ?case
    using maps_file_load [of "h_mem h" "fs_data fs" img off 64] maps_file_nz [of "h_mem h" "fs_data fs" img off]
    by (auto simp: img_entry_def entry_def mapped_file_def direct_def has_flag_def maps_file_def split: if_splits)
next
  case (4 h fs img)
  then show ?case
    using maps_file_load [of "h_mem h" "fs_data fs" img "entrypoint fs" 4]
    by (auto simp: read_magic_def mapped_file_def direct_def maps_file_def)
qed

end
