(* ===== verification/CFormat.thy ===== *)
theory CFormat
  imports Prelude
begin

text \<open>
  The parts of the C library the userspace tools use on text: \<open>isspace\<close> and \<open>isblank\<close> in the C
  locale, \<open>fgets\<close>, the directives of \<open>sscanf\<close> that read one integer (literal text, white space,
  \<open>%llu\<close>, \<open>%llx\<close>, \<open>%lu\<close>, \<open>%lx\<close>, \<open>%i\<close>, \<open>%li\<close>), those for several 32-bit numbers and for a
  word, and the printing of hexadecimal
  numbers (\<open>%llx\<close>, \<open>%08x\<close>, \<open>%016llx\<close>), of decimal ones and of strings. Text is a list of bytes without its
  terminating zero. An integer that its C type cannot hold is undefined behaviour for \<open>sscanf\<close>
  and \<open>None\<close> here. The lemmas show that what is printed is read back.
\<close>

type_synonym bytes = "u8 list"

definition str :: "string \<Rightarrow> bytes" where
  "str s = map of_char s"

definition isspace :: "u8 \<Rightarrow> bool" where
  "isspace c \<longleftrightarrow> c = 0x20 \<or> c = 9 \<or> c = 10 \<or> c = 11 \<or> c = 12 \<or> c = 13"

definition isblank :: "u8 \<Rightarrow> bool" where
  "isblank c \<longleftrightarrow> c = 0x20 \<or> c = 9"

text \<open>What a \<open>char\<close> array holds as a string: the bytes before the first zero.\<close>

definition cut :: "bytes \<Rightarrow> bytes" where
  "cut s = takeWhile (\<lambda>c. c \<noteq> 0) s"

text \<open>\<open>fgets\<close> with room for \<open>k\<close> bytes and the terminator: a line with its newline, or the
  first \<open>k\<close> bytes of a longer one; what is left of the file.\<close>

fun fgets :: "nat \<Rightarrow> bytes \<Rightarrow> bytes \<times> bytes" where
  "fgets 0 s = ([], s)"
| "fgets (Suc k) [] = ([], [])"
| "fgets (Suc k) (c # s) =
     (if c = 10 then ([c], s) else (case fgets k s of (l, r) \<Rightarrow> (c # l, r)))"

lemma fgets_split: "fgets k s = (l, r) \<Longrightarrow> l @ r = s"
  by (induction k s arbitrary: l r rule: fgets.induct) (auto split: if_splits prod.splits)

lemma fgets_progress: "s \<noteq> [] \<Longrightarrow> length (snd (fgets (Suc k) s)) < length s"
proof (cases s)
  case (Cons c t)
  obtain l r where "fgets k t = (l, r)" by fastforce
  with fgets_split [OF this] Cons show ?thesis by auto
qed simp

lemma fgets_line: "10 \<notin> set l \<Longrightarrow> length l < k \<Longrightarrow> fgets k (l @ 10 # r) = (l @ [10], r)"
proof (induction l arbitrary: k)
  case Nil
  then show ?case by (cases k) auto
next
  case (Cons c l)
  then show ?case by (cases k) auto
qed

subsection \<open>Scanning\<close>

fun match_lit :: "bytes \<Rightarrow> bytes \<Rightarrow> bytes option" where
  "match_lit [] s = Some s"
| "match_lit (c # k) [] = None"
| "match_lit (c # k) (d # s) = (if c = d then match_lit k s else None)"

lemma match_lit_append [simp]: "match_lit k (k @ s) = Some s"
  by (induction k) auto

text \<open>The format \<open>"key = %..."\<close> up to its conversion, which skips white space first.\<close>

definition directive :: "bytes \<Rightarrow> bytes \<Rightarrow> bytes option" where
  "directive key t = do {
     r \<leftarrow> match_lit key t;
     r \<leftarrow> match_lit [0x3d] (dropWhile isspace r);
     Some (dropWhile isspace r) }"

definition digit_val :: "nat \<Rightarrow> u8 \<Rightarrow> nat option" where
  "digit_val base c =
     (let v = (if 0x30 \<le> c \<and> c \<le> 0x39 then Some (unat c - 0x30)
               else if 0x61 \<le> c \<and> c \<le> 0x66 then Some (unat c - 0x57)
               else if 0x41 \<le> c \<and> c \<le> 0x46 then Some (unat c - 0x37)
               else None)
      in case v of None \<Rightarrow> None | Some d \<Rightarrow> if d < base then Some d else None)"

text \<open>The longest run of digits, and its value; \<open>None\<close> without a digit.\<close>

fun scan_digits :: "nat \<Rightarrow> nat \<Rightarrow> bytes \<Rightarrow> nat" where
  "scan_digits base acc [] = acc"
| "scan_digits base acc (c # s) =
     (case digit_val base c of None \<Rightarrow> acc | Some d \<Rightarrow> scan_digits base (acc * base + d) s)"

definition scan_nat :: "nat \<Rightarrow> bytes \<Rightarrow> nat option" where
  "scan_nat base s =
     (case s of [] \<Rightarrow> None
      | c # _ \<Rightarrow> if digit_val base c = None then None else Some (scan_digits base 0 s))"

definition is_0x :: "bytes \<Rightarrow> bool" where
  "is_0x s \<longleftrightarrow> take 2 s = [0x30, 0x78] \<or> take 2 s = [0x30, 0x58]"

text \<open>The magnitude in a given base; base 16 allows the prefix, base 0 derives the base from it.\<close>

definition scan_magnitude :: "nat \<Rightarrow> bytes \<Rightarrow> nat option" where
  "scan_magnitude base s =
     (if (base = 0 \<or> base = 16) \<and> is_0x s then scan_nat 16 (drop 2 s)
      else if base = 0 then scan_nat (if take 1 s = [0x30] then 8 else 10) s
      else scan_nat base s)"

definition scan_int :: "nat \<Rightarrow> bytes \<Rightarrow> int option" where
  "scan_int base s =
     (case s of [] \<Rightarrow> None
      | c # r \<Rightarrow>
          if c = 0x2d then map_option (\<lambda>n. - int n) (scan_magnitude base r)
          else if c = 0x2b then map_option int (scan_magnitude base r)
          else map_option int (scan_magnitude base s))"

text \<open>Storing what was read: an unsigned conversion negates in the unsigned type.\<close>

definition as_unsigned :: "int \<Rightarrow> u64 option" where
  "as_unsigned v = (if \<bar>v\<bar> < 2 ^ 64 then Some (word_of_int v) else None)"

definition as_long :: "int \<Rightarrow> u64 option" where
  "as_long v = (if - (2 ^ 63) \<le> v \<and> v < 2 ^ 63 then Some (word_of_int v) else None)"

definition as_int :: "int \<Rightarrow> u32 option" where
  "as_int v = (if - (2 ^ 31) \<le> v \<and> v < 2 ^ 31 then Some (word_of_int v) else None)"

definition as_uint :: "int \<Rightarrow> u32 option" where
  "as_uint v = (if \<bar>v\<bar> < 2 ^ 32 then Some (word_of_int v) else None)"

text \<open>What is left behind a number, and several \<open>%d\<close> and \<open>%x\<close> conversions into 32-bit
  variables in one format: \<open>None\<close> unless all of them are assigned.\<close>

definition after_int :: "nat \<Rightarrow> bytes \<Rightarrow> bytes" where
  "after_int base s =
     (let r = (case s of [] \<Rightarrow> [] | c # r \<Rightarrow> if c = 0x2d \<or> c = 0x2b then r else s);
          r = (if base = 16 \<and> is_0x r then drop 2 r else r)
      in dropWhile (\<lambda>c. digit_val base c \<noteq> None) r)"

fun scan_u32s :: "bool list \<Rightarrow> bytes \<Rightarrow> u32 list option" where
  \<comment> \<open>\<open>True\<close> is \<open>%x\<close>, \<open>False\<close> is \<open>%d\<close>\<close>
  "scan_u32s [] s = Some []"
| "scan_u32s (hex # fs) s =
     (let s = dropWhile isspace s; base = (if hex then 16 else 10) in do {
        v \<leftarrow> scan_int base s;
        w \<leftarrow> (if hex then as_uint v else as_int v);
        ws \<leftarrow> scan_u32s fs (after_int base s);
        Some (w # ws) })"

text \<open>\<open>%s\<close> into an array of \<open>n\<close> bytes.\<close>

definition scan_word :: "nat \<Rightarrow> bytes \<Rightarrow> bytes option" where
  "scan_word n s =
     (let w = takeWhile (\<lambda>c. \<not> isspace c) (dropWhile isspace s)
      in if w = [] \<or> n \<le> length w then None else Some w)"

subsection \<open>Printing\<close>

definition hex_digit :: "nat \<Rightarrow> u8" where
  "hex_digit d = (if d < 10 then of_nat (0x30 + d) else of_nat (0x57 + d))"

fun hex_digits :: "nat \<Rightarrow> bytes" where
  "hex_digits n = (if n < 16 then [hex_digit n] else hex_digits (n div 16) @ [hex_digit (n mod 16)])"

declare hex_digits.simps [simp del]

definition print_hex :: "nat \<Rightarrow> nat \<Rightarrow> bytes" where
  \<comment> \<open>at least \<open>width\<close> digits, filled with zeros\<close>
  "print_hex width n = (let ds = hex_digits n in replicate (width - length ds) 0x30 @ ds)"

text \<open>Decimal numbers, \<open>%d\<close> of an \<open>int\<close>.\<close>

fun dec_digits :: "nat \<Rightarrow> bytes" where
  "dec_digits n = (if n < 10 then [hex_digit n] else dec_digits (n div 10) @ [hex_digit (n mod 10)])"

declare dec_digits.simps [simp del]

definition print_int :: "u32 \<Rightarrow> bytes" where
  "print_int w = (if sint w < 0 then 0x2d # dec_digits (nat (- sint w)) else dec_digits (unat w))"

subsection \<open>What is printed is read back\<close>

lemma digit_val_hex_all: "\<forall>d\<in>set [0..<16]. digit_val 16 (hex_digit d) = Some d"
  by code_simp

lemma digit_val_hex [simp]: "d < 16 \<Longrightarrow> digit_val 16 (hex_digit d) = Some d"
  using digit_val_hex_all by simp

lemma digit_val_0 [simp]: "0 < base \<Longrightarrow> digit_val base 0x30 = Some 0"
  by (simp add: digit_val_def)

lemma scan_digits_append:
  "\<forall>c\<in>set xs. digit_val base c \<noteq> None \<Longrightarrow>
   scan_digits base acc (xs @ ys) = scan_digits base (scan_digits base acc xs) ys"
  by (induction xs arbitrary: acc) auto

lemma hex_digits_valid: "\<forall>c\<in>set (hex_digits n). digit_val 16 c \<noteq> None"
proof (induction n rule: hex_digits.induct)
  case (1 n)
  show ?case
  proof (cases "n < 16")
    case True
    then show ?thesis by (simp add: hex_digits.simps)
  next
    case False
    then show ?thesis using 1 by (simp add: hex_digits.simps [of n])
  qed
qed

lemma scan_hex_digits: "scan_digits 16 0 (hex_digits n) = n"
proof (induction n rule: hex_digits.induct)
  case (1 n)
  show ?case
  proof (cases "n < 16")
    case True
    then show ?thesis by (simp add: hex_digits.simps)
  next
    case False
    then show ?thesis using 1 hex_digits_valid [of "n div 16"]
      by (simp add: hex_digits.simps [of n] scan_digits_append)
  qed
qed

lemma hex_digits_nonempty [simp]: "hex_digits n \<noteq> []"
  by (simp add: hex_digits.simps)

lemma scan_zeros: "0 < base \<Longrightarrow> scan_digits base 0 (replicate k 0x30 @ s) = scan_digits base 0 s"
  by (induction k) auto

lemma scan_print_hex_nat: "scan_nat 16 (print_hex w n) = Some n"
proof -
  have valid: "\<forall>c\<in>set (print_hex w n). digit_val 16 c \<noteq> None"
    using hex_digits_valid [of n] by (auto simp: print_hex_def Let_def)
  have "print_hex w n \<noteq> []" by (simp add: print_hex_def Let_def)
  then obtain c s where cs: "print_hex w n = c # s" by (cases "print_hex w n") auto
  have "scan_digits 16 0 (print_hex w n) = n"
    by (simp add: print_hex_def Let_def scan_zeros scan_hex_digits)
  with valid cs show ?thesis by (auto simp: scan_nat_def)
qed

definition print_0x :: "nat \<Rightarrow> nat \<Rightarrow> bytes" where
  "print_0x w n = [0x30, 0x78] @ print_hex w n"

text \<open>The prefix is one zero to a decimal conversion, which is what the code counts on.\<close>

lemma scan_print_dec: "scan_int 10 (print_0x w n) = Some 0"
  by (simp add: print_0x_def scan_int_def scan_magnitude_def scan_nat_def digit_val_def is_0x_def)

lemma scan_print_hex: "b = 0 \<or> b = 16 \<Longrightarrow> scan_int b (print_0x w n) = Some (int n)"
  using scan_print_hex_nat [of w n]
  by (simp add: print_0x_def scan_int_def scan_magnitude_def is_0x_def)

lemma hex_digits_not_space: "c \<in> set (print_0x w n) \<Longrightarrow> \<not> isspace c \<and> c \<noteq> 0"
proof -
  assume "c \<in> set (print_0x w n)"
  then have "c = 0x78 \<or> c = 0x30 \<or> digit_val 16 c \<noteq> None"
    using hex_digits_valid [of n] by (auto simp: print_0x_def print_hex_def Let_def)
  then show ?thesis by (auto simp: digit_val_def isspace_def)
qed

end
