(* ===== verification/CmdLine.thy ===== *)
theory CmdLine
  imports CFormat
begin

text \<open>
  The command lines of the userspace tools: \<open>getopt\<close> of the C library with one-letter options, as
  GNU systems have it (options may stand behind operands, and \<open>--\<close> ends them), \<open>strtol\<close>, and the
  conversions of \<open>sscanf\<close> that the options use, with the text behind them. An argument is a list of
  bytes. \<open>getopt\<close> has no effect but its messages, so its results come as one list, in order, with the
  operands that are left at \<open>optind\<close>. The lemmas show what a command line of separate options and
  operands is read as.
\<close>

subsection \<open>Options\<close>

text \<open>A letter with its argument, or the result \<open>'?'\<close>. The options a tool takes are a map from
  letters to whether they have an argument.\<close>

datatype opt_event = Opt u8 "bytes option" | BadOpt

text \<open>The letters of one argument: the events, and a letter whose argument is the next element.\<close>

fun opt_cluster :: "(u8 \<Rightarrow> bool option) \<Rightarrow> bytes \<Rightarrow> opt_event list \<times> u8 option" where
  "opt_cluster opts [] = ([], None)"
| "opt_cluster opts (c # cs) = (case opts c of
     None \<Rightarrow> (case opt_cluster opts cs of (evs, p) \<Rightarrow> (BadOpt # evs, p))
   | Some False \<Rightarrow> (case opt_cluster opts cs of (evs, p) \<Rightarrow> (Opt c None # evs, p))
   | Some True \<Rightarrow> if cs = [] then ([], Some c) else ([Opt c (Some cs)], None))"

definition is_option :: "bytes \<Rightarrow> bool" where
  "is_option a \<longleftrightarrow> 2 \<le> length a \<and> hd a = 0x2d"

definition dash_dash :: bytes where "dash_dash = [0x2d, 0x2d]"

fun getopt :: "(u8 \<Rightarrow> bool option) \<Rightarrow> bytes list \<Rightarrow> opt_event list \<times> bytes list" where
  "getopt opts [] = ([], [])"
| "getopt opts [a] =
     (if a = dash_dash then ([], [])
      else if is_option a then (case opt_cluster opts (tl a) of
          (evs, None) \<Rightarrow> (evs, [])
        | (evs, Some c) \<Rightarrow> (evs @ [BadOpt], []))
      else ([], [a]))"
| "getopt opts (a # b # as) =
     (if a = dash_dash then ([], b # as)
      else if is_option a then (case opt_cluster opts (tl a) of
          (evs, None) \<Rightarrow> (case getopt opts (b # as) of (evs', ops) \<Rightarrow> (evs @ evs', ops))
        | (evs, Some c) \<Rightarrow> (case getopt opts as of (evs', ops) \<Rightarrow> (evs @ Opt c (Some b) # evs', ops)))
      else (case getopt opts (b # as) of (evs', ops) \<Rightarrow> (evs', a # ops)))"

lemma getopt_operand: "\<not> is_option a \<Longrightarrow> a \<noteq> dash_dash \<Longrightarrow>
    getopt opts (a # as) = (fst (getopt opts as), a # snd (getopt opts as))"
  by (cases as) (auto split: prod.split)

lemma getopt_operands: "\<forall>a\<in>set as. \<not> is_option a \<and> a \<noteq> dash_dash \<Longrightarrow> getopt opts as = ([], as)"
  by (induction as) (auto simp: getopt_operand)

lemma getopt_flag:
  assumes "opts c = Some False" and "c \<noteq> 0x2d"
  shows "getopt opts ([0x2d, c] # as) = (Opt c None # fst (getopt opts as), snd (getopt opts as))"
  using assms by (cases as) (auto simp: is_option_def dash_dash_def split: prod.split)

lemma getopt_argument:
  assumes "opts c = Some True" and "c \<noteq> 0x2d"
  shows "getopt opts ([0x2d, c] # b # as) = (Opt c (Some b) # fst (getopt opts as), snd (getopt opts as))"
  using assms by (auto simp: is_option_def dash_dash_def split: prod.split)

declare getopt.simps(2,3) [simp del]

subsection \<open>Numbers\<close>

text \<open>\<open>strtol(s, &rest, 0)\<close>: the value, held to the range of \<open>long\<close>, and \<open>*rest\<close>, which is all of
  \<open>s\<close> when there is no number in it. A prefix \<open>0x\<close> without a digit behind it is the number 0.\<close>

definition sat_long :: "int \<Rightarrow> u64" where
  "sat_long v = word_of_int (max (- (2 ^ 63)) (min v (2 ^ 63 - 1)))"

definition num_base :: "bytes \<Rightarrow> nat \<times> bytes" where
  "num_base s =
     (if is_0x s \<and> scan_nat 16 (drop 2 s) \<noteq> None then (16, drop 2 s)
      else if take 1 s = [0x30] then (8, s) else (10, s))"

definition strtol :: "bytes \<Rightarrow> u64 \<times> bytes" where
  "strtol s =
     (let t = dropWhile isspace s;
          neg = (take 1 t = [0x2d]);
          t = (if take 1 t = [0x2d] \<or> take 1 t = [0x2b] then drop 1 t else t)
      in case num_base t of (base, ds) \<Rightarrow>
        (case scan_nat base ds of
           None \<Rightarrow> (0, s)
         | Some n \<Rightarrow> (sat_long (if neg then - int n else int n),
                     dropWhile (\<lambda>c. digit_val base c \<noteq> None) ds)))"

text \<open>One integer conversion of \<open>sscanf\<close>: white space is skipped; the number and the text behind it.\<close>

definition behind_int :: "nat \<Rightarrow> bytes \<Rightarrow> bytes" where
  "behind_int base s =
     (let t = (if take 1 s = [0x2d] \<or> take 1 s = [0x2b] then drop 1 s else s);
          b = (if base = 0 then (if is_0x t then 16 else if take 1 t = [0x30] then 8 else 10) else base);
          t = (if b = 16 \<and> is_0x t then drop 2 t else t)
      in dropWhile (\<lambda>c. digit_val b c \<noteq> None) t)"

definition conv_int :: "nat \<Rightarrow> bytes \<Rightarrow> (int \<times> bytes) option" where
  "conv_int base s =
     (let s = dropWhile isspace s
      in map_option (\<lambda>v. (v, behind_int base s)) (scan_int base s))"

text \<open>\<open>"%i"\<close> into an \<open>int\<close>. The outer option is undefined behaviour, a number that its type cannot
  hold; the inner one a failed conversion.\<close>

definition scan_i :: "bytes \<Rightarrow> u32 option option" where
  "scan_i s = (case conv_int 0 s of
     None \<Rightarrow> Some None
   | Some (v, r) \<Rightarrow> map_option Some (as_int v))"

text \<open>Two conversions with a literal between them, and white space around it for \<open>"%li @ %li"\<close>: the
  two values if both were read.\<close>

definition scan_two ::
    "nat \<Rightarrow> (int \<Rightarrow> u64 option) \<Rightarrow> bool \<Rightarrow> u8 \<Rightarrow> bytes \<Rightarrow> (u64 \<times> u64) option option" where
  "scan_two base conv blanks sep s = (case conv_int base s of
     None \<Rightarrow> Some None
   | Some (v, r) \<Rightarrow> do {
       v \<leftarrow> conv v;
       (case match_lit [sep] (if blanks then dropWhile isspace r else r) of
          None \<Rightarrow> Some None
        | Some r \<Rightarrow> (case conv_int base r of
            None \<Rightarrow> Some None
          | Some (w, r) \<Rightarrow> do { w \<leftarrow> conv w; Some (Some (v, w)) })) })"

end
