(* ===== verification/SdbReadMain.thy ===== *)
theory SdbReadMain
  imports SdbImage CmdLine
begin

text \<open>
  The main program of sdb-read (src/sdbfs/userspace/sdb-read.c): the command line, the three ways to
  get at an image (its mapping, the read method over the mapping, the read method over the file) and
  what is run on it. The system's answers, the files it can open and what \<open>mmap\<close> returns, are
  arguments; a mapped file is in the host's memory. Messages are not modelled. The lemmas show that
  the three ways deliver the same records and bytes: the read method is a source of an image, as its
  mapping is.
\<close>

subsection \<open>The read method\<close>

record sdbr_drvdata =
  dd_mapaddr :: u64
  dd_f :: bytes      \<comment> \<open>the open file\<close>
  dd_memaddr :: u64
  dd_memsize :: u64

text \<open>\<open>fseek\<close> refuses a negative position; \<open>fread\<close> stops at the end of the file.\<close>

definition do_read :: "mem \<Rightarrow> sdbr_drvdata read_method" where
  "do_read m drv offset count =
     (let n = unat (int_to_ulong count)
      in if dd_mapaddr drv \<noteq> 0 then do {
           bs \<leftarrow> load_bytes m (dd_mapaddr drv + int_to_ulong offset) n;
           Some (drv, bs, count) }
         else
           (let pos = dd_memaddr drv + int_to_ulong offset
            in if 2 ^ 63 \<le> unat pos then Some (drv, [], - 1)
               else let bs = chunk (unat pos) n (dd_f drv) in Some (drv, bs, of_nat (length bs))))"

subsection \<open>The command line\<close>

record read_opts =
  opt_long :: bool
  opt_verbose :: bool
  opt_read :: bool
  opt_entry :: u32
  opt_memaddr :: u64
  opt_memsize :: u64

definition read_opts0 :: read_opts where
  "read_opts0 = \<lparr>opt_long = False, opt_verbose = False, opt_read = False, opt_entry = 0,
     opt_memaddr = 0, opt_memsize = 0\<rparr>"

text \<open>\<open>"lvre:m:"\<close>\<close>

definition read_letters :: "u8 \<Rightarrow> bool option" where
  "read_letters c = (if c \<in> {0x6c, 0x76, 0x72} then Some False
     else if c \<in> {0x65, 0x6d} then Some True else None)"

text \<open>The two forms of a memory area, size and address.\<close>

definition mem_area :: "bytes \<Rightarrow> (u64 \<times> u64) option option" where
  "mem_area s = do {
     r \<leftarrow> scan_two 0 as_long True 0x40 s;
     (case r of
        Some (sz, addr) \<Rightarrow> Some (Some (sz, addr))
      | None \<Rightarrow> do {
          r \<leftarrow> scan_two 0 as_long True 0x2b s;
          Some (map_option (\<lambda>(addr, sz). (sz, addr)) r) }) }"

text \<open>One round of the option loop; \<open>Inl\<close> is an exit with that code.\<close>

definition read_option :: "opt_event \<Rightarrow> read_opts \<Rightarrow> (int + read_opts) option" where
  "read_option ev ro = (case ev of
     BadOpt \<Rightarrow> Some (Inr ro)
   | Opt c arg \<Rightarrow>
       if c = 0x6c then Some (Inr (ro\<lparr>opt_long := True\<rparr>))
       else if c = 0x76 then Some (Inr (ro\<lparr>opt_verbose := True\<rparr>))
       else if c = 0x72 then Some (Inr (ro\<lparr>opt_read := True\<rparr>))
       else if c = 0x65 then do {
         r \<leftarrow> Option.bind arg scan_i;
         Some (case r of None \<Rightarrow> Inl 1 | Some v \<Rightarrow> Inr (ro\<lparr>opt_entry := v\<rparr>)) }
       else if c = 0x6d then do {
         r \<leftarrow> Option.bind arg mem_area;
         Some (case r of None \<Rightarrow> Inl 1
           | Some (sz, addr) \<Rightarrow> Inr (ro\<lparr>opt_memsize := sz, opt_memaddr := addr\<rparr>)) }
       else Some (Inr ro))"

fun read_options :: "opt_event list \<Rightarrow> read_opts \<Rightarrow> (int + read_opts) option" where
  "read_options [] ro = Some (Inr ro)"
| "read_options (ev # evs) ro = do {
     r \<leftarrow> read_option ev ro;
     (case r of Inl x \<Rightarrow> Some (Inl x) | Inr ro \<Rightarrow> read_options evs ro) }"

subsection \<open>The main program\<close>

record read_env =
  re_pagesize :: u64
  re_file :: "bytes \<Rightarrow> bytes option"          \<comment> \<open>the regular files that can be opened\<close>
  re_mmap :: "u64 \<Rightarrow> u64 \<Rightarrow> u64 option"    \<comment> \<open>\<open>mmap\<close>, by length and offset\<close>
  re_calloc :: bool
  re_fsaddr :: u64      \<comment> \<open>the address of \<open>_fs\<close>\<close>
  re_buf :: bytes       \<comment> \<open>the buffer of 4096 bytes, as it is when the function starts\<close>

datatype read_output = Nothing | Lines "line list" | Bytes bytes

definition round_page :: "u64 \<Rightarrow> u64 \<Rightarrow> u64" where
  "round_page pagesize n = (n + (pagesize - 1)) AND NOT (pagesize - 1)"

text \<open>The structure given to the library.\<close>

definition read_fs :: "mem \<Rightarrow> read_opts \<Rightarrow> bytes \<Rightarrow> sdbr_drvdata \<Rightarrow> sdbr_drvdata sdbfs" where
  "read_fs m ro fsname drv =
     (let by_read = (opt_read ro \<or> dd_mapaddr drv = 0)
      in \<lparr>fs_name = Some fsname, drvdata = drv, blocksize = 256, entrypoint = int_to_ulong (opt_entry ro),
          fs_flags = (if opt_verbose ro then SDBFS_F_VERBOSE else 0),
          fs_data = (if by_read then 0 else dd_mapaddr drv), datalen = 0,
          fs_read = (if by_read then Some (do_read m) else None), fs_write = None, fs_erase = None,
          currentp = NullP, current_record = replicate 64 0, f_len = 0, f_offset = 0, read_offset = 0,
          fs_next = 0, fs_base = replicate 4 0, fs_this = replicate 4 0, nleft = replicate 4 0, fs_depth = 0\<rparr>)"

text \<open>What is done with the image: listing, or reading a file by name or by vendor and device.
  \<open>Inl\<close> of the reading is an exit with an error.\<close>

definition read_cat :: "('d sdbfs \<times> (int + u8 list)) option \<Rightarrow> (read_output \<times> int) option" where
  "read_cat res = do {
     (fs, r) \<leftarrow> res;
     Some (case r of Inl err \<Rightarrow> (Nothing, 1) | Inr bs \<Rightarrow> (Bytes bs, 0)) }"

definition read_action ::
    "host \<Rightarrow> read_opts \<Rightarrow> bytes \<Rightarrow> 'd sdbfs \<Rightarrow> bytes list \<Rightarrow> (read_output \<times> int) option" where
  "read_action h ro buf fs rest = (case rest of
     [] \<Rightarrow> do { (ls, err) \<leftarrow> do_list h (opt_long ro) fs; Some (Lines ls, err) }
   | filearg # ignored \<Rightarrow> do {
       ids \<leftarrow> scan_two 16 as_unsigned False 0x3a filearg;
       (case ids of
          None \<Rightarrow> read_cat (do_cat_name h fs buf filearg)
        | Some (int64, int32) \<Rightarrow> read_cat (do_cat_id h fs buf int64 (ucast int32))) })"

definition read_run ::
    "host \<Rightarrow> read_env \<Rightarrow> read_opts \<Rightarrow> bytes \<Rightarrow> bytes list \<Rightarrow> (read_output \<times> int) option" where
  "read_run h env ro fsname rest = (case re_file env fsname of
     None \<Rightarrow> Some (Nothing, 1)
   | Some f \<Rightarrow>
      (let len = (if opt_memsize ro \<noteq> 0 then opt_memsize ro
                  else round_page (re_pagesize env) (of_nat (length f)));
           mapaddr = (case re_mmap env len (opt_memaddr ro) of None \<Rightarrow> 0 | Some a \<Rightarrow> a);
           drv = \<lparr>dd_mapaddr = mapaddr, dd_f = f, dd_memaddr = opt_memaddr ro, dd_memsize = opt_memsize ro\<rparr>;
           fs = read_fs (h_mem h) ro fsname drv; a = re_fsaddr env
       in if \<not> re_calloc env then Some (Nothing, 1)
          else do {
            (L, err) \<leftarrow> sdbfs_dev_create h \<lparr>lib_heap = [a \<mapsto> fs], sdbfs_list = 0\<rparr> a;
            if err \<noteq> 0 then Some (Nothing, 1)
            else do {
              fs \<leftarrow> lib_heap L a;
              res \<leftarrow> read_action h ro (re_buf env) fs rest;
              if res = (Nothing, 1) then Some res \<comment> \<open>the exit in \<open>do_cat_name\<close> or \<open>do_cat_id\<close>\<close>
              else do { (L, ret) \<leftarrow> sdbfs_dev_destroy L a; Some res } } }))"

definition sdb_read_main :: "host \<Rightarrow> read_env \<Rightarrow> bytes list \<Rightarrow> (read_output \<times> int) option" where
  "sdb_read_main h env args =
     (case getopt read_letters args of (evs, operands) \<Rightarrow> do {
        r \<leftarrow> read_options evs read_opts0;
        (case r of
           Inl x \<Rightarrow> Some (Nothing, x)
         | Inr ro \<Rightarrow>
            (case operands of
               [] \<Rightarrow> Some (Nothing, 1)
             | fsname # rest \<Rightarrow>
                if 1 < length rest then Some (Nothing, 1) else read_run h env ro fsname rest)) })"

subsection \<open>The three ways to an image\<close>

text \<open>The read method, over the mapping or over the file.\<close>

definition read_file :: "host \<Rightarrow> sdbr_drvdata sdbfs \<Rightarrow> u8 list \<Rightarrow> bool" where
  "read_file h fs img \<longleftrightarrow> \<not> direct fs \<and> fs_flags fs AND SDBFS_F_CONVERT32 = 0
     \<and> fs_read fs = Some (do_read (h_mem h)) \<and> length img < 2 ^ 31
     \<and> (if dd_mapaddr (drvdata fs) = 0 then dd_f (drvdata fs) = img \<and> dd_memaddr (drvdata fs) = 0
        else maps_file (h_mem h) (dd_mapaddr (drvdata fs)) img)"

lemma do_read_in:
  assumes "read_file h fs img" and "unat off + unat n \<le> length img"
  shows "do_read (h_mem h) (drvdata fs) (ulong_to_int off) n = Some (drvdata fs, chunk (unat off) (unat n) img, n)"
proof -
  have small: "unat off < 2 ^ 31" "unat n < 2 ^ 31" using assms by (auto simp: read_file_def)
  then have o: "unat (ulong_to_int off) = unat off" by (simp add: unat_ulong_to_int)
  then have off: "int_to_ulong (ulong_to_int off) = off"
    using unat_int_to_ulong [of "ulong_to_int off"] small(1) by (simp add: word_unat_eq_iff)
  have n: "unat (int_to_ulong n) = unat n" by (rule unat_int_to_ulong [OF small(2)])
  show ?thesis
  proof (cases "dd_mapaddr (drvdata fs) = 0")
    case True
    have "length (chunk (unat off) (unat n) img) = unat n" using assms(2) by simp
    then show ?thesis using True assms(1) small(1) by (simp add: do_read_def read_file_def off n Let_def)
  next
    case False
    then show ?thesis
      using maps_file_load [OF _ assms(2)] assms(1) by (simp add: do_read_def read_file_def off n Let_def)
  qed
qed

interpretation by_read: image_source read_file
proof (unfold_locales, goal_cases)
  case 1
  then show ?case by (simp add: read_file_def same_source_def direct_def has_flag_def)
next
  case (2 h fs img offset off count buf n)
  have "length img < 2 ^ 64" using 2(1) by (simp add: read_file_def)
  from file_at_read [OF 2(2-4,6) this] obtain b c where range: "access_range fs offset count = Some (b, c)"
    and c: "unat c = n" "sint c = int n"
    and at: "unat (f_offset fs + int_to_ulong b) = unat (f_offset fs) + off" "unat (f_offset fs) + off + n \<le> length img"
      "chunk (unat (f_offset fs) + off) n img = chunk off n (file_bytes img fs)"
    and adv: "advance fs b c = Some (if n = 0 then fs else fs\<lparr>read_offset := of_nat (off + n)\<rparr>)" .
  have "length (chunk (unat (f_offset fs) + off) n img) = n" using at(2) by simp
  then have "do_read (h_mem h) (drvdata fs) (ulong_to_int (f_offset fs + int_to_ulong b)) c
      = Some (drvdata fs, chunk off n (file_bytes img fs), c)" "length (chunk off n (file_bytes img fs)) = n"
    using do_read_in [OF 2(1), of "f_offset fs + int_to_ulong b" c] at by (simp_all add: c)
  moreover have "fs_data fs = 0" "fs_read fs = Some (do_read (h_mem h))" "\<not> is_null (currentp fs)"
    using 2(1,2) by (auto simp: read_file_def direct_def file_at_def)
  moreover have "n \<le> length buf" using 2(5,6) by (auto simp: min_def)
  ultimately show ?case using range adv c(2) by (simp add: sdbfs_fread_def overlay_def put_def)
next
  case (3 h fs img off r)
  then show ?case
    using do_read_in [OF 3(1), of off 64]
    by (auto simp: img_entry_def entry_def read_file_def has_flag_def split: if_splits)
next
  case (4 h fs img)
  then show ?case
    using do_read_in [OF 4(1), of "entrypoint fs" 4]
    by (auto simp: read_magic_def read_file_def)
qed

subsection \<open>What the program answers\<close>

text \<open>The specification: a listing of the image's walk, or the bytes of the first file of that name.\<close>

definition read_answer :: "endian \<Rightarrow> bool \<Rightarrow> bytes \<Rightarrow> item list \<Rightarrow> bytes list \<Rightarrow> read_output \<times> int" where
  "read_answer e long img items rest = (case rest of
     [] \<Rightarrow> (Lines (fst (listed e long items)), snd (listed e long items))
   | name # ignored \<Rightarrow> (case find (\<lambda>it. name_matches e name (fst it)) (tl items) of
       None \<Rightarrow> (Nothing, 1)
     | Some (r, off, d) \<Rightarrow> (Bytes (chunk (unat off) (unat (file_len e r)) img), 0)))"

text \<open>Operands the program takes for file names, and a walk whose files lie in the image.\<close>

definition is_operand :: "bytes \<Rightarrow> bool" where
  "is_operand a \<longleftrightarrow> \<not> is_option a \<and> a \<noteq> dash_dash"

definition plain_file_arg :: "bytes \<Rightarrow> bool" where
  "plain_file_arg a \<longleftrightarrow> is_operand a \<and> length a \<le> 19 \<and> scan_two 16 as_unsigned False 0x3a a = Some None"

definition named_fits :: "endian \<Rightarrow> bytes \<Rightarrow> item list \<Rightarrow> bytes \<Rightarrow> bool" where
  "named_fits e img items name \<longleftrightarrow>
     (case find (\<lambda>it. name_matches e name (fst it)) items of
        None \<Rightarrow> True
      | Some (r, off, d) \<Rightarrow> unat off + unat (file_len e r) \<le> length img \<and> unat (file_len e r) < 2 ^ 30)"

context image_source
begin

lemma read_action_image:
  assumes "serves h fs img" and "scan_ok fs" and "entrypoint fs = 0"
    and "listing (h_endian h) (img_entry img) 0 = Some (it # items)"
    and "length buf = 4096" and "length rest \<le> 1"
    and "\<forall>name\<in>set rest. plain_file_arg name \<and> named_fits (h_endian h) img items name"
  shows "read_action h ro buf fs rest = Some (read_answer (h_endian h) (opt_long ro) img (it # items) rest)"
proof (cases rest)
  case Nil
  then show ?thesis
    using do_list_image [OF assms(1,2)] assms(3,4)
    by (simp add: read_action_def read_answer_def split: prod.split)
next
  case (Cons name more)
  let ?found = "find (\<lambda>it. name_matches (h_endian h) name (fst it)) items"
  have name: "length name \<le> 19" "scan_two 16 as_unsigned False 0x3a name = Some None"
    "named_fits (h_endian h) img items name"
    using assms(7) by (simp_all add: Cons plain_file_arg_def)
  have fits: "unat off + unat (file_len (h_endian h) r) \<le> length img \<and> unat (file_len (h_endian h) r) < 2 ^ 30"
    if "?found = Some (r, off, d)" for r off d
    using name(3) that by (simp add: named_fits_def)
  have l: "listing (h_endian h) (img_entry img) (entrypoint fs) = Some (it # items)"
    using assms(3,4) by simp
  have "\<exists>g. do_cat_name h fs buf name = Some (g, case ?found of
      None \<Rightarrow> Inl ENOENT | Some (r, off, d) \<Rightarrow> Inr (chunk (unat off) (unat (file_len (h_endian h) r)) img))"
    by (rule do_cat_image [OF assms(1,2) l assms(5) name(1)]) (rule fits)
  then show ?thesis
    using name(2) by (cases ?found) (auto simp: Cons read_action_def read_answer_def read_cat_def)
qed

end

text \<open>What the program asks of the system: the image can be opened, and if it is mapped the mapping
  holds it.\<close>

definition read_env_ok :: "host \<Rightarrow> read_env \<Rightarrow> bytes \<Rightarrow> bytes \<Rightarrow> bool" where
  "read_env_ok h env fsname img \<longleftrightarrow> re_file env fsname = Some img
     \<and> re_calloc env \<and> length (re_buf env) = 4096 \<and> re_fsaddr env \<noteq> 0
     \<and> (case re_mmap env (round_page (re_pagesize env) (of_nat (length img))) 0 of
          None \<Rightarrow> True | Some a \<Rightarrow> maps_file (h_mem h) a img)"

text \<open>The program once the options are read, whichever way it takes.\<close>

lemma read_run_image:
  assumes ok: "read_env_ok h env fsname img" and img: "length img < 2 ^ 31" "chunk 0 4 img = word_be 4 SDB_MAGIC"
    and opts: "opt_memsize ro = 0" "opt_memaddr ro = 0" "opt_entry ro = 0"
    and items: "listing (h_endian h) (img_entry img) 0 = Some (it # items)"
    and rest: "length rest \<le> 1" "\<forall>name\<in>set rest. plain_file_arg name \<and> named_fits (h_endian h) img items name"
  shows "read_run h env ro fsname rest = Some (read_answer (h_endian h) (opt_long ro) img (it # items) rest)"
proof -
  have env: "re_file env fsname = Some img" "re_calloc env" "length (re_buf env) = 4096" "re_fsaddr env \<noteq> 0"
    and map: "case re_mmap env (round_page (re_pagesize env) (of_nat (length img))) 0 of
        None \<Rightarrow> True | Some a \<Rightarrow> maps_file (h_mem h) a img"
    using ok by (simp_all add: read_env_ok_def)
  define mapaddr where "mapaddr = (case re_mmap env (round_page (re_pagesize env) (of_nat (length img))) 0 of
    None \<Rightarrow> 0 | Some a \<Rightarrow> a)"
  define drv where "drv = \<lparr>dd_mapaddr = mapaddr, dd_f = img, dd_memaddr = 0, dd_memsize = 0\<rparr>"
  define fs where "fs = read_fs (h_mem h) ro fsname drv"
  let ?L = "\<lparr>lib_heap = [re_fsaddr env \<mapsto> fs], sdbfs_list = 0\<rparr>"
  let ?fs = "fs\<lparr>fs_next := 0\<rparr>" let ?M = "(put_fs ?L (re_fsaddr env) ?fs)\<lparr>sdbfs_list := re_fsaddr env\<rparr>"
  have fields: "scan_ok ?fs" "entrypoint fs = 0" "entrypoint ?fs = 0" "drvdata fs = drv" "same_source fs ?fs"
    by (simp_all add: fs_def read_fs_def Let_def scan_ok_def SDBFS_DEPTH_def opts int_to_ulong_def same_source_def)
  have flags: "fs_flags fs AND SDBFS_F_CONVERT32 = 0" "\<not> has_flag fs SDBFS_F_ZEROBASED"
  proof -
    have "SDBFS_F_VERBOSE AND SDBFS_F_CONVERT32 = 0" "SDBFS_F_VERBOSE AND SDBFS_F_ZEROBASED = 0" by code_simp+
    then show "fs_flags fs AND SDBFS_F_CONVERT32 = 0" "\<not> has_flag fs SDBFS_F_ZEROBASED"
      by (simp_all add: fs_def read_fs_def Let_def has_flag_def)
  qed
  have mapped: "mapaddr \<noteq> 0 \<Longrightarrow> maps_file (h_mem h) mapaddr img"
    using map by (auto simp: mapaddr_def split: option.splits)
  have "4 \<le> length img" using items by (auto simp: listing_def img_entry_def bind_eq_Some_conv split: if_splits)
  then have l: "unat (entrypoint fs) + 4 \<le> length img" "chunk (unat (entrypoint fs)) 4 img = word_be 4 SDB_MAGIC"
    "lib_heap ?L (re_fsaddr env) = Some fs"
    using img(2) fields(2) by simp_all
  have "sdbfs_dev_create h ?L (re_fsaddr env) = Some (?M, 0) \<and> read_action h ro (re_buf env) ?fs rest
      = Some (read_answer (h_endian h) (opt_long ro) img (it # items) rest)"
  proof (cases "opt_read ro \<or> mapaddr = 0")
    case True
    have s: "read_file h fs img"
      using True mapped img(1) flags fields(4)
      by (auto simp: read_file_def direct_def fs_def read_fs_def Let_def drv_def)
    show ?thesis
      using by_read.create_image [OF s l]
        by_read.read_action_image [OF by_read.serves_same [OF s fields(5)] fields(1,3) items env(3) rest]
      by simp
  next
    case False
    have s: "mapped_file h fs img"
      using False mapped flags by (auto simp: mapped_file_def fs_def read_fs_def Let_def drv_def)
    show ?thesis
      using whole.create_image [OF s l]
        whole.read_action_image [OF whole.serves_same [OF s fields(5)] fields(1,3) items env(3) rest]
      by simp
  qed
  moreover have "lib_heap ?M (re_fsaddr env) = Some ?fs" by (simp add: put_fs_def)
  moreover have "sdbfs_dev_destroy ?M (re_fsaddr env) = Some (?M\<lparr>sdbfs_list := 0\<rparr>, 0)"
    using destroy_first [of ?M "re_fsaddr env" ?fs] env(4) by (simp add: put_fs_def)
  ultimately show ?thesis
    using env(1,2) opts by (simp add: read_run_def Let_def drv_def fs_def mapaddr_def)
qed

subsection \<open>Flags on the command line\<close>

definition read_flags :: "bytes set" where
  "read_flags = {[0x2d, 0x6c], [0x2d, 0x72], [0x2d, 0x76]}"

lemma getopt_read_flags:
  assumes "set flags \<subseteq> read_flags" and "\<forall>a\<in>set ops. is_operand a"
  shows "getopt read_letters (flags @ ops) = (map (\<lambda>f. Opt (f ! 1) None) flags, ops)"
  using assms(1)
proof (induction flags)
  case Nil
  then show ?case using getopt_operands [of ops] assms(2) by (simp add: is_operand_def)
next
  case (Cons f flags)
  then have "f \<in> read_flags" by simp
  then obtain c where c: "f = [0x2d, c]" "read_letters c = Some False" "c \<noteq> 0x2d"
    by (auto simp: read_flags_def read_letters_def)
  then show ?case using getopt_flag [where opts = read_letters and c = c and as = "flags @ ops"] Cons by simp
qed

lemma read_options_flags:
  assumes "set flags \<subseteq> read_flags"
  shows "read_options (map (\<lambda>f. Opt (f ! 1) None) flags) ro = Some (Inr (ro\<lparr>
    opt_long := (opt_long ro \<or> [0x2d, 0x6c] \<in> set flags), opt_read := (opt_read ro \<or> [0x2d, 0x72] \<in> set flags),
    opt_verbose := (opt_verbose ro \<or> [0x2d, 0x76] \<in> set flags)\<rparr>))"
  using assms
proof (induction flags arbitrary: ro)
  case (Cons f flags)
  then show ?case by (auto simp: read_flags_def read_option_def)
qed simp

lemma main_image:
  assumes "set flags \<subseteq> read_flags" and "is_operand fsname" and "read_env_ok h env fsname img"
    and "length img < 2 ^ 31" and "chunk 0 4 img = word_be 4 SDB_MAGIC"
    and "listing (h_endian h) (img_entry img) 0 = Some (it # items)"
    and "length rest \<le> 1" and "\<forall>name\<in>set rest. plain_file_arg name \<and> named_fits (h_endian h) img items name"
  shows "sdb_read_main h env (flags @ fsname # rest)
    = Some (read_answer (h_endian h) ([0x2d, 0x6c] \<in> set flags) img (it # items) rest)"
proof -
  have "\<forall>a\<in>set (fsname # rest). is_operand a" using assms(2,8) by (auto simp: plain_file_arg_def)
  then have "getopt read_letters (flags @ fsname # rest) = (map (\<lambda>f. Opt (f ! 1) None) flags, fsname # rest)"
    by (rule getopt_read_flags [OF assms(1)])
  moreover obtain ro where "read_options (map (\<lambda>f. Opt (f ! 1) None) flags) read_opts0 = Some (Inr ro)"
    and "opt_long ro = ([0x2d, 0x6c] \<in> set flags)" "opt_memsize ro = 0" "opt_memaddr ro = 0" "opt_entry ro = 0"
    using read_options_flags [OF assms(1), of read_opts0] by (simp add: read_opts0_def)
  ultimately show ?thesis
    using read_run_image [OF assms(3-5) _ _ _ assms(6-8)] assms(7) by (simp add: sdb_read_main_def)
qed

end
