(* ===== verification/SdbProperties.thy ===== *)
theory SdbProperties
  imports SdbDemo SdbReadMain
begin

text \<open>
  The properties of the SDB library and its tool, each with a witness on
  the demonstration image where it has hypotheses.
\<close>

subsection \<open>The library and its tool\<close>

text \<open>C2: \<open>sdb-read\<close> lists the whole tree: its loop over \<open>sdbfs_scan\<close> ends, and prints the records
  of the recursive pre-order walk, each once, with the depth and the base of its directory; its
  result is the sum of the results for the records.\<close>

theorem list_prints_walk:
  assumes "scan_ok fs" and "listing (h_endian h) (entry h fs) (entrypoint fs) = Some items"
  shows "do_list h long fs = Some (listed (h_endian h) long items)"
  by (rule do_list_listing [OF assms])

theorem list_prints_walk_witness:
  "do_list demo_host True demo_fs = Some (listed Little True ((demo_ic 3 [0x74], 0, 0) # demo_items))"
proof -
  have "h_endian demo_host = Little" "entrypoint demo_fs = 0"
    by (simp_all add: demo_host_def demo_fs_def)
  then show ?thesis
    using list_prints_walk [of demo_fs demo_host "(demo_ic 3 [0x74], 0, 0) # demo_items"] demo_listing
    by simp
qed

lemma demo_find_foo:
  "find (\<lambda>it. name_matches Little [0x66, 0x6f, 0x6f] (fst it)) demo_items = Some (demo_dev, 0x100, 0)"
proof -
  have "name_matches Little [0x66, 0x6f, 0x6f] demo_dev" by code_simp
  then show ?thesis by (simp add: demo_items_def)
qed

text \<open>C11: What sdb-read answers depends on the image and the host's byte order alone: with \<open>-r\<close> or
  without, verbose or not, on an image that is mapped or one that only can be read, and wherever the
  mapping lies, the program lists the walk of the image, or prints the bytes of the first file of the
  name it is given and exits with 0, or exits with 1 if there is none.\<close>

theorem sdb_read_any_way:
  assumes "length img < 2 ^ 31" and "chunk 0 4 img = word_be 4 SDB_MAGIC"
    and "listing e (img_entry img) 0 = Some (it # items)" and "is_operand fsname"
    and "length rest \<le> 1" and "\<forall>name\<in>set rest. plain_file_arg name \<and> named_fits e img items name"
    and "set flags \<subseteq> read_flags" and "read_env_ok h env fsname img" and "h_endian h = e"
    and "set flags' \<subseteq> read_flags" and "read_env_ok h' env' fsname img" and "h_endian h' = e"
    and "[0x2d, 0x6c] \<in> set flags' \<longleftrightarrow> [0x2d, 0x6c] \<in> set flags"
  shows "sdb_read_main h env (flags @ fsname # rest)
      = Some (read_answer e ([0x2d, 0x6c] \<in> set flags) img (it # items) rest)
    \<and> sdb_read_main h' env' (flags' @ fsname # rest) = sdb_read_main h env (flags @ fsname # rest)"
  using main_image [OF assms(7,4,8,1,2) _ assms(5)] main_image [OF assms(10,4,11,1,2) _ assms(5)] assms(3,6,9,12,13)
  by auto

definition demo_read_env :: "u64 option \<Rightarrow> read_env" where
  "demo_read_env a = \<lparr>re_pagesize = 4096, re_file = [[0x69] \<mapsto> demo_img], re_mmap = (\<lambda>len off. a),
     re_calloc = True, re_fsaddr = 8, re_buf = replicate 4096 0\<rparr>"

lemma demo_img_entry:
  "img_entry demo_img 0 = Some (demo_ic 3 [0x74])" "img_entry demo_img 64 = Some demo_dev"
  "img_entry demo_img 128 = Some demo_bridge" "img_entry demo_img 192 = Some (demo_ic 1 [0x73])"
  by (simp_all add: img_entry_def)

lemma demo_img_listing:
  "listing Little (img_entry demo_img) 0 = Some ((demo_ic 3 [0x74], 0, 0) # demo_items)"
  by (simp add: listing_def demo_img_entry demo_records numeral_2_eq_2 walk_Suc sub_items_def demo_items_def)

lemma demo_foo_arg: "plain_file_arg [0x66, 0x6f, 0x6f]"
  by code_simp

theorem sdb_read_any_way_witness:
  "sdb_read_main demo_host (demo_read_env (Some 0x1000)) [[0x69], [0x66, 0x6f, 0x6f]] = Some (Bytes demo_data, 0)
    \<and> sdb_read_main \<lparr>h_endian = Little, h_mem = (\<lambda>a. None)\<rparr> (demo_read_env None) [[0x2d, 0x72], [0x69], [0x66, 0x6f, 0x6f]]
      = Some (Bytes demo_data, 0)"
proof -
  let ?h = "\<lparr>h_endian = Little, h_mem = (\<lambda>a. None)\<rparr>"
  have len: "file_len Little demo_dev = 16" by (simp add: file_len_def demo_records)
  have "chunk 0 4 (chunk 0 64 demo_img) = word_be 4 SDB_MAGIC" unfolding demo_chunks by code_simp
  then have magic: "chunk 0 4 demo_img = word_be 4 SDB_MAGIC" by (simp add: chunk_chunk del: demo_chunks)
  have fits: "named_fits Little demo_img demo_items [0x66, 0x6f, 0x6f]"
    by (simp add: named_fits_def demo_find_foo len)
  have maps: "maps_file (image_at 0x1000 demo_img) 0x1000 demo_img" by (rule maps_file_image) simp_all
  have env: "read_env_ok demo_host (demo_read_env (Some 0x1000)) [0x69] demo_img" "h_endian demo_host = Little"
    "read_env_ok ?h (demo_read_env None) [0x69] demo_img" "h_endian ?h = Little"
    using maps by (simp_all add: read_env_ok_def demo_read_env_def demo_host_def)
  have ops: "is_operand [0x69]" "set [] \<subseteq> read_flags" "set [[0x2d, 0x72]] \<subseteq> read_flags"
    by (simp_all add: is_operand_def is_option_def dash_dash_def read_flags_def)
  have answer: "read_answer Little l demo_img ((demo_ic 3 [0x74], 0, 0) # demo_items) [[0x66, 0x6f, 0x6f]]
      = (Bytes demo_data, 0)" for l
    by (simp add: read_answer_def demo_find_foo len)
  show ?thesis
    using sdb_read_any_way [OF _ magic demo_img_listing ops(1) _ _ ops(2) env(1,2) ops(3) env(3,4),
        of "[[0x66, 0x6f, 0x6f]]"] fits demo_foo_arg answer by simp
qed




text \<open>C29: A device created is the one found under its name, hiding an older one of the same name,
  and destroying it restores every look-up.\<close>

theorem lib_create_find_destroy:
  assumes "lib_rep L xs" and "lib_admissible h L xs p" and "lib_name L p = Some m"
  shows "\<exists>L' L''. sdbfs_dev_create h L p = Some (L', 0) \<and> sdbfs_dev_find L' m = Some p
    \<and> (\<forall>n. n \<noteq> m \<longrightarrow> sdbfs_dev_find L' n = sdbfs_dev_find L n)
    \<and> sdbfs_dev_destroy L' p = Some (L'', 0) \<and> lib_rep L'' xs
    \<and> sdbfs_dev_find L'' = sdbfs_dev_find L"
proof -
  obtain L' where L': "sdbfs_dev_create h L p = Some (L', 0)" "lib_rep L' (p # xs)"
    and finds: "\<forall>n. map_option handle_of (sdbfs_dev_find L' n) =
      (if n = m then Some (Some p) else map_option handle_of (sdbfs_dev_find L n))"
    using lib.look_add [OF assms] by blast
  obtain L'' where L'': "sdbfs_dev_destroy L' p = Some (L'', 0)" "lib_rep L'' xs" "lib_name L'' = lib_name L'"
    using destroy_rep [OF L'(2), of p] by auto
  have names: "lib_name L' = lib_name L" using create_rep [OF assms(1,2)] L'(1) by auto
  have inj: "x = y" if "map_option handle_of x = map_option handle_of y" for x y
    using that by (cases x; cases y) (auto simp: handle_of_def split: if_splits)
  have "sdbfs_dev_find L' m = Some p"
    using spec [OF finds, of m] by (auto simp: handle_of_def split: if_splits)
  moreover have "n \<noteq> m \<Longrightarrow> sdbfs_dev_find L' n = sdbfs_dev_find L n" for n
    using spec [OF finds, of n] by (intro inj) simp
  moreover have "sdbfs_dev_find L'' = sdbfs_dev_find L"
    by (intro ext inj) (simp only: find_rep [OF L''(2)] find_rep [OF assms(1)] L''(3) names)
  ultimately show ?thesis using L' L'' by blast
qed

definition demo_lib :: "nat lib" where
  "demo_lib = \<lparr>lib_heap = [0x8000 \<mapsto> demo_fs], sdbfs_list = 0\<rparr>"

lemma demo_magic: "read_magic demo_host demo_fs = Some (demo_fs, htonl Little SDB_MAGIC)"
proof -
  have "load_bytes (h_mem demo_host) 0x1000 4 = Some (chunk 0 4 demo_img)"
    using demo_load [of 0 4] by simp
  moreover have "chunk 0 4 demo_img = chunk 0 4 (demo_ic 3 [0x74])"
    by (simp add: demo_img_def chunk_app_left)
  moreover have "host_word Little (chunk 0 4 (demo_ic 3 [0x74])) = htonl Little SDB_MAGIC"
    by code_simp
  ultimately show ?thesis
    by (simp add: read_magic_def direct_def demo_fs_def demo_host_def)
qed

theorem lib_create_find_destroy_witness:
  "\<exists>L' L''. sdbfs_dev_create demo_host demo_lib 0x8000 = Some (L', 0) \<and> sdbfs_dev_find L' [0x78] = Some 0x8000
    \<and> sdbfs_dev_destroy L' 0x8000 = Some (L'', 0) \<and> sdbfs_dev_find L'' = sdbfs_dev_find demo_lib"
proof -
  have "lib_rep demo_lib []" by (simp add: lib_rep_def demo_lib_def)
  moreover have "lib_admissible demo_host demo_lib [] 0x8000"
    by (simp add: lib_admissible_def demo_lib_def demo_magic) (simp add: demo_fs_def demo_host_def)
  moreover have "lib_name demo_lib 0x8000 = Some [0x78]"
    by (simp add: lib_name_def demo_lib_def demo_fs_def)
  ultimately show ?thesis
    using lib_create_find_destroy [of demo_lib "[]" demo_host "0x8000" "[0x78]"] by blast
qed

end
