(* ===== verification/SdbfsProperties.thy ===== *)
theory SdbfsProperties
  imports SdbDemo
begin

text \<open>
  The properties of the kernel file system, on the devices its two drivers provide.
\<close>

definition mem_dev :: "u64 \<Rightarrow> u8 list \<Rightarrow> sdb_reader" where
  "mem_dev a img = sdbmem_read (image_at a img) \<lparr>sm_address = a, sm_datalen = of_nat (length img)\<rparr>"

definition fake_dev :: "u64 \<Rightarrow> u8 list \<Rightarrow> sdb_reader" where
  "fake_dev a img = fakedev_read (image_at a img) \<lparr>fw_data = a, fw_size = of_nat (length img)\<rparr>"

text \<open>The demonstration image behind the memory driver.\<close>

definition demo_sd :: sdbfs_dev where
  "demo_sd = \<lparr>kd_name = [0x6d], kd_flags = 0, kd_blocksize = 4, kd_entrypoint = 0, kd_owner = 7,
     kd_read = mem_dev 0x1000 demo_img, kd_size = 272\<rparr>"

definition demo_dir :: sdbfs_inode where
  "demo_dir = \<lparr>k_rec = [], nfiles = 0, k_files = Wild, i_ino = 1, i_size = 272, i_kind = Directory,
     base_data = 0, base_sdb = 0\<rparr>"

lemma demo_rec_at [simp]: "rec_at e demo_sd demo_img off = chunk off 64 demo_img"
  by (simp add: rec_at_def sdbfs_fix_endian_def demo_sd_def)

lemma demo_dir_ok: "dir_count Little demo_sd demo_img 0 = 3" "dir_ok Little demo_sd demo_img 0"
proof -
  have "unat (ntohs Little (i_sdb_records (load_interconnect Little (demo_ic 3 [0x74])))) = 3"
    by code_simp
  then show c: "dir_count Little demo_sd demo_img 0 = 3" by (simp add: dir_count_def)
  have "i_sdb_magic (load_interconnect Little (demo_ic 3 [0x74])) = htonl Little SDB_MAGIC"
    by code_simp
  then show "dir_ok Little demo_sd demo_img 0" by (simp add: dir_ok_def dir_magic_def c)
qed





text \<open>C36: Looking a name up in a directory on a firmware image gives the inode of the first record
  shown under that name, set up from that very record: the inode number made from the record's
  offset leads back to it. Without such a record the dentry stays negative.\<close>

theorem lookup_finds_record:
  assumes "kd_read sd = fake_dev a img" and "length img < 2 ^ 31" and "nfiles dir = 0"
    and "base_sdb dir AND 15 = 0" and "dir_ok e sd img (unat (base_sdb dir))"
    and "0 \<notin> set name" and "\<And>ino. ig ino = NewInode node"
  defines "rs \<equiv> dir_records e sd img (unat (base_sdb dir))"
  shows "\<exists>dir'. sdbfs_lookup e True True ig sd dir name = Some (dir',
      case find (\<lambda>r. shown_name e r = name) rs of
        None \<Rightarrow> None
      | Some r \<Rightarrow> Some (Inr (iget_setup e dir' r node), False))
    \<and> base_data dir' = base_data dir \<and> files_of dir' = map (make_info e) rs"
  using fakedev.lookup_image [OF assms(1-7) [unfolded fake_dev_def]]
  by (auto simp: rs_def files_of_def)

theorem lookup_finds_record_witness:
  "\<exists>dir' res. sdbfs_lookup Little True True (\<lambda>_. NewInode demo_dir)
     (demo_sd\<lparr>kd_read := fake_dev 0x1000 demo_img\<rparr>) demo_dir [0x66, 0x6f, 0x6f] = Some (dir', res)"
proof -
  let ?sd = "demo_sd\<lparr>kd_read := fake_dev 0x1000 demo_img\<rparr>"
  have "rec_at Little ?sd demo_img off = rec_at Little demo_sd demo_img off" for off
    by (simp add: rec_at_def sdbfs_fix_endian_def demo_sd_def)
  then have "dir_ok Little ?sd demo_img 0"
    using demo_dir_ok(2) by (simp only: dir_ok_def dir_magic_def dir_count_def)
  then show ?thesis
    using lookup_finds_record [of ?sd "0x1000" demo_img demo_dir Little "[0x66, 0x6f, 0x6f]"
        "\<lambda>_. NewInode demo_dir" demo_dir]
    by (auto simp: demo_dir_def)
qed

text \<open>C37: A read of more than 16 bytes does not return the file's bytes: it repeats the first 16 of them, until at
  least the count is reached, and so hands out up to 15 bytes more than were asked for.\<close>

theorem file_read_repeats:
  assumes "kd_read sd = mem_dev a img" and "file_in e img r off" and "unat count < 2 ^ 31"
    and "16 \<le> clipped e r off count" and "m = (clipped e r off count + 15) div 16"
  shows "sdbfs_read e (\<lambda>_. True) sd r off count = Some
    (concat (replicate m (chunk (unat (file_start e r) + unat off) 16 img)),
     off + of_nat (16 * m), of_nat (16 * m))"
  by (rule iomem.sdbfs_read_repeats [OF assms [unfolded mem_dev_def]])

text \<open>A record whose file is the interconnect and the device record, 128 bytes.\<close>

definition long_rec :: "u8 list" where
  "long_rec = store_device Little \<lparr>d_abi_class = 0, d_abi_ver_major = 0, d_abi_ver_minor = 0,
     d_bus_specific = 0, d_component = demo_component 0x100 0x180 [0x6c] sdb_type_device\<rparr>"

theorem file_read_repeats_witness:
  "\<exists>r img. sdbfs_read Little (\<lambda>_. True) (demo_sd\<lparr>kd_read := mem_dev 0x1000 img\<rparr>) r 0 17
     = Some (demo_data @ demo_data, 32, 32)"
proof -
  let ?img = "demo_img @ replicate 400 0"
  have at: "file_start Little long_rec = 0x100" "file_size Little long_rec = 0x81" by code_simp+
  have "chunk 256 16 ?img = demo_data" by (simp add: chunk_app_left)
  moreover have "kd_read (demo_sd\<lparr>kd_read := mem_dev 0x1000 ?img\<rparr>) = mem_dev 0x1000 ?img" by simp
  ultimately have "sdbfs_read Little (\<lambda>_. True) (demo_sd\<lparr>kd_read := mem_dev 0x1000 ?img\<rparr>) long_rec 0 17
      = Some (demo_data @ demo_data, 32, 32)"
    using file_read_repeats [of "demo_sd\<lparr>kd_read := mem_dev 0x1000 ?img\<rparr>" "0x1000" ?img Little long_rec 0 17 "Suc (Suc 0)"]
    by (simp add: file_in_def at clipped_def)
  then show ?thesis by blast
qed

text \<open>C38: Module references after a mount attempt and the release of its super block: as before
  when the mount succeeded, when the device was not found and when the magic number was wrong; but
  one too few when the root inode or dentry could not be made, where both \<open>sdbfs_fill_super\<close> and
  \<open>sdbfs_kill_sb\<close> drop the reference.\<close>

theorem mount_references:
  assumes "sdbfs_fill_super e tmg ig root_ok garbage C \<lparr>s_fs_info = 0, s_root = None\<rparr> name
      = Some (C1, sb, ret)"
    and "sdbfs_kill_sb C1 sb = Some C2" and "0 \<notin> set (sdbfs_devlist C)"
  shows "if s_fs_info sb = 0 \<or> ret = 0 \<or> ret = - EINVAL then mod_refs C2 = mod_refs C
    else \<exists>d. kd_heap C (s_fs_info sb) = Some d
      \<and> mod_refs C2 = (mod_refs C)(kd_owner d := mod_refs C (kd_owner d) - 1)"
  by (rule mount_refs [OF assms])

definition demo_client :: client where
  "demo_client = \<lparr>kd_heap = [8 \<mapsto> demo_sd\<lparr>kd_read := (\<lambda>_ _. Some (word_be 4 SDB_MAGIC, 4))\<rparr>],
     sdbfs_devlist = [8], mod_refs = (\<lambda>_. 0)\<rparr>"

theorem mount_references_witness:
  "\<exists>C1 sb C2. sdbfs_fill_super Big (\<lambda>_. True) (\<lambda>_. NoInode) True [0, 0, 0, 0] demo_client
      \<lparr>s_fs_info = 0, s_root = None\<rparr> [0x6d] = Some (C1, sb, - ENOMEM)
    \<and> sdbfs_kill_sb C1 sb = Some C2 \<and> mod_refs C2 7 = - 1"
proof -
  have magic: "host_word Big (overlay (word_be 4 SDB_MAGIC) [0, 0, 0, 0]) = ntohl Big SDB_MAGIC"
    by code_simp
  obtain C1 sb C2 where fill: "sdbfs_fill_super Big (\<lambda>_. True) (\<lambda>_. NoInode) True [0, 0, 0, 0] demo_client
      \<lparr>s_fs_info = 0, s_root = None\<rparr> [0x6d] = Some (C1, sb, - ENOMEM)"
    and sb: "s_fs_info sb = 8" and kill: "sdbfs_kill_sb C1 sb = Some C2"
    by (simp add: sdbfs_fill_super_def demo_client_def sdbfs_get_by_name_def demo_sd_def magic
        fill_root_def sdbfs_iget_def sdbfs_put_def sdbfs_kill_sb_def Let_def)
  have "0 \<notin> set (sdbfs_devlist demo_client)" by (simp add: demo_client_def)
  from mount_references [OF fill kill this] sb have "mod_refs C2 7 = - 1"
    by (auto simp: errno_defs demo_client_def demo_sd_def split: if_splits)
  then show ?thesis using fill kill by blast
qed

end
