(* ===== verification/GenSdbfs.thy ===== *)
theory GenSdbfs
  imports SdbHeader CFormat
begin

text \<open>
  gensdbfs (src/sdbfs/userspace/gensdbfs.c), first half: reading the input directory into a tree
  of SDB records (\<open>scan_inputdir\<close> and its helpers) and applying the configuration file to it
  (\<open>scan_config\<close>, \<open>parse_config_line\<close>).

  A \<open>struct sdbf\<close> is the record \<open>sdbf\<close>; its union of SDB structures is the 64 bytes
  \<open>sf_record\<close>, which every cast of the code sees in its own way. The pointers of the structure
  form a tree: an \<open>snode\<close> is one \<open>sdbf\<close> with the array its \<open>subdir\<close> points to, and an array
  of \<open>sdbf\<close> is a list of nodes. The back pointers \<open>dot\<close> and \<open>parent\<close>, which the code only
  follows for the level, are not kept.

  The input directory is a value of \<open>fnode\<close>, what \<open>stat\<close> and \<open>readdir\<close> answer; \<open>fopen\<close> is an
  argument, the bytes a path can be read to have, or \<open>None\<close> where it cannot be opened. The
  outer \<open>None\<close> of a result is undefined behaviour (a path longer than its buffer, an array
  index out of range, a number its type cannot hold), the inner one the code's return of NULL.
\<close>

subsection \<open>Data\<close>

record sdbf =
  sf_mode :: u32            \<comment> \<open>\<open>stbuf.st_mode\<close>\<close>
  sf_stsize :: u64          \<comment> \<open>\<open>stbuf.st_size\<close>\<close>
  sf_record :: bytes
  sf_fullname :: bytes
  sf_basename :: bytes
  sf_ustart :: u64
  sf_rstart :: u64
  sf_base :: u64
  sf_size :: u64
  sf_nfiles :: nat
  sf_level :: nat
  sf_userpos :: bool

datatype snode = SNode (sdbf_of: sdbf) (subdir_of: "snode list option")

datatype fnode =
    FNone                               \<comment> \<open>\<open>stat\<close> fails\<close>
  | FOther u32                      \<comment> \<open>neither a directory nor a regular file\<close>
  | FReg u32 u64                      \<comment> \<open>mode and size\<close>
  | FDir u32 "(bytes \<times> fnode) list option"  \<comment> \<open>\<open>None\<close>: \<open>opendir\<close> or \<open>calloc\<close> fails\<close>

type_synonym dir_listing = "(bytes \<times> fnode) list option"

definition CFG_NAME :: bytes where "CFG_NAME = str ''--SDB-CONFIG--''"
definition DEFAULT_VENDOR :: "endian \<Rightarrow> u64" where "DEFAULT_VENDOR e = htonll e 0x46696c6544617461"
definition PATH_MAX :: nat where "PATH_MAX = 4096"
definition S_IROTH :: u32 where "S_IROTH = 4"
definition S_IWOTH :: u32 where "S_IWOTH = 2"
definition S_IXOTH :: u32 where "S_IXOTH = 1"

definition zero_sdbf :: sdbf where
  \<comment> \<open>an element of the array \<open>calloc\<close> returns\<close>
  "zero_sdbf = \<lparr>sf_mode = 0, sf_stsize = 0, sf_record = replicate 64 0, sf_fullname = [],
     sf_basename = [], sf_ustart = 0, sf_rstart = 0, sf_base = 0, sf_size = 0, sf_nfiles = 0,
     sf_level = 0, sf_userpos = False\<rparr>"

subsection \<open>Assigning to the fields of a record\<close>

definition set_addr_first :: "endian \<Rightarrow> u64 \<Rightarrow> bytes \<Rightarrow> bytes" where
  "set_addr_first e v r = put 0x08 (host_bytes e 8 v) r"

definition set_addr_last :: "endian \<Rightarrow> u64 \<Rightarrow> bytes \<Rightarrow> bytes" where
  "set_addr_last e v r = put 0x10 (host_bytes e 8 v) r"

definition set_vendor_id :: "endian \<Rightarrow> u64 \<Rightarrow> bytes \<Rightarrow> bytes" where
  "set_vendor_id e v r = put 0x18 (host_bytes e 8 v) r"

definition set_device_id :: "endian \<Rightarrow> u32 \<Rightarrow> bytes \<Rightarrow> bytes" where
  "set_device_id e v r = put 0x20 (host_bytes e 4 v) r"

definition set_version :: "endian \<Rightarrow> u32 \<Rightarrow> bytes \<Rightarrow> bytes" where
  "set_version e v r = put 0x24 (host_bytes e 4 v) r"

definition set_name :: "bytes \<Rightarrow> bytes \<Rightarrow> bytes" where
  "set_name v r = put 0x2c v r"

definition set_record_type :: "u8 \<Rightarrow> bytes \<Rightarrow> bytes" where
  "set_record_type v r = put 0x3f [v] r"

definition set_bus_specific :: "endian \<Rightarrow> u32 \<Rightarrow> bytes \<Rightarrow> bytes" where
  "set_bus_specific e v r = put 0x04 (host_bytes e 4 v) r"

definition set_magic :: "endian \<Rightarrow> u32 \<Rightarrow> bytes \<Rightarrow> bytes" where
  "set_magic e v r = put 0x00 (host_bytes e 4 v) r"

definition set_records :: "endian \<Rightarrow> u16 \<Rightarrow> bytes \<Rightarrow> bytes" where
  "set_records e v r = put 0x04 (host_bytes e 2 v) r"

definition set_child :: "endian \<Rightarrow> u64 \<Rightarrow> bytes \<Rightarrow> bytes" where
  "set_child e v r = put 0x00 (host_bytes e 8 v) r"

lemmas set_field_defs = set_addr_first_def set_addr_last_def set_vendor_id_def set_device_id_def
  set_version_def set_name_def set_record_type_def set_bus_specific_def set_magic_def
  set_records_def set_child_def

definition get_records :: "endian \<Rightarrow> bytes \<Rightarrow> nat" where
  \<comment> \<open>\<open>ntohs(tree->s_i.sdb_records)\<close>\<close>
  "get_records e r = unat (ntohs e (i_sdb_records (load_interconnect e r)))"

subsection \<open>Filling in one entry\<close>

definition SDB_ALIGN :: "u32 \<Rightarrow> u64 \<Rightarrow> u64" where
  "SDB_ALIGN blocksize x = (x + ucast (blocksize - 1)) AND ucast (NOT (blocksize - 1))"

definition fill_product :: "endian \<Rightarrow> bytes \<Rightarrow> u8 \<Rightarrow> bytes \<Rightarrow> bytes" where
  \<comment> \<open>\<open>__fill_product\<close>; the first four bytes of the name are also the device id\<close>
  "fill_product e name record_type r =
     (let nm = take 19 name;
          pname = nm @ replicate (19 - length nm) 0x20;
          r = set_name pname r;
          r = put 0x20 (take 4 pname) r;
          r = set_vendor_id e (DEFAULT_VENDOR e) r;
          r = set_version e (htonl e 1) r
      in set_record_type record_type r)"

definition path_join :: "bytes \<Rightarrow> bytes \<Rightarrow> bytes option" where
  "path_join dir name =
     (let p = dir @ [0x2f] @ name in if length p < PATH_MAX then Some p else None)"

definition fill_dot :: "endian \<Rightarrow> bytes \<Rightarrow> sdbf \<Rightarrow> sdbf option" where
  "fill_dot e dir f = do {
     fn \<leftarrow> path_join dir [0x2e];
     let r = set_magic e (htonl e SDB_MAGIC) (sf_record f);
     let r = put 0x06 [1, sdb_data] r;
     Some (f\<lparr>sf_fullname := fn, sf_basename := [0x2e],
             sf_record := fill_product e [0x2e] sdb_type_interconnect r\<rparr>) }"

definition file_flags :: "u32 \<Rightarrow> u32" where
  "file_flags mode =
     (if mode AND S_IROTH \<noteq> 0 then SDB_DATA_READ else 0)
     OR (if mode AND S_IWOTH \<noteq> 0 then SDB_DATA_WRITE else 0)
     OR (if mode AND S_IXOTH \<noteq> 0 then SDB_DATA_EXEC else 0)"

definition fill_regular :: "endian \<Rightarrow> u32 \<Rightarrow> bytes \<Rightarrow> sdbf \<Rightarrow> sdbf" where
  \<comment> \<open>the end of \<open>__fill_file\<close>, for a regular file\<close>
  "fill_regular e blocksize fname f =
     (let size = sf_stsize f;
          size = (if sf_mode f AND S_IWOTH \<noteq> 0 then SDB_ALIGN blocksize size else size);
          r = set_bus_specific e (htonl e (file_flags (sf_mode f))) (sf_record f)
      in f\<lparr>sf_size := size, sf_record := fill_product e fname sdb_type_device r\<rparr>)"

subsection \<open>The configuration file\<close>

definition upd_node :: "(sdbf \<Rightarrow> sdbf) \<Rightarrow> snode \<Rightarrow> snode" where
  "upd_node g x = SNode (g (sdbf_of x)) (subdir_of x)"

definition upd_record :: "(bytes \<Rightarrow> bytes) \<Rightarrow> snode \<Rightarrow> snode" where
  "upd_record g = upd_node (\<lambda>f. f\<lparr>sf_record := g (sf_record f)\<rparr>)"

text \<open>\<open>find_filename\<close>: the index of the first record of that name.\<close>

definition find_filename :: "endian \<Rightarrow> snode list \<Rightarrow> bytes \<Rightarrow> nat option option" where
  "find_filename e tree s = do {
     dot \<leftarrow> nth_opt tree 0;
     let n = get_records e (sf_record (sdbf_of dot));
     case find (\<lambda>i. sf_basename (sdbf_of (tree ! i)) = s) [0..<min n (length tree)] of
       Some i \<Rightarrow> Some (Some i)
     | None \<Rightarrow> if n \<le> length tree then Some None else None }"

text \<open>The number of a directive that is tried in decimal and, if that gives zero, as hexadecimal.\<close>

definition dec_or_hex :: "bytes \<Rightarrow> u64 option option" where
  "dec_or_hex arg =
     (case scan_int 10 arg of
        None \<Rightarrow> Some None
      | Some v \<Rightarrow> do {
          i \<leftarrow> as_unsigned v;
          if i \<noteq> 0 then Some (Some i)
          else (case scan_int 16 arg of
                  None \<Rightarrow> Some (Some i)
                | Some v \<Rightarrow> do { i \<leftarrow> as_unsigned v; Some (Some i) }) })"

definition number :: "bytes \<Rightarrow> bytes \<Rightarrow> (bytes \<Rightarrow> 'a option option) \<Rightarrow> 'a option option" where
  \<comment> \<open>one \<open>sscanf\<close> of a line: \<open>Some None\<close> where it does not return 1\<close>
  "number key t conv = (case directive key t of None \<Rightarrow> Some None | Some arg \<Rightarrow> conv arg)"

definition conv_with :: "nat \<Rightarrow> (int \<Rightarrow> 'a option) \<Rightarrow> bytes \<Rightarrow> 'a option option" where
  "conv_with base store arg =
     (case scan_int base arg of None \<Rightarrow> Some None | Some v \<Rightarrow> map_option Some (store v))"

definition cfg_write :: "endian \<Rightarrow> u32 \<Rightarrow> snode \<Rightarrow> snode" where
  "cfg_write e i = upd_record (\<lambda>r.
     let b = d_bus_specific (load_device e r)
     in set_bus_specific e (if i \<noteq> 0 then b OR htonl e SDB_DATA_WRITE
                            else b AND htonl e (NOT SDB_DATA_WRITE)) r)"

definition cfg_position :: "nat \<Rightarrow> u64 \<Rightarrow> snode \<Rightarrow> snode" where
  "cfg_position level v cur =
     (if level \<noteq> 0 then cur else upd_node (\<lambda>f. f\<lparr>sf_userpos := True, sf_ustart := v\<rparr>) cur)"

definition parse_config_line :: "endian \<Rightarrow> nat \<Rightarrow> snode \<Rightarrow> bytes \<Rightarrow> (snode \<times> int) option" where
  \<comment> \<open>\<open>level\<close> is \<open>tree->level\<close>; the node is \<open>current\<close>\<close>
  "parse_config_line e level cur t = do {
     vendor \<leftarrow> number (str ''vendor'') t dec_or_hex;
     case vendor of Some v \<Rightarrow> Some (upd_record (set_vendor_id e (htonll e v)) cur, 0) | None \<Rightarrow> do {
     device \<leftarrow> number (str ''device'') t dec_or_hex;
     case device of Some v \<Rightarrow> Some (upd_record (set_device_id e (htonl e (ucast v))) cur, 0) | None \<Rightarrow> do {
     write \<leftarrow> number (str ''write'') t (conv_with 0 as_int);
     case write of Some i \<Rightarrow> Some (cfg_write e i cur, 0) | None \<Rightarrow> do {
     maxsize \<leftarrow> number (str ''maxsize'') t (conv_with 0 as_long);
     case maxsize of Some v \<Rightarrow> Some (upd_node (\<lambda>f. f\<lparr>sf_size := v\<rparr>) cur, 0) | None \<Rightarrow> do {
     position \<leftarrow> number (str ''position'') t (conv_with 0 as_long);
     case position of Some v \<Rightarrow> Some (cfg_position level v cur, 0) | None \<Rightarrow> Some (cur, - 1) }}}}}"

text \<open>One line read by \<open>fgets\<close>, without the white space at its end.\<close>

definition trim_end :: "bytes \<Rightarrow> bytes" where
  "trim_end s = rev (dropWhile isspace (rev s))"

definition config_line :: "endian \<Rightarrow> snode list \<Rightarrow> nat option \<Rightarrow> bytes \<Rightarrow> (snode list \<times> nat option) option" where
  "config_line e tree current line =
     (let s = trim_end (cut line); t = dropWhile isblank s
      in if t = [] \<or> hd t = 0x23 then Some (tree, current)
         else if t = s then do {
           current \<leftarrow> find_filename e tree s;
           Some (tree, current) }
         else (case current of
             None \<Rightarrow> Some (tree, current)
           | Some i \<Rightarrow> do {
               dot \<leftarrow> nth_opt tree 0;
               x \<leftarrow> nth_opt tree i;
               (x, ret) \<leftarrow> parse_config_line e (sf_level (sdbf_of dot)) x t;
               Some (tree[i := x], current) }))"

function scan_config :: "endian \<Rightarrow> snode list \<Rightarrow> nat option \<Rightarrow> bytes \<Rightarrow> snode list option" where
  "scan_config e tree current text =
     (if text = [] then Some tree
      else (case fgets 255 text of (line, rest) \<Rightarrow> do {
        (tree, current) \<leftarrow> config_line e tree current line;
        scan_config e tree current rest }))"
  by pat_completeness auto
termination
proof (relation "measure (\<lambda>(e, tree, current, text). length text)", goal_cases)
  case (2 e tree current cfg p line rest)
  then show ?case using fgets_progress [of cfg 254] by (cases "fgets 255 cfg") simp
qed simp

declare scan_config.simps [simp del]

subsection \<open>Reading the input directory\<close>

type_synonym scan_state = "snode list \<times> nat \<times> bytes option"   \<comment> \<open>array, next slot, configuration\<close>

text \<open>The number of entries of a directory tree, for the recursion below.\<close>

primrec entries :: "fnode \<Rightarrow> nat" where
  "entries FNone = 1"
| "entries (FOther m) = 1"
| "entries (FReg m n) = 1"
| "entries (FDir m l) =
     Suc (case map_option (map (map_prod id entries)) l of None \<Rightarrow> 0 | Some xs \<Rightarrow> sum_list (map snd xs))"

definition listing_entries :: "dir_listing \<Rightarrow> nat" where
  "listing_entries l = (case l of None \<Rightarrow> 0 | Some xs \<Rightarrow> sum_list (map (\<lambda>p. entries (snd p)) xs))"

lemma entries_pos: "0 < entries x"
  by (cases x) simp_all

lemma entries_dir: "entries (FDir m l) = Suc (listing_entries l)"
  by (cases l) (simp_all add: listing_entries_def comp_def)

text \<open>The directory scan, for the second of the two loops; the count of the first is the length
  of the listing. \<open>fill_file\<close> gives the slot's new content and the code's return value.\<close>

function (sequential) scan_inputdir ::
      "endian \<Rightarrow> u32 \<Rightarrow> (bytes \<Rightarrow> bytes option) \<Rightarrow> bytes \<Rightarrow> nat option \<Rightarrow> dir_listing
       \<Rightarrow> (snode list \<times> bytes option) option option"
  and scan_slots ::
      "endian \<Rightarrow> u32 \<Rightarrow> (bytes \<Rightarrow> bytes option) \<Rightarrow> bytes \<Rightarrow> scan_state \<Rightarrow> (bytes \<times> fnode) list
       \<Rightarrow> scan_state option option"
  and fill_file ::
      "endian \<Rightarrow> u32 \<Rightarrow> (bytes \<Rightarrow> bytes option) \<Rightarrow> bytes \<Rightarrow> bytes \<Rightarrow> nat \<Rightarrow> sdbf \<Rightarrow> fnode
       \<Rightarrow> (snode \<times> int) option"
  and prepare_dir ::
      "endian \<Rightarrow> u32 \<Rightarrow> (bytes \<Rightarrow> bytes option) \<Rightarrow> bytes \<Rightarrow> nat option \<Rightarrow> dir_listing
       \<Rightarrow> snode list option option"
where
  "scan_inputdir e bs fopen name parent None = Some None"
| "scan_inputdir e bs fopen name parent (Some ents) =
     (let n = length ents;
          level = (case parent of None \<Rightarrow> 0 | Some l \<Rightarrow> l + 1);
          tree = replicate n (SNode zero_sdbf None)
      in if n = 0 then None
         else do {
           res \<leftarrow> scan_slots e bs fopen name
             (tree[0 := SNode (zero_sdbf\<lparr>sf_nfiles := n, sf_level := level\<rparr>) None], 1, None) ents;
           case res of
             None \<Rightarrow> Some None
           | Some (tree, n, cfgf) \<Rightarrow>
               Some (Some (tree[0 := upd_record (set_records e (htons e (of_nat n))) (tree ! 0)], cfgf)) })"
| "scan_slots e bs fopen name st [] = Some (Some st)"
| "scan_slots e bs fopen name (tree, n, cfgf) ((de, x) # ents) =
     (if de = [0x2e] then do {
        f \<leftarrow> fill_dot e name (sdbf_of (tree ! 0));
        scan_slots e bs fopen name (tree[0 := SNode f None], n, cfgf) ents }
      else if de = [0x2e, 0x2e] then scan_slots e bs fopen name (tree, n, cfgf) ents
      else if de = CFG_NAME then do {
        s \<leftarrow> path_join name de;
        scan_slots e bs fopen name (tree, n, fopen s) ents }
      else do {
        slot \<leftarrow> nth_opt tree n;
        (slot, ret) \<leftarrow> fill_file e bs fopen name de (sf_level (sdbf_of (tree ! 0)))
                        ((sdbf_of slot)\<lparr>sf_level := sf_level (sdbf_of (tree ! 0))\<rparr>) x;
        if ret < 0 then Some None
        else scan_slots e bs fopen name (tree[n := slot], n + nat ret, cfgf) ents })"
| "fill_file e bs fopen dir fname level f x = do {
     fn \<leftarrow> path_join dir fname;
     let f = f\<lparr>sf_fullname := fn, sf_basename := fname\<rparr>;
     case x of
       FNone \<Rightarrow> Some (SNode f None, - 1)
     | FDir mode ents \<Rightarrow> do {
         let f = f\<lparr>sf_mode := mode, sf_record := fill_product e fname sdb_type_bridge (sf_record f)\<rparr>;
         subdir \<leftarrow> prepare_dir e bs fopen fn (Some level) ents;
         case subdir of
           None \<Rightarrow> Some (SNode f None, - 1)
         | Some sub \<Rightarrow> Some (SNode f (Some sub), 1) }
     | FOther mode \<Rightarrow> Some (SNode (f\<lparr>sf_mode := mode\<rparr>) None, 0)
     | FReg mode len \<Rightarrow>
         Some (SNode (fill_regular e bs fname (f\<lparr>sf_mode := mode, sf_stsize := len\<rparr>)) None, 1) }"
| "prepare_dir e bs fopen name parent ents = do {
     res \<leftarrow> scan_inputdir e bs fopen name parent ents;
     case res of
       None \<Rightarrow> Some None
     | Some (tree, None) \<Rightarrow> Some (Some tree)
     | Some (tree, Some text) \<Rightarrow> do { tree \<leftarrow> scan_config e tree None text; Some (Some tree) } }"
  by pat_completeness auto

termination
proof (relation "measure (\<lambda>call. case call of
      Inl (Inl (e, bs, fopen, name, parent, l)) \<Rightarrow> 4 * listing_entries l + 2
    | Inl (Inr (e, bs, fopen, name, st, xs)) \<Rightarrow> 4 * listing_entries (Some xs) + 1
    | Inr (Inl (e, bs, fopen, dir, fname, level, f, x)) \<Rightarrow> 4 * entries x
    | Inr (Inr (e, bs, fopen, name, parent, l)) \<Rightarrow> 4 * listing_entries l + 3)", goal_cases)
qed (use entries_pos in \<open>auto simp: listing_entries_def entries_dir simp del: entries.simps\<close>)

declare prepare_dir.simps [simp del]

end
