(* ===== verification/GenImage.thy ===== *)
theory GenImage
  imports GenSdbfs
begin

text \<open>
  gensdbfs (src/sdbfs/userspace/gensdbfs.c), second half: placing the files in the storage area
  (\<open>alloc_storage\<close>), writing the image file (\<open>write_sdb\<close>) and the main program after its command
  line. \<open>unsigned long\<close> has 64 bits; \<open>malloc\<close> of the copy buffer does not fail.
\<close>

subsection \<open>Placing the files\<close>

primrec snodes :: "snode \<Rightarrow> nat" where
  "snodes (SNode f sub) =
     Suc (case map_option (map snodes) sub of None \<Rightarrow> 0 | Some ns \<Rightarrow> Suc (sum_list ns))"

lemma snodes_dir: "snodes (SNode f (Some sub)) = Suc (Suc (sum_list (map snodes sub)))"
  by simp

lemma snodes_pos: "0 < snodes x"
  by (cases x) simp

definition sf_first :: "endian \<Rightarrow> sdbf \<Rightarrow> u64" where
  "sf_first e f = ntohll e (c_addr_first (load_component e (sf_record f)))"

definition sf_last :: "endian \<Rightarrow> sdbf \<Rightarrow> u64" where
  "sf_last e f = ntohll e (c_addr_last (load_component e (sf_record f)))"

text \<open>Where one entry goes, its size being known: the entry, the next relative position and the
  last used byte.\<close>

definition place :: "endian \<Rightarrow> u32 \<Rightarrow> u64 \<Rightarrow> u64 \<Rightarrow> sdbf \<Rightarrow> sdbf \<times> u64 \<times> u64" where
  "place e bs rpos lst f =
     (if sf_userpos f then
        (let r = set_addr_first e (htonll e (sf_ustart f)) (sf_record f);
             l = sf_ustart f + sf_size f - 1;
             r = set_addr_last e (htonll e l) r
         in (f\<lparr>sf_record := r\<rparr>, rpos, if l > lst then l else lst))
      else
        (let r = set_addr_first e (htonll e rpos) (sf_record f);
             l = rpos + sf_size f - 1;
             r = set_addr_last e (htonll e l) r
         in (f\<lparr>sf_rstart := rpos, sf_record := r\<rparr>, SDB_ALIGN bs (rpos + sf_size f),
             if l > lst then l else lst)))"

definition size_subdir :: "endian \<Rightarrow> u64 \<Rightarrow> snode list \<Rightarrow> sdbf \<Rightarrow> sdbf option" where
  \<comment> \<open>after the recursive call: the size and the child offset of the directory's own entry\<close>
  "size_subdir e rpos sub f = do {
     dot \<leftarrow> nth_opt sub 0;
     let subsize = sf_last e (sdbf_of dot);
     let f = (if subsize > sf_size f then f\<lparr>sf_size := subsize\<rparr> else f);
     Some (f\<lparr>sf_record := set_child e (htonll e rpos) (sf_record f)\<rparr>) }"

lemma sum_list_take: "sum_list (map h (take n xs)) \<le> sum_list (map (h :: _ \<Rightarrow> nat) xs)"
proof -
  have "sum_list (map h xs) = sum_list (map h (take n xs)) + sum_list (map h (drop n xs))"
    by (metis append_take_drop_id map_append sum_list_append)
  then show ?thesis by simp
qed

function (sequential) alloc_storage :: "endian \<Rightarrow> u32 \<Rightarrow> u64 \<Rightarrow> snode list \<Rightarrow> snode list option"
  and alloc_files ::
    "endian \<Rightarrow> u32 \<Rightarrow> u64 \<Rightarrow> u64 \<Rightarrow> u64 \<Rightarrow> snode list \<Rightarrow> (snode list \<times> u64) option"
where
  \<comment> \<open>\<open>base\<close> is \<open>tree->base\<close>, which the caller has just assigned (zero at the top)\<close>
  "alloc_storage e bs base [] = None"
| "alloc_storage e bs base (SNode dot sub # rest) =
     (let dot = dot\<lparr>sf_base := base, sf_record := set_addr_first e (htonll e 0) (sf_record dot)\<rparr>;
          n = get_records e (sf_record dot);
          rpos = sf_ustart dot + SDB_ALIGN bs (of_nat (n * 64))
      in if length rest < n - 1 then None
         else do {
           (files, lst) \<leftarrow> alloc_files e bs base rpos rpos (take (n - 1) rest);
           let dot = dot\<lparr>sf_record := set_addr_last e (htonll e lst) (sf_record dot)\<rparr>;
           Some (SNode dot sub # files @ drop (n - 1) rest) })"
| "alloc_files e bs base rpos lst [] = Some ([], lst)"
| "alloc_files e bs base rpos lst (SNode f sub # fs) = do {
     (f, sub) \<leftarrow> (case sub of
         None \<Rightarrow> Some (f, None)
       | Some s \<Rightarrow> do {
           s \<leftarrow> alloc_storage e bs (base + rpos) s;
           f \<leftarrow> size_subdir e rpos s f;
           Some (f, Some s) });
     let (f, rpos, lst) = place e bs rpos lst f;
     (fs, lst) \<leftarrow> alloc_files e bs base rpos lst fs;
     Some (SNode f sub # fs, lst) }"
  by pat_completeness auto

termination
proof (relation "measure (\<lambda>call. case call of
      Inl (e, bs, base, xs) \<Rightarrow> sum_list (map snodes xs)
    | Inr (e, bs, base, rpos, lst, xs) \<Rightarrow> sum_list (map snodes xs))", goal_cases)
  case (2 e bs base dot sub rest d n rpos)
  then show ?case using sum_list_take [of snodes "n - 1" rest] by (simp add: less_Suc_eq_le)
qed auto

declare alloc_storage.simps [simp del] alloc_files.simps [simp del]

subsection \<open>The output file\<close>

record outfile =
  o_bytes :: bytes
  o_pos :: nat
  lastwritten :: u64

text \<open>\<open>fseek\<close> refuses a negative offset; a write past the end leaves zeros in between.\<close>

definition fseek_set :: "u64 \<Rightarrow> outfile \<Rightarrow> outfile" where
  "fseek_set off f = (if unat off < 2 ^ 63 then f\<lparr>o_pos := unat off\<rparr> else f)"

definition put_grow :: "nat \<Rightarrow> bytes \<Rightarrow> bytes \<Rightarrow> bytes" where
  "put_grow off bs img =
     take off img @ replicate (off - length img) 0 @ bs @ drop (off + length bs) img"

definition fwrite :: "bytes \<Rightarrow> outfile \<Rightarrow> outfile" where
  "fwrite bs f = (if bs = [] then f
     else f\<lparr>o_bytes := put_grow (o_pos f) bs (o_bytes f), o_pos := o_pos f + length bs\<rparr>)"

text \<open>The directory: its records, and the base of every entry but the first two.\<close>

definition write_records :: "nat \<Rightarrow> snode list \<Rightarrow> outfile \<Rightarrow> outfile" where
  "write_records n tree out = foldl (\<lambda>out x. fwrite (sf_record (sdbf_of x)) out) out (take n tree)"

definition set_bases :: "nat \<Rightarrow> snode list \<Rightarrow> snode list" where
  "set_bases n tree = map (\<lambda>i. if 1 < i \<and> i < n
       then upd_node (\<lambda>f. f\<lparr>sf_base := sf_base (sdbf_of (tree ! 0)) + sf_rstart f\<rparr>) (tree ! i)
       else tree ! i) [0..<length tree]"

text \<open>The copy of one file in blocks; \<open>copied\<close> and \<open>j\<close> are \<open>int\<close>s.\<close>

function copy_loop :: "u32 \<Rightarrow> u64 \<Rightarrow> u32 \<Rightarrow> bytes \<Rightarrow> outfile \<Rightarrow> outfile option" where
  "copy_loop bs st_size copied src out =
     (if sint copied < sint st_size then
        (let blk = take (unat bs) src; j = (of_nat (length blk) :: u32)
         in if sint j \<le> 0 then Some out
            else if 2 ^ 31 \<le> sint copied + sint j then None
            else (let out = fwrite blk out;
                      pos = (of_nat (o_pos out) :: u64);
                      out = (if pos > lastwritten out then out\<lparr>lastwritten := pos\<rparr> else out)
                  in copy_loop bs st_size (copied + j) (drop (unat bs) src) out))
      else Some out)"
  by pat_completeness auto
termination
proof (relation "measure (\<lambda>(bs, st_size, copied, src, out). length src)", goal_cases)
  case (2 bs st_size copied src out blk j out1 pos out2)
  have "blk \<noteq> []" using 2(3,4) by (cases blk) simp_all
  then have "0 < unat bs" "src \<noteq> []" unfolding 2(2) by (cases "unat bs"; auto)+
  then show ?case by simp
qed simp

declare copy_loop.simps [simp del]

text \<open>The entries of a directory and, for a subdirectory, all of its image.\<close>

function (sequential) write_sdb ::
      "endian \<Rightarrow> u32 \<Rightarrow> (bytes \<Rightarrow> bytes option) \<Rightarrow> snode list \<Rightarrow> outfile \<Rightarrow> (snode list \<times> outfile) option"
  and write_files ::
      "endian \<Rightarrow> u32 \<Rightarrow> (bytes \<Rightarrow> bytes option) \<Rightarrow> u64 \<Rightarrow> snode list \<Rightarrow> outfile \<Rightarrow> (snode list \<times> outfile) option"
where
  "write_sdb e bs fopen [] out = None"
| "write_sdb e bs fopen (dot # rest) out =
     (let n = get_records e (sf_record (sdbf_of dot));
          base = sf_base (sdbf_of dot);
          out = fseek_set (base + sf_ustart (sdbf_of dot)) out
      in if length rest < n - 1 then None
         else do {
           let out = write_records n (dot # rest) out;
           (files, out) \<leftarrow> write_files e bs fopen base (take (n - 1) rest) out;
           Some (set_bases n (dot # files @ drop (n - 1) rest), out) })"
| "write_files e bs fopen base [] out = Some ([], out)"
| "write_files e bs fopen base (SNode f sub # fs) out = do {
     (sub, out) \<leftarrow> (case fopen (sf_fullname f) of
         None \<Rightarrow> Some (sub, out)
       | Some src \<Rightarrow>
           (let out = fseek_set (if sf_userpos f then sf_ustart f else base + sf_rstart f) out
            in case sub of
                 Some s \<Rightarrow> do { (s, out) \<leftarrow> write_sdb e bs fopen s out; Some (Some s, out) }
               | None \<Rightarrow> do { out \<leftarrow> copy_loop bs (sf_stsize f) 0 src out; Some (None, out) }));
     (fs, out) \<leftarrow> write_files e bs fopen base fs out;
     Some (SNode f sub # fs, out) }"
  by pat_completeness auto
termination
proof (relation "measure (\<lambda>call. case call of
      Inl (e, bs, fopen, xs, out) \<Rightarrow> sum_list (map snodes xs)
    | Inr (e, bs, fopen, base, xs, out) \<Rightarrow> sum_list (map snodes xs))", goal_cases)
  case (2 e bs fopen dot rest out n base out1 out2)
  then show ?case using sum_list_take [of snodes "n - 1" rest] snodes_pos [of dot] by simp
qed auto

declare write_sdb.simps [simp del] write_files.simps [simp del]

subsection \<open>The main program\<close>

text \<open>After the options: the bytes of the output file (\<open>None\<close> where it was not created) and the
  exit code. \<open>out_ok\<close> tells whether the output file can be opened for writing.\<close>

definition gensdbfs_main ::
    "endian \<Rightarrow> u32 \<Rightarrow> u64 \<Rightarrow> (bytes \<Rightarrow> bytes option) \<Rightarrow> bytes \<Rightarrow> fnode \<Rightarrow> bool \<Rightarrow> (bytes option \<times> int) option" where
  "gensdbfs_main e blocksize devsize fopen indir inode out_ok =
     (case inode of
        FNone \<Rightarrow> Some (None, 1)
      | FOther m \<Rightarrow> Some (None, 1)
      | FReg m n \<Rightarrow> Some (None, 1)
      | FDir m ents \<Rightarrow>
          if \<not> out_ok then Some (None, 1)
          else do {
            prepared \<leftarrow> prepare_dir e blocksize fopen indir None ents;
            case prepared of
              None \<Rightarrow> Some (Some [], 1)
            | Some tree \<Rightarrow> do {
                tree \<leftarrow> alloc_storage e blocksize 0 tree;
                (tree, out) \<leftarrow> write_sdb e blocksize fopen tree
                                 \<lparr>o_bytes = [], o_pos = 0, lastwritten = 0\<rparr>;
                let out = (if lastwritten out < devsize
                           then fwrite [0] (fseek_set (devsize - 1) out) else out);
                Some (Some (o_bytes out),
                      if devsize \<noteq> 0 \<and> devsize < lastwritten out then 1 else 0) } })"

end
