(* ===== verification/GenRecord.thy ===== *)
theory GenRecord
  imports GenImage LibsdbfsOpen
begin

text \<open>
  The records gensdbfs builds, as bytes: what each assignment of the code stores does not depend
  on the host, and every field read back afterwards has the value assigned to it.
\<close>

named_theorems set_simps

subsection \<open>The bytes an assignment stores\<close>

lemma word_le_bitwise:
  "word_le n (x OR y) = map2 (OR) (word_le n x) (word_le n y)"
  "word_le n (x AND y) = map2 (AND) (word_le n x) (word_le n y)"
  by (intro nth_equalityI bit_word_eqI; simp add: nth_word_le bit_simps; blast)+

lemma le_word_bitwise:
  assumes "length xs = length ys"
  shows "le_word (map2 (OR) xs ys) = (le_word xs OR le_word ys :: 'a::len word)"
    and "le_word (map2 (AND) xs ys) = (le_word xs AND le_word ys :: 'a::len word)"
  using assms
proof (induction xs ys rule: list_induct2)
  case Nil
  {
    case 1
    show ?case by simp
  next
    case 2
    show ?case by simp
  }
next
  case (Cons x xs y ys)
  have byte: "bit x n \<Longrightarrow> n < 8" "bit y n \<Longrightarrow> n < 8" for n
    using bit_imp_le_length [of x n] bit_imp_le_length [of y n] by auto
  {
    case 1
    show ?case by (rule bit_word_eqI) (auto simp: Cons.IH bit_simps)
  next
    case 2
    show ?case by (rule bit_word_eqI) (auto simp: Cons.IH bit_simps dest: byte)
  }
qed

lemma rev_map2: "length xs = length ys \<Longrightarrow> rev (map2 f xs ys) = map2 f (rev xs) (rev ys)"
  by (simp add: rev_map zip_rev)

lemma htonl_or: "htonl e (x OR y) = htonl e x OR htonl e y"
  by (cases e) (simp_all add: htonl_def be_word_def word_le_bitwise rev_map2 le_word_bitwise)

lemma htonl_and: "htonl e (x AND y) = htonl e x AND htonl e y"
  by (cases e) (simp_all add: htonl_def be_word_def word_le_bitwise rev_map2 le_word_bitwise)

lemma set_be [set_simps]:
  "set_addr_first e (htonll e v) r = put 8 (word_be 8 v) r"
  "set_addr_last e (htonll e v) r = put 16 (word_be 8 v) r"
  "set_vendor_id e (htonll e v) r = put 24 (word_be 8 v) r"
  "set_vendor_id e (DEFAULT_VENDOR e) r = put 24 (word_be 8 (0x46696c6544617461 :: u64)) r"
  "set_device_id e (htonl e d) r = put 32 (word_be 4 d) r"
  "set_version e (htonl e d) r = put 36 (word_be 4 d) r"
  "set_bus_specific e (htonl e d) r = put 4 (word_be 4 d) r"
  "set_magic e (htonl e d) r = put 0 (word_be 4 d) r"
  "set_records e (htons e n) r = put 4 (word_be 2 n) r"
  "set_child e (htonll e v) r = put 0 (word_be 8 v) r"
  by (simp_all add: set_field_defs DEFAULT_VENDOR_def endian_simps)

text \<open>Reading fields back, on any host.\<close>

lemma get_be [set_simps]:
  assumes "length r = 64"
  shows "get_records e r = unat (be_word (chunk 4 2 r) :: u16)"
    and "ntohll e (c_addr_first (load_component e r)) = be_word (chunk 8 8 r)"
    and "ntohll e (c_addr_last (load_component e r)) = be_word (chunk 16 8 r)"
    and "htonl e (d_bus_specific (load_device e r)) = be_word (chunk 4 4 r)"
    and "htonll e (b_sdb_child (load_bridge e r)) = be_word (chunk 0 8 r)"
    and "ntohl e (i_sdb_magic (load_interconnect e r)) = be_word (chunk 0 4 r)"
  using assms
  by (simp_all add: get_records_def load_defs ntohs_def ntohll_def ntohl_def htons_bytes
      htonll_bytes htonl_bytes)

lemma be_64 [simp]: "be_word (word_be 8 v) = (v :: u64)"
  by (rule be_word_word_be_full) simp

lemma be_32 [simp]: "be_word (word_be 4 v) = (v :: u32)"
  by (rule be_word_word_be_full) simp

lemma be_16 [simp]: "be_word (word_be 2 v) = (v :: u16)"
  by (rule be_word_word_be_full) simp

lemma cfg_write_be [set_simps]:
  assumes "length (sf_record (sdbf_of x)) = 64"
  shows "cfg_write e i x = upd_record (\<lambda>r.
    put 4 (word_be 4 (if i \<noteq> 0 then be_word (chunk 4 4 r) OR SDB_DATA_WRITE
                      else be_word (chunk 4 4 r) AND NOT SDB_DATA_WRITE)) r) x"
proof -
  let ?r = "sf_record (sdbf_of x)"
  have "d_bus_specific (load_device e ?r) = htonl e (be_word (chunk 4 4 ?r))"
    by (metis assms get_be(4) htonl_htonl)
  then show ?thesis
    by (cases "i = 0") (simp_all add: cfg_write_def upd_record_def upd_node_def Let_def set_be
        htonl_or [symmetric] htonl_and [symmetric])
qed

lemma length_set [simp]:
  assumes "length r = 64"
  shows "length (set_addr_first e v r) = 64" "length (set_addr_last e v r) = 64"
    "length (set_vendor_id e v r) = 64" "length (set_device_id e d r) = 64"
    "length (set_version e d r) = 64" "length (set_bus_specific e d r) = 64"
    "length (set_magic e d r) = 64" "length (set_records e n r) = 64"
    "length (set_child e v r) = 64" "length (set_record_type t r) = 64"
    "length nm = 19 \<Longrightarrow> length (set_name nm r) = 64"
  using assms by (simp_all add: set_field_defs buf_simps)

text \<open>The record of a product, and what of it the layout later leaves alone.\<close>

definition padded :: "bytes \<Rightarrow> bytes" where
  "padded name = take 19 name @ replicate (19 - length name) 0x20"

lemma length_padded [simp]: "length (padded name) = 19"
  by (simp add: padded_def)

lemma fill_product_eq:
  "fill_product e name t r = put 63 [t] (put 36 (word_be 4 (1 :: u32)) (put 24 (word_be 8 (0x46696c6544617461 :: u64))
     (put 32 (take 4 (padded name)) (put 44 (padded name) r))))"
proof -
  have "19 - min (length name) 19 = 19 - length name" by (simp add: min_def)
  then show ?thesis
    by (simp add: fill_product_def padded_def Let_def set_be set_name_def set_record_type_def)
qed

lemma fill_product_fields:
  assumes "length r = 64"
  shows "length (fill_product e name t r) = 64"
    and "fill_product e name t r ! 63 = t"
    and "chunk 44 19 (fill_product e name t r) = padded name"
    and "j + k \<le> 24 \<Longrightarrow> chunk j k (fill_product e name t r) = chunk j k r"
  using assms chunk_put_same [of 44 "padded name" r]
  by (simp_all add: fill_product_eq buf_simps)

end
