(* ===== verification/GenTree.thy ===== *)
theory GenTree
  imports GenRecord
begin

text \<open>
  The shape of the tree gensdbfs works on: \<open>wf_tree\<close> says that the array of a directory starts
  with an interconnect record that counts the entries, that every counted entry is a device, or a
  bridge with a well-formed tree of the next level, and that every record has 64 bytes. Reading a
  directory builds such a tree, the configuration file keeps it, and so does the allocation,
  which therefore never leaves its arrays.
\<close>

subsection \<open>Well-formed trees\<close>

definition dot_ok :: "nat \<Rightarrow> snode \<Rightarrow> bool" where
  "dot_ok lev x \<longleftrightarrow> subdir_of x = None \<and> length (sf_record (sdbf_of x)) = 64
     \<and> sf_record (sdbf_of x) ! 63 = sdb_type_interconnect
     \<and> chunk 44 19 (sf_record (sdbf_of x)) = padded [0x2e]
     \<and> chunk 0 4 (sf_record (sdbf_of x)) = word_be 4 SDB_MAGIC \<and> sf_level (sdbf_of x) = lev"

definition n_records :: "snode \<Rightarrow> nat" where
  "n_records x = unat (be_word (chunk 4 2 (sf_record (sdbf_of x))) :: u16)"

lemma snodes_member: "x \<in> set xs \<Longrightarrow> snodes x \<le> sum_list (map snodes xs)"
  by (induction xs) auto

function (sequential) wf_tree :: "nat \<Rightarrow> snode list \<Rightarrow> bool" and wf_node :: "nat \<Rightarrow> snode \<Rightarrow> bool" where
  "wf_tree lev [] = False"
| "wf_tree lev (dot # rest) \<longleftrightarrow> dot_ok lev dot \<and> 1 \<le> n_records dot \<and> n_records dot - 1 \<le> length rest
     \<and> (\<forall>x\<in>set (take (n_records dot - 1) rest). wf_node lev x)"
| "wf_node lev (SNode f sub) \<longleftrightarrow> length (sf_record f) = 64 \<and> sf_level f = lev
     \<and> (case sub of None \<Rightarrow> sf_record f ! 63 = sdb_type_device
        | Some s \<Rightarrow> sf_record f ! 63 = sdb_type_bridge \<and> wf_tree (lev + 1) s)"
  by pat_completeness auto

termination
proof (relation "measure (\<lambda>call. case call of
      Inl (lev, xs) \<Rightarrow> Suc (sum_list (map snodes xs)) | Inr (lev, x) \<Rightarrow> snodes x)", goal_cases)
  case (2 lev dot rest x)
  then have "x \<in> set rest" by (auto dest: in_set_takeD)
  then show ?case using snodes_member [of x rest] by simp
qed auto

declare wf_tree.simps [simp del] wf_node.simps [simp del]

text \<open>A change of a node that its place in the tree does not notice.\<close>

definition same_shape :: "snode \<Rightarrow> snode \<Rightarrow> bool" where
  "same_shape x y \<longleftrightarrow> subdir_of y = subdir_of x \<and> sf_level (sdbf_of y) = sf_level (sdbf_of x)
     \<and> length (sf_record (sdbf_of y)) = 64
     \<and> sf_record (sdbf_of y) ! 63 = sf_record (sdbf_of x) ! 63
     \<and> chunk 44 19 (sf_record (sdbf_of y)) = chunk 44 19 (sf_record (sdbf_of x))
     \<and> chunk 0 7 (sf_record (sdbf_of y)) = chunk 0 7 (sf_record (sdbf_of x))"

lemma same_shape_chunk:
  "same_shape x y \<Longrightarrow> i + n \<le> 7 \<Longrightarrow>
   chunk i n (sf_record (sdbf_of y)) = chunk i n (sf_record (sdbf_of x))"
  using chunk_chunk [of i n 7 0 "sf_record (sdbf_of y)"] chunk_chunk [of i n 7 0 "sf_record (sdbf_of x)"]
  by (simp add: same_shape_def)

lemma same_shape_counted: "same_shape x y \<Longrightarrow> n_records y = n_records x"
  by (simp add: n_records_def same_shape_chunk)

lemma same_shape_dot: "same_shape x y \<Longrightarrow> dot_ok lev x \<Longrightarrow> dot_ok lev y"
  using same_shape_chunk [of x y 0 4] by (simp add: dot_ok_def same_shape_def)

lemma same_shape_node: "same_shape x y \<Longrightarrow> wf_node lev x \<Longrightarrow> wf_node lev y"
  by (cases x; cases y) (auto simp: wf_node.simps same_shape_def split: option.splits)

lemma wf_tree_update:
  assumes "wf_tree lev tree" and "same_shape (tree ! i) x"
  shows "wf_tree lev (tree[i := x])"
proof (cases tree)
  case Nil
  then show ?thesis using assms by (simp add: wf_tree.simps)
next
  case (Cons dot rest)
  show ?thesis
  proof (cases i)
    case 0
    then show ?thesis
      using assms Cons by (auto simp: wf_tree.simps same_shape_counted same_shape_dot)
  next
    case (Suc j)
    have "wf_node lev y" if "y \<in> set (take (n_records dot - 1) (rest[j := x]))" for y
    proof -
      from that obtain k where k: "k < n_records dot - 1" "k < length rest" "y = (rest[j := x]) ! k"
        by (auto simp: in_set_conv_nth)
      then have "wf_node lev (rest ! k)"
        using assms(1) Cons by (force simp: wf_tree.simps in_set_conv_nth)
      moreover have "k = j \<Longrightarrow> same_shape (rest ! k) y" using assms(2) k Cons Suc by simp
      ultimately show ?thesis using k same_shape_node by (cases "k = j") auto
    qed
    then show ?thesis using assms Cons Suc by (auto simp: wf_tree.simps)
  qed
qed

subsection \<open>The configuration file\<close>

lemma nth_word_be: "i < n \<Longrightarrow> word_be n w ! i = ucast (drop_bit (8 * (n - 1 - i)) w)"
  by (simp add: word_be_def rev_nth nth_word_le)

lemma high_bytes_write:
  assumes "i < 3"
  shows "word_be 4 (w OR SDB_DATA_WRITE) ! i = word_be 4 w ! i"
    and "word_be 4 (w AND NOT SDB_DATA_WRITE) ! i = word_be 4 w ! i"
  using assms
  by (simp_all add: nth_word_be SDB_DATA_WRITE_def,
      (intro bit_word_eqI, auto simp: bit_simps)+)

lemma shape_bytes_write:
  assumes "length r = 64" and "chunk 0 3 (word_be 4 w) = chunk 0 3 (chunk 4 4 r)"
  shows "chunk 0 7 (put 4 (word_be 4 w) r) = chunk 0 7 r"
proof (rule nth_equalityI)
  fix i assume "i < length (chunk 0 7 (put 4 (word_be 4 w) r))"
  then have i: "i < 7" using assms by (simp add: buf_simps)
  have "4 \<le> i \<Longrightarrow> word_be 4 w ! (i - 4) = r ! i"
    using arg_cong [OF assms(2), of "\<lambda>xs. xs ! (i - 4)"] i assms(1) by (simp add: buf_simps)
  then show "chunk 0 7 (put 4 (word_be 4 w) r) ! i = chunk 0 7 r ! i"
    using i assms(1) by (simp add: buf_simps)
qed (use assms in \<open>simp add: buf_simps\<close>)

lemma be_bytes: "length c = 4 \<Longrightarrow> word_be 4 (be_word c :: u32) = c"
  using word_be_be_word [where 'a = 32 and bs = c] by simp

lemma shape_cfg_write:
  assumes "length (sf_record (sdbf_of x)) = 64"
  shows "same_shape x (cfg_write e i x)"
proof -
  let ?r = "sf_record (sdbf_of x)"
  let ?w = "be_word (chunk 4 4 ?r) :: u32"
  have w: "word_be 4 ?w = chunk 4 4 ?r" using assms by (simp add: be_bytes)
  have "chunk 0 3 (word_be 4 (if i \<noteq> 0 then ?w OR SDB_DATA_WRITE else ?w AND NOT SDB_DATA_WRITE))
      = chunk 0 3 (chunk 4 4 ?r)"
  proof (rule nth_equalityI)
    fix j assume "j < length (chunk 0 3 (word_be 4 (if i \<noteq> 0 then ?w OR SDB_DATA_WRITE else ?w AND NOT SDB_DATA_WRITE)))"
    then have "j < 3" by (simp add: buf_simps)
    with arg_cong [OF w, of "\<lambda>xs. xs ! j"] show "chunk 0 3 (word_be 4 (if i \<noteq> 0 then ?w OR SDB_DATA_WRITE else ?w AND NOT SDB_DATA_WRITE)) ! j
        = chunk 0 3 (chunk 4 4 ?r) ! j"
      using assms by (simp add: nth_chunk high_bytes_write)
  qed (use assms in \<open>simp add: buf_simps\<close>)
  note low = shape_bytes_write [OF assms this]
  let ?u = "put 4 (word_be 4 (if i \<noteq> 0 then ?w OR SDB_DATA_WRITE else ?w AND NOT SDB_DATA_WRITE)) ?r"
  have "length ?u = 64" using assms by (simp add: buf_simps)
  moreover have "?u ! 63 = ?r ! 63"
    using assms by (subst nth_put) (simp_all del: if_split)
  moreover have "chunk 44 19 ?u = chunk 44 19 ?r" using assms by (simp add: buf_simps)
  ultimately show ?thesis
    using low by (simp add: cfg_write_be [OF assms] same_shape_def upd_record_def upd_node_def)
qed

lemma shape_put:
  assumes "length (sf_record (sdbf_of x)) = 64" and "7 \<le> k" and "k + length bs \<le> 44"
  shows "same_shape x (upd_record (put k bs) x)"
  using assms by (simp add: same_shape_def upd_record_def upd_node_def buf_simps)

lemma shape_node:
  assumes "length (sf_record (sdbf_of x)) = 64"
  shows "same_shape x x"
    and "same_shape x (upd_node (\<lambda>f. f\<lparr>sf_size := n\<rparr>) x)"
    and "same_shape x (cfg_position lev n x)"
  using assms by (simp_all add: same_shape_def upd_node_def cfg_position_def)

lemma shape_fields:
  assumes "length (sf_record (sdbf_of x)) = 64"
  shows "same_shape x (upd_record (set_vendor_id e v) x)"
    and "same_shape x (upd_record (set_device_id e d) x)"
proof -
  have "set_vendor_id e v = put 24 (host_bytes e 8 v)" "set_device_id e d = put 32 (host_bytes e 4 d)"
    by (rule ext, simp add: set_field_defs)+
  then show "same_shape x (upd_record (set_vendor_id e v) x)"
    and "same_shape x (upd_record (set_device_id e d) x)"
    using shape_put [OF assms, of 24 "host_bytes e 8 v"] shape_put [OF assms, of 32 "host_bytes e 4 d"]
    by simp_all
qed

lemma parse_config_line_shape:
  assumes "length (sf_record (sdbf_of x)) = 64" and "parse_config_line e lev x t = Some (y, ret)"
  shows "same_shape x y"
proof -
  note s = shape_node [OF assms(1)] shape_fields [OF assms(1)] shape_cfg_write [OF assms(1)]
  from assms(2) s(1) show ?thesis
    unfolding parse_config_line_def
    by (auto split: option.splits bind_splits simp: s(2-))
qed

lemma wf_tree_lengths:
  assumes "wf_tree lev tree" and "i < length tree" and "i < n_records (tree ! 0)"
  shows "length (sf_record (sdbf_of (tree ! i))) = 64"
proof (cases tree)
  case (Cons dot rest)
  show ?thesis
  proof (cases i)
    case 0
    then show ?thesis using assms Cons by (simp add: wf_tree.simps dot_ok_def)
  next
    case (Suc j)
    then have "rest ! j \<in> set (take (n_records dot - 1) rest)"
      using assms Cons by (auto simp: in_set_conv_nth)
    then have "wf_node lev (rest ! j)" using assms(1) Cons by (simp add: wf_tree.simps)
    then show ?thesis using Cons Suc by (cases "rest ! j") (simp add: wf_node.simps)
  qed
qed (use assms in simp)

lemma find_filename_counted:
  assumes "wf_tree lev tree"
  shows "\<exists>r. find_filename e tree s = Some r"
    and "find_filename e tree s = Some (Some i) \<Longrightarrow> i < length tree \<and> i < n_records (tree ! 0)"
proof -
  obtain dot rest where tree: "tree = dot # rest" using assms by (cases tree) (auto simp: wf_tree.simps)
  then have dot: "length (sf_record (sdbf_of dot)) = 64" "n_records dot \<le> length tree"
    using assms by (auto simp: wf_tree.simps dot_ok_def)
  then have n: "get_records e (sf_record (sdbf_of dot)) = n_records dot"
    by (simp add: get_be n_records_def)
  show "\<exists>r. find_filename e tree s = Some r"
    using dot n by (auto simp: find_filename_def Let_def tree split: option.splits)
  show "find_filename e tree s = Some (Some i) \<Longrightarrow> i < length tree \<and> i < n_records (tree ! 0)"
    using dot n by (auto simp: find_filename_def Let_def tree find_Some_iff split: option.splits if_splits)
qed

definition current_ok :: "snode list \<Rightarrow> nat option \<Rightarrow> bool" where
  "current_ok tree current \<longleftrightarrow> (\<forall>i. current = Some i \<longrightarrow> i < length tree \<and> i < n_records (tree ! 0))"

lemma config_line_cases:
  assumes "config_line e tree current line = Some (tree', current')"
  obtains "tree' = tree" "current' = current"
    | "find_filename e tree (trim_end (cut line)) = Some current'" "tree' = tree"
    | i x y ret t lev where "current = Some i" "nth_opt tree i = Some x" "current' = current"
        "parse_config_line e lev x t = Some (y, ret)" "tree' = tree[i := y]"
proof -
  define s t where "s = trim_end (cut line)" and "t = dropWhile isblank s"
  note line = assms [unfolded config_line_def Let_def, folded s_def, folded t_def]
  consider "t = [] \<or> hd t = 0x23" | "\<not> (t = [] \<or> hd t = 0x23)" "t = s"
    | "\<not> (t = [] \<or> hd t = 0x23)" "t \<noteq> s" by blast
  then show thesis
  proof cases
    case 1
    then show thesis using line that(1) by simp
  next
    case 2
    from line [unfolded if_not_P [OF 2(1)] if_P [OF 2(2)]]
    have "find_filename e tree s = Some current'" "tree' = tree" by (auto simp: bind_eq_Some_conv)
    then show thesis unfolding s_def by (rule that(2))
  next
    case 3
    show thesis
    proof (cases current)
      case None
      then show thesis using line 3 that(1) by simp
    next
      case (Some i)
      with 3 line have "do { dot \<leftarrow> nth_opt tree 0; x \<leftarrow> nth_opt tree i;
          (x, ret) \<leftarrow> parse_config_line e (sf_level (sdbf_of dot)) x t; Some (tree[i := x], current) }
        = Some (tree', current')"
        by simp
      then obtain dot x y ret where "nth_opt tree i = Some x" "current' = current" "tree' = tree[i := y]"
          "parse_config_line e (sf_level (sdbf_of dot)) x t = Some (y, ret)"
        by (auto simp: bind_eq_Some_conv)
      with that(3) Some show thesis by blast
    qed
  qed
qed

lemma config_line_wf:
  assumes "wf_tree lev tree" and "current_ok tree current"
    and "config_line e tree current line = Some (tree', current')"
  shows "wf_tree lev tree' \<and> current_ok tree' current'"
  using assms(3)
proof (cases rule: config_line_cases)
  case 1
  then show ?thesis using assms by simp
next
  case 2
  then show ?thesis using assms(1) find_filename_counted [OF assms(1)] by (auto simp: current_ok_def)
next
  case (3 i x y ret t l)
  then have i: "i < length tree" "i < n_records (tree ! 0)" "tree ! i = x"
    using assms(2) by (auto simp: current_ok_def nth_opt_Some)
  then have shape: "same_shape (tree ! i) y"
    using parse_config_line_shape 3(4) wf_tree_lengths [OF assms(1)] by blast
  have "n_records (tree[i := y] ! 0) = n_records (tree ! 0)"
    using shape i same_shape_counted by (cases "i = 0") auto
  then show ?thesis using wf_tree_update [OF assms(1) shape] 3 i by (simp add: current_ok_def)
qed

lemma scan_config_wf:
  "scan_config e tree current cfg = Some tree' \<Longrightarrow> wf_tree lev tree \<Longrightarrow> current_ok tree current \<Longrightarrow>
   wf_tree lev tree'"
proof (induction e tree current cfg rule: scan_config.induct)
  case (1 e tree current cfg)
  show ?case
  proof (cases "cfg = []")
    case False
    obtain line rest where g: "fgets 255 cfg = (line, rest)" by fastforce
    with 1(2) False obtain t c where t: "config_line e tree current line = Some (t, c)"
      "scan_config e t c rest = Some tree'"
      by (subst (asm) scan_config.simps) (auto simp: bind_eq_Some_conv)
    show ?thesis
      using 1(1) [OF False g [symmetric] t(1) refl t(2)] config_line_wf [OF 1(3,4) t(1)] by simp
  qed (use 1 in \<open>simp add: scan_config.simps\<close>)
qed

subsection \<open>Reading a directory\<close>

text \<open>What the host's directories are known to be: each lists a dot, and fits the 16-bit count.\<close>

definition is_dots :: "bytes \<Rightarrow> bool" where
  "is_dots de \<longleftrightarrow> de = [0x2e] \<or> de = [0x2e, 0x2e]"

primrec dirs_ok :: "fnode \<Rightarrow> bool" where
  "dirs_ok FNone = True"
| "dirs_ok (FOther m) = True"
| "dirs_ok (FReg m n) = True"
| "dirs_ok (FDir m l) \<longleftrightarrow> (case map_option (map (map_prod id dirs_ok)) l of
     None \<Rightarrow> True
   | Some xs \<Rightarrow> [0x2e] \<in> fst ` set xs \<and> length xs < 65536 \<and> (\<forall>p\<in>set xs. is_dots (fst p) \<or> snd p))"

definition listing_ok :: "dir_listing \<Rightarrow> bool" where
  "listing_ok l \<longleftrightarrow> (\<forall>xs. l = Some xs \<longrightarrow>
     [0x2e] \<in> fst ` set xs \<and> length xs < 65536 \<and> (\<forall>p\<in>set xs. is_dots (fst p) \<or> dirs_ok (snd p)))"

lemma dirs_ok_dir: "dirs_ok (FDir m l) = listing_ok l"
  by (cases l) (simp_all add: listing_ok_def image_image)

text \<open>The array while it is being filled: \<open>n\<close> is the next slot.\<close>

definition filling :: "nat \<Rightarrow> nat \<Rightarrow> scan_state \<Rightarrow> bool" where
  "filling lev N st \<longleftrightarrow> (case st of (tree, n, cfg) \<Rightarrow>
     length tree = N \<and> 1 \<le> n \<and> n \<le> N \<and> sf_level (sdbf_of (tree ! 0)) = lev
     \<and> subdir_of (tree ! 0) = None
     \<and> (\<forall>x\<in>set tree. length (sf_record (sdbf_of x)) = 64)
     \<and> (\<forall>i. 1 \<le> i \<longrightarrow> i < n \<longrightarrow> wf_node lev (tree ! i)))"

definition parent_level :: "nat option \<Rightarrow> nat" where
  "parent_level parent = (case parent of None \<Rightarrow> 0 | Some l \<Rightarrow> l + 1)"

lemma chunk_put_0: "length bs \<le> length r \<Longrightarrow> n \<le> length bs \<Longrightarrow> chunk 0 n (put 0 bs r) = take n bs"
  by (simp add: chunk_def put_def)

lemma fill_dot_ok:
  assumes "fill_dot e name f = Some g" and "length (sf_record f) = 64" and "sf_level f = lev"
  shows "dot_ok lev (SNode g None)"
proof -
  let ?r = "put 6 [1, sdb_data] (put 0 (word_be 4 SDB_MAGIC) (sf_record f))"
  have r: "length ?r = 64" using assms(2) by (simp add: buf_simps)
  have "chunk 0 4 ?r = word_be 4 SDB_MAGIC"
    using assms(2) chunk_put_same [of 0 "word_be 4 SDB_MAGIC" "sf_record f"] by (simp add: buf_simps)
  then show ?thesis
    using assms fill_product_fields [OF r]
    by (auto simp: dot_ok_def fill_dot_def bind_eq_Some_conv Let_def set_be path_join_def)
qed

lemma filling_dot:
  assumes "filling lev N (tree, n, cfg)" and "dot_ok lev x"
  shows "filling lev N (tree[0 := x], n, cfg)"
  using assms by (auto simp: filling_def dot_ok_def nth_list_update dest!: set_update_subset_insert [THEN subsetD])

lemma filling_slot:
  assumes "filling lev N (tree, n, cfg)" and "n < N" and "length (sf_record (sdbf_of x)) = 64"
    and "ret = 0 \<or> ret = 1" and "ret = 1 \<Longrightarrow> wf_node lev x"
  shows "filling lev N (tree[n := x], n + nat ret, cfg)"
  using assms
  by (auto simp: filling_def nth_list_update less_Suc_eq dest!: set_update_subset_insert [THEN subsetD])

lemma filled_tree:
  assumes "filling lev N (tree, n, cfg)" and "dot_ok lev (tree ! 0)" and "N < 65536"
  shows "wf_tree lev (tree[0 := upd_record (set_records e (htons e (of_nat n))) (tree ! 0)])"
proof -
  obtain dot rest where tree: "tree = dot # rest" using assms(1) by (cases tree) (auto simp: filling_def)
  let ?dot = "upd_record (set_records e (htons e (of_nat n))) dot"
  have n: "1 \<le> n" "n \<le> Suc (length rest)" "length rest < 65535"
    using assms(1,3) tree by (auto simp: filling_def)
  have r: "length (sf_record (sdbf_of dot)) = 64" using assms(2) tree by (simp add: dot_ok_def)
  then have dot: "dot_ok lev ?dot"
    using assms(2) tree by (simp add: dot_ok_def upd_record_def upd_node_def set_be buf_simps)
  have "n_records ?dot = unat (of_nat n :: u16)"
    using r chunk_put_same [of 4 "word_be 2 (of_nat n :: u16)" "sf_record (sdbf_of dot)"]
    by (simp add: n_records_def upd_record_def upd_node_def set_be)
  then have nr: "n_records ?dot = n" using n by (simp add: unat_of_nat)
  have "wf_node lev x" if "x \<in> set (take (n - 1) rest)" for x
  proof -
    from that obtain k where "k < n - 1" "k < length rest" "x = rest ! k" by (auto simp: in_set_conv_nth)
    then show ?thesis using assms(1) tree
      by (auto simp: filling_def dest: spec [of _ "Suc k"])
  qed
  with dot nr n tree show ?thesis by (simp add: wf_tree.simps)
qed

lemma scanned_wf:
  "scan_inputdir e bs fopen name parent l = Some (Some (tree, cfg)) \<Longrightarrow> listing_ok l \<Longrightarrow>
     wf_tree (parent_level parent) tree"
  "scan_slots e bs fopen name st ents = Some (Some st') \<Longrightarrow> filling lev N st \<Longrightarrow>
     \<forall>p\<in>set ents. is_dots (fst p) \<or> dirs_ok (snd p) \<Longrightarrow>
     filling lev N st' \<and> (dot_ok lev (fst st ! 0) \<or> [0x2e] \<in> fst ` set ents \<longrightarrow> dot_ok lev (fst st' ! 0))"
  "fill_file e bs fopen dir fname level f x = Some (slot, ret) \<Longrightarrow> length (sf_record f) = 64 \<Longrightarrow>
     sf_level f = level \<Longrightarrow> dirs_ok x \<Longrightarrow>
     length (sf_record (sdbf_of slot)) = 64 \<and> ret \<in> {-1, 0, 1} \<and> (ret = 1 \<longrightarrow> wf_node level slot)"
  "prepare_dir e bs fopen name parent l = Some (Some tree) \<Longrightarrow> listing_ok l \<Longrightarrow>
     wf_tree (parent_level parent) tree"
proof (induction e bs fopen name parent l and e bs fopen name st ents and
    e bs fopen dir fname level f x and e bs fopen name parent l
    arbitrary: tree cfg and st' lev N and slot ret and tree
    rule: scan_inputdir_scan_slots_fill_file_prepare_dir.induct)
  case (1 e bs fopen name parent)
  then show ?case by simp
next
  case (2 e bs fopen name parent ents)
  let ?lev = "parent_level parent"
  let ?dot = "SNode (zero_sdbf\<lparr>sf_nfiles := length ents, sf_level := ?lev\<rparr>) None"
  let ?init = "((replicate (length ents) (SNode zero_sdbf None))[0 := ?dot], 1, None)"
  from 2(2) have n: "length ents \<noteq> 0" by auto
  obtain t n where t: "scan_slots e bs fopen name ?init ents = Some (Some (t, n, cfg))"
    and tree: "tree = t[0 := upd_record (set_records e (htons e (of_nat n))) (t ! 0)]"
    using 2(2) n
    by (auto simp: Let_def bind_eq_Some_conv parent_level_def split: option.splits if_splits)
  have "filling ?lev (length ents) ?init"
    using n by (cases ents) (auto simp: filling_def zero_sdbf_def)
  moreover from 2(3) have l: "[0x2e] \<in> fst ` set ents" "length ents < 65536" "\<forall>p\<in>set ents. is_dots (fst p) \<or> dirs_ok (snd p)"
    by (simp_all add: listing_ok_def)
  ultimately have "filling ?lev (length ents) (t, n, cfg)" "dot_ok ?lev (t ! 0)"
    using 2(1) [OF refl refl refl n, of "(t, n, cfg)" ?lev "length ents"] t
    by (simp_all add: parent_level_def)
  from filled_tree [OF this l(2)] show ?case unfolding tree .
next
  case (3 e bs fopen name st)
  then show ?case by simp
next
  case (4 e bs fopen name tree n cfgf de x ents)
  note inv = 4(7) and ok = 4(8)
  have lens: "length (sf_record (sdbf_of (tree ! i))) = 64" if "i < length tree" for i
    using inv that by (auto simp: filling_def)
  have dims: "length tree = N" "1 \<le> n" "n \<le> N" "sf_level (sdbf_of (tree ! 0)) = lev"
    using inv by (auto simp: filling_def)
  consider "de = [0x2e]" | "de \<noteq> [0x2e]" "de = [0x2e, 0x2e]" | "de \<noteq> [0x2e]" "de \<noteq> [0x2e, 0x2e]" "de = CFG_NAME"
    | "de \<noteq> [0x2e]" "de \<noteq> [0x2e, 0x2e]" "de \<noteq> CFG_NAME" by blast
  then show ?case
  proof cases
    case 1
    with 4(6) obtain f where f: "fill_dot e name (sdbf_of (tree ! 0)) = Some f"
      "scan_slots e bs fopen name (tree[0 := SNode f None], n, cfgf) ents = Some (Some st')"
      by (auto simp: bind_eq_Some_conv)
    have dot: "dot_ok lev (SNode f None)" using fill_dot_ok [OF f(1)] lens [of 0] dims by auto
    then show ?thesis
      using 4(1) [OF 1 f(1) f(2) filling_dot [OF inv dot]] ok dims by auto
  next
    case 2
    then show ?thesis using 4(2) [OF 2, of st' lev N] 4(6) inv ok by auto
  next
    case 3
    with 4(6) obtain s where s: "path_join name de = Some s"
      "scan_slots e bs fopen name (tree, n, fopen s) ents = Some (Some st')"
      by (auto simp: bind_eq_Some_conv)
    have "filling lev N (tree, n, fopen s)" using inv by (simp add: filling_def)
    from 4(3) [OF 3 s this] ok 3 show ?thesis by auto
  next
    case 4
    note nm = this
    let ?f = "(sdbf_of (tree ! n))\<lparr>sf_level := sf_level (sdbf_of (tree ! 0))\<rparr>"
    from 4 \<open>scan_slots e bs fopen name (tree, n, cfgf) ((de, x) # ents) = Some (Some st')\<close>
    obtain slot ret where n: "n < length tree" and f: "nth_opt tree n = Some (tree ! n)"
        "fill_file e bs fopen name de (sf_level (sdbf_of (tree ! 0))) ?f x = Some (slot, ret)" "\<not> ret < 0"
        "scan_slots e bs fopen name (tree[n := slot], n + nat ret, cfgf) ents = Some (Some st')"
      by (auto simp: bind_eq_Some_conv nth_opt_Some split: if_splits)
    have slot: "length (sf_record (sdbf_of slot)) = 64" "ret = 0 \<or> ret = 1" "ret = 1 \<Longrightarrow> wf_node lev slot"
      using "4.IH"(4) [OF nm f(1,2)] lens [OF n] ok nm f(3) dims by (auto simp: is_dots_def)
    have "filling lev N (tree[n := slot], n + nat ret, cfgf)"
      using filling_slot [OF inv _ slot] n dims by simp
    from "4.IH"(5) [OF nm f(1,2) refl f(3,4) this] ok nm dims show ?thesis by auto
  qed
next
  case (5 e bs fopen dir fname level f x)
  from 5(2) obtain fn where fn: "path_join dir fname = Some fn" by (auto simp: bind_eq_Some_conv)
  let ?f = "f\<lparr>sf_fullname := fn, sf_basename := fname\<rparr>"
  show ?case
  proof (cases x)
    case (FDir m l)
    let ?g = "?f\<lparr>sf_mode := m, sf_record := fill_product e fname sdb_type_bridge (sf_record ?f)\<rparr>"
    from 5(2) fn FDir obtain sub where sub: "prepare_dir e bs fopen fn (Some level) l = Some sub"
      "(slot, ret) = (case sub of None \<Rightarrow> (SNode ?g None, - 1) | Some s \<Rightarrow> (SNode ?g (Some s), 1))"
      by (auto simp: Let_def bind_eq_Some_conv split: option.splits)
    note r = fill_product_fields [OF 5(3)]
    show ?thesis
    proof (cases sub)
      case None
      then show ?thesis using sub r by simp
    next
      case (Some s)
      have "wf_tree (parent_level (Some level)) s"
        using 5(1) [OF fn refl FDir refl] sub(1) 5(5) [unfolded FDir dirs_ok_dir] Some by simp
      then show ?thesis using sub(2) Some r 5(4) by (simp add: wf_node.simps parent_level_def)
    qed
  next
    case (FReg m n)
    have "length (set_bus_specific e (htonl e (file_flags m)) (sf_record f)) = 64" using 5(3) by simp
    from fill_product_fields [OF this] show ?thesis
      using 5(2-4) fn FReg by (auto simp: wf_node.simps fill_regular_def Let_def)
  qed (use 5(2,3) fn in auto)
next
  case (6 e bs fopen name parent ents)
  have "scan_inputdir e bs fopen name parent ents \<noteq> None"
    and "scan_inputdir e bs fopen name parent ents \<noteq> Some None"
    using 6(2) by (auto simp: prepare_dir.simps bind_eq_Some_conv)
  then obtain t cfg where t: "scan_inputdir e bs fopen name parent ents = Some (Some (t, cfg))"
    by fastforce
  have tree: "case cfg of None \<Rightarrow> tree = t | Some s \<Rightarrow> scan_config e t None s = Some tree"
    using 6(2) t by (cases cfg) (auto simp: prepare_dir.simps bind_eq_Some_conv)
  have "wf_tree (parent_level parent) t" using 6(1) [OF t 6(3)] .
  then show ?case using tree scan_config_wf [where lev = "parent_level parent"]
    by (auto simp: current_ok_def split: option.splits)
qed

end
