(* ===== verification/GenLayout.thy ===== *)
theory GenLayout
  imports GenTree
begin

text \<open>
  Where gensdbfs puts the files. \<open>layout\<close> is the specification: each file starts at the first
  multiple of the block size after the previous one. The lemmas show that \<open>alloc_storage\<close> never
  leaves its arrays on a well-formed tree, keeps the tree well-formed, and gives the entries of
  every directory the positions of the specification.
\<close>

subsection \<open>The specification\<close>

definition align :: "nat \<Rightarrow> nat \<Rightarrow> nat" where
  "align b x = (x + b - 1) div b * b"

fun layout :: "nat \<Rightarrow> nat \<Rightarrow> nat list \<Rightarrow> nat list" where
  "layout b pos [] = []"
| "layout b pos (s # ss) = pos # layout b (align b (pos + s)) ss"

lemma align_least: "0 < b \<Longrightarrow> b dvd y \<Longrightarrow> x \<le> y \<Longrightarrow> align b x \<le> y"
proof -
  assume b: "0 < b" "b dvd y" "x \<le> y"
  then obtain q where q: "y = b * q" by (auto elim: dvdE)
  have "(x + b - 1) div b < q + 1"
    using b q by (intro less_mult_imp_div_less) (simp add: algebra_simps)
  then have "(x + b - 1) div b * b \<le> q * b" by simp
  then show ?thesis by (simp add: align_def q mult.commute)
qed

lemma align_ge: "0 < b \<Longrightarrow> x \<le> align b x"
  using dividend_less_div_times [of b "x + b - 1"] by (simp add: align_def)

lemma align_less: "0 < b \<Longrightarrow> align b x < x + b"
proof -
  assume b: "0 < b"
  have "align b x \<le> x + b - 1" unfolding align_def by (rule div_times_less_eq_dividend)
  also have "\<dots> < x + b" using b by simp
  finally show ?thesis .
qed

lemma align_dvd: "b dvd align b x"
  by (simp add: align_def)

lemma length_layout [simp]: "length (layout b pos ss) = length ss"
  by (induction b pos ss rule: layout.induct) auto

lemma layout_ge: "0 < b \<Longrightarrow> i < length ss \<Longrightarrow> pos \<le> layout b pos ss ! i"
proof (induction b pos ss arbitrary: i rule: layout.induct)
  case (2 b pos s ss)
  show ?case
  proof (cases i)
    case (Suc j)
    have "pos \<le> align b (pos + s)" using align_ge [of b "pos + s"] 2(2) by simp
    then show ?thesis using 2 Suc le_trans by fastforce
  qed simp
qed simp

lemma layout_dvd: "b dvd pos \<Longrightarrow> i < length ss \<Longrightarrow> b dvd layout b pos ss ! i"
proof (induction b pos ss arbitrary: i rule: layout.induct)
  case (2 b pos s ss)
  then show ?case by (cases i) (auto simp: align_dvd)
qed simp

lemma layout_apart:
  "0 < b \<Longrightarrow> i < j \<Longrightarrow> j < length ss \<Longrightarrow> layout b pos ss ! i + ss ! i \<le> layout b pos ss ! j"
proof (induction b pos ss arbitrary: i j rule: layout.induct)
  case (2 b pos s ss)
  then obtain j' where j: "j = Suc j'" by (cases j) auto
  show ?case
  proof (cases i)
    case 0
    have "pos + s \<le> align b (pos + s)" using 2(2) align_ge by simp
    also have "\<dots> \<le> layout b (align b (pos + s)) ss ! j'" using 2 j layout_ge by simp
    finally show ?thesis using 0 j by simp
  next
    case (Suc i')
    then show ?thesis using 2 j by simp
  qed
qed simp

text \<open>How far the layout reaches.\<close>

lemma layout_less:
  "0 < b \<Longrightarrow> i < length ss \<Longrightarrow> layout b pos ss ! i + ss ! i \<le> pos + sum_list (map (\<lambda>s. s + b) ss)"
proof (induction b pos ss arbitrary: i rule: layout.induct)
  case (2 b pos s ss)
  show ?case
  proof (cases i)
    case (Suc j)
    then have "layout b pos (s # ss) ! i + (s # ss) ! i \<le> align b (pos + s) + sum_list (map (\<lambda>s. s + b) ss)"
      using 2 by simp
    then show ?thesis using align_less [OF 2(2), of "pos + s"] by simp
  qed simp
qed simp

subsection \<open>The alignment macro\<close>

lemma and_not_mask:
  assumes "x < 2 ^ 32" and "k < 32"
  shows "unat ((of_nat x :: u64) AND ucast (NOT (2 ^ k - 1 :: u32))) = x div 2 ^ k * 2 ^ k"
proof -
  have "(of_nat x :: u64) AND ucast (NOT (2 ^ k - 1 :: u32)) = push_bit k (drop_bit k (of_nat x))"
  proof (rule bit_word_eqI)
    fix n assume "n < LENGTH(64)"
    have "bit (of_nat x :: u64) n \<Longrightarrow> n < 32"
    proof (rule ccontr)
      assume "bit (of_nat x :: u64) n" "\<not> n < 32"
      then have "bit x n" by (simp add: bit_of_nat_iff)
      moreover have "x < 2 ^ n" using assms(1) \<open>\<not> n < 32\<close>
        by (meson leI less_le_trans one_le_numeral power_increasing)
      ultimately show False by (simp add: bit_iff_odd)
    qed
    moreover have "bit (2 ^ k - 1 :: u32) n \<longleftrightarrow> n < 32 \<and> n < k"
      using bit_mask_iff [where 'a = u32, of k n] by (simp add: mask_eq_exp_minus_1)
    ultimately show "bit ((of_nat x :: u64) AND ucast (NOT (2 ^ k - 1 :: u32))) n
        = bit (push_bit k (drop_bit k (of_nat x :: u64))) n"
      using \<open>n < LENGTH(64)\<close> by (auto simp: bit_simps)
  qed
  also have "unat \<dots> = x div 2 ^ k * 2 ^ k"
  proof -
    have x: "unat (of_nat x :: u64) = x" using assms(1) by (simp add: unat_of_nat)
    have less: "x div 2 ^ k * 2 ^ k < 2 ^ 64"
      by (rule le_less_trans [OF div_times_less_eq_dividend]) (use assms(1) in simp)
    have "unat (drop_bit k (of_nat x :: u64)) = x div 2 ^ k"
      using less assms(1) by (subst unsigned_drop_bit_eq) (simp add: x take_bit_nat_eq_self drop_bit_eq_div)
    then show ?thesis
      using less by (subst unsigned_push_bit_eq) (simp add: push_bit_eq_mult take_bit_nat_eq_self)
  qed
  finally show ?thesis .
qed

lemma unat_SDB_ALIGN:
  assumes "k < 32" and "unat x + 2 ^ k \<le> 2 ^ 32"
  shows "unat (SDB_ALIGN (2 ^ k) x) = align (2 ^ k) (unat x)"
proof -
  have k: "(2::nat) ^ k < 2 ^ 32" using power_strict_increasing [of k 32 "2::nat"] assms(1) by simp
  have b: "unat (2 ^ k - 1 :: u32) = 2 ^ k - 1"
  proof -
    have "2 ^ k - 1 = (of_nat (2 ^ k - 1) :: u32)" by simp
    then show ?thesis using k by (simp add: unat_of_nat del: of_nat_diff)
  qed
  have "x + ucast (2 ^ k - 1 :: u32) = of_nat (unat x + 2 ^ k - 1)"
  proof -
    have "ucast (2 ^ k - 1 :: u32) = (of_nat (unat (2 ^ k - 1 :: u32)) :: u64)" by (simp add: word_unat_eq_iff)
    also have "x + \<dots> = of_nat (unat x + (2 ^ k - 1))" unfolding b of_nat_add by simp
    finally show ?thesis by simp
  qed
  then show ?thesis
    using and_not_mask [of "unat x + 2 ^ k - 1" k] assms by (simp add: SDB_ALIGN_def align_def)
qed

subsection \<open>Allocation keeps the tree\<close>

lemma place_fields:
  assumes "length (sf_record f) = 64" and "place e bs rpos l f = (g, rpos', l')"
  shows "length (sf_record g) = 64" and "sf_record g ! 63 = sf_record f ! 63"
    and "chunk 0 8 (sf_record g) = chunk 0 8 (sf_record f)"
    and "chunk 24 39 (sf_record g) = chunk 24 39 (sf_record f)"
    and "sf_first e g = (if sf_userpos f then sf_ustart f else rpos)"
    and "sf_last e g = sf_first e g + sf_size f - 1"
    and "g = f\<lparr>sf_rstart := if sf_userpos f then sf_rstart f else rpos, sf_record := sf_record g\<rparr>"
    and "rpos' = (if sf_userpos f then rpos else SDB_ALIGN bs (rpos + sf_size f))"
    and "l' = max l (sf_last e g)"
proof -
  let ?p = "if sf_userpos f then sf_ustart f else rpos"
  let ?r = "put 16 (word_be 8 (?p + sf_size f - 1)) (put 8 (word_be 8 ?p) (sf_record f))"
  have g: "g = f\<lparr>sf_rstart := if sf_userpos f then sf_rstart f else rpos, sf_record := ?r\<rparr>"
    "rpos' = (if sf_userpos f then rpos else SDB_ALIGN bs (rpos + sf_size f))"
    "l' = (if l < ?p + sf_size f - 1 then ?p + sf_size f - 1 else l)"
    using assms(2) by (auto simp: place_def Let_def set_be split: if_splits)
  show "length (sf_record g) = 64" "sf_record g ! 63 = sf_record f ! 63"
    "chunk 0 8 (sf_record g) = chunk 0 8 (sf_record f)"
    "chunk 24 39 (sf_record g) = chunk 24 39 (sf_record f)"
    using assms(1) by (simp_all add: g(1) buf_simps)
  show first: "sf_first e g = ?p"
    using assms(1) chunk_put_same [of 8 "word_be 8 ?p" "sf_record f"]
    by (simp add: g(1) sf_first_def get_be buf_simps)
  show lst: "sf_last e g = sf_first e g + sf_size f - 1"
    using assms(1) chunk_put_same [of 16 "word_be 8 (?p + sf_size f - 1)" "put 8 (word_be 8 ?p) (sf_record f)"]
    unfolding first by (simp add: g(1) sf_last_def get_be buf_simps)
  show "g = f\<lparr>sf_rstart := if sf_userpos f then sf_rstart f else rpos, sf_record := sf_record g\<rparr>"
    using g(1) by simp
  show "rpos' = (if sf_userpos f then rpos else SDB_ALIGN bs (rpos + sf_size f))" by (rule g(2))
  show "l' = max l (sf_last e g)" unfolding lst first g(3) by (auto simp: max_def)
qed

lemma size_subdir_fields:
  assumes "length (sf_record f) = 64" and "wf_tree lev s"
  shows "\<exists>g. size_subdir e rpos s f = Some g \<and> length (sf_record g) = 64
    \<and> sf_record g ! 63 = sf_record f ! 63 \<and> sf_level g = sf_level f \<and> sf_userpos g = sf_userpos f
    \<and> sf_size g = max (sf_size f) (sf_last e (sdbf_of (s ! 0)))
    \<and> be_word (chunk 0 8 (sf_record g)) = rpos"
proof -
  have "s \<noteq> []" using assms(2) by (auto simp: wf_tree.simps)
  then show ?thesis
    using assms(1) chunk_put_same [of 0 "word_be 8 rpos" "sf_record f"]
    by (auto simp: size_subdir_def set_be buf_simps max_def Let_def)
qed

text \<open>The dot's own record: only its extent changes.\<close>

lemma dot_extent:
  assumes "dot_ok lev (SNode f sub)" and "m = put 8 (word_be 8 v) (sf_record f)"
  shows "dot_ok lev (SNode (f\<lparr>sf_base := b, sf_record := m\<rparr>) sub)"
    and "n_records (SNode (f\<lparr>sf_base := b, sf_record := m\<rparr>) sub) = n_records (SNode f sub)"
  using assms by (simp_all add: dot_ok_def n_records_def buf_simps)

lemma dot_last:
  assumes "dot_ok lev (SNode f sub)"
  shows "dot_ok lev (SNode (f\<lparr>sf_record := set_addr_last e (htonll e v) (sf_record f)\<rparr>) sub)"
    and "n_records (SNode (f\<lparr>sf_record := set_addr_last e (htonll e v) (sf_record f)\<rparr>) sub) = n_records (SNode f sub)"
    and "sf_last e (f\<lparr>sf_record := set_addr_last e (htonll e v) (sf_record f)\<rparr>) = v"
  using assms chunk_put_same [of 16 "word_be 8 v" "sf_record f"]
  by (simp_all add: dot_ok_def n_records_def sf_last_def get_be set_be buf_simps)

lemma alloc_wf:
  "wf_tree lev tree \<Longrightarrow> \<exists>t. alloc_storage e bs base tree = Some t \<and> wf_tree lev t
     \<and> length t = length tree \<and> n_records (t ! 0) = n_records (tree ! 0)"
  "\<forall>x\<in>set fs. wf_node lev x \<Longrightarrow> \<exists>fs' l'. alloc_files e bs base rpos l fs = Some (fs', l')
     \<and> length fs' = length fs \<and> (\<forall>x\<in>set fs'. wf_node lev x)"
proof (induction e bs base tree and e bs base rpos l fs arbitrary: lev and lev
    rule: alloc_storage_alloc_files.induct)
  case (1 e bs base)
  then show ?case by (simp add: wf_tree.simps)
next
  case (2 e bs base dot sub rest)
  let ?dot = "dot\<lparr>sf_base := base, sf_record := set_addr_first e (htonll e 0) (sf_record dot)\<rparr>"
  let ?n = "get_records e (sf_record ?dot)"
  let ?rpos = "sf_ustart ?dot + SDB_ALIGN bs (of_nat (?n * 64))"
  have wf: "dot_ok lev (SNode dot sub)" "1 \<le> n_records (SNode dot sub)"
    "n_records (SNode dot sub) - 1 \<le> length rest"
    "\<forall>x\<in>set (take (n_records (SNode dot sub) - 1) rest). wf_node lev x"
    using 2(2) by (simp_all add: wf_tree.simps)
  have dot: "dot_ok lev (SNode ?dot sub)" "n_records (SNode ?dot sub) = n_records (SNode dot sub)"
    unfolding set_be by (rule dot_extent [OF wf(1) refl])+
  then have n: "?n = n_records (SNode dot sub)" by (simp add: get_be n_records_def dot_ok_def)
  have len: "\<not> length rest < ?n - 1" using wf(3) n by simp
  obtain fs l where fs: "alloc_files e bs base ?rpos ?rpos (take (?n - 1) rest) = Some (fs, l)"
    "length fs = length (take (?n - 1) rest)" "\<forall>x\<in>set fs. wf_node lev x"
    using 2(1) [OF refl refl refl len, of lev] wf(4) n by auto
  let ?done = "?dot\<lparr>sf_record := set_addr_last e (htonll e l) (sf_record ?dot)\<rparr>"
  have "alloc_storage e bs base (SNode dot sub # rest)
      = Some (SNode ?done sub # fs @ drop (?n - 1) rest)"
    using len fs(1) by (simp add: alloc_storage.simps Let_def)
  moreover have "wf_tree lev (SNode ?done sub # fs @ drop (?n - 1) rest)"
    using dot_last [OF dot(1), of e l] dot(2) n wf(2,3) fs(2,3) by (simp add: wf_tree.simps)
  ultimately show ?case
    using dot_last(2) [OF dot(1), of e l] dot(2) n wf(3) fs(2) by simp
next
  case (3 e bs base rpos l)
  then show ?case by (simp add: alloc_files.simps)
next
  case (4 e bs base rpos l f sub fs)
  have wf: "length (sf_record f) = 64" "sf_level f = lev" "\<forall>x\<in>set fs. wf_node lev x"
    using 4(3) by (simp_all add: wf_node.simps)
  have "\<exists>g sub'. (case sub of None \<Rightarrow> Some (f, None)
       | Some s \<Rightarrow> do { s \<leftarrow> alloc_storage e bs (base + rpos) s; f \<leftarrow> size_subdir e rpos s f; Some (f, Some s) })
      = Some (g, sub') \<and> wf_node lev (SNode g sub')"
  proof (cases sub)
    case None
    then show ?thesis using 4(3) by simp
  next
    case (Some s)
    then have s: "wf_tree (lev + 1) s" "sf_record f ! 63 = sdb_type_bridge"
      using 4(3) by (simp_all add: wf_node.simps)
    obtain t where t: "alloc_storage e bs (base + rpos) s = Some t" "wf_tree (lev + 1) t"
      using 4(1) [OF Some s(1)] by auto
    then show ?thesis using size_subdir_fields [OF wf(1) t(2), of e rpos] s(2) wf(2) Some
      by (auto simp: wf_node.simps)
  qed
  then obtain g sub' where g: "(case sub of None \<Rightarrow> Some (f, None)
       | Some s \<Rightarrow> do { s \<leftarrow> alloc_storage e bs (base + rpos) s; f \<leftarrow> size_subdir e rpos s f; Some (f, Some s) })
      = Some (g, sub')" "wf_node lev (SNode g sub')" by auto
  obtain h rpos' l' where h: "place e bs rpos l g = (h, rpos', l')" by (cases "place e bs rpos l g")
  have "length (sf_record g) = 64" using g(2) by (simp add: wf_node.simps)
  note h_ok = place_fields [OF this h]
  have "sf_level h = sf_level g" by (subst h_ok(7)) simp
  then have "wf_node lev (SNode h sub')" using g(2) h_ok(1,2)
    by (simp add: wf_node.simps split: option.splits)
  moreover obtain fs' l2 where "alloc_files e bs base rpos' l' fs = Some (fs', l2)"
    "length fs' = length fs" "\<forall>x\<in>set fs'. wf_node lev x"
    using 4(2) [OF g(1) refl h [symmetric] refl refl wf(3)] by auto
  ultimately show ?case using g(1) h by (simp add: alloc_files.simps)
qed

subsection \<open>The positions are those of the specification\<close>

definition first_at :: "endian \<Rightarrow> snode \<Rightarrow> nat" where
  "first_at e x = unat (sf_first e (sdbf_of x))"

definition size_at :: "snode \<Rightarrow> nat" where
  "size_at x = unat (sf_size (sdbf_of x))"

definition placed :: "endian \<Rightarrow> snode \<Rightarrow> bool" where
  "placed e x \<longleftrightarrow> sf_last e (sdbf_of x) = sf_first e (sdbf_of x) + sf_size (sdbf_of x) - 1
     \<and> sf_rstart (sdbf_of x) = sf_first e (sdbf_of x)"

lemma alloc_files_Cons:
  assumes "wf_node lev (SNode f sub)"
    and "alloc_files e bs base rpos l (SNode f sub # fs) = Some (res, l2)"
  obtains g sub' h rpos' l' fs' where "res = SNode h sub' # fs'" "length (sf_record g) = 64"
    "sf_userpos g = sf_userpos f" "place e bs rpos l g = (h, rpos', l')"
    "alloc_files e bs base rpos' l' fs = Some (fs', l2)" "sub = None \<Longrightarrow> g = f \<and> sub' = None"
    "\<And>s. sub = Some s \<Longrightarrow> \<exists>s'. sub' = Some s' \<and> alloc_storage e bs (base + rpos) s = Some s'
       \<and> size_subdir e rpos s' f = Some g"
proof -
  let ?step = "case sub of None \<Rightarrow> Some (f, None)
     | Some s \<Rightarrow> do { s \<leftarrow> alloc_storage e bs (base + rpos) s; f \<leftarrow> size_subdir e rpos s f; Some (f, Some s) }"
  from assms(2) obtain g sub' where step: "?step = Some (g, sub')"
    by (auto simp: alloc_files.simps bind_eq_Some_conv simp del: not_None_eq)
  moreover obtain h rpos' l' where h: "place e bs rpos l g = (h, rpos', l')" by (cases "place e bs rpos l g")
  moreover obtain fs' where "alloc_files e bs base rpos' l' fs = Some (fs', l2)" "res = SNode h sub' # fs'"
    using assms(2) step h by (auto simp: alloc_files.simps bind_eq_Some_conv)
  moreover have "length (sf_record g) = 64 \<and> sf_userpos g = sf_userpos f"
  proof (cases sub)
    case None
    then show ?thesis using step assms(1) by (auto simp: wf_node.simps)
  next
    case (Some s)
    then obtain t where "alloc_storage e bs (base + rpos) s = Some t" "size_subdir e rpos t f = Some g"
      using step by (auto simp: bind_eq_Some_conv)
    moreover have "wf_tree (lev + 1) t" "length (sf_record f) = 64"
      using alloc_wf(1) [of "lev + 1" s e bs "base + rpos"] assms(1) Some calculation
      by (auto simp: wf_node.simps)
    ultimately show ?thesis using size_subdir_fields [of f "lev + 1" t e rpos] by auto
  qed
  moreover have "sub = None \<Longrightarrow> g = f \<and> sub' = None" using step by simp
  moreover have "\<And>s. sub = Some s \<Longrightarrow> \<exists>s'. sub' = Some s' \<and> alloc_storage e bs (base + rpos) s = Some s'
      \<and> size_subdir e rpos s' f = Some g"
    using step by (auto simp: bind_eq_Some_conv)
  ultimately show thesis using that by blast
qed

lemma alloc_files_layout:
  assumes "\<forall>x\<in>set fs. wf_node lev x \<and> \<not> sf_userpos (sdbf_of x)"
    and "alloc_files e (2 ^ k) base rpos l fs = Some (fs', l')" and "k < 32"
    and "unat rpos + sum_list (map (\<lambda>x. size_at x + 2 ^ k) fs') \<le> 2 ^ 32"
  shows "map (first_at e) fs' = layout (2 ^ k) (unat rpos) (map size_at fs')
    \<and> (\<forall>x\<in>set fs'. placed e x \<and> sf_last e (sdbf_of x) \<le> l') \<and> l \<le> l'"
  using assms
proof (induction fs arbitrary: rpos l fs')
  case Nil
  then show ?case by (simp add: alloc_files.simps)
next
  case (Cons x fs)
  obtain f sub where x: "x = SNode f sub" by (cases x)
  from Cons.prems(1) x have wf: "wf_node lev (SNode f sub)" "\<not> sf_userpos f" by auto
  obtain g sub' h rpos' l2 rest where res: "fs' = SNode h sub' # rest" and g: "length (sf_record g) = 64"
    "sf_userpos g = sf_userpos f" and h: "place e (2 ^ k) rpos l g = (h, rpos', l2)"
    and rest: "alloc_files e (2 ^ k) base rpos' l2 fs = Some (rest, l')"
    and "sub = None \<Longrightarrow> g = f \<and> sub' = None"
    by (rule alloc_files_Cons [OF wf(1) Cons.prems(2) [unfolded x]]) (rule that; assumption)
  note h_ok = place_fields [OF g(1) h]
  have size: "sf_size h = sf_size g" by (subst h_ok(7)) simp
  have start: "sf_rstart h = rpos" by (subst h_ok(7)) (simp add: g(2) wf(2))
  have first: "sf_first e h = rpos" using h_ok(5) g(2) wf(2) by simp
  let ?s = "unat (sf_size h)"
  have bound: "unat rpos + ?s + 2 ^ k + sum_list (map (\<lambda>x. size_at x + 2 ^ k) rest) \<le> 2 ^ 32"
    using Cons.prems(4) by (simp add: res size_at_def)
  have sum: "unat (rpos + sf_size h) = unat rpos + ?s"
    using bound by (intro unat_word_ariths(1) [THEN trans]) simp
  have "unat rpos' = align (2 ^ k) (unat rpos + ?s)"
    using h_ok(8) g(2) wf(2) size sum bound unat_SDB_ALIGN [OF Cons.prems(3), of "rpos + sf_size h"] by simp
  moreover have "align (2 ^ k) (unat rpos + ?s) < unat rpos + ?s + 2 ^ k" by (rule align_less) simp
  ultimately have IH: "map (first_at e) rest = layout (2 ^ k) (align (2 ^ k) (unat rpos + ?s)) (map size_at rest)"
    "\<forall>x\<in>set rest. placed e x \<and> sf_last e (sdbf_of x) \<le> l'" "l2 \<le> l'"
    using Cons.IH [OF _ rest Cons.prems(3)] Cons.prems(1) bound by auto
  have "placed e (SNode h sub')" using h_ok(6) first start size by (simp add: placed_def)
  moreover have "sf_last e h \<le> l'" "l \<le> l'" using h_ok(9) IH(3) by (auto simp: max_def split: if_splits)
  moreover have "first_at e (SNode h sub') = unat rpos" "size_at (SNode h sub') = ?s"
    by (simp_all add: first_at_def size_at_def first)
  ultimately show ?case using IH by (simp add: res)
qed

text \<open>A whole directory after its allocation: where its files start, apart and on block bounds,
  behind the records, and within the extent the dot's record declares.\<close>

definition files_of_dir :: "snode list \<Rightarrow> snode list" where
  "files_of_dir tree = take (n_records (tree ! 0) - 1) (tl tree)"

lemma alloc_storage_files:
  assumes "wf_tree lev tree" and "alloc_storage e bs base tree = Some t"
  obtains l where "alloc_files e bs base
       (sf_ustart (sdbf_of (tree ! 0)) + SDB_ALIGN bs (of_nat (n_records (tree ! 0) * 64)))
       (sf_ustart (sdbf_of (tree ! 0)) + SDB_ALIGN bs (of_nat (n_records (tree ! 0) * 64)))
       (files_of_dir tree) = Some (files_of_dir t, l)"
    and "sf_last e (sdbf_of (t ! 0)) = l" and "n_records (t ! 0) = n_records (tree ! 0)"
    and "sf_base (sdbf_of (t ! 0)) = base"
    and "sf_ustart (sdbf_of (t ! 0)) = sf_ustart (sdbf_of (tree ! 0))"
    and "dot_ok lev (t ! 0)" and "length t = length tree"
proof -
  obtain dot sub rest where tree: "tree = SNode dot sub # rest"
    using assms(1) by (cases tree; cases "hd tree") (auto simp: wf_tree.simps)
  let ?dot = "dot\<lparr>sf_base := base, sf_record := set_addr_first e (htonll e 0) (sf_record dot)\<rparr>"
  let ?n = "n_records (SNode dot sub)"
  let ?rpos = "sf_ustart dot + SDB_ALIGN bs (of_nat (?n * 64))"
  have wf: "dot_ok lev (SNode dot sub)" "1 \<le> ?n" "?n - 1 \<le> length rest"
    using assms(1) tree by (simp_all add: wf_tree.simps)
  have dot: "dot_ok lev (SNode ?dot sub)" "n_records (SNode ?dot sub) = ?n"
    unfolding set_be by (rule dot_extent [OF wf(1) refl])+
  then have n: "get_records e (sf_record ?dot) = ?n" by (simp add: get_be n_records_def dot_ok_def)
  obtain fs l where fs: "alloc_files e bs base ?rpos ?rpos (take (?n - 1) rest) = Some (fs, l)"
    and t: "t = SNode (?dot\<lparr>sf_record := set_addr_last e (htonll e l) (sf_record ?dot)\<rparr>) sub # fs @ drop (?n - 1) rest"
    using assms(2) n wf(3)
    by (auto simp: tree alloc_storage.simps Let_def bind_eq_Some_conv split: if_splits)
  have "length fs = ?n - 1"
    using alloc_wf(2) [of "take (?n - 1) rest" lev e bs base ?rpos ?rpos] fs wf(3) assms(1) tree
    by (auto simp: wf_tree.simps)
  note d = dot_last [OF dot(1), of e l]
  have c: "n_records (t ! 0) = ?n" using d(2) dot(2) by (simp add: t)
  show thesis
  proof (rule that)
    show "alloc_files e bs base (sf_ustart (sdbf_of (tree ! 0)) + SDB_ALIGN bs (of_nat (n_records (tree ! 0) * 64)))
       (sf_ustart (sdbf_of (tree ! 0)) + SDB_ALIGN bs (of_nat (n_records (tree ! 0) * 64)))
       (files_of_dir tree) = Some (files_of_dir t, l)"
      using fs \<open>length fs = ?n - 1\<close> c by (simp add: files_of_dir_def tree t)
  qed (use c d wf(3) \<open>length fs = ?n - 1\<close> in \<open>simp_all add: t tree\<close>)
qed

text \<open>A subdirectory's own extent, next to the extent of what it contains.\<close>

lemma alloc_files_subdirs:
  assumes "\<forall>x\<in>set fs. wf_node lev x" and "alloc_files e bs base rpos l fs = Some (fs', l')"
    and "x \<in> set fs'" and "subdir_of x = Some s" and "\<not> sf_userpos (sdbf_of x)"
  shows "sf_base (sdbf_of (s ! 0)) = base + sf_rstart (sdbf_of x)
    \<and> sf_last e (sdbf_of x) = sf_rstart (sdbf_of x) + sf_size (sdbf_of x) - 1
    \<and> sf_last e (sdbf_of (s ! 0)) \<le> sf_size (sdbf_of x)"
  using assms
proof (induction fs arbitrary: rpos l fs')
  case Nil
  then show ?case by (simp add: alloc_files.simps)
next
  case (Cons y fs)
  obtain f sub where y: "y = SNode f sub" by (cases y)
  from Cons.prems(1) y have wf: "wf_node lev (SNode f sub)" by auto
  obtain g sub' h rpos' l2 rest where res: "fs' = SNode h sub' # rest" and g: "length (sf_record g) = 64"
    and h: "place e bs rpos l g = (h, rpos', l2)"
    and rest: "alloc_files e bs base rpos' l2 fs = Some (rest, l')"
    and none: "sub = None \<Longrightarrow> g = f \<and> sub' = None"
    and some: "\<And>s. sub = Some s \<Longrightarrow> \<exists>s'. sub' = Some s' \<and> alloc_storage e bs (base + rpos) s = Some s'
       \<and> size_subdir e rpos s' f = Some g"
    by (rule alloc_files_Cons [OF wf Cons.prems(2) [unfolded y]]) (rule that; assumption)
  show ?case
  proof (cases "x \<in> set rest")
    case True
    then show ?thesis using Cons.IH [OF _ rest] Cons.prems(1,4,5) by simp
  next
    case False
    then have x: "x = SNode h (Some s)" using Cons.prems(3,4) res by (cases x) auto
    then obtain s0 where s0: "sub = Some s0" using none Cons.prems(3) False res by (cases sub) auto
    then have s: "alloc_storage e bs (base + rpos) s0 = Some s" "size_subdir e rpos s f = Some g"
      using some [OF s0] x res False Cons.prems(3) by auto
    have wf0: "wf_tree (lev + 1) s0" "length (sf_record f) = 64" using wf s0 by (simp_all add: wf_node.simps)
    have "sf_base (sdbf_of (s ! 0)) = base + rpos" by (rule alloc_storage_files [OF wf0(1) s(1)])
    moreover obtain s' where "alloc_storage e bs (base + rpos) s0 = Some s'" "wf_tree (lev + 1) s'"
      using alloc_wf(1) [OF wf0(1)] by blast
    then have "sf_size g = max (sf_size f) (sf_last e (sdbf_of (s ! 0)))"
      using size_subdir_fields [OF wf0(2), of "lev + 1" s e rpos] s by auto
    moreover note h_ok = place_fields [OF g h]
    moreover have "sf_size h = sf_size g" "sf_userpos h = sf_userpos g" by (subst h_ok(7); simp)+
    moreover have "\<not> sf_userpos h" using Cons.prems(5) x by simp
    moreover have "sf_rstart h = (if sf_userpos g then sf_rstart g else rpos)" by (subst h_ok(7)) simp
    ultimately show ?thesis by (simp add: x)
  qed
qed

end
