(* ===== verification/GenWrite.thy ===== *)
theory GenWrite
  imports GenLayout
begin

text \<open>
  The image file gensdbfs writes, for a directory without subdirectories: the records, then each
  file's content at its position, with zeros in between.
\<close>

subsection \<open>Copying a file\<close>

lemma length_put_grow [simp]: "length (put_grow off bs img) = max (off + length bs) (length img)"
  by (auto simp: put_grow_def max_def)

lemma put_grow_append:
  "put_grow (p + length a) b (put_grow p a img) = put_grow p (a @ b) img"
  by (auto simp: put_grow_def min_def ac_simps)

lemma put_grow_end: "length img \<le> p \<Longrightarrow> put_grow p bs img = img @ replicate (p - length img) 0 @ bs"
  by (simp add: put_grow_def)

definition copied_to :: "bytes \<Rightarrow> outfile \<Rightarrow> outfile" where
  "copied_to src out = (if src = [] then out
     else out\<lparr>o_bytes := put_grow (o_pos out) src (o_bytes out), o_pos := o_pos out + length src,
              lastwritten := max (lastwritten out) (of_nat (o_pos out + length src))\<rparr>)"

lemma sint_of_small:
  assumes "n < 2 ^ 31"
  shows "sint (of_nat n :: u32) = int n"
proof -
  have "unat (of_nat n :: u32) = n" using assms by (simp add: unat_of_nat)
  then show ?thesis using sint_small [of "of_nat n"] assms by simp
qed

lemma sint_small64:
  assumes "unat (x :: u64) < 2 ^ 31"
  shows "sint x = int (unat x)"
proof -
  from assms have "int (unat x) < int (2 ^ 31)" by (rule iffD2 [OF of_nat_less_iff])
  moreover have u: "uint x = int (unat x)" by (rule uint_nat)
  ultimately have "uint x < 2 ^ 31" by (metis of_nat_numeral of_nat_power)
  then have "uint x < 2 ^ 63" by (rule less_le_trans) simp
  moreover have "- (2 ^ 63) \<le> uint x" by (rule order_trans [of _ 0]) simp_all
  ultimately have "signed_take_bit 63 (uint x) = uint x"
    by (intro signed_take_bit_int_eq_self)
  then have "sint x = uint x" by (simp add: sint_uint)
  then show ?thesis unfolding u .
qed

lemma copied_to_append:
  "a \<noteq> [] \<Longrightarrow> o_pos out + length a + length b < 2 ^ 64 \<Longrightarrow>
   copied_to b (copied_to a out) = copied_to (a @ b) out"
  by (simp add: copied_to_def put_grow_append add.assoc)
    (simp add: max_def word_le_nat_alt unat_of_nat flip: of_nat_add)

lemma copy_loop_all:
  assumes "0 < unat bs" and "unat bs < 2 ^ 31" and "copied = of_nat c"
    and "c + length src = unat st" and "unat st < 2 ^ 31" and "o_pos out + length src < 2 ^ 64"
  shows "copy_loop bs st copied src out = Some (copied_to src out)"
  using assms
proof (induction bs st copied src out arbitrary: c rule: copy_loop.induct)
  case (1 bs st copied src out)
  have st: "sint st = int (unat st)" using 1(6) by (rule sint_small64)
  have c: "sint copied = int c" unfolding 1(4) using 1(5,6) by (intro sint_of_small) linarith
  show ?case
  proof (cases "src = []")
    case True
    then show ?thesis using st c 1(5) by (subst copy_loop.simps) (simp add: copied_to_def)
  next
    case False
    let ?blk = "take (unat bs) src"
    let ?n = "length ?blk"
    have n: "0 < ?n" "?n \<le> length src" "c + ?n < 2 ^ 31" using False 1(2-6) by auto
    have j: "sint (of_nat ?n :: u32) = int ?n" using n(3) by (intro sint_of_small) linarith
    have less: "sint copied < sint st" unfolding st c using 1(5) n by linarith
    have pos: "\<not> sint (of_nat ?n :: u32) \<le> 0" "\<not> 2 ^ 31 \<le> sint copied + sint (of_nat ?n :: u32)"
    proof -
      show "\<not> sint (of_nat ?n :: u32) \<le> 0" unfolding j using n(1) by linarith
      have "int (c + ?n) < int (2 ^ 31)" by (rule iffD2 [OF of_nat_less_iff n(3)])
      then show "\<not> 2 ^ 31 \<le> sint copied + sint (of_nat ?n :: u32)"
        unfolding j c by (simp add: not_le)
    qed
    let ?o1 = "fwrite ?blk out"
    let ?o2 = "if of_nat (o_pos ?o1) > lastwritten ?o1 then ?o1\<lparr>lastwritten := of_nat (o_pos ?o1)\<rparr> else ?o1"
    have step: "copy_loop bs st copied src out = copy_loop bs st (copied + of_nat ?n) (drop (unat bs) src) ?o2"
      by (subst copy_loop.simps) (simp only: Let_def less pos if_True if_False)
    have o2: "?o2 = copied_to ?blk out"
      using n(1) by (auto simp: copied_to_def fwrite_def max_def)
    have "copy_loop bs st (copied + of_nat ?n) (drop (unat bs) src) ?o2
        = Some (copied_to (drop (unat bs) src) ?o2)"
    proof (rule 1(1) [OF less refl refl pos refl refl refl 1(2,3)])
      show "copied + of_nat ?n = of_nat (c + ?n)" unfolding 1(4) by simp
      show "c + ?n + length (drop (unat bs) src) = unat st" using 1(5) by simp
      show "unat st < 2 ^ 31" by (rule 1(6))
      show "o_pos ?o2 + length (drop (unat bs) src) < 2 ^ 64"
        unfolding o2 using 1(7) n by (auto simp: copied_to_def)
    qed
    also have "copied_to (drop (unat bs) src) ?o2 = copied_to src out"
      unfolding o2 using copied_to_append [of ?blk out "drop (unat bs) src"] n(1) 1(7) by auto
    finally show ?thesis using step by simp
  qed
qed

subsection \<open>The image of a flat directory\<close>

text \<open>The image grown by one file: its bytes at its position, behind zeros.\<close>

definition appended :: "bytes \<Rightarrow> nat \<times> bytes \<Rightarrow> bytes" where
  "appended img pc = (case pc of (p, c) \<Rightarrow>
     if c = [] then img else img @ replicate (p - length img) 0 @ c)"

fun in_order :: "nat \<Rightarrow> (nat \<times> bytes) list \<Rightarrow> bool" where
  "in_order n [] = True"
| "in_order n ((p, c) # pcs) \<longleftrightarrow> n \<le> p \<and> in_order (p + length c) pcs"

lemma in_order_mono: "in_order n pcs \<Longrightarrow> m \<le> n \<Longrightarrow> in_order m pcs"
  by (cases pcs) auto

lemma appended_prefix: "\<exists>s. foldl appended img pcs = img @ s"
proof (induction pcs arbitrary: img)
  case (Cons pc pcs)
  obtain s where "appended img pc = img @ s"
    by (cases pc; cases "snd pc = []") (auto simp: appended_def)
  with Cons [of "img @ s"] show ?case by auto
qed simp

lemma appended_keeps: "off + n \<le> length img \<Longrightarrow> chunk off n (foldl appended img pcs) = chunk off n img"
  using appended_prefix [of img pcs] by (auto simp: chunk_app_left)

lemma appended_content:
  "in_order (length img) pcs \<Longrightarrow> (p, c) \<in> set pcs \<Longrightarrow> c \<noteq> [] \<Longrightarrow>
   chunk p (length c) (foldl appended img pcs) = c \<and> p + length c \<le> length (foldl appended img pcs)"
proof (induction pcs arbitrary: img)
  case (Cons pc pcs)
  obtain q d where pc: "pc = (q, d)" by (cases pc)
  have le: "length img \<le> q" using Cons.prems(1) pc by simp
  let ?img = "appended img pc"
  have len: "length ?img \<le> q + length d" using le pc by (auto simp: appended_def)
  show ?case
  proof (cases "(p, c) = pc")
    case True
    then have img: "?img = img @ replicate (p - length img) 0 @ c" "length ?img = p + length c"
      using Cons.prems(3) le pc by (auto simp: appended_def)
    obtain s where s: "foldl appended img (pc # pcs) = ?img @ s" using appended_prefix [of ?img pcs] by auto
    have "chunk p (length c) ?img = c" using img(1) le pc True by (simp add: chunk_app_right chunk_all)
    then show ?thesis using img(2) by (simp add: s chunk_app_left del: foldl_Cons)
  next
    case False
    then show ?thesis
      using Cons.IH [of ?img] Cons.prems pc len in_order_mono by auto
  qed
qed simp

lemma appended_length:
  "in_order n pcs \<Longrightarrow> length img \<le> n \<Longrightarrow> n \<le> N \<Longrightarrow> \<forall>(p, c)\<in>set pcs. p + length c \<le> N \<Longrightarrow>
   length (foldl appended img pcs) \<le> N"
proof (induction n pcs arbitrary: img rule: in_order.induct)
  case (2 n p c pcs)
  have "length (appended img (p, c)) \<le> p + length c" using 2(2,3) by (auto simp: appended_def)
  then show ?case using 2(1) [of "appended img (p, c)"] 2(2,5) by simp
qed simp

text \<open>\<open>write_files\<close> on entries without subdirectories.\<close>

definition flat_file :: "(bytes \<Rightarrow> bytes option) \<Rightarrow> bytes \<Rightarrow> snode \<Rightarrow> bool" where
  "flat_file fopen c x \<longleftrightarrow> subdir_of x = None \<and> \<not> sf_userpos (sdbf_of x)
     \<and> fopen (sf_fullname (sdbf_of x)) = Some c \<and> length c = unat (sf_stsize (sdbf_of x))
     \<and> length c < 2 ^ 31 \<and> unat (sf_rstart (sdbf_of x)) < 2 ^ 32"

lemma copied_appended:
  "length (o_bytes out) \<le> o_pos out \<Longrightarrow> o_bytes (copied_to c out) = appended (o_bytes out) (o_pos out, c)"
  by (simp add: copied_to_def appended_def put_grow_end)

lemma write_files_flat:
  assumes "0 < unat bs" and "unat bs < 2 ^ 31" and "list_all2 (flat_file fopen) cs xs"
    and "in_order (length (o_bytes out)) (map2 (\<lambda>x c. (unat (sf_rstart (sdbf_of x)), c)) xs cs)"
  shows "\<exists>out'. write_files e bs fopen 0 xs out = Some (xs, out')
    \<and> o_bytes out' = foldl appended (o_bytes out) (map2 (\<lambda>x c. (unat (sf_rstart (sdbf_of x)), c)) xs cs)"
  using assms(3,4)
proof (induction cs xs arbitrary: out rule: list_all2_induct)
  case Nil
  then show ?case by (simp add: write_files.simps)
next
  case (Cons c cs x xs)
  obtain f sub where x: "x = SNode f sub" by (cases x)
  let ?p = "unat (sf_rstart f)"
  let ?out = "fseek_set (0 + sf_rstart f) out"
  have f: "sub = None" "\<not> sf_userpos f" "fopen (sf_fullname f) = Some c" "length c = unat (sf_stsize f)"
    "length c < 2 ^ 31" "?p < 2 ^ 32"
    using Cons.hyps(1) by (simp_all add: flat_file_def x)
  have out: "o_pos ?out = ?p" "o_bytes ?out = o_bytes out" using f(6) by (simp_all add: fseek_set_def)
  have "copy_loop bs (sf_stsize f) 0 c ?out = Some (copied_to c ?out)"
    using f(4,5,6) out(1) by (intro copy_loop_all [OF assms(1,2), of _ 0]) simp_all
  then have step: "write_files e bs fopen 0 (x # xs) out =
      map_option (\<lambda>(xs, out). (x # xs, out)) (write_files e bs fopen 0 xs (copied_to c ?out))"
    using f by (cases "write_files e bs fopen 0 xs (copied_to c ?out)") (auto simp: x write_files.simps)
  have le: "length (o_bytes out) \<le> ?p" and rest: "in_order (?p + length c)
      (map2 (\<lambda>x c. (unat (sf_rstart (sdbf_of x)), c)) xs cs)"
    using Cons.prems by (simp_all add: x)
  have bytes: "o_bytes (copied_to c ?out) = appended (o_bytes out) (?p, c)"
    using copied_appended [of ?out c] le out by simp
  moreover have "length (appended (o_bytes out) (?p, c)) \<le> ?p + length c"
    using le by (auto simp: appended_def)
  ultimately show ?case
    using Cons.IH [of "copied_to c ?out"] in_order_mono [OF rest] step by (auto simp: x)
qed

text \<open>The records at the start of the image.\<close>

lemma write_records_concat:
  "o_pos out = length (o_bytes out) \<Longrightarrow> \<forall>x\<in>set xs. sf_record (sdbf_of x) \<noteq> [] \<Longrightarrow>
   o_bytes (foldl (\<lambda>out x. fwrite (sf_record (sdbf_of x)) out) out xs)
     = o_bytes out @ concat (map (\<lambda>x. sf_record (sdbf_of x)) xs)"
proof (induction xs arbitrary: out)
  case (Cons x xs)
  let ?out = "fwrite (sf_record (sdbf_of x)) out"
  have "o_bytes ?out = o_bytes out @ sf_record (sdbf_of x)" "o_pos ?out = length (o_bytes ?out)"
    using Cons.prems by (simp_all add: fwrite_def put_grow_def)
  then show ?case using Cons by simp
qed simp

text \<open>The whole program's writing for a flat directory placed at the start of the image.\<close>

definition file_parts :: "snode list \<Rightarrow> bytes list \<Rightarrow> (nat \<times> bytes) list" where
  "file_parts xs cs = map2 (\<lambda>x c. (unat (sf_rstart (sdbf_of x)), c)) xs cs"

lemma write_sdb_flat:
  assumes "0 < unat bs" and "unat bs < 2 ^ 31"
    and wf: "wf_tree lev tree" "sf_base (sdbf_of (tree ! 0)) = 0" "sf_ustart (sdbf_of (tree ! 0)) = 0"
    and flat: "list_all2 (flat_file fopen) cs (files_of_dir tree)"
    and order: "in_order (64 * n_records (tree ! 0)) (file_parts (files_of_dir tree) cs)"
  shows "\<exists>t out. write_sdb e bs fopen tree \<lparr>o_bytes = [], o_pos = 0, lastwritten = 0\<rparr> = Some (t, out)
    \<and> o_bytes out = foldl appended
        (concat (map (\<lambda>x. sf_record (sdbf_of x)) (take (n_records (tree ! 0)) tree)))
        (file_parts (files_of_dir tree) cs)"
proof -
  obtain dot rest where tree: "tree = dot # rest" using wf by (cases tree) (auto simp: wf_tree.simps)
  let ?n = "n_records dot"
  let ?init = "\<lparr>o_bytes = [], o_pos = 0, lastwritten = 0\<rparr>"
  let ?tab = "concat (map (\<lambda>x. sf_record (sdbf_of x)) (take ?n tree))"
  have dot: "dot_ok lev dot" "1 \<le> ?n" "?n - 1 \<le> length rest" using wf(1) tree by (simp_all add: wf_tree.simps)
  then have n: "get_records e (sf_record (sdbf_of dot)) = ?n" by (simp add: get_be n_records_def dot_ok_def)
  have lens: "length (sf_record (sdbf_of x)) = 64" if "x \<in> set (take ?n tree)" for x
  proof -
    from that obtain i where "i < length tree" "i < ?n" "x = tree ! i" by (auto simp: in_set_conv_nth)
    then show ?thesis using wf_tree_lengths [OF wf(1)] tree by simp
  qed
  have files: "files_of_dir tree = take (?n - 1) rest" by (simp add: files_of_dir_def tree)
  let ?out = "write_records ?n tree (fseek_set (0 + 0) ?init)"
  have "\<forall>x\<in>set (take ?n tree). sf_record (sdbf_of x) \<noteq> []"
  proof
    fix x assume "x \<in> set (take ?n tree)"
    from lens [OF this] show "sf_record (sdbf_of x) \<noteq> []" by auto
  qed
  then have out: "o_bytes ?out = ?tab"
    using write_records_concat [of "fseek_set (0 + 0) ?init"] by (simp add: write_records_def fseek_set_def)
  have le: "?n \<le> length tree" using dot(3) tree by simp
  have "length ?tab = 64 * ?n"
    using length_concat_const [of "map (\<lambda>x. sf_record (sdbf_of x)) (take ?n tree)" 64] lens le by simp
  then obtain out' where w: "write_files e bs fopen 0 (take (?n - 1) rest) ?out = Some (take (?n - 1) rest, out')"
    "o_bytes out' = foldl appended ?tab (file_parts (files_of_dir tree) cs)"
    using write_files_flat [OF assms(1,2) flat [unfolded files], of ?out e] order
    unfolding out file_parts_def files by (auto simp: tree)
  have "write_sdb e bs fopen tree ?init = Some (set_bases ?n (dot # take (?n - 1) rest @ drop (?n - 1) rest), out')"
    using w(1) wf(2,3) dot(3) n by (simp add: tree write_sdb.simps Let_def)
  then show ?thesis using w(2) by (simp add: tree)
qed

subsection \<open>Every tree is written\<close>

lemma copy_loop_total:
  assumes "copied = of_nat c" and "c + length src < 2 ^ 31"
  shows "\<exists>out'. copy_loop bs st copied src out = Some out'"
  using assms
proof (induction bs st copied src out arbitrary: c rule: copy_loop.induct)
  case (1 bs st copied src out)
  let ?blk = "take (unat bs) src"
  let ?n = "length ?blk"
  have n: "?n \<le> length src" by simp
  have c: "sint copied = int c" unfolding 1(2) using 1(3) by (intro sint_of_small) linarith
  have j: "sint (of_nat ?n :: u32) = int ?n" using 1(3) n by (intro sint_of_small) linarith
  show ?case
  proof (cases "sint copied < sint st \<and> 0 < ?n")
    case False
    then show ?thesis using j by (subst copy_loop.simps) (auto simp: Let_def)
  next
    case True
    have "int (c + ?n) < int (2 ^ 31)" by (rule iffD2 [OF of_nat_less_iff]) (use 1(3) n in linarith)
    then have pos: "\<not> sint (of_nat ?n :: u32) \<le> 0" "\<not> 2 ^ 31 \<le> sint copied + sint (of_nat ?n :: u32)"
      using True unfolding j c by (simp_all add: not_le)
    note less = True [THEN conjunct1]
    have "\<exists>out'. copy_loop bs st (copied + of_nat ?n) (drop (unat bs) src)
       (if of_nat (o_pos (fwrite ?blk out)) > lastwritten (fwrite ?blk out)
        then (fwrite ?blk out)\<lparr>lastwritten := of_nat (o_pos (fwrite ?blk out))\<rparr> else fwrite ?blk out) = Some out'"
    proof (rule 1(1) [OF less refl refl pos refl refl refl])
      show "copied + of_nat ?n = of_nat (c + ?n)" unfolding 1(2) by simp
      show "c + ?n + length (drop (unat bs) src) < 2 ^ 31" using 1(3) by simp
    qed
    then show ?thesis
      by (subst copy_loop.simps) (simp only: Let_def less pos if_True if_False)
  qed
qed

lemma write_total:
  assumes "\<forall>p c. fopen p = Some c \<longrightarrow> length c < 2 ^ 31"
  shows "wf_tree lev tree \<Longrightarrow> \<exists>t out'. write_sdb e bs fopen tree out = Some (t, out')"
    and "\<forall>x\<in>set fs. wf_node lev x \<Longrightarrow> \<exists>fs' out'. write_files e bs fopen base fs out = Some (fs', out')"
  using assms
proof (induction e bs fopen tree out and e bs fopen base fs out arbitrary: lev and lev
    rule: write_sdb_write_files.induct)
  case (1 e bs fopen out)
  then show ?case by (simp add: wf_tree.simps)
next
  case (2 e bs fopen dot rest out)
  have wf: "dot_ok lev dot" "n_records dot - 1 \<le> length rest"
    "\<forall>x\<in>set (take (n_records dot - 1) rest). wf_node lev x"
    using 2(2) by (simp_all add: wf_tree.simps)
  then have n: "get_records e (sf_record (sdbf_of dot)) = n_records dot" by (simp add: get_be n_records_def dot_ok_def)
  have len: "\<not> length rest < get_records e (sf_record (sdbf_of dot)) - 1" using wf(2) n by simp
  show ?case
    using 2(1) [OF refl refl refl len refl _ 2(3), of lev] wf(3) len
    by (auto simp: write_sdb.simps Let_def n)
next
  case (3 e bs fopen base out)
  then show ?case by (simp add: write_files.simps)
next
  case (4 e bs fopen base f sub fs out)
  have wf: "wf_node lev (SNode f sub)" "\<forall>x\<in>set fs. wf_node lev x" using 4(3) by simp_all
  let ?out = "fseek_set (if sf_userpos f then sf_ustart f else base + sf_rstart f) out"
  let ?first = "case fopen (sf_fullname f) of None \<Rightarrow> Some (sub, out)
     | Some src \<Rightarrow> (let out = ?out in case sub of
           Some s \<Rightarrow> do { (s, out) \<leftarrow> write_sdb e bs fopen s out; Some (Some s, out) }
         | None \<Rightarrow> do { out \<leftarrow> copy_loop bs (sf_stsize f) 0 src out; Some (None, out) })"
  have "\<exists>sub' out'. ?first = Some (sub', out')"
  proof (cases "fopen (sf_fullname f)")
    case (Some src)
    show ?thesis
    proof (cases sub)
      case None
      then show ?thesis using copy_loop_total [of 0 0 src bs "sf_stsize f" ?out] 4(4) Some by auto
    next
      case (Some s)
      then have "wf_tree (lev + 1) s" using wf(1) by (simp add: wf_node.simps)
      from 4(1) [OF \<open>fopen (sf_fullname f) = Some src\<close> refl Some this 4(4)]
      show ?thesis using Some \<open>fopen (sf_fullname f) = Some src\<close> by auto
    qed
  qed simp
  then obtain sub' out' where first: "?first = Some (sub', out')" by blast
  from 4(2) [OF first refl wf(2) 4(4)] show ?case
    using first by (auto simp: write_files.simps)
qed

end
