(* ===== verification/GenFlat.thy ===== *)
theory GenFlat
  imports GenWrite SdbImage
begin

text \<open>
  gensdbfs and the library together, for a directory of regular files: the tree the scan builds,
  where its files end up, and the image as the library's scan sees it.
\<close>

subsection \<open>The tree of a flat directory\<close>

definition regulars :: "(bytes \<times> fnode) list \<Rightarrow> (bytes \<times> fnode) list" where
  "regulars ents = filter (\<lambda>p. \<not> is_dots (fst p)) ents"

text \<open>A regular file that others cannot write, whose content is as long as \<open>stat\<close> says.\<close>

definition plain_file :: "(bytes \<Rightarrow> bytes option) \<Rightarrow> bytes \<Rightarrow> bytes \<times> fnode \<Rightarrow> bool" where
  "plain_file fopen name p \<longleftrightarrow> fst p \<noteq> CFG_NAME \<and> length (name @ [0x2f] @ fst p) < PATH_MAX
     \<and> (case snd p of
          FReg m n \<Rightarrow> m AND S_IWOTH = 0 \<and> (case fopen (name @ [0x2f] @ fst p) of
             Some c \<Rightarrow> length c = unat n \<and> length c < 2 ^ 30 | None \<Rightarrow> False)
        | _ \<Rightarrow> False)"

definition flat_dir :: "(bytes \<Rightarrow> bytes option) \<Rightarrow> bytes \<Rightarrow> (bytes \<times> fnode) list \<Rightarrow> bool" where
  "flat_dir fopen name ents \<longleftrightarrow> [0x2e] \<in> fst ` set ents \<and> length ents < 65536
     \<and> length name + 2 < PATH_MAX \<and> (\<forall>p\<in>set (regulars ents). plain_file fopen name p)"

definition slot_of :: "endian \<Rightarrow> u32 \<Rightarrow> bytes \<Rightarrow> bytes \<times> fnode \<Rightarrow> snode" where
  "slot_of e bs name p = (case p of (de, x) \<Rightarrow> (case x of
     FReg m n \<Rightarrow> SNode (fill_regular e bs de (zero_sdbf\<lparr>sf_fullname := name @ [0x2f] @ de,
                      sf_basename := de, sf_mode := m, sf_stsize := n\<rparr>)) None
   | _ \<Rightarrow> SNode zero_sdbf None))"

definition content_of :: "(bytes \<Rightarrow> bytes option) \<Rightarrow> bytes \<Rightarrow> bytes \<times> fnode \<Rightarrow> bytes" where
  "content_of fopen name p = (case fopen (name @ [0x2f] @ fst p) of Some c \<Rightarrow> c | None \<Rightarrow> [])"

lemma plain_slot:
  assumes "plain_file fopen name (de, x)"
  shows "\<exists>m n. x = FReg m n \<and> path_join name de = Some (name @ [0x2f] @ de) \<and> de \<noteq> CFG_NAME
    \<and> slot_of e bs name (de, x) = SNode (fill_regular e bs de (zero_sdbf\<lparr>sf_fullname := name @ [0x2f] @ de,
                      sf_basename := de, sf_mode := m, sf_stsize := n\<rparr>)) None"
  using assms by (auto simp: plain_file_def slot_of_def path_join_def split: fnode.splits)

lemma zero_level: "zero_sdbf\<lparr>sf_level := 0\<rparr> = zero_sdbf"
  by (simp add: zero_sdbf_def)

text \<open>The scan of the rest of a listing, from slot \<open>n\<close> on.\<close>

definition fresh_from :: "nat \<Rightarrow> snode list \<Rightarrow> bool" where
  "fresh_from n tree \<longleftrightarrow> tree \<noteq> [] \<and> sf_level (sdbf_of (tree ! 0)) = 0 \<and> sf_ustart (sdbf_of (tree ! 0)) = 0
     \<and> sf_base (sdbf_of (tree ! 0)) = 0 \<and> (\<forall>i. n \<le> i \<longrightarrow> i < length tree \<longrightarrow> tree ! i = SNode zero_sdbf None)"

lemma scan_slots_flat:
  assumes "\<forall>p\<in>set (regulars ents). plain_file fopen name p" and "length name + 2 < PATH_MAX"
    and "fresh_from n tree" and "1 \<le> n" and "n + length (regulars ents) \<le> length tree"
  shows "\<exists>t. scan_slots e bs fopen name (tree, n, None) ents
      = Some (Some (t, n + length (regulars ents), None))
    \<and> length t = length tree \<and> fresh_from (n + length (regulars ents)) t
    \<and> (\<forall>i. 1 \<le> i \<longrightarrow> i < n \<longrightarrow> t ! i = tree ! i)
    \<and> (\<forall>i < length (regulars ents). t ! (n + i) = slot_of e bs name (regulars ents ! i))"
  using assms
proof (induction ents arbitrary: tree n)
  case Nil
  then show ?case by (simp add: regulars_def)
next
  case (Cons p ents)
  obtain de x where p: "p = (de, x)" by (cases p)
  consider "de = [0x2e]" | "de = [0x2e, 0x2e]" | "\<not> is_dots de" by (auto simp: is_dots_def)
  then show ?case
  proof cases
    case 1
    have r: "regulars (p # ents) = regulars ents" by (simp add: regulars_def p is_dots_def 1)
    obtain f where f: "fill_dot e name (sdbf_of (tree ! 0)) = Some f" "sf_level f = sf_level (sdbf_of (tree ! 0))"
      "sf_ustart f = sf_ustart (sdbf_of (tree ! 0))" "sf_base f = sf_base (sdbf_of (tree ! 0))"
      using Cons.prems(2) by (auto simp: fill_dot_def path_join_def Let_def)
    then have "fresh_from n (tree[0 := SNode f None])"
      using Cons.prems(3,4) by (auto simp: fresh_from_def nth_list_update)
    from Cons.IH [OF _ Cons.prems(2) this Cons.prems(4)] Cons.prems(1,5) show ?thesis
      unfolding r by (simp add: p 1 f(1))
  next
    case 2
    have r: "regulars (p # ents) = regulars ents" by (simp add: regulars_def p is_dots_def 2)
    show ?thesis using Cons.IH [OF _ Cons.prems(2-4)] Cons.prems(1,5) unfolding r by (simp add: p 2)
  next
    case 3
    have r: "regulars (p # ents) = p # regulars ents" by (simp add: regulars_def p 3)
    have plain: "plain_file fopen name (de, x)" using Cons.prems(1) r p by simp
    from plain_slot [OF plain] obtain m l where x: "x = FReg m l" "path_join name de = Some (name @ [0x2f] @ de)"
      "de \<noteq> CFG_NAME" and slot: "slot_of e bs name (de, x) = SNode (fill_regular e bs de
         (zero_sdbf\<lparr>sf_fullname := name @ [0x2f] @ de, sf_basename := de, sf_mode := m, sf_stsize := l\<rparr>)) None"
      by blast
    have n: "n < length tree" "tree ! n = SNode zero_sdbf None" "sf_level (sdbf_of (tree ! 0)) = 0"
      using Cons.prems(3,5) r by (auto simp: fresh_from_def)
    have step: "scan_slots e bs fopen name (tree, n, None) (p # ents)
        = scan_slots e bs fopen name (tree[n := slot_of e bs name (de, x)], n + 1, None) ents"
      using 3 x n slot by (simp add: p is_dots_def zero_level)
    have "fresh_from (n + 1) (tree[n := slot_of e bs name (de, x)])"
      using Cons.prems(3,4) n by (auto simp: fresh_from_def nth_list_update)
    from Cons.IH [OF _ Cons.prems(2) this] Cons.prems(1,5) r
    obtain t where t: "scan_slots e bs fopen name (tree[n := slot_of e bs name (de, x)], n + 1, None) ents
        = Some (Some (t, n + 1 + length (regulars ents), None))" "length t = length tree"
      "fresh_from (n + 1 + length (regulars ents)) t"
      "\<forall>i. 1 \<le> i \<longrightarrow> i < n + 1 \<longrightarrow> t ! i = (tree[n := slot_of e bs name (de, x)]) ! i"
      "\<forall>i < length (regulars ents). t ! (n + 1 + i) = slot_of e bs name (regulars ents ! i)"
      by auto
    have "t ! (n + i) = slot_of e bs name ((p # regulars ents) ! i)" if "i < Suc (length (regulars ents))" for i
      using that t(4,5) Cons.prems(4) n by (cases i) (auto simp: p)
    then show ?thesis using step t n by (auto simp: r)
  qed
qed

lemma flat_listing_ok: "flat_dir fopen name ents \<Longrightarrow> listing_ok (Some ents)"
proof -
  assume flat: "flat_dir fopen name ents"
  have "is_dots (fst p) \<or> dirs_ok (snd p)" if "p \<in> set ents" for p
  proof (cases "is_dots (fst p)")
    case False
    then have "plain_file fopen name p" using flat that
      by (cases p) (simp add: flat_dir_def regulars_def)
    then show ?thesis by (cases "snd p") (simp_all add: plain_file_def)
  qed simp
  then show ?thesis using flat by (simp add: listing_ok_def flat_dir_def)
qed

lemma prepare_flat:
  assumes "flat_dir fopen name ents"
  obtains t where "prepare_dir e bs fopen name None (Some ents) = Some (Some t)"
    and "wf_tree 0 t" and "n_records (t ! 0) = Suc (length (regulars ents))"
    and "sf_base (sdbf_of (t ! 0)) = 0" "sf_ustart (sdbf_of (t ! 0)) = 0"
    and "files_of_dir t = map (slot_of e bs name) (regulars ents)"
proof -
  let ?N = "length ents" let ?k = "length (regulars ents)"
  let ?init = "(replicate ?N (SNode zero_sdbf None))[0 := SNode (zero_sdbf\<lparr>sf_nfiles := ?N, sf_level := 0\<rparr>) None]"
  have flat: "[0x2e] \<in> fst ` set ents" "?N < 65536" "length name + 2 < PATH_MAX"
    "\<forall>p\<in>set (regulars ents). plain_file fopen name p"
    using assms by (simp_all add: flat_dir_def)
  have k: "1 + ?k \<le> ?N"
  proof -
    from flat(1) obtain p where "p \<in> set ents" "is_dots (fst p)" by (auto simp: is_dots_def)
    then have "?k < ?N" unfolding regulars_def by (intro length_filter_less) auto
    then show ?thesis by simp
  qed
  then have N: "?N \<noteq> 0" "0 < ?N" by linarith+
  have "fresh_from 1 ?init" using N by (auto simp: fresh_from_def nth_list_update zero_sdbf_def)
  from scan_slots_flat [OF flat(4,3) this, of e bs] k
  obtain t where t: "scan_slots e bs fopen name (?init, 1, None) ents = Some (Some (t, 1 + ?k, None))"
    "length t = ?N" "fresh_from (1 + ?k) t" "\<forall>i < ?k. t ! (1 + i) = slot_of e bs name (regulars ents ! i)"
    by auto
  let ?t = "t[0 := upd_record (set_records e (htons e (of_nat (1 + ?k)))) (t ! 0)]"
  have "scan_inputdir e bs fopen name None (Some ents) = Some (Some (?t, None))"
    using N t(1) by (simp add: Let_def)
  then have prep: "prepare_dir e bs fopen name None (Some ents) = Some (Some ?t)"
    by (simp add: prepare_dir.simps)
  have wf: "wf_tree 0 ?t"
    using scanned_wf(4) [OF prep flat_listing_ok [OF assms]] by (simp add: parent_level_def)
  obtain dot rest where dr: "t = dot # rest" using t(2) N by (cases t) auto
  have "length (put 4 (word_be 2 (of_nat (1 + ?k) :: u16)) (sf_record (sdbf_of dot))) = 64"
    using wf unfolding dr by (simp add: wf_tree.simps dot_ok_def upd_record_def upd_node_def set_be)
  then have "length (sf_record (sdbf_of dot)) = 64" by (auto simp: put_def)
  then have "n_records (?t ! 0) = unat (of_nat (1 + ?k) :: u16)"
    using chunk_put_same [of 4 "word_be 2 (of_nat (1 + ?k) :: u16)" "sf_record (sdbf_of dot)"]
    unfolding dr by (simp add: n_records_def upd_record_def upd_node_def set_be)
  also have "\<dots> = 1 + ?k"
    using k flat(2) by (intro unat_of_nat [THEN trans]) simp
  finally have c: "n_records (?t ! 0) = Suc ?k" by simp
  show thesis
  proof (rule that [OF prep wf c])
    show "sf_base (sdbf_of (?t ! 0)) = 0" "sf_ustart (sdbf_of (?t ! 0)) = 0"
      using t(3) by (simp_all add: dr fresh_from_def upd_record_def upd_node_def)
    have "take ?k rest = map (slot_of e bs name) (regulars ents)"
      using t(2,4) k dr by (intro nth_equalityI) auto
    then show "files_of_dir ?t = map (slot_of e bs name) (regulars ents)"
      unfolding files_of_dir_def c by (simp add: dr)
  qed
qed

text \<open>What the allocation leaves of an entry that is not a directory.\<close>

definition kept :: "snode \<Rightarrow> snode \<Rightarrow> bool" where
  "kept x y \<longleftrightarrow> subdir_of y = None \<and> sf_fullname (sdbf_of y) = sf_fullname (sdbf_of x)
     \<and> sf_stsize (sdbf_of y) = sf_stsize (sdbf_of x) \<and> sf_size (sdbf_of y) = sf_size (sdbf_of x)
     \<and> sf_userpos (sdbf_of y) = sf_userpos (sdbf_of x) \<and> length (sf_record (sdbf_of y)) = 64
     \<and> chunk 24 39 (sf_record (sdbf_of y)) = chunk 24 39 (sf_record (sdbf_of x))
     \<and> sf_record (sdbf_of y) ! 63 = sf_record (sdbf_of x) ! 63"

lemma alloc_files_kept:
  assumes "\<forall>x\<in>set fs. wf_node lev x \<and> subdir_of x = None"
    and "alloc_files e bs base rpos l fs = Some (fs', l')"
  shows "list_all2 kept fs fs'"
  using assms
proof (induction fs arbitrary: rpos l fs')
  case Nil
  then show ?case by (simp add: alloc_files.simps)
next
  case (Cons x fs)
  obtain f where x: "x = SNode f None" using Cons.prems(1) by (cases x) auto
  from Cons.prems(1) x have wf: "wf_node lev (SNode f None)" by auto
  obtain g sub' h rpos' l2 rest where res: "fs' = SNode h sub' # rest" and g: "length (sf_record g) = 64"
    and h: "place e bs rpos l g = (h, rpos', l2)"
    and rest: "alloc_files e bs base rpos' l2 fs = Some (rest, l')" and gf: "g = f" "sub' = None"
    by (rule alloc_files_Cons [OF wf Cons.prems(2) [unfolded x]]) (rule that; (assumption | blast))
  note h_ok = place_fields [OF g h]
  have "sf_fullname h = sf_fullname g \<and> sf_stsize h = sf_stsize g \<and> sf_size h = sf_size g
      \<and> sf_userpos h = sf_userpos g"
    by (subst (1 2 3 4) h_ok(7)) simp
  then have "kept x (SNode h sub')" using h_ok(1,2,4) by (simp add: kept_def x gf)
  then show ?case using Cons.IH [OF _ rest] Cons.prems(1) by (simp add: res)
qed

lemma plain_content_short: "plain_file fopen name p \<Longrightarrow> length (content_of fopen name p) < 2 ^ 30"
  by (auto simp: plain_file_def content_of_def split: fnode.splits option.splits)

lemma slot_facts:
  fixes e :: endian and bs :: u32
  assumes "plain_file fopen name p"
  defines "x \<equiv> slot_of e bs name p" and "c \<equiv> content_of fopen name p"
  shows "subdir_of x = None" and "\<not> sf_userpos (sdbf_of x)"
    and "fopen (sf_fullname (sdbf_of x)) = Some c"
    and "unat (sf_stsize (sdbf_of x)) = length c" and "unat (sf_size (sdbf_of x)) = length c"
    and "length (sf_record (sdbf_of x)) = 64" and "sf_record (sdbf_of x) ! 63 = sdb_type_device"
    and "chunk 44 19 (sf_record (sdbf_of x)) = padded (fst p)"
proof -
  obtain de y where p: "p = (de, y)" by (cases p)
  from plain_slot [OF assms(1) [unfolded p], where e = e and bs = bs] obtain m n where y: "y = FReg m n"
    and x: "x = SNode (fill_regular e bs de (zero_sdbf\<lparr>sf_fullname := name @ [0x2f] @ de,
      sf_basename := de, sf_mode := m, sf_stsize := n\<rparr>)) None"
    by (auto simp: x_def p)
  from assms(1) y have c: "m AND S_IWOTH = 0" "fopen (name @ [0x2f] @ de) = Some c" "length c = unat n" "length c < 2 ^ 30"
    by (auto simp: plain_file_def p c_def content_of_def split: option.splits)
  have r: "length (set_bus_specific e (htonl e (file_flags m)) (replicate 64 0)) = 64"
    by (rule length_set) simp
  note prod = fill_product_fields [OF r, where e = e and name = de and t = sdb_type_device]
  show "subdir_of x = None" "\<not> sf_userpos (sdbf_of x)" "fopen (sf_fullname (sdbf_of x)) = Some c"
    "unat (sf_stsize (sdbf_of x)) = length c" "unat (sf_size (sdbf_of x)) = length c"
    "length (sf_record (sdbf_of x)) = 64"
    "sf_record (sdbf_of x) ! 63 = sdb_type_device"
    "chunk 44 19 (sf_record (sdbf_of x)) = padded (fst p)"
    using c prod by (simp_all add: x p fill_regular_def Let_def zero_sdbf_def)
qed

lemma kept_facts:
  assumes "kept x y"
  shows "chunk 44 19 (sf_record (sdbf_of y)) = chunk 44 19 (sf_record (sdbf_of x))"
  using assms chunk_chunk [of 20 19 39 24 "sf_record (sdbf_of y)"]
    chunk_chunk [of 20 19 39 24 "sf_record (sdbf_of x)"]
  by (simp add: kept_def)

lemma in_order_layout: "0 < b \<Longrightarrow> in_order pos (zip (layout b pos (map length cs)) cs)"
proof (induction cs arbitrary: pos)
  case (Cons c cs)
  have "pos + length c \<le> align b (pos + length c)" using Cons.prems by (rule align_ge)
  then show ?case using Cons in_order_mono by auto
qed simp

text \<open>The directory after its allocation, entry by entry.\<close>

lemma flat_allocated:
  assumes flat: "flat_dir fopen name ents" and k: "k < 31"
    and room: "64 * Suc (length (regulars ents)) + 2 ^ k
      + sum_list (map (\<lambda>p. length (content_of fopen name p) + 2 ^ k) (regulars ents)) \<le> 2 ^ 31"
  defines "cs \<equiv> map (content_of fopen name) (regulars ents)"
    and "pos \<equiv> align (2 ^ k) (64 * Suc (length (regulars ents)))"
  obtains t where "(do { p \<leftarrow> prepare_dir e (2 ^ k) fopen name None (Some ents);
        case p of None \<Rightarrow> None | Some t \<Rightarrow> alloc_storage e (2 ^ k) 0 t }) = Some t"
    and "wf_tree 0 t" and "n_records (t ! 0) = Suc (length (regulars ents))"
    and "sf_base (sdbf_of (t ! 0)) = 0" "sf_ustart (sdbf_of (t ! 0)) = 0"
    and "list_all2 (flat_file fopen) cs (files_of_dir t)"
    and "map (first_at e) (files_of_dir t) = layout (2 ^ k) pos (map length cs)"
    and "map (\<lambda>x. unat (sf_rstart (sdbf_of x))) (files_of_dir t) = layout (2 ^ k) pos (map length cs)"
    and "\<forall>x\<in>set (files_of_dir t). placed e x"
    and "list_all2 (\<lambda>p x. size_at x = length (content_of fopen name p)
           \<and> chunk 44 19 (sf_record (sdbf_of x)) = padded (fst p)
           \<and> sf_record (sdbf_of x) ! 63 = sdb_type_device) (regulars ents) (files_of_dir t)"
proof -
  let ?ps = "regulars ents" let ?b = "(2::nat) ^ k" let ?n = "length (regulars ents)"
  obtain t0 where t0: "prepare_dir e (2 ^ k) fopen name None (Some ents) = Some (Some t0)"
    and wf0: "wf_tree 0 t0" and c0: "n_records (t0 ! 0) = Suc ?n"
    and z: "sf_base (sdbf_of (t0 ! 0)) = 0" "sf_ustart (sdbf_of (t0 ! 0)) = 0"
    and fs0: "files_of_dir t0 = map (slot_of e (2 ^ k) name) ?ps"
    using prepare_flat [OF flat] by blast
  obtain t where alloc: "alloc_storage e (2 ^ k) 0 t0 = Some t" and wf: "wf_tree 0 t"
    using alloc_wf(1) [OF wf0] by blast
  let ?rpos = "sf_ustart (sdbf_of (t0 ! 0)) + SDB_ALIGN (2 ^ k) (of_nat (n_records (t0 ! 0) * 64))"
  obtain l where files: "alloc_files e (2 ^ k) 0 ?rpos ?rpos (files_of_dir t0) = Some (files_of_dir t, l)"
    and c: "n_records (t ! 0) = n_records (t0 ! 0)" and base: "sf_base (sdbf_of (t ! 0)) = 0"
    and ust: "sf_ustart (sdbf_of (t ! 0)) = sf_ustart (sdbf_of (t0 ! 0))"
    by (rule alloc_storage_files [OF wf0 alloc]) blast
  have plain: "plain_file fopen name p" if "p \<in> set ?ps" for p using flat that by (simp add: flat_dir_def)
  note slots = slot_facts [OF plain, where e = e and bs = "2 ^ k"]
  have nodes: "\<forall>x\<in>set (files_of_dir t0). wf_node 0 x \<and> subdir_of x = None \<and> \<not> sf_userpos (sdbf_of x)"
  proof
    fix x assume "x \<in> set (files_of_dir t0)"
    then obtain p where "p \<in> set ?ps" "x = slot_of e (2 ^ k) name p" by (auto simp: fs0)
    moreover have "wf_node 0 x" using wf0 \<open>x \<in> set (files_of_dir t0)\<close>
      by (cases t0) (auto simp: wf_tree.simps files_of_dir_def)
    ultimately show "wf_node 0 x \<and> subdir_of x = None \<and> \<not> sf_userpos (sdbf_of x)" using slots(1,2) by simp
  qed
  have kept: "list_all2 kept (map (slot_of e (2 ^ k) name) ?ps) (files_of_dir t)"
    using alloc_files_kept [OF _ files] nodes unfolding fs0 by blast
  have sizes: "map size_at (files_of_dir t) = map length cs"
  proof (rule nth_equalityI)
    show "length (map size_at (files_of_dir t)) = length (map length cs)"
      using kept by (simp add: cs_def list_all2_lengthD [symmetric])
    fix i assume "i < length (map size_at (files_of_dir t))"
    then have i: "i < length ?ps" "i < length (files_of_dir t)"
      using kept by (auto dest: list_all2_lengthD)
    have "kept (slot_of e (2 ^ k) name (?ps ! i)) (files_of_dir t ! i)"
      using list_all2_nthD2 [OF kept i(2)] i by simp
    then show "map size_at (files_of_dir t) ! i = map length cs ! i"
      using slots(5) [of "?ps ! i"] i by (simp add: cs_def kept_def size_at_def)
  qed
  have room': "64 * Suc ?n + ?b + sum_list (map (\<lambda>c. length c + ?b) cs) \<le> 2 ^ 31"
    using room by (simp add: cs_def comp_def)
  have unat_rpos: "unat ?rpos = pos"
  proof -
    have n: "64 * Suc ?n + ?b \<le> 2 ^ 31" using room' by linarith
    have "n_records (t0 ! 0) * 64 < 2 ^ LENGTH(64)" using n c0 by simp
    then have "unat (of_nat (n_records (t0 ! 0) * 64) :: u64) = n_records (t0 ! 0) * 64"
      unfolding unat_of_nat by (rule mod_less)
    then have "unat (of_nat (n_records (t0 ! 0) * 64) :: u64) = 64 * Suc ?n" using c0 by simp
    then show ?thesis using z(2) n k unat_SDB_ALIGN [of k "of_nat (n_records (t0 ! 0) * 64)"] by (simp add: pos_def)
  qed
  have pos: "pos < 64 * Suc ?n + ?b" unfolding pos_def by (rule align_less) simp
  have bound: "unat ?rpos + sum_list (map (\<lambda>x. size_at x + ?b) (files_of_dir t)) < 2 ^ 31"
  proof -
    have "map (\<lambda>x. size_at x + ?b) (files_of_dir t) = map (\<lambda>s. s + ?b) (map size_at (files_of_dir t))" by simp
    then show ?thesis using room' pos unfolding unat_rpos sizes by (simp add: comp_def)
  qed
  have ns: "\<forall>x\<in>set (files_of_dir t0). wf_node 0 x \<and> \<not> sf_userpos (sdbf_of x)" using nodes by blast
  have "unat ?rpos + sum_list (map (\<lambda>x. size_at x + ?b) (files_of_dir t)) \<le> 2 ^ 32"
    by (rule less_imp_le, rule less_trans [OF bound]) simp
  note L = alloc_files_layout [OF ns files _ this, unfolded unat_rpos sizes]
  have lay: "map (first_at e) (files_of_dir t) = layout ?b pos (map length cs)"
    "\<forall>x\<in>set (files_of_dir t). placed e x"
    using L k by (simp_all del: map_map)
  have rstart: "map (\<lambda>x. unat (sf_rstart (sdbf_of x))) (files_of_dir t) = layout ?b pos (map length cs)"
    unfolding lay(1) [symmetric] using lay(2) by (simp add: first_at_def placed_def)
  have small: "unat (sf_rstart (sdbf_of x)) < 2 ^ 32" if "x \<in> set (files_of_dir t)" for x
  proof -
    from that obtain i where i: "i < length (files_of_dir t)" "x = files_of_dir t ! i" by (auto simp: in_set_conv_nth)
    have len: "length (files_of_dir t) = length cs" using sizes by (metis length_map)
    have "unat (sf_rstart (sdbf_of x)) = layout ?b pos (map length cs) ! i"
      using arg_cong [OF rstart, of "\<lambda>xs. xs ! i"] i by simp
    also have "\<dots> \<le> pos + sum_list (map (\<lambda>s. s + ?b) (map length cs))"
      using layout_less [of ?b i "map length cs" pos] i len by simp
    also have "\<dots> < 2 ^ 32" using bound unfolding unat_rpos sizes [symmetric] by (simp add: comp_def)
    finally show ?thesis .
  qed
  have len: "length (files_of_dir t) = length ?ps" using kept by (simp add: list_all2_lengthD [symmetric])
  have entry: "kept (slot_of e (2 ^ k) name (?ps ! i)) (files_of_dir t ! i)" "plain_file fopen name (?ps ! i)"
    if "i < length ?ps" for i
    using list_all2_nthD2 [OF kept, of i] that len plain by auto
  have flats: "list_all2 (flat_file fopen) cs (files_of_dir t)"
    unfolding list_all2_conv_all_nth
  proof (intro conjI allI impI)
    show "length cs = length (files_of_dir t)" using len by (simp add: cs_def)
    fix i assume "i < length cs"
    then have i: "i < length ?ps" by (simp add: cs_def)
    have mem: "?ps ! i \<in> set ?ps" using i by simp
    have "length (content_of fopen name (?ps ! i)) < 2 ^ 31"
      using plain_content_short [OF entry(2) [OF i]] by simp
    moreover have "files_of_dir t ! i \<in> set (files_of_dir t)" using i len by simp
    ultimately show "flat_file fopen (cs ! i) (files_of_dir t ! i)"
      using entry(1) [OF i] slots(1-4) [OF mem] small i
      by (simp add: flat_file_def kept_def cs_def)
  qed
  have shape: "list_all2 (\<lambda>p x. size_at x = length (content_of fopen name p)
           \<and> chunk 44 19 (sf_record (sdbf_of x)) = padded (fst p)
           \<and> sf_record (sdbf_of x) ! 63 = sdb_type_device) ?ps (files_of_dir t)"
    unfolding list_all2_conv_all_nth
  proof (intro conjI allI impI)
    show "length ?ps = length (files_of_dir t)" using len by simp
    fix i assume i: "i < length ?ps"
    then have mem: "?ps ! i \<in> set ?ps" by simp
    show "size_at (files_of_dir t ! i) = length (content_of fopen name (?ps ! i))"
      using entry(1) [OF i] slots(5) [OF mem] by (simp add: kept_def size_at_def)
    show "chunk 44 19 (sf_record (sdbf_of (files_of_dir t ! i))) = padded (fst (?ps ! i))"
      using kept_facts [OF entry(1) [OF i]] slots(8) [OF mem] by simp
    show "sf_record (sdbf_of (files_of_dir t ! i)) ! 63 = sdb_type_device"
      using entry(1) [OF i] slots(7) [OF mem] by (simp add: kept_def)
  qed
  show thesis
    by (rule that [OF _ wf _ base _ flats lay(1) rstart lay(2) shape])
      (use t0 alloc c c0 ust z in auto)
qed

subsection \<open>The image as the library scans it\<close>

lemma walk_flat:
  assumes "\<forall>r\<in>set rs. \<not> enters 0 r"
    and "\<forall>i < length rs. ent (off + of_nat i * 64) = Some (rs ! i)"
  shows "walk e ent 0 0 off (length rs) = Some (map (\<lambda>r. (r, first_of e r, 0)) rs)"
  using assms
proof (induction rs arbitrary: off)
  case Nil
  then show ?case by simp
next
  case (Cons r rs)
  have "ent (off + 64 + of_nat i * 64) = Some (rs ! i)" if "i < length rs" for i
    using Cons.prems(2) that by (auto simp: algebra_simps dest: spec [of _ "Suc i"])
  then have "walk e ent 0 0 (off + 64) (length rs) = Some (map (\<lambda>r. (r, first_of e r, 0)) rs)"
    using Cons.IH [of "off + 64"] Cons.prems(1) by auto
  moreover have "ent off = Some r" using Cons.prems(2) by auto
  ultimately show ?case using Cons.prems(1) by (simp add: walk_Suc sub_items_def)
qed

lemma strncmp_take:
  "0 \<notin> set nm \<Longrightarrow> length nm \<le> length pn \<Longrightarrow> strncmp_eq nm pn (length nm) \<longleftrightarrow> take (length nm) pn = nm"
proof (induction nm arbitrary: pn)
  case (Cons c nm)
  then obtain d pn' where "pn = d # pn'" by (cases pn) auto
  then show ?case using Cons by (auto simp: c_head_def)
qed simp

text \<open>A name that a record holds as it is, and that can be told from its padding.\<close>

definition plain_name :: "bytes \<Rightarrow> bool" where
  "plain_name s \<longleftrightarrow> 0 \<notin> set s \<and> 0x20 \<notin> set s \<and> length s \<le> 19"

lemma padded_plain: "plain_name s \<Longrightarrow> padded s = s @ replicate (19 - length s) 0x20"
  by (simp add: padded_def plain_name_def)

lemma name_matches_padded:
  assumes "plain_name nm" and "plain_name fn" and "length r = 64" and "chunk 44 19 r = padded fn"
  shows "name_matches e nm r \<longleftrightarrow> nm = fn"
proof -
  have pn: "p_name (c_product (d_component (load_device e r))) = padded fn"
    using assms(4) by (simp add: load_product_def)
  have m: "name_matches e nm r \<longleftrightarrow> take (length nm) (padded fn) = nm
      \<and> (length nm = 19 \<or> padded fn ! length nm = 0x20)"
    using strncmp_take [of nm "padded fn"] assms(1)
    unfolding name_matches_def Let_def pn by (auto simp: plain_name_def)
  consider "length nm = length fn" | "length nm < length fn" | "length fn < length nm" by linarith
  then show ?thesis
  proof cases
    case 1
    then show ?thesis unfolding m padded_plain [OF assms(2)] using assms(2)
      by (cases "length fn < 19") (auto simp: nth_append plain_name_def)
  next
    case 2
    then have "padded fn ! length nm = fn ! length nm" by (simp add: padded_plain [OF assms(2)] nth_append)
    moreover have "fn ! length nm \<noteq> 0x20" using 2 assms(2) by (metis nth_mem plain_name_def)
    ultimately show ?thesis unfolding m using 2 assms(1,2) by (auto simp: plain_name_def)
  next
    case 3
    have "nm ! length fn \<noteq> 0x20" using 3 assms(1) by (metis nth_mem plain_name_def)
    moreover have "take (length nm) (padded fn) ! length fn = 0x20"
      using 3 assms(1) by (simp add: padded_plain [OF assms(2)] nth_append plain_name_def)
    ultimately have "take (length nm) (padded fn) \<noteq> nm" by metis
    then show ?thesis unfolding m using 3 by auto
  qed
qed

text \<open>A table of records at the start of an image: an interconnect that counts itself and the others,
  which are devices, on either kind of host.\<close>

definition flat_table :: "bytes \<Rightarrow> bytes \<Rightarrow> bytes list \<Rightarrow> bool" where
  "flat_table img dot recs \<longleftrightarrow>
     (\<forall>i \<le> length recs. 64 * i + 64 \<le> length img \<and> chunk (64 * i) 64 img = (dot # recs) ! i)
     \<and> (\<forall>e. is_intercon e dot \<and> unat (ntohs e (i_sdb_records (load_interconnect e dot))) = Suc (length recs))
     \<and> (\<forall>r\<in>set recs. r ! 63 = sdb_type_device)"

lemma flat_image_table:
  assumes wf: "wf_tree 0 t" and c: "n_records (t ! 0) = Suc n"
    and dev: "\<forall>x\<in>set (files_of_dir t). sf_record (sdbf_of x) ! 63 = sdb_type_device"
    and img: "img = foldl appended (concat (map (\<lambda>x. sf_record (sdbf_of x)) (take (Suc n) t))) parts"
  shows "flat_table img (sf_record (sdbf_of (t ! 0))) (map (\<lambda>x. sf_record (sdbf_of x)) (files_of_dir t))"
proof -
  obtain dot rest where t: "t = dot # rest" using wf by (cases t) (auto simp: wf_tree.simps)
  have dot: "dot_ok 0 dot" "n \<le> length rest" using wf c by (simp_all add: t wf_tree.simps)
  let ?rec = "\<lambda>x. sf_record (sdbf_of x)"
  let ?rs = "map ?rec (take (Suc n) t)"
  have files: "files_of_dir t = take n rest" using c by (simp add: files_of_dir_def t)
  have lens: "\<forall>r\<in>set ?rs. length r = 64"
  proof
    fix r assume "r \<in> set ?rs"
    then obtain i where "i < length t" "i < Suc n" "r = ?rec (t ! i)" by (auto simp: in_set_conv_nth)
    then show "length r = 64" using wf_tree_lengths [OF wf] c by simp
  qed
  have rs: "length ?rs = Suc n" using dot(2) by (simp add: t)
  have tab: "length (concat ?rs) = 64 * Suc n" using length_concat_const [OF lens] rs by simp
  have fits: "64 * Suc n \<le> length img" unfolding img using appended_prefix [of "concat ?rs" parts] tab by auto
  have "chunk (64 * i) 64 img = ?rs ! i" if "i < Suc n" for i
  proof -
    have "chunk (64 * i) 64 img = chunk (64 * i) 64 (concat ?rs)"
      unfolding img by (rule appended_keeps) (use that tab in simp)
    also have "\<dots> = ?rs ! i" using chunk_concat [OF lens] that rs by (simp add: mult.commute)
    finally show ?thesis .
  qed
  moreover have "is_intercon eh (?rec dot)" for eh
    using dot(1) by (simp add: is_intercon_def get_be dot_ok_def sdb_type_defs)
  moreover have "unat (ntohs eh (i_sdb_records (load_interconnect eh (?rec dot)))) = Suc n" for eh
    using c dot(1) get_be(1) [of "?rec dot" "eh"] by (simp add: t n_records_def get_records_def dot_ok_def)
  ultimately show ?thesis
    using dev fits dot(2) unfolding flat_table_def by (simp add: files [unfolded t] t less_Suc_eq_le)
qed

text \<open>What the library lists of such an image.\<close>

lemma table_listing:
  assumes tab: "flat_table img dot recs" and short: "length img < 2 ^ 31"
  shows "listing e (img_entry img) 0 = Some ((dot, first_of e dot, 0) # map (\<lambda>r. (r, first_of e r, 0)) recs)"
proof -
  have ent: "img_entry img (of_nat i * 64) = Some ((dot # recs) ! i)" if "i \<le> length recs" for i
  proof -
    have "i * 64 < 2 ^ LENGTH(64)" using short that tab by (auto simp: flat_table_def)
    then have "unat (of_nat (i * 64) :: u64) = i * 64" unfolding unat_of_nat by (rule mod_less)
    then have "unat (of_nat i * 64 :: u64) = i * 64" by simp
    then show ?thesis using that tab by (simp add: img_entry_def flat_table_def mult.commute)
  qed
  have "records_of e dot = length recs"
  proof -
    let ?w = "ntohs e (i_sdb_records (load_interconnect e dot))"
    have "unat ?w < 2 ^ LENGTH(16)" by (rule unsigned_less)
    then have "take_bit 32 (unat ?w) = unat ?w" by (simp add: take_bit_nat_eq_self)
    moreover have "unat ?w = Suc (length recs)" using tab by (simp add: flat_table_def)
    ultimately have "unat (ucast ?w :: u32) = Suc (length recs)" by (simp add: unsigned_ucast_eq)
    then show ?thesis
      unfolding records_of_def intercon_nleft_def by (subst unat_minus_one) auto
  qed
  moreover have "walk e (img_entry img) 0 0 (0 + 64) (length recs) = Some (map (\<lambda>r. (r, first_of e r, 0)) recs)"
  proof (rule walk_flat)
    show "\<forall>r\<in>set recs. \<not> enters 0 r"
      using tab by (auto simp: flat_table_def enters_def sdb_type_defs)
    show "\<forall>i<length recs. img_entry img (0 + 64 + of_nat i * 64) = Some (recs ! i)"
      using ent [of "Suc i" for i] by (auto simp: algebra_simps)
  qed
  ultimately show ?thesis
    using ent [of 0] tab by (simp add: listing_def flat_table_def)
qed

text \<open>The record of an entry, as the library reads it on its own host.\<close>

lemma placed_extent:
  assumes "placed e x" and "length (sf_record (sdbf_of x)) = 64"
  shows "first_of eh (sf_record (sdbf_of x)) = sf_rstart (sdbf_of x)"
    and "file_len eh (sf_record (sdbf_of x)) = sf_size (sdbf_of x)"
proof -
  let ?r = "sf_record (sdbf_of x)"
  have "first_of eh ?r = sf_first e (sdbf_of x)" "last_of eh ?r = sf_last e (sdbf_of x)"
    using assms(2) by (simp_all add: first_of_def last_of_def sf_first_def sf_last_def get_be
        get_be [unfolded ntohll_def])
  then show "first_of eh ?r = sf_rstart (sdbf_of x)" "file_len eh ?r = sf_size (sdbf_of x)"
    using assms(1) by (simp_all add: placed_def file_len_def)
qed

lemma find_corresponding:
  "list_all2 R ps xs \<Longrightarrow> (\<And>p x. p \<in> set ps \<Longrightarrow> x \<in> set xs \<Longrightarrow> R p x \<Longrightarrow> Q p \<longleftrightarrow> P x) \<Longrightarrow>
   rel_option (\<lambda>p x. R p x \<and> p \<in> set ps \<and> x \<in> set xs) (find Q ps) (find P xs)"
proof (induction ps xs rule: list_all2_induct)
  case (Cons p ps x xs)
  then have "Q p \<longleftrightarrow> P x" by auto
  moreover have "rel_option (\<lambda>p x. R p x \<and> p \<in> set ps \<and> x \<in> set xs) (find Q ps) (find P xs)"
    using Cons by auto
  then have "rel_option (\<lambda>a b. R a b \<and> a \<in> set (p # ps) \<and> b \<in> set (x # xs)) (find Q ps) (find P xs)"
    by (rule option.rel_mono_strong) auto
  ultimately show ?case using Cons.hyps(1) by auto
qed simp

lemma find_mapped: "find P (map f xs) = map_option f (find (P \<circ> f) xs)"
  by (induction xs) auto

lemma length_records:
  assumes "wf_tree lev t"
  shows "length (concat (map (\<lambda>x. sf_record (sdbf_of x)) (take (n_records (t ! 0)) t))) = 64 * n_records (t ! 0)"
proof -
  have "n_records (t ! 0) \<le> length t" using assms by (cases t) (auto simp: wf_tree.simps)
  moreover have "\<forall>r\<in>set (map (\<lambda>x. sf_record (sdbf_of x)) (take (n_records (t ! 0)) t)). length r = 64"
    using wf_tree_lengths [OF assms] by (auto simp: in_set_conv_nth)
  ultimately show ?thesis by (subst length_concat_const) auto
qed

text \<open>The whole program on a flat directory: its image, and what reading it by name gives.\<close>

lemma gensdbfs_flat:
  assumes flat: "flat_dir fopen name ents" and k: "k < 31"
    and room: "64 * Suc (length (regulars ents)) + 2 ^ k
      + sum_list (map (\<lambda>p. length (content_of fopen name p) + 2 ^ k) (regulars ents)) \<le> 2 ^ 31"
  obtains t where "gensdbfs_main e (2 ^ k) 0 fopen name (FDir m (Some ents)) True
      = Some (Some (foldl appended (concat (map (\<lambda>x. sf_record (sdbf_of x)) (take (Suc (length (regulars ents))) t)))
          (file_parts (files_of_dir t) (map (content_of fopen name) (regulars ents)))), 0)"
    and "wf_tree 0 t" and "n_records (t ! 0) = Suc (length (regulars ents))"
    and "list_all2 (\<lambda>p x. placed e x \<and> size_at x = length (content_of fopen name p)
           \<and> length (sf_record (sdbf_of x)) = 64
           \<and> chunk 44 19 (sf_record (sdbf_of x)) = padded (fst p)
           \<and> sf_record (sdbf_of x) ! 63 = sdb_type_device) (regulars ents) (files_of_dir t)"
    and "in_order (64 * Suc (length (regulars ents)))
           (file_parts (files_of_dir t) (map (content_of fopen name) (regulars ents)))"
    and "length (foldl appended (concat (map (\<lambda>x. sf_record (sdbf_of x)) (take (Suc (length (regulars ents))) t)))
          (file_parts (files_of_dir t) (map (content_of fopen name) (regulars ents)))) < 2 ^ 31"
proof -
  let ?ps = "regulars ents" let ?cs = "map (content_of fopen name) (regulars ents)"
  let ?n = "Suc (length (regulars ents))"
  let ?pos = "align (2 ^ k) (64 * ?n)"
  obtain t where alloc: "(do { p \<leftarrow> prepare_dir e (2 ^ k) fopen name None (Some ents);
        case p of None \<Rightarrow> None | Some t \<Rightarrow> alloc_storage e (2 ^ k) 0 t }) = Some t"
    and wf: "wf_tree 0 t" and c: "n_records (t ! 0) = ?n"
    and dot: "sf_base (sdbf_of (t ! 0)) = 0" "sf_ustart (sdbf_of (t ! 0)) = 0"
    and flats: "list_all2 (flat_file fopen) ?cs (files_of_dir t)"
    and "map (first_at e) (files_of_dir t) = layout (2 ^ k) ?pos (map length ?cs)"
    and starts: "map (\<lambda>x. unat (sf_rstart (sdbf_of x))) (files_of_dir t) = layout (2 ^ k) ?pos (map length ?cs)"
    and placed: "\<forall>x\<in>set (files_of_dir t). placed e x"
    and shape: "list_all2 (\<lambda>p x. size_at x = length (content_of fopen name p)
           \<and> chunk 44 19 (sf_record (sdbf_of x)) = padded (fst p)
           \<and> sf_record (sdbf_of x) ! 63 = sdb_type_device) ?ps (files_of_dir t)"
    by (rule flat_allocated [OF flat k room, where e = e]) blast
  have "file_parts (files_of_dir t) ?cs = zip (map (\<lambda>x. unat (sf_rstart (sdbf_of x))) (files_of_dir t)) ?cs"
    by (simp add: file_parts_def zip_map1 case_prod_beta')
  note zipped = this [unfolded starts]
  have parts: "in_order ?pos (file_parts (files_of_dir t) ?cs)"
    unfolding zipped using in_order_layout [of "2 ^ k" ?pos ?cs] by simp
  then have order: "in_order (64 * ?n) (file_parts (files_of_dir t) ?cs)"
    by (rule in_order_mono) (rule align_ge, simp)
  have b: "0 < unat (2 ^ k :: u32)" "unat (2 ^ k :: u32) < 2 ^ 31"
  proof -
    have less: "(2::nat) ^ k < 2 ^ 31" using k by (intro power_strict_increasing) simp_all
    have "unat (2 ^ k :: u32) = unat (of_nat (2 ^ k) :: u32)" by simp
    also have "\<dots> = 2 ^ k" unfolding unat_of_nat by (rule mod_less, rule less_trans [OF less]) simp
    finally show "0 < unat (2 ^ k :: u32)" "unat (2 ^ k :: u32) < 2 ^ 31" using less by simp_all
  qed
  obtain t' out where w: "write_sdb e (2 ^ k) fopen t \<lparr>o_bytes = [], o_pos = 0, lastwritten = 0\<rparr> = Some (t', out)"
    "o_bytes out = foldl appended (concat (map (\<lambda>x. sf_record (sdbf_of x)) (take ?n t)))
        (file_parts (files_of_dir t) ?cs)"
    using write_sdb_flat [OF b wf dot flats order [folded c], where e = e, unfolded c] by blast
  obtain t0 where t0: "prepare_dir e (2 ^ k) fopen name None (Some ents) = Some (Some t0)"
    "alloc_storage e (2 ^ k) 0 t0 = Some t"
    using alloc by (auto simp: bind_eq_Some_conv split: option.splits)
  have main: "gensdbfs_main e (2 ^ k) 0 fopen name (FDir m (Some ents)) True = Some (Some (o_bytes out), 0)"
    using t0 w(1) by (simp add: gensdbfs_main_def)
  have lens: "length (sf_record (sdbf_of x)) = 64" if "x \<in> set (files_of_dir t)" for x
  proof -
    have "wf_node 0 x" using wf that by (cases t) (auto simp: wf_tree.simps files_of_dir_def)
    then show ?thesis by (cases x) (simp add: wf_node.simps)
  qed
  have "list_all2 (\<lambda>p x. placed e x \<and> size_at x = length (content_of fopen name p)
           \<and> length (sf_record (sdbf_of x)) = 64
           \<and> chunk 44 19 (sf_record (sdbf_of x)) = padded (fst p)
           \<and> sf_record (sdbf_of x) ! 63 = sdb_type_device) ?ps (files_of_dir t)"
    using shape by (rule list.rel_mono_strong) (use lens placed in auto)
  note entries = this
  let ?N = "?pos + sum_list (map (\<lambda>c. length c + 2 ^ k) ?cs)"
  have "\<forall>(q, d)\<in>set (file_parts (files_of_dir t) ?cs). q + length d \<le> ?N"
  proof clarify
    fix q d assume "(q, d) \<in> set (file_parts (files_of_dir t) ?cs)"
    then obtain i where "i < length ?cs" "q = layout (2 ^ k) ?pos (map length ?cs) ! i" "d = ?cs ! i"
      unfolding zipped by (auto simp: set_zip)
    then show "q + length d \<le> ?N"
      using layout_less [of "2 ^ k" i "map length ?cs" ?pos] by (simp add: comp_def)
  qed
  moreover have "64 * ?n \<le> ?pos" by (rule align_ge) simp
  moreover have "?pos < 64 * ?n + 2 ^ k" by (rule align_less) simp
  then have "?N < 2 ^ 31" using room by (simp add: comp_def)
  ultimately have "length (foldl appended (concat (map (\<lambda>x. sf_record (sdbf_of x)) (take ?n t)))
      (file_parts (files_of_dir t) ?cs)) < 2 ^ 31"
    using appended_length [OF parts, of "concat (map (\<lambda>x. sf_record (sdbf_of x)) (take ?n t))" ?N]
      length_records [OF wf] c by auto
  from that [OF main [unfolded w(2)] wf c entries order this] show thesis .
qed

text \<open>Where the image has the content of an entry, as its record tells a host of either byte order.\<close>

definition record_holds :: "endian \<Rightarrow> bytes \<Rightarrow> bytes \<times> bytes \<Rightarrow> bytes \<Rightarrow> bool" where
  "record_holds e img f r \<longleftrightarrow>
     (let off = unat (first_of e r); n = unat (file_len e r)
      in length r = 64 \<and> chunk 44 19 r = padded (fst f) \<and> off + n \<le> length img \<and> n < 2 ^ 30
         \<and> chunk off n img = snd f)"

text \<open>An image of a directory: a table of its own record and one record for each file.\<close>

definition dir_image :: "bytes \<Rightarrow> (bytes \<times> bytes) list \<Rightarrow> bool" where
  "dir_image img files \<longleftrightarrow> length img < 2 ^ 31 \<and> chunk 0 4 img = word_be 4 SDB_MAGIC
     \<and> (\<exists>dot recs. length dot = 64 \<and> chunk 44 19 dot = padded [0x2e] \<and> flat_table img dot recs
       \<and> (\<forall>e. list_all2 (record_holds e img) files recs))"

lemma dir_image_table:
  assumes "dir_image img files"
  obtains dot recs where "length dot = 64" and "chunk 44 19 dot = padded [0x2e]" and "flat_table img dot recs"
    and "listing e (img_entry img) 0 = Some ((dot, first_of e dot, 0) # map (\<lambda>r. (r, first_of e r, 0)) recs)"
    and "list_all2 (record_holds e img) files recs"
  using assms table_listing unfolding dir_image_def by blast

definition dir_files :: "(bytes \<Rightarrow> bytes option) \<Rightarrow> bytes \<Rightarrow> (bytes \<times> fnode) list \<Rightarrow> (bytes \<times> bytes) list" where
  "dir_files fopen name ents = map (\<lambda>p. (fst p, content_of fopen name p)) (regulars ents)"

lemma flat_image_head:
  assumes wf: "wf_tree 0 t" and c: "n_records (t ! 0) = Suc n"
    and img: "img = foldl appended (concat (map (\<lambda>x. sf_record (sdbf_of x)) (take (Suc n) t))) parts"
  shows "chunk 0 4 img = word_be 4 SDB_MAGIC"
proof -
  obtain dot rest where t: "t = dot # rest" using wf by (cases t) (auto simp: wf_tree.simps)
  let ?tab = "concat (map (\<lambda>x. sf_record (sdbf_of x)) (take (Suc n) t))"
  have dot: "length (sf_record (sdbf_of dot)) = 64" "chunk 0 4 (sf_record (sdbf_of dot)) = word_be 4 SDB_MAGIC"
    using wf by (simp_all add: t wf_tree.simps dot_ok_def)
  have tab: "length ?tab = 64 * Suc n" using length_records [OF wf] by (simp add: c)
  have "chunk 0 4 img = chunk 0 4 ?tab" unfolding img by (rule appended_keeps) (simp add: tab)
  also have "\<dots> = chunk 0 4 (sf_record (sdbf_of dot))" using dot(1) by (simp add: t chunk_def)
  finally show ?thesis using dot(2) by simp
qed

text \<open>gensdbfs makes an image of the directory.\<close>

lemma gensdbfs_dir_image:
  assumes flat: "flat_dir fopen name ents" and k: "k < 31"
    and room: "64 * Suc (length (regulars ents)) + 2 ^ k
      + sum_list (map (\<lambda>p. length (content_of fopen name p) + 2 ^ k) (regulars ents)) \<le> 2 ^ 31"
    and full: "\<forall>p\<in>set (regulars ents). content_of fopen name p \<noteq> []"
  shows "\<exists>img. gensdbfs_main e (2 ^ k) 0 fopen name (FDir m (Some ents)) True = Some (Some img, 0)
    \<and> dir_image img (dir_files fopen name ents)"
proof (rule gensdbfs_flat [OF flat k room, where e = e and m = m], goal_cases)
  case (1 t)
  let ?ps = "regulars ents" let ?ct = "content_of fopen name" let ?n = "length ?ps"
  let ?rec = "\<lambda>x. sf_record (sdbf_of x)" let ?parts = "file_parts (files_of_dir t) (map ?ct ?ps)"
  let ?tab = "concat (map ?rec (take (Suc ?n) t))" let ?img = "foldl appended ?tab ?parts"
  have dev: "\<forall>x\<in>set (files_of_dir t). ?rec x ! 63 = sdb_type_device"
    using 1(4) by (auto simp: list_all2_conv_all_nth in_set_conv_nth)
  have "dot_ok 0 (t ! 0)" using 1(2) by (cases t) (auto simp: wf_tree.simps)
  then have dot: "length (?rec (t ! 0)) = 64" "chunk 44 19 (?rec (t ! 0)) = padded [0x2e]"
    by (simp_all add: dot_ok_def)
  have tab: "length ?tab = 64 * Suc ?n" using length_records [OF 1(2)] 1(3) by simp
  have len: "length ?ps = length (files_of_dir t)" using 1(4) by (rule list_all2_lengthD)
  have "record_holds eh ?img (fst (?ps ! i), ?ct (?ps ! i)) (?rec (files_of_dir t ! i))" if i: "i < ?n" for eh i
  proof -
    let ?p = "?ps ! i" let ?x = "files_of_dir t ! i"
    have x: "placed e ?x" "size_at ?x = length (?ct ?p)" "length (?rec ?x) = 64" "chunk 44 19 (?rec ?x) = padded (fst ?p)"
      using list_all2_nthD [OF 1(4) i] by auto
    have "?parts ! i = (unat (sf_rstart (sdbf_of ?x)), ?ct ?p)" and "i < length ?parts"
      using i len by (simp_all add: file_parts_def)
    then have "(unat (sf_rstart (sdbf_of ?x)), ?ct ?p) \<in> set ?parts" by (metis nth_mem)
    moreover have "length (?ct ?p) < 2 ^ 30"
      using flat i by (intro plain_content_short [where name = name]) (simp add: flat_dir_def)
    moreover have "unat (file_len eh (?rec ?x)) = length (?ct ?p)" "unat (first_of eh (?rec ?x)) = unat (sf_rstart (sdbf_of ?x))"
      using x placed_extent [of e ?x eh] by (auto simp: size_at_def)
    moreover have "?ct ?p \<noteq> []" using full i by simp
    moreover note appended_content [of ?tab ?parts "unat (sf_rstart (sdbf_of ?x))" "?ct ?p"]
    ultimately show ?thesis using x 1(5) by (simp add: tab record_holds_def Let_def)
  qed
  then have "list_all2 (record_holds eh ?img) (dir_files fopen name ents) (map ?rec (files_of_dir t))" for eh
    using len by (simp add: list_all2_conv_all_nth dir_files_def)
  moreover note flat_image_table [OF 1(2,3) dev refl, of ?parts] flat_image_head [OF 1(2,3) refl, of ?parts]
  ultimately have "dir_image ?img (dir_files fopen name ents)"
    unfolding dir_image_def using dot 1(6) by blast
  then show ?case using 1(1) by blast
qed

text \<open>What a look-up by name finds in the image.\<close>

lemma dir_image_find:
  assumes "list_all2 (record_holds e img) files recs" and "\<forall>f\<in>set files. plain_name (fst f)" and "plain_name nm"
  shows "rel_option (\<lambda>f r. record_holds e img f r \<and> f \<in> set files \<and> r \<in> set recs)
    (find (\<lambda>f. fst f = nm) files) (find (name_matches e nm) recs)"
proof (rule find_corresponding [OF assms(1)])
  fix f r assume "f \<in> set files" "record_holds e img f r"
  then show "fst f = nm \<longleftrightarrow> name_matches e nm r"
    using name_matches_padded [OF assms(3), of "fst f" r e] assms(2) by (auto simp: record_holds_def Let_def)
qed

end
