(* ===== verification/SdbExtract.thy ===== *)
theory SdbExtract
  imports GenTree LibsdbfsGlue
begin

text \<open>
  The tool sdb-extract (src/sdbfs/userspace/sdb-extract.c): for each record of an image, a
  section of a configuration file and a file with the record's bytes. What the tool writes is the
  text appended to the configuration file and the created files with their contents and modes.
  The lemmas show that gensdbfs reads such a section back.
\<close>

subsection \<open>One record\<close>

text \<open>The name without the spaces at its end; the code reads before its buffer when nothing else is
  in it.\<close>

definition extract_name :: "bytes \<Rightarrow> bytes option" where
  "extract_name pname =
     (let s = rev (dropWhile (\<lambda>c. c = 0x20) (rev (cut (take 19 pname))))
      in if s = [] then None else Some s)"

definition tab_line :: "string \<Rightarrow> bytes \<Rightarrow> bytes" where
  "tab_line key arg = [9] @ str key @ str '' = '' @ arg @ [10]"

definition cfg_section :: "bytes \<Rightarrow> u64 \<Rightarrow> u32 \<Rightarrow> u64 \<Rightarrow> bool \<Rightarrow> bytes" where
  "cfg_section name vendor dev pos wr =
     name @ [10] @ tab_line ''vendor'' (print_0x 16 (unat vendor))
     @ tab_line ''device'' (print_0x 8 (unat dev)) @ tab_line ''position'' (print_0x 0 (unat pos))
     @ (if wr then tab_line ''write'' [0x31] else []) @ [10]"

record extracted =
  x_cfg :: bytes                        \<comment> \<open>appended to the configuration file\<close>
  x_file :: "(bytes \<times> bytes \<times> u32) option"  \<comment> \<open>name, content and mode of the created file\<close>
  x_ret :: int

definition create_file ::
    "host \<Rightarrow> 'd sdbfs \<Rightarrow> (bytes \<Rightarrow> bool) \<Rightarrow> bytes \<Rightarrow> extracted option" where
  \<comment> \<open>\<open>can_open\<close>: the file can be created\<close>
  "create_file h fs can_open r =
     (let e = h_endian h; d = load_device e r; c = d_component d; p = c_product c;
          flags = ntohl e (d_bus_specific d);
          first = ntohll e (c_addr_first c); lst = ntohll e (c_addr_last c)
      in do {
        name \<leftarrow> extract_name (p_name p);
        let wr = (flags AND SDB_DATA_WRITE \<noteq> 0);
        let cfg = cfg_section name (ntohll e (p_vendor_id p)) (ntohl e (p_device_id p)) first wr;
        let mode = 0x124 OR (if wr then 0x92 else 0) OR (if flags AND SDB_DATA_EXEC \<noteq> 0 then 0x49 else 0);
        if name = [0x2e] then Some \<lparr>x_cfg = cfg, x_file = None, x_ret = 0\<rparr>
        else if \<not> can_open name then Some \<lparr>x_cfg = cfg, x_file = None, x_ret = - 1\<rparr>
        else do {
          bs \<leftarrow> load_bytes (h_mem h) (fs_data fs + first) (unat (lst + 1 - first));
          Some \<lparr>x_cfg = cfg, x_file = Some (name, bs, mode), x_ret = 0\<rparr> } })"

subsection \<open>All records\<close>

text \<open>The loop of \<open>main\<close>; \<open>newdir\<close> is the variable \<open>new\<close>, which the first call reads before
  anything was assigned to it.\<close>

partial_function (option) extract_loop ::
    "host \<Rightarrow> (bytes \<Rightarrow> bool) \<Rightarrow> 'd sdbfs \<Rightarrow> bool \<Rightarrow> extracted list \<Rightarrow> ('d sdbfs \<times> extracted list) option" where
  "extract_loop h can_open fs newdir acc =
     Option.bind (sdbfs_scan h fs newdir) (\<lambda>(fs1, d).
       if is_null d then Some (fs1, acc)
       else Option.bind (deref h fs1 d) (\<lambda>r.
         Option.bind (create_file h fs1 can_open r) (\<lambda>x.
           extract_loop h can_open fs1 False (acc @ [x]))))"

text \<open>The tool on an image it has mapped at \<open>fs_data\<close>: the structure lives at address \<open>a\<close>, and
  \<open>dir_ok\<close> tells whether the output directory could be made and entered and, unless forced, is empty.
  The result is the exit code and what was extracted.\<close>

definition extract_main ::
    "host \<Rightarrow> (bytes \<Rightarrow> bool) \<Rightarrow> bool \<Rightarrow> bool \<Rightarrow> 'd lib \<Rightarrow> u64 \<Rightarrow> ('d lib \<times> extracted list \<times> int) option" where
  "extract_main h can_open dir_ok newdir L a = do {
     (L, err) \<leftarrow> sdbfs_dev_create h L a;
     if err \<noteq> 0 then Some (L, [], 1)
     else if \<not> dir_ok then Some (L, [], 1)
     else do {
       fs \<leftarrow> lib_heap L a;
       (fs, xs) \<leftarrow> extract_loop h can_open fs newdir [];
       (L, ret) \<leftarrow> sdbfs_dev_destroy (put_fs L a fs) a;
       Some (L, xs, 0) } }"

text \<open>The configuration file, if it could be created: a comment line, and the sections.\<close>

definition config_file :: "bytes \<Rightarrow> bytes \<Rightarrow> extracted list \<Rightarrow> bytes" where
  "config_file prgname fsname xs =
     str ''# Configuration file generated by '' @ prgname @ str '', reading '' @ fsname @ [10, 10]
     @ concat (map x_cfg xs)"

subsection \<open>gensdbfs reads a section back\<close>

lemma str_not_nl: "10 \<notin> set (str s) \<longleftrightarrow> (\<forall>c\<in>set s. of_char c \<noteq> (10 :: u8))"
  by (auto simp: str_def)

lemma scan_config_line:
  assumes "10 \<notin> set l" and "length l < 255"
  shows "scan_config e tree cur (l @ 10 # rest) =
    do { (tree, cur) \<leftarrow> config_line e tree cur (l @ [10]); scan_config e tree cur rest }"
  using fgets_line [OF assms, of rest] by (subst scan_config.simps) simp

text \<open>A line whose characters are all kept by the trimming.\<close>

definition clean :: "bytes \<Rightarrow> bool" where
  "clean l \<longleftrightarrow> l \<noteq> [] \<and> 0 \<notin> set l \<and> 10 \<notin> set l \<and> \<not> isspace (last l)"

lemma trim_clean:
  assumes "clean l"
  shows "trim_end (cut (l @ [10])) = l"
proof -
  have "cut (l @ [10]) = l @ [10]"
    using assms by (auto simp: cut_def clean_def takeWhile_eq_all_conv)
  moreover obtain k c where "l = k @ [c]" "\<not> isspace c"
    using assms by (cases l rule: rev_cases) (auto simp: clean_def)
  ultimately show ?thesis by (simp add: trim_end_def isspace_def)
qed

lemma config_line_name:
  assumes "clean l" and "\<not> isblank (hd l)" and "hd l \<noteq> 0x23"
  shows "config_line e tree cur (l @ [10]) = do { cur \<leftarrow> find_filename e tree l; Some (tree, cur) }"
proof -
  have l: "dropWhile isblank l = l" using assms(1,2) by (cases l) (auto simp: clean_def)
  show ?thesis
    unfolding config_line_def Let_def trim_clean [OF assms(1)] l
    using assms by (simp add: clean_def)
qed

lemma config_line_directive:
  assumes "clean l" and "\<not> isblank (hd l)" and "hd l \<noteq> 0x23" and "tree \<noteq> []" and "i < length tree"
  shows "config_line e tree (Some i) ((9 # l) @ [10]) =
    do { (x, ret) \<leftarrow> parse_config_line e (sf_level (sdbf_of (tree ! 0))) (tree ! i) l;
         Some (tree[i := x], Some i) }"
proof -
  have c: "clean (9 # l)" using assms(1) by (simp add: clean_def)
  have l: "dropWhile isblank (9 # l) = l"
    using assms(1,2) by (cases l) (auto simp: clean_def isblank_def)
  show ?thesis
    unfolding config_line_def Let_def trim_clean [OF c] l
    using assms by (simp add: clean_def)
qed

subsection \<open>The directives of a section\<close>

lemma strs:
  "str ''vendor'' = [0x76, 0x65, 0x6e, 0x64, 0x6f, 0x72]" "str ''device'' = [0x64, 0x65, 0x76, 0x69, 0x63, 0x65]"
  "str ''position'' = [0x70, 0x6f, 0x73, 0x69, 0x74, 0x69, 0x6f, 0x6e]"
  "str ''write'' = [0x77, 0x72, 0x69, 0x74, 0x65]" "str ''maxsize'' = [0x6d, 0x61, 0x78, 0x73, 0x69, 0x7a, 0x65]"
  "str '' = '' = [0x20, 0x3d, 0x20]"
  by code_simp+

lemma directive_arg:
  assumes "\<not> isspace (hd arg)" and "arg \<noteq> []"
  shows "directive (str key) (str key @ str '' = '' @ arg) = Some arg"
proof -
  have "dropWhile isspace arg = arg" using assms by (cases arg) auto
  then show ?thesis by (simp add: directive_def strs isspace_def)
qed

lemma print_0x_ne: "print_0x w n \<noteq> []" "hd (print_0x w n) = 0x30"
  by (simp_all add: print_0x_def)

lemma scan_0x:
  "conv_with 0 as_long (print_0x w (unat v)) = (if unat v < 2 ^ 63 then Some (Some v) else None)"
  "dec_or_hex (print_0x w (unat v)) = Some (Some v)"
proof -
  have "uint v < 2 ^ 64" using unsigned_less [of v, where 'a = int] by simp
  then show "dec_or_hex (print_0x w (unat v)) = Some (Some v)"
    by (simp add: dec_or_hex_def scan_print_dec scan_print_hex as_unsigned_def)
  have "int (unat v) < 2 ^ 63 \<longleftrightarrow> unat v < 2 ^ 63"
    by (metis of_nat_less_iff of_nat_numeral of_nat_power)
  moreover have "- (2 ^ 63) \<le> int (unat v)" by (rule order_trans [of _ 0]) simp_all
  ultimately show "conv_with 0 as_long (print_0x w (unat v)) = (if unat v < 2 ^ 63 then Some (Some v) else None)"
    by (simp add: conv_with_def scan_print_hex as_long_def)
qed

lemma number_same:
  "arg \<noteq> [] \<Longrightarrow> \<not> isspace (hd arg) \<Longrightarrow>
   number (str key) (str key @ str '' = '' @ arg) conv = conv arg"
  by (simp add: number_def directive_arg)

lemma number_other:
  "number (str ''vendor'') (str ''device'' @ t) conv = Some None"
  "number (str ''vendor'') (str ''position'' @ t) conv = Some None"
  "number (str ''vendor'') (str ''write'' @ t) conv = Some None"
  "number (str ''device'') (str ''position'' @ t) conv = Some None"
  "number (str ''device'') (str ''write'' @ t) conv = Some None"
  "number (str ''write'') (str ''position'' @ t) conv = Some None"
  "number (str ''maxsize'') (str ''position'' @ t) conv = Some None"
  by (simp_all add: number_def directive_def strs)

lemma parse_directives:
  "parse_config_line e lev x (str ''vendor'' @ str '' = '' @ print_0x w (unat v))
     = Some (upd_record (set_vendor_id e (htonll e v)) x, 0)"
  "parse_config_line e lev x (str ''device'' @ str '' = '' @ print_0x w (unat (d :: u32)))
     = Some (upd_record (set_device_id e (htonl e d)) x, 0)"
  "unat v < 2 ^ 63 \<Longrightarrow> parse_config_line e lev x (str ''position'' @ str '' = '' @ print_0x w (unat v))
     = Some (cfg_position lev v x, 0)"
  "parse_config_line e lev x (str ''write'' @ str '' = '' @ [0x31]) = Some (cfg_write e 1 x, 0)"
proof -
  have "ucast (ucast d :: u64) = d" by (rule bit_word_eqI) (auto simp: bit_simps)
  moreover have "unat d = unat (ucast d :: u64)" by simp
  ultimately have dev: "dec_or_hex (print_0x w (unat d)) = Some (Some (ucast d))"
    using scan_0x(2) [of w "ucast d"] by simp
  have one: "conv_with 0 as_int [0x31] = Some (Some 1)" by code_simp
  have sp: "\<not> isspace 0x30" "\<not> isspace 0x31" by (simp_all add: isspace_def)
  have cast: "ucast (ucast d :: u64) = d" by (rule bit_word_eqI) (auto simp: bit_simps)
  show "parse_config_line e lev x (str ''vendor'' @ str '' = '' @ print_0x w (unat v))
      = Some (upd_record (set_vendor_id e (htonll e v)) x, 0)"
    by (simp add: parse_config_line_def number_same print_0x_ne sp scan_0x)
  show "parse_config_line e lev x (str ''device'' @ str '' = '' @ print_0x w (unat d))
      = Some (upd_record (set_device_id e (htonl e d)) x, 0)"
    by (simp add: parse_config_line_def number_same number_other print_0x_ne sp dev cast)
  show "unat v < 2 ^ 63 \<Longrightarrow> parse_config_line e lev x (str ''position'' @ str '' = '' @ print_0x w (unat v))
      = Some (cfg_position lev v x, 0)"
    by (simp add: parse_config_line_def number_same number_other print_0x_ne sp scan_0x)
  show "parse_config_line e lev x (str ''write'' @ str '' = '' @ [0x31]) = Some (cfg_write e 1 x, 0)"
    by (simp add: parse_config_line_def number_same number_other sp one)
qed

text \<open>The node a section is about, after it was read.\<close>

definition configured :: "endian \<Rightarrow> nat \<Rightarrow> u64 \<Rightarrow> u32 \<Rightarrow> u64 \<Rightarrow> bool \<Rightarrow> snode \<Rightarrow> snode" where
  "configured e lev vendor dev pos wr x =
     (let x = upd_record (set_vendor_id e (htonll e vendor)) x;
          x = upd_record (set_device_id e (htonl e dev)) x;
          x = cfg_position lev pos x
      in if wr then cfg_write e 1 x else x)"

definition section_name :: "bytes \<Rightarrow> bool" where
  "section_name name \<longleftrightarrow> clean name \<and> \<not> isblank (hd name) \<and> hd name \<noteq> 0x23 \<and> length name < 255"

lemma level_kept:
  "sf_level (sdbf_of (upd_record g x)) = sf_level (sdbf_of x)"
  "sf_level (sdbf_of (cfg_position lev v x)) = sf_level (sdbf_of x)"
  "sf_level (sdbf_of (cfg_write e i x)) = sf_level (sdbf_of x)"
  by (simp_all add: upd_record_def upd_node_def cfg_position_def cfg_write_def)

lemma hex_digits_length: "n < 16 ^ k \<Longrightarrow> length (hex_digits n) \<le> max 1 k"
proof (induction k arbitrary: n)
  case 0
  then show ?case by (simp add: hex_digits.simps)
next
  case (Suc k)
  show ?case
  proof (cases "n < 16")
    case True
    then show ?thesis by (simp add: hex_digits.simps)
  next
    case False
    then have "n div 16 < 16 ^ k" using Suc.prems by (simp add: less_mult_imp_div_less mult.commute)
    moreover have "0 < k" using False calculation by (cases k) auto
    ultimately show ?thesis using Suc.IH [of "n div 16"] False
      by (subst hex_digits.simps) simp
  qed
qed

lemma print_0x_length: "n < 2 ^ 64 \<Longrightarrow> w \<le> 16 \<Longrightarrow> length (print_0x w n) \<le> 18"
  using hex_digits_length [of n 16] by (auto simp: print_0x_def print_hex_def Let_def)

lemma clean_print:
  assumes "key \<noteq> []" and "\<forall>c\<in>set key. c \<noteq> 0 \<and> c \<noteq> 10"
  shows "clean (key @ print_0x w n)"
proof -
  have "last (print_0x w n) \<in> set (print_0x w n)" using print_0x_ne(1) by (rule last_in_set)
  from hex_digits_not_space [OF this] have "\<not> isspace (last (key @ print_0x w n))"
    by (simp add: print_0x_ne(1))
  then show ?thesis using assms hex_digits_not_space [of _ w n]
    by (auto simp: clean_def isspace_def print_0x_ne)
qed

text \<open>One directive line of the section of entry \<open>i\<close>.\<close>

lemma scan_directive:
  assumes "clean l" and "\<not> isblank (hd l)" and "hd l \<noteq> 0x23" and "length l < 254" and "i < length tree"
    and "parse_config_line e (sf_level (sdbf_of (tree ! 0))) (tree ! i) l = Some (y, ret)"
  shows "scan_config e tree (Some i) ([9] @ l @ [10] @ rest) = scan_config e (tree[i := y]) (Some i) rest"
proof -
  have "tree \<noteq> []" using assms(5) by auto
  have "10 \<notin> set (9 # l)" "length (9 # l) < 255" using assms(1,4) by (auto simp: clean_def)
  from scan_config_line [OF this, of e tree "Some i" rest]
    config_line_directive [OF assms(1-3) \<open>tree \<noteq> []\<close> assms(5), of e] assms(6)
  show ?thesis by simp
qed

lemma scan_section:
  assumes name: "section_name name" and found: "find_filename e tree name = Some (Some i)"
    and i: "i < length tree" and lev: "sf_level (sdbf_of (tree ! 0)) = lev" and pos: "unat pos < 2 ^ 63"
  shows "scan_config e tree cur (cfg_section name vendor dev pos wr @ rest)
    = scan_config e (tree[i := configured e lev vendor dev pos wr (tree ! i)]) (Some i) rest"
proof -
  let ?v = "str ''vendor'' @ str '' = '' @ print_0x 16 (unat vendor)"
  let ?d = "str ''device'' @ str '' = '' @ print_0x 8 (unat dev)"
  let ?p = "str ''position'' @ str '' = '' @ print_0x 0 (unat pos)"
  let ?w = "str ''write'' @ str '' = '' @ [0x31]"
  let ?x1 = "upd_record (set_vendor_id e (htonll e vendor)) (tree ! i)"
  let ?x2 = "upd_record (set_device_id e (htonl e dev)) ?x1"
  let ?x3 = "cfg_position lev pos ?x2"
  have lens: "unat vendor < 2 ^ 64" "unat dev < 2 ^ 64" "unat pos < 2 ^ 64"
    using unsigned_less [of vendor, where 'a = nat] unsigned_less [of dev, where 'a = nat] pos by auto
  have clean: "clean ?v" "clean ?d" "clean ?p" "clean ?w"
    using clean_print [of "str ''vendor'' @ str '' = ''" 16 "unat vendor"]
      clean_print [of "str ''device'' @ str '' = ''" 8 "unat dev"]
      clean_print [of "str ''position'' @ str '' = ''" 0 "unat pos"]
    by (simp_all add: strs clean_def isspace_def)
  have hds: "\<not> isblank (hd ?v) \<and> hd ?v \<noteq> 0x23" "\<not> isblank (hd ?d) \<and> hd ?d \<noteq> 0x23"
    "\<not> isblank (hd ?p) \<and> hd ?p \<noteq> 0x23" "\<not> isblank (hd ?w) \<and> hd ?w \<noteq> 0x23"
    by (simp_all add: strs isblank_def)
  have short: "length ?v < 254" "length ?d < 254" "length ?p < 254" "length ?w < 254"
    using print_0x_length [OF lens(1), of 16] print_0x_length [OF lens(2), of 8]
      print_0x_length [OF lens(3), of 0] by (simp_all add: strs)
  let ?w1 = "if wr then tab_line ''write'' [0x31] else []"
  have keep: "sf_level (sdbf_of (tree[i := y] ! 0)) = lev" if "sf_level (sdbf_of y) = sf_level (sdbf_of (tree ! i))" for y
    using that lev i by (cases "i = 0") auto
  have "scan_config e tree cur (cfg_section name vendor dev pos wr @ rest)
      = scan_config e tree cur (name @ 10 # [9] @ ?v @ [10] @ [9] @ ?d @ [10] @ [9] @ ?p @ [10] @ ?w1 @ [10] @ rest)"
    by (simp add: cfg_section_def tab_line_def)
  also have "\<dots> = scan_config e tree (Some i) ([9] @ ?v @ [10] @ [9] @ ?d @ [10] @ [9] @ ?p @ [10] @ ?w1 @ [10] @ rest)"
    using name found config_line_name [of name e tree cur] scan_config_line [of name]
    by (simp add: section_name_def clean_def)
  also have "\<dots> = scan_config e (tree[i := ?x1]) (Some i) ([9] @ ?d @ [10] @ [9] @ ?p @ [10] @ ?w1 @ [10] @ rest)"
    by (rule scan_directive [OF clean(1) hds(1) [THEN conjunct1] hds(1) [THEN conjunct2] short(1) i])
      (rule parse_directives)
  also have "\<dots> = scan_config e (tree[i := ?x1, i := ?x2]) (Some i) ([9] @ ?p @ [10] @ ?w1 @ [10] @ rest)"
    by (rule scan_directive [OF clean(2) hds(2) [THEN conjunct1] hds(2) [THEN conjunct2] short(2)])
      (use i parse_directives(2) in simp_all)
  also have "\<dots> = scan_config e (tree[i := ?x1, i := ?x2, i := ?x3]) (Some i) (?w1 @ [10] @ rest)"
    by (rule scan_directive [OF clean(3) hds(3) [THEN conjunct1] hds(3) [THEN conjunct2] short(3)])
      (use i parse_directives(3) [OF pos] keep [of ?x2] in \<open>simp_all add: level_kept\<close>)
  also have "\<dots> = scan_config e (tree[i := configured e lev vendor dev pos wr (tree ! i)]) (Some i) ([10] @ rest)"
  proof (cases wr)
    case True
    have "scan_config e (tree[i := ?x3]) (Some i) ([9] @ ?w @ [10] @ [10] @ rest)
        = scan_config e (tree[i := ?x3, i := cfg_write e 1 ?x3]) (Some i) ([10] @ rest)"
      by (rule scan_directive [OF clean(4) hds(4) [THEN conjunct1] hds(4) [THEN conjunct2] short(4)])
        (use i parse_directives(4) in simp_all)
    then show ?thesis using True by (simp add: tab_line_def configured_def Let_def)
  qed (simp add: configured_def Let_def)
  also have "\<dots> = scan_config e (tree[i := configured e lev vendor dev pos wr (tree ! i)]) (Some i) rest"
    using scan_config_line [of "[]"] by (simp add: config_line_def trim_end_def cut_def isspace_def)
  finally show ?thesis .
qed

text \<open>What \<open>create_file\<close> writes about a record, in terms of the bytes on the medium.\<close>

lemma create_file_cfg:
  assumes "create_file h fs can_open r = Some x" and "length r = 64"
  shows "\<exists>name. extract_name (chunk 44 19 r) = Some name \<and>
    x_cfg x = cfg_section name (be_word (chunk 24 8 r)) (be_word (chunk 32 4 r)) (be_word (chunk 8 8 r))
      ((be_word (chunk 4 4 r) :: u32) AND SDB_DATA_WRITE \<noteq> 0)"
  using assms
  by (auto simp: create_file_def Let_def bind_eq_Some_conv load_defs ntohll_def ntohl_def htonll_bytes htonl_bytes
      split: if_splits)

lemma record_upd: "sf_record (sdbf_of (upd_record g x)) = g (sf_record (sdbf_of x))"
  by (simp add: upd_record_def upd_node_def)

lemma configured_record:
  assumes "length (sf_record (sdbf_of x)) = 64"
  shows "chunk 24 8 (sf_record (sdbf_of (configured e lev vendor dev pos wr x))) = word_be 8 vendor"
    and "chunk 32 4 (sf_record (sdbf_of (configured e lev vendor dev pos wr x))) = word_be 4 dev"
    and "lev = 0 \<Longrightarrow> sf_userpos (sdbf_of (configured e lev vendor dev pos wr x))
      \<and> sf_ustart (sdbf_of (configured e lev vendor dev pos wr x)) = pos"
    and "wr \<Longrightarrow> (be_word (chunk 4 4 (sf_record (sdbf_of (configured e lev vendor dev pos wr x)))) :: u32)
      AND SDB_DATA_WRITE \<noteq> 0"
proof -
  let ?r = "put 32 (word_be 4 dev) (put 24 (word_be 8 vendor) (sf_record (sdbf_of x)))"
  let ?w = "(be_word (chunk 4 4 ?r) :: u32) OR SDB_DATA_WRITE"
  let ?y = "configured e lev vendor dev pos wr x"
  let ?x2 = "upd_record (set_device_id e (htonl e dev)) (upd_record (set_vendor_id e (htonll e vendor)) x)"
  have r: "length ?r = 64" using assms by (simp add: buf_simps)
  have x2: "sf_record (sdbf_of (cfg_position lev pos ?x2)) = ?r"
    by (simp add: upd_record_def upd_node_def cfg_position_def set_be)
  have y: "sf_record (sdbf_of ?y) = (if wr then put 4 (word_be 4 ?w) ?r else ?r)"
    using cfg_write_be [of "cfg_position lev pos ?x2" e 1] r x2
    by (simp add: configured_def Let_def record_upd)
  show "chunk 24 8 (sf_record (sdbf_of ?y)) = word_be 8 vendor"
    using assms chunk_put_same [of 24 "word_be 8 vendor" "sf_record (sdbf_of x)"] unfolding y by (simp add: buf_simps)
  show "chunk 32 4 (sf_record (sdbf_of ?y)) = word_be 4 dev"
    using assms chunk_put_same [of 32 "word_be 4 dev" "put 24 (word_be 8 vendor) (sf_record (sdbf_of x))"]
    unfolding y by (simp add: buf_simps)
  show "sf_userpos (sdbf_of ?y) \<and> sf_ustart (sdbf_of ?y) = pos" if "lev = 0"
    using that by (simp add: configured_def Let_def cfg_position_def cfg_write_def upd_record_def upd_node_def)
  show "(be_word (chunk 4 4 (sf_record (sdbf_of ?y))) :: u32) AND SDB_DATA_WRITE \<noteq> 0" if wr
  proof -
    have "be_word (chunk 4 4 (sf_record (sdbf_of ?y))) = ?w"
      using r chunk_put_same [of 4 "word_be 4 ?w" ?r] that unfolding y by simp
    moreover have "bit (?w AND SDB_DATA_WRITE) 1" by (simp add: bit_simps SDB_DATA_WRITE_def)
    ultimately show ?thesis by auto
  qed
qed

lemma same_shape_trans: "same_shape x y \<Longrightarrow> same_shape y z \<Longrightarrow> same_shape x z"
  by (simp add: same_shape_def)

lemma configured_shape:
  assumes "length (sf_record (sdbf_of x)) = 64"
  shows "same_shape x (configured e lev vendor dev pos wr x)"
proof -
  let ?x1 = "upd_record (set_vendor_id e (htonll e vendor)) x"
  let ?x2 = "upd_record (set_device_id e (htonl e dev)) ?x1"
  let ?x3 = "cfg_position lev pos ?x2"
  have s1: "same_shape x ?x1" by (rule shape_fields [OF assms])
  then have "length (sf_record (sdbf_of ?x1)) = 64" by (simp add: same_shape_def)
  from shape_fields(2) [OF this] have s2: "same_shape ?x1 ?x2" .
  then have "length (sf_record (sdbf_of ?x2)) = 64" by (simp add: same_shape_def)
  from shape_node(3) [OF this] have s3: "same_shape ?x2 ?x3" .
  then have l3: "length (sf_record (sdbf_of ?x3)) = 64" by (simp add: same_shape_def)
  have s13: "same_shape x ?x3" using s1 s2 s3 same_shape_trans by blast
  show ?thesis
    using s13 same_shape_trans [OF s13 shape_cfg_write [OF l3]] by (simp add: configured_def Let_def)
qed

end
