(* ===== verification/ExtractFlat.thy ===== *)
theory ExtractFlat
  imports GenFlat SdbExtract LibsdbfsRegistry
begin

text \<open>
  sdb-extract on a whole image: it makes one file for each record of the library's scan. On an
  image gensdbfs made of a directory of regular files, these are the files of that directory.
\<close>

subsection \<open>One record\<close>

lemma device_fields:
  assumes "length r = 64"
  shows "p_name (c_product (d_component (load_device e r))) = chunk 44 19 r"
    and "ntohll e (p_vendor_id (c_product (d_component (load_device e r)))) = be_word (chunk 24 8 r)"
    and "ntohl e (p_device_id (c_product (d_component (load_device e r)))) = be_word (chunk 32 4 r)"
    and "ntohll e (c_addr_first (d_component (load_device e r))) = first_of e r"
    and "ntohll e (c_addr_last (d_component (load_device e r))) + 1 - first_of e r = file_len e r"
    and "ntohl e (d_bus_specific (load_device e r)) = be_word (chunk 4 4 r)"
    and "first_of e r = be_word (chunk 8 8 r)"
  using assms
  by (simp_all add: load_defs ntohll_def ntohl_def htonll_bytes htonl_bytes first_of_def last_of_def file_len_def)

lemma create_file_fields:
  assumes "length r = 64"
  shows "create_file h fs can_open r = do {
     name \<leftarrow> extract_name (chunk 44 19 r);
     let flags = (be_word (chunk 4 4 r) :: u32);
     let wr = (flags AND SDB_DATA_WRITE \<noteq> 0);
     let cfg = cfg_section name (be_word (chunk 24 8 r)) (be_word (chunk 32 4 r)) (first_of (h_endian h) r) wr;
     let mode = 0x124 OR (if wr then 0x92 else 0) OR (if flags AND SDB_DATA_EXEC \<noteq> 0 then 0x49 else 0);
     if name = [0x2e] then Some \<lparr>x_cfg = cfg, x_file = None, x_ret = 0\<rparr>
     else if \<not> can_open name then Some \<lparr>x_cfg = cfg, x_file = None, x_ret = - 1\<rparr>
     else do {
       bs \<leftarrow> load_bytes (h_mem h) (fs_data fs + first_of (h_endian h) r) (unat (file_len (h_endian h) r));
       Some \<lparr>x_cfg = cfg, x_file = Some (name, bs, mode), x_ret = 0\<rparr> } }"
  unfolding create_file_def Let_def device_fields(1-6) [OF assms] ..

lemma extract_name_padded:
  assumes "plain_name nm" and "nm \<noteq> []"
  shows "extract_name (padded nm) = Some nm"
proof -
  have len: "length nm \<le> 19" and set: "0 \<notin> set nm" "0x20 \<notin> set nm" using assms(1) by (simp_all add: plain_name_def)
  have "cut (padded nm) = padded nm"
    using set by (auto simp: cut_def padded_def takeWhile_eq_all_conv dest: in_set_takeD)
  moreover have "rev (padded nm) = replicate (19 - length nm) 0x20 @ rev nm" using len by (simp add: padded_def)
  moreover have "dropWhile (\<lambda>c. c = 0x20) (replicate (19 - length nm) 0x20 @ rev nm) = rev nm"
    using set assms(2) by (cases nm rule: rev_cases) (auto simp: dropWhile_append3)
  ultimately show ?thesis using assms(2) by (simp add: extract_name_def)
qed

text \<open>The record of an entry of an image that holds its content.\<close>

lemma create_file_holds:
  assumes "record_holds (h_endian h) img f r" and "plain_name (fst f)" and "fst f \<noteq> []" and "fst f \<noteq> [0x2e]"
    and "maps_file (h_mem h) (fs_data fs) img" and "can_open (fst f)"
  shows "\<exists>y mode. create_file h fs can_open r = Some y \<and> x_file y = Some (fst f, snd f, mode)"
proof -
  have r: "length r = 64" "chunk 44 19 r = padded (fst f)"
    and c: "unat (first_of (h_endian h) r) + unat (file_len (h_endian h) r) \<le> length img"
      "chunk (unat (first_of (h_endian h) r)) (unat (file_len (h_endian h) r)) img = snd f"
    using assms(1) by (simp_all add: record_holds_def Let_def)
  have "load_bytes (h_mem h) (fs_data fs + first_of (h_endian h) r) (unat (file_len (h_endian h) r)) = Some (snd f)"
    using maps_file_load [OF assms(5) c(1)] c(2) by simp
  then show ?thesis
    using assms(2-4,6) r(2) by (simp add: create_file_fields [OF r(1)] extract_name_padded Let_def)
qed

lemma create_file_dot:
  assumes "length r = 64" and "chunk 44 19 r = padded [0x2e]"
  shows "\<exists>y. create_file h fs can_open r = Some y \<and> x_file y = None"
proof -
  have "extract_name (padded [0x2e]) = Some [0x2e]" by (rule extract_name_padded) (simp_all add: plain_name_def)
  then show ?thesis by (simp add: create_file_fields [OF assms(1)] assms(2) Let_def)
qed

subsection \<open>All records\<close>

text \<open>The loop visits the items of the scan in their order.\<close>

lemma extract_loop_yields:
  assumes "yields h fs (sdbfs_scan h fs new) items"
    and "list_all2 (\<lambda>it x. create_file h fs can_open (fst it) = Some x) items xs"
  shows "\<exists>g. extract_loop h can_open fs new acc = Some (g, acc @ xs)"
  using assms
proof (induction items arbitrary: fs new acc xs)
  case Nil
  then show ?case by (subst extract_loop.simps) (auto simp: yields_def is_null_def)
next
  case (Cons it items)
  obtain r off d where it: "it = (r, off, d)" by (cases it)
  from Cons.prems(1) obtain g p where scan: "sdbfs_scan h fs new = Some (g, p)"
    and p: "\<not> is_null p" "currentp g = p" "deref h g p = Some r"
    and g: "fs_depth g = d" "scan_ok g" "same_source fs g"
    and more: "pending (h_endian h) (entry h fs) g r = Some items"
    unfolding yields_def it by auto
  have same: "create_file h g can_open r = create_file h fs can_open r" for r
  proof -
    have "fs_data g = fs_data fs" using g(3) by (simp add: same_source_def)
    then show ?thesis unfolding create_file_def by (simp only:)
  qed
  obtain x ys where xs: "xs = x # ys" "create_file h fs can_open r = Some x"
    "list_all2 (\<lambda>it x. create_file h g can_open (fst it) = Some x) items ys"
    using Cons.prems(2) by (auto simp: it list_all2_Cons1 same)
  have "yields h g (sdbfs_scan h g False) items"
    using scan_next [OF g(2)] p more entry_cong [OF g(3)] by auto
  from Cons.IH [OF this xs(3), of "acc @ [x]"] scan p xs(1,2) same show ?case
    by (subst extract_loop.simps) auto
qed

lemma extract_main_listing:
  assumes "sdbfs_dev_create h L a = Some (M, 0)" and "lib_heap M a = Some fs" and "scan_ok fs"
    and "listing (h_endian h) (entry h fs) (entrypoint fs) = Some items"
    and "list_all2 (\<lambda>it x. create_file h fs can_open (fst it) = Some x) items xs"
    and "sdbfs_list M = a" and "a \<noteq> 0"
  shows "\<exists>L'. extract_main h can_open True True L a = Some (L', xs, 0)"
proof -
  obtain g where g: "extract_loop h can_open fs True [] = Some (g, xs)"
    using extract_loop_yields [OF scan_first [OF assms(3,4)] assms(5), of "[]"] by auto
  have "\<exists>L'. sdbfs_dev_destroy (put_fs M a g) a = Some (L', 0)"
    using destroy_first [of "put_fs M a g" a g] assms(6,7) by (auto simp: put_fs_def)
  then show ?thesis using assms(1,2) g by (auto simp: extract_main_def)
qed

subsection \<open>The image of a directory\<close>

definition extract_ok :: "bytes \<Rightarrow> bool" where
  "extract_ok name \<longleftrightarrow> plain_name name \<and> name \<noteq> []"

text \<open>What the files of a run are, without their modes.\<close>

definition extracted_files :: "extracted list \<Rightarrow> (bytes \<times> bytes) list" where
  "extracted_files xs = map (\<lambda>(name, c, mode). (name, c)) (List.map_filter x_file xs)"

lemma extracted_files_Cons:
  "extracted_files (x # xs) =
     (case x_file x of None \<Rightarrow> [] | Some (name, c, mode) \<Rightarrow> [(name, c)]) @ extracted_files xs"
  by (auto simp: extracted_files_def map_filter_simps split: option.split)

lemma create_files:
  assumes "list_all2 (record_holds (h_endian h) img) files recs"
    and "\<forall>f\<in>set files. extract_ok (fst f) \<and> \<not> is_dots (fst f)"
    and "maps_file (h_mem h) (fs_data fs) img" and "\<forall>f\<in>set files. can_open (fst f)"
  shows "\<exists>xs. list_all2 (\<lambda>r y. create_file h fs can_open r = Some y) recs xs \<and> extracted_files xs = files"
  using assms(1,2,4)
proof (induction files recs rule: list_all2_induct)
  case Nil
  show ?case by (rule exI [of _ "[]"]) (simp add: extracted_files_def map_filter_simps)
next
  case (Cons f files r recs)
  obtain y mode where y: "create_file h fs can_open r = Some y" "x_file y = Some (fst f, snd f, mode)"
    using create_file_holds [OF Cons.hyps(1) _ _ _ assms(3), of can_open] Cons.prems
    by (auto simp: extract_ok_def is_dots_def)
  moreover obtain xs where "list_all2 (\<lambda>r y. create_file h fs can_open r = Some y) recs xs"
    "extracted_files xs = files" using Cons.IH Cons.prems by auto
  ultimately show ?case by (intro exI [of _ "y # xs"]) (simp add: extracted_files_Cons)
qed

text \<open>An image of a directory gives the files of the directory.\<close>

lemma dir_image_extracted:
  fixes fs :: "'d sdbfs"
  assumes img: "dir_image img files" and names: "\<forall>f\<in>set files. extract_ok (fst f) \<and> \<not> is_dots (fst f)"
    and fs: "mapped_file h fs img" "scan_ok fs" "entrypoint fs = 0"
    and L: "lib_heap L a = Some fs" "sdbfs_list L = 0" "a \<noteq> 0"
    and can: "\<forall>f\<in>set files. can_open (fst f)"
  shows "\<exists>L' xs. extract_main h can_open True True L a = Some (L', xs, 0) \<and> extracted_files xs = files"
proof -
  let ?e = "h_endian h" and ?fs = "fs\<lparr>fs_next := 0\<rparr>"
  let ?M = "(put_fs L a ?fs)\<lparr>sdbfs_list := a\<rparr>"
  from img obtain dot recs where dot: "length dot = 64" "chunk 44 19 dot = padded [0x2e]"
    and items: "listing ?e (img_entry img) 0 = Some ((dot, first_of ?e dot, 0) # map (\<lambda>r. (r, first_of ?e r, 0)) recs)"
    and recs: "list_all2 (record_holds ?e img) files recs"
    by (rule dir_image_table)
  have head: "chunk 0 4 img = word_be 4 SDB_MAGIC" using img by (simp add: dir_image_def)
  have "same_source fs ?fs" by (simp add: same_source_def)
  note fs' = whole.serves_same [OF fs(1) this]
  have "4 \<le> length img" using items by (auto simp: listing_def img_entry_def bind_eq_Some_conv split: if_splits)
  then have M: "sdbfs_dev_create h L a = Some (?M, 0)"
    using whole.create_image [OF fs(1) _ _ L(1)] head fs(3) L(2) by simp
  have maps: "maps_file (h_mem h) (fs_data ?fs) img" using fs(1) by (simp add: mapped_file_def)
  obtain xs where xs: "list_all2 (\<lambda>r y. create_file h ?fs can_open r = Some y) recs xs" "extracted_files xs = files"
    using create_files [OF recs names maps can] by blast
  obtain y where y: "create_file h ?fs can_open dot = Some y" "x_file y = None"
    using create_file_dot [OF dot, of h ?fs can_open] by blast
  have "listing ?e (entry h ?fs) (entrypoint ?fs) = Some ((dot, first_of ?e dot, 0) # map (\<lambda>r. (r, first_of ?e r, 0)) recs)"
    using whole.listing_image [OF fs' items] fs(3) by simp
  moreover have "list_all2 (\<lambda>it x. create_file h ?fs can_open (fst it) = Some x)
      ((dot, first_of ?e dot, 0 :: nat) # map (\<lambda>r. (r, first_of ?e r, 0)) recs) (y # xs)"
    using y xs by (simp add: list_all2_map1)
  moreover have "scan_ok ?fs" using fs(2) by (simp add: scan_ok_def)
  moreover have "lib_heap ?M a = Some ?fs" "sdbfs_list ?M = a" by (simp_all add: put_fs_def)
  ultimately have "\<exists>L'. extract_main h can_open True True L a = Some (L', y # xs, 0)"
    using extract_main_listing [OF M _ _ _ _ _ L(3)] by blast
  then show ?thesis using xs(2) y(2) by (auto simp: extracted_files_Cons)
qed

end
