(* ===== verification/ToolMains.thy ===== *)
theory ToolMains
  imports ExtractFlat SdbReadMain
begin

text \<open>
  The command lines of gensdbfs and sdb-extract (src/sdbfs/userspace/gensdbfs.c, sdb-extract.c), and
  what sdb-extract does to get at its image and its output directory. The answers of the system are
  arguments. With \<open>SdbReadMain\<close> all three tools are then functions of their arguments, and the lemmas
  say what each of them does with an image of a directory.
\<close>

subsection \<open>gensdbfs\<close>

text \<open>\<open>"b:s:"\<close>\<close>

definition gen_letters :: "u8 \<Rightarrow> bool option" where
  "gen_letters c = (if c \<in> {0x62, 0x73} then Some True else None)"

text \<open>The block size and the device size; \<open>None\<close> is an exit with 1.\<close>

fun gen_options :: "opt_event list \<Rightarrow> u32 \<times> u64 \<Rightarrow> (u32 \<times> u64) option" where
  "gen_options [] sizes = Some sizes"
| "gen_options (Opt c (Some arg) # evs) (bsize, dsize) =
     (case strtol arg of (v, rest) \<Rightarrow>
        if c = 0x62 then if rest \<noteq> [] then None else gen_options evs (ucast v, dsize)
        else if c = 0x73 then if rest \<noteq> [] then None else gen_options evs (bsize, v)
        else gen_options evs (bsize, dsize))"
| "gen_options (ev # evs) sizes = gen_options evs sizes"

text \<open>\<open>node\<close> is what \<open>stat\<close> and \<open>readdir\<close> find under a name, \<open>fopen\<close> the files that can be read. The
  result is the output file, where it was opened, and the exit code.\<close>

definition gensdbfs_cmd ::
    "endian \<Rightarrow> (bytes \<Rightarrow> fnode) \<Rightarrow> (bytes \<Rightarrow> bytes option) \<Rightarrow> (bytes \<Rightarrow> bool) \<Rightarrow> bytes list
     \<Rightarrow> ((bytes \<times> bytes) option \<times> int) option" where
  "gensdbfs_cmd e node fopen can_write args =
     (case getopt gen_letters args of (evs, operands) \<Rightarrow>
       (case gen_options evs (64, 0) of
          None \<Rightarrow> Some (None, 1)
        | Some (bsize, dsize) \<Rightarrow>
            (case operands of
               [indir, outfile] \<Rightarrow> do {
                 (img, ret) \<leftarrow> gensdbfs_main e bsize dsize fopen indir (node indir) (can_write outfile);
                 Some (map_option (Pair outfile) img, ret) }
             | _ \<Rightarrow> Some (None, 1))))"

subsection \<open>sdb-extract\<close>

text \<open>\<open>"e:f"\<close>\<close>

definition extract_letters :: "u8 \<Rightarrow> bool option" where
  "extract_letters c = (if c = 0x65 then Some True else if c = 0x66 then Some False else None)"

record extract_opts =
  opt_force :: bool
  opt_entry_x :: u32

fun extract_options :: "opt_event list \<Rightarrow> extract_opts \<Rightarrow> (int + extract_opts) option" where
  "extract_options [] xo = Some (Inr xo)"
| "extract_options (BadOpt # evs) xo = extract_options evs xo"
| "extract_options (Opt c arg # evs) xo =
     (if c = 0x66 then extract_options evs (xo\<lparr>opt_force := True\<rparr>)
      else if c = 0x65 then do {
        r \<leftarrow> Option.bind arg scan_i;
        (case r of None \<Rightarrow> Some (Inl 1) | Some v \<Rightarrow> extract_options evs (xo\<lparr>opt_entry_x := v\<rparr>)) }
      else extract_options evs xo)"

text \<open>The output directory: whether \<open>mkdir\<close> makes it or it exists, whether it can be entered, the
  names in it, with the two of every directory, and the files that can be created.\<close>

record out_dir =
  od_made :: bool
  od_entered :: bool
  od_names :: "bytes list"
  od_can_open :: "bytes \<Rightarrow> bool"

record extract_env =
  xe_pagesize :: u64
  xe_file :: "bytes \<Rightarrow> bytes option"
  xe_mmap :: "u64 \<Rightarrow> u64 option"     \<comment> \<open>by length\<close>
  xe_malloc :: "u64 \<Rightarrow> u64 option"
  xe_dir :: "bytes \<Rightarrow> out_dir"
  xe_fsaddr :: u64
  xe_new :: bool     \<comment> \<open>what the variable \<open>new\<close> holds before it is assigned\<close>

text \<open>Where the image is, and the memory then. Without a mapping the file is read into memory, and a
  file that is shorter than the length rounded up to pages is refused.\<close>

definition load_image :: "host \<Rightarrow> extract_env \<Rightarrow> bytes \<Rightarrow> (host \<times> u64) option" where
  "load_image h env f =
     (let len = round_page (xe_pagesize env) (of_nat (length f))
      in case xe_mmap env len of
           Some a \<Rightarrow> Some (h, a)
         | None \<Rightarrow> (case xe_malloc env len of
             None \<Rightarrow> None
           | Some a \<Rightarrow>
               if length f < unat len then None
               else Some (h\<lparr>h_mem := (\<lambda>x. case image_at a f x of Some b \<Rightarrow> Some b | None \<Rightarrow> h_mem h x)\<rparr>, a)))"

definition extract_fs :: "u32 \<Rightarrow> bytes \<Rightarrow> u64 \<Rightarrow> unit sdbfs" where
  "extract_fs entp fsname a = \<lparr>fs_name = Some fsname, drvdata = (), blocksize = 256,
     entrypoint = int_to_ulong entp, fs_flags = 0, fs_data = a, datalen = 0, fs_read = None,
     fs_write = None, fs_erase = None, currentp = NullP, current_record = replicate 64 0, f_len = 0,
     f_offset = 0, read_offset = 0, fs_next = 0, fs_base = replicate 4 0, fs_this = replicate 4 0,
     nleft = replicate 4 0, fs_depth = 0\<rparr>"

text \<open>The configuration file is created only if there is none; what is made of the image is the text
  of that file, if it was created, and the files, with the exit code.\<close>

definition extract_cmd ::
    "host \<Rightarrow> extract_env \<Rightarrow> bytes \<Rightarrow> bytes list \<Rightarrow> (bytes option \<times> extracted list \<times> int) option" where
  "extract_cmd h env prgname args =
     (case getopt extract_letters args of (evs, operands) \<Rightarrow> do {
        r \<leftarrow> extract_options evs \<lparr>opt_force = False, opt_entry_x = 0\<rparr>;
        (case r of
           Inl x \<Rightarrow> Some (None, [], x)
         | Inr xo \<Rightarrow>
            (case operands of
               [dirname, fsname] \<Rightarrow>
                 (case xe_file env fsname of
                    None \<Rightarrow> Some (None, [], 1)
                  | Some f \<Rightarrow>
                      (case load_image h env f of
                         None \<Rightarrow> Some (None, [], 1)
                       | Some (h, mapaddr) \<Rightarrow> do {
                           let od = xe_dir env dirname;
                           let dir_ok = (od_made od \<and> od_entered od \<and> (opt_force xo \<or> length (od_names od) = 2));
                           let fs = extract_fs (opt_entry_x xo) fsname mapaddr;
                           let can_open = (\<lambda>nm. od_can_open od nm);
                           (L, xs, ret) \<leftarrow> extract_main h can_open dir_ok (xe_new env)
                               \<lparr>lib_heap = [xe_fsaddr env \<mapsto> fs], sdbfs_list = 0\<rparr> (xe_fsaddr env);
                           Some (if ret = 0 \<and> CFG_NAME \<notin> set (od_names od) \<and> od_can_open od CFG_NAME
                                 then Some (config_file prgname fsname xs) else None, xs, ret) }))
             | _ \<Rightarrow> Some (None, [], 1))) })"

subsection \<open>The tools on an image of a directory\<close>

lemma gensdbfs_cmd_dir:
  assumes "flat_dir fopen indir ents" and "k < 31"
    and "64 * Suc (length (regulars ents)) + 2 ^ k
      + sum_list (map (\<lambda>p. length (content_of fopen indir p) + 2 ^ k) (regulars ents)) \<le> 2 ^ 31"
    and "\<forall>p\<in>set (regulars ents). content_of fopen indir p \<noteq> []"
    and "node indir = FDir m (Some ents)" and "can_write outfile"
    and "is_operand indir" and "is_operand outfile" and "strtol arg = (v, [])" and "ucast v = (2 ^ k :: u32)"
  shows "\<exists>img. gensdbfs_cmd e node fopen can_write [[0x2d, 0x62], arg, indir, outfile] = Some (Some (outfile, img), 0)
    \<and> dir_image img (dir_files fopen indir ents)"
proof -
  have "getopt gen_letters [indir, outfile] = ([], [indir, outfile])"
    using getopt_operands [of "[indir, outfile]"] assms(7,8) by (simp add: is_operand_def)
  moreover have "gen_letters 0x62 = Some True" by (simp add: gen_letters_def)
  ultimately have "getopt gen_letters [[0x2d, 0x62], arg, indir, outfile] = ([Opt 0x62 (Some arg)], [indir, outfile])"
    using getopt_argument [where opts = gen_letters and c = "0x62" and b = arg and as = "[indir, outfile]"] by simp
  moreover obtain img where "gensdbfs_main e (2 ^ k) 0 fopen indir (FDir m (Some ents)) True = Some (Some img, 0)"
    "dir_image img (dir_files fopen indir ents)"
    using gensdbfs_dir_image [OF assms(1-4)] by blast
  ultimately show ?thesis using assms(5,6,9,10) by (simp add: gensdbfs_cmd_def)
qed

lemma read_dir_image:
  assumes img: "dir_image img files" and env: "read_env_ok h env fsname img"
    and names: "\<forall>f\<in>set files. plain_name (fst f)" and nm: "plain_name nm" "plain_file_arg nm"
    and args: "set flags \<subseteq> read_flags" "is_operand fsname"
  shows "sdb_read_main h env (flags @ [fsname, nm]) = Some (case find (\<lambda>f. fst f = nm) files of
      None \<Rightarrow> (Nothing, 1) | Some f \<Rightarrow> (Bytes (snd f), 0))"
proof -
  let ?e = "h_endian h"
  from img obtain dot recs where items: "listing ?e (img_entry img) 0
      = Some ((dot, first_of ?e dot, 0) # map (\<lambda>r. (r, first_of ?e r, 0)) recs)"
    and recs: "list_all2 (record_holds ?e img) files recs"
    by (rule dir_image_table)
  let ?items = "map (\<lambda>r. (r, first_of ?e r, 0 :: nat)) recs"
  have found: "find (\<lambda>it. name_matches ?e nm (fst it)) ?items
      = map_option (\<lambda>r. (r, first_of ?e r, 0)) (find (name_matches ?e nm) recs)"
    by (simp add: find_mapped comp_def)
  note rel = dir_image_find [OF recs names nm(1)]
  have "named_fits ?e img ?items nm"
    unfolding named_fits_def found using rel
    by (auto simp: record_holds_def Let_def option_rel_Some2 split: option.split)
  then have "sdb_read_main h env (flags @ [fsname, nm])
      = Some (read_answer ?e ([0x2d, 0x6c] \<in> set flags) img ((dot, first_of ?e dot, 0) # ?items) [nm])"
    using main_image [OF args env _ _ items, of "[nm]"] img nm(2) by (simp add: dir_image_def)
  moreover have "read_answer ?e l img ((dot, first_of ?e dot, 0) # ?items) [nm]
      = (case find (\<lambda>f. fst f = nm) files of None \<Rightarrow> (Nothing, 1) | Some f \<Rightarrow> (Bytes (snd f), 0))" for l
    unfolding read_answer_def list.case list.sel found using rel
    by (cases "find (\<lambda>f. fst f = nm) files") (auto simp: record_holds_def Let_def option_rel_Some1)
  ultimately show ?thesis by simp
qed

text \<open>What sdb-extract asks of the system.\<close>

definition extract_env_ok :: "host \<Rightarrow> extract_env \<Rightarrow> bytes \<Rightarrow> bytes \<Rightarrow> bool" where
  "extract_env_ok h env fsname img \<longleftrightarrow> xe_file env fsname = Some img \<and> xe_fsaddr env \<noteq> 0 \<and> xe_new env
     \<and> (let len = round_page (xe_pagesize env) (of_nat (length img))
        in case xe_mmap env len of
             Some a \<Rightarrow> maps_file (h_mem h) a img
           | None \<Rightarrow> unat len \<le> length img
               \<and> (\<exists>a. xe_malloc env len = Some a \<and> a \<noteq> 0 \<and> unat a + length img < 2 ^ 64))"

definition fresh_dir :: "out_dir \<Rightarrow> bool" where
  "fresh_dir od \<longleftrightarrow> od_made od \<and> od_entered od \<and> length (od_names od) = 2"

lemma load_image_maps:
  assumes "extract_env_ok h env fsname img"
  obtains h' a where "load_image h env img = Some (h', a)" and "h_endian h' = h_endian h"
    and "maps_file (h_mem h') a img"
proof -
  let ?len = "round_page (xe_pagesize env) (of_nat (length img))"
  show ?thesis
  proof (cases "xe_mmap env ?len")
    case (Some a)
    then show ?thesis using assms by (intro that [of h a]) (simp_all add: load_image_def extract_env_ok_def)
  next
    case None
    then obtain a where a: "xe_malloc env ?len = Some a" "a \<noteq> 0" "unat a + length img < 2 ^ 64" "unat ?len \<le> length img"
      using assms by (auto simp: extract_env_ok_def Let_def)
    have "image_at a img (a + of_nat i) = Some (img ! i)" if "i < length img" for i
      using maps_file_image [OF a(2,3)] that by (simp add: maps_file_def)
    then show ?thesis
      using None a
      by (intro that [of "h\<lparr>h_mem := (\<lambda>x. case image_at a img x of Some b \<Rightarrow> Some b | None \<Rightarrow> h_mem h x)\<rparr>" a])
        (auto simp: load_image_def maps_file_def)
  qed
qed

lemma extract_dir_image:
  assumes img: "dir_image img files" and names: "\<forall>f\<in>set files. extract_ok (fst f) \<and> \<not> is_dots (fst f)"
    and env: "extract_env_ok h env fsname img" and dir: "fresh_dir (xe_dir env dirname)"
    and can: "\<forall>f\<in>set files. od_can_open (xe_dir env dirname) (fst f)"
    and args: "is_operand dirname" "is_operand fsname"
  shows "\<exists>cfg xs. extract_cmd h env prgname [dirname, fsname] = Some (cfg, xs, 0) \<and> extracted_files xs = files"
proof -
  obtain h' a where load: "load_image h env img = Some (h', a)" and maps: "maps_file (h_mem h') a img"
    using load_image_maps [OF env] by blast
  let ?fs = "extract_fs 0 fsname a" let ?L = "\<lparr>lib_heap = [xe_fsaddr env \<mapsto> ?fs], sdbfs_list = 0\<rparr>"
  have fs: "mapped_file h' ?fs img" "scan_ok ?fs" "entrypoint ?fs = 0"
    using maps by (simp_all add: mapped_file_def extract_fs_def scan_ok_def SDBFS_DEPTH_def int_to_ulong_def)
  have L: "lib_heap ?L (xe_fsaddr env) = Some ?fs" "sdbfs_list ?L = 0" "xe_fsaddr env \<noteq> 0"
    using env by (simp_all add: extract_env_ok_def)
  obtain L' xs where "extract_main h' (\<lambda>nm. od_can_open (xe_dir env dirname) nm) True True ?L (xe_fsaddr env) = Some (L', xs, 0)"
    and xs: "extracted_files xs = files"
    using dir_image_extracted [OF img names fs L can] by blast
  moreover have "getopt extract_letters [dirname, fsname] = ([], [dirname, fsname])"
    using getopt_operands [of "[dirname, fsname]"] args by (simp add: is_operand_def)
  ultimately show ?thesis
    using env dir load by (simp add: extract_cmd_def extract_env_ok_def fresh_dir_def Let_def)
qed

end
