(* ===== verification/GenProperties.thy ===== *)
theory GenProperties
  imports ToolMains SdbDemo
begin

text \<open>
  The properties of gensdbfs, and a small directory as their concrete input: two regular files,
  the block size 64.
\<close>

definition demo_ents :: "(bytes \<times> fnode) list" where
  "demo_ents = [([0x2e], FNone), ([0x2e, 0x2e], FNone), ([0x61], FReg 4 3), ([0x62], FReg 5 2)]"

definition demo_fopen :: "bytes \<Rightarrow> bytes option" where
  "demo_fopen p = (if p = [0x74, 0x2f, 0x61] then Some [1, 2, 3]
     else if p = [0x74, 0x2f, 0x62] then Some [7, 8] else None)"

lemma demo_regulars: "regulars demo_ents = [([0x61], FReg 4 3), ([0x62], FReg 5 2)]"
  by (simp add: regulars_def demo_ents_def is_dots_def)

lemma demo_contents:
  "content_of demo_fopen [0x74] ([0x61], FReg 4 3) = [1, 2, 3]"
  "content_of demo_fopen [0x74] ([0x62], FReg 5 2) = [7, 8]"
  by (simp_all add: content_of_def demo_fopen_def)

lemma demo_flat: "flat_dir demo_fopen [0x74] demo_ents"
proof -
  have "(5 :: u32) AND 2 = 0" "(4 :: u32) AND 2 = 0" "[0x61] \<noteq> CFG_NAME" "[0x62] \<noteq> CFG_NAME"
    by code_simp+
  then show ?thesis
    unfolding flat_dir_def demo_regulars
    by (simp add: demo_ents_def plain_file_def S_IWOTH_def PATH_MAX_def demo_fopen_def)
qed

lemma demo_listing_ok: "listing_ok (Some demo_ents)"
  by (rule flat_listing_ok [OF demo_flat])

text \<open>The command line and what the system answers: the block size 64, the directory \<open>t\<close>, the image
  \<open>i\<close>; a reader and an extractor of the image with a mapping of it.\<close>

definition demo_node :: "bytes \<Rightarrow> fnode" where
  "demo_node name = (if name = [0x74] then FDir 0 (Some demo_ents) else FNone)"

definition mapped_reader :: "bytes \<Rightarrow> read_env" where
  "mapped_reader img = \<lparr>re_pagesize = 4096, re_file = [[0x69] \<mapsto> img], re_mmap = (\<lambda>len off. Some 0x1000),
     re_calloc = True, re_fsaddr = 8, re_buf = replicate 4096 0\<rparr>"

definition mapped_extractor :: "bytes \<Rightarrow> extract_env" where
  "mapped_extractor img = \<lparr>xe_pagesize = 4096, xe_file = [[0x69] \<mapsto> img], xe_mmap = (\<lambda>len. Some 0x1000),
     xe_malloc = (\<lambda>len. None), xe_dir = (\<lambda>d. \<lparr>od_made = True, od_entered = True,
       od_names = [[0x2e], [0x2e, 0x2e]], od_can_open = (\<lambda>nm. True)\<rparr>), xe_fsaddr = 8, xe_new = True\<rparr>"

abbreviation mapping_host :: "bytes \<Rightarrow> host" where
  "mapping_host img \<equiv> \<lparr>h_endian = Big, h_mem = image_at 0x1000 img\<rparr>"

lemma demo_envs:
  assumes "length img < 2 ^ 31"
  shows "read_env_ok (mapping_host img) (mapped_reader img) [0x69] img"
    and "extract_env_ok (mapping_host img) (mapped_extractor img) [0x69] img"
    and "fresh_dir (xe_dir (mapped_extractor img) [0x78])"
  using maps_file_image [of "0x1000" img] assms
  by (simp_all add: read_env_ok_def extract_env_ok_def fresh_dir_def mapped_reader_def mapped_extractor_def)

lemma demo_operands: "is_operand [0x69]" "is_operand [0x74]" "is_operand [0x78]" "plain_file_arg [0x62]"
  by code_simp+

lemma demo_blocksize: "strtol [0x36, 0x34] = (64, [])"
  by code_simp

lemma demo_names:
  "\<forall>p\<in>set (regulars demo_ents). extract_ok (fst p) \<and> content_of demo_fopen [0x74] p \<noteq> []"
  by (simp add: demo_regulars demo_contents plain_name_def extract_ok_def)

lemma demo_files: "dir_files demo_fopen [0x74] demo_ents = [([0x61], [1, 2, 3]), ([0x62], [7, 8])]"
  by (simp add: dir_files_def demo_regulars demo_contents)

text \<open>C6: gensdbfs and sdb-read round trip, as command lines: for a directory of regular files that
  others cannot write, non-empty and with names of at most 19 bytes without spaces, \<open>gensdbfs -b\<close> with a
  power of two exits with 0 and leaves an image in its output file; sdb-read on that image, given any of
  its flags and a name, on a host of either byte order, and whether the image is mapped there or read,
  writes exactly the content of the first file of that name and exits with 0, or exits with 1 if there
  is none.\<close>

theorem gensdbfs_read_back:
  assumes "flat_dir fopen indir ents" and "k < 31"
    and "64 * Suc (length (regulars ents)) + 2 ^ k
      + sum_list (map (\<lambda>p. length (content_of fopen indir p) + 2 ^ k) (regulars ents)) \<le> 2 ^ 31"
    and "\<forall>p\<in>set (regulars ents). plain_name (fst p) \<and> content_of fopen indir p \<noteq> []"
    and "node indir = FDir m (Some ents)" and "can_write outfile" and "is_operand indir" and "is_operand outfile"
    and "strtol arg = (v, [])" and "ucast v = (2 ^ k :: u32)"
  shows "\<exists>img. gensdbfs_cmd e node fopen can_write [[0x2d, 0x62], arg, indir, outfile] = Some (Some (outfile, img), 0)
    \<and> length img < 2 ^ 31
    \<and> (\<forall>h env flags name. read_env_ok h env outfile img \<longrightarrow> set flags \<subseteq> read_flags \<longrightarrow>
        plain_name name \<longrightarrow> plain_file_arg name \<longrightarrow>
        sdb_read_main h env (flags @ [outfile, name]) = Some (case find (\<lambda>f. fst f = name) (dir_files fopen indir ents) of
          None \<Rightarrow> (Nothing, 1) | Some f \<Rightarrow> (Bytes (snd f), 0)))"
proof -
  obtain img where "gensdbfs_cmd e node fopen can_write [[0x2d, 0x62], arg, indir, outfile] = Some (Some (outfile, img), 0)"
    and img: "dir_image img (dir_files fopen indir ents)"
    using gensdbfs_cmd_dir [where node = node and can_write = can_write, OF assms(1-3) _ assms(5-10)] assms(4) by blast
  moreover have "\<forall>f\<in>set (dir_files fopen indir ents). plain_name (fst f)" using assms(4) by (simp add: dir_files_def)
  ultimately show ?thesis
    using read_dir_image [OF img _ _ _ _ _ assms(8)] by (intro exI [of _ img]) (simp add: dir_image_def)
qed

theorem gensdbfs_read_back_witness:
  "\<exists>img. gensdbfs_cmd Little demo_node demo_fopen (\<lambda>f. True) [[0x2d, 0x62], [0x36, 0x34], [0x74], [0x69]]
      = Some (Some ([0x69], img), 0)
    \<and> sdb_read_main (mapping_host img) (mapped_reader img) [[0x2d, 0x72], [0x69], [0x62]] = Some (Bytes [7, 8], 0)"
proof -
  have "\<forall>p\<in>set (regulars demo_ents). plain_name (fst p) \<and> content_of demo_fopen [0x74] p \<noteq> []"
    using demo_names by (simp add: extract_ok_def)
  from gensdbfs_read_back [OF demo_flat _ _ this _ _ demo_operands(2,1) demo_blocksize,
      where k = 6 and e = Little and m = 0 and node = demo_node and can_write = "\<lambda>f. True"]
  obtain img where img: "gensdbfs_cmd Little demo_node demo_fopen (\<lambda>f. True) [[0x2d, 0x62], [0x36, 0x34], [0x74], [0x69]]
      = Some (Some ([0x69], img), 0)" "length img < 2 ^ 31"
    and cat: "\<And>h env flags name. read_env_ok h env [0x69] img \<Longrightarrow> set flags \<subseteq> read_flags \<Longrightarrow> plain_name name \<Longrightarrow>
        plain_file_arg name \<Longrightarrow> sdb_read_main h env (flags @ [[0x69], name])
          = Some (case find (\<lambda>f. fst f = name) (dir_files demo_fopen [0x74] demo_ents) of
              None \<Rightarrow> (Nothing, 1) | Some f \<Rightarrow> (Bytes (snd f), 0))"
    by (auto simp: demo_regulars demo_contents demo_node_def)
  from cat [OF demo_envs(1) [OF img(2)], of "[[0x2d, 0x72]]" "[0x62]"] img(1) demo_operands(4) show ?thesis
    by (intro exI [of _ img]) (simp add: demo_files plain_name_def read_flags_def)
qed




definition demo_tree :: "snode list" where
  "demo_tree = (case prepare_dir Little 64 demo_fopen [0x74] None (Some demo_ents) of
     Some (Some t) \<Rightarrow> t | _ \<Rightarrow> [])"

lemma demo_prepared:
  "prepare_dir Little 64 demo_fopen [0x74] None (Some demo_ents) = Some (Some demo_tree)"
  "wf_tree 0 demo_tree" "n_records (demo_tree ! 0) = 3" "sf_ustart (sdbf_of (demo_tree ! 0)) = 0"
  "files_of_dir demo_tree = map (slot_of Little 64 [0x74]) (regulars demo_ents)"
proof -
  obtain t where "prepare_dir Little 64 demo_fopen [0x74] None (Some demo_ents) = Some (Some t)"
    "wf_tree 0 t" "n_records (t ! 0) = Suc (length (regulars demo_ents))"
    "sf_ustart (sdbf_of (t ! 0)) = 0" "files_of_dir t = map (slot_of Little 64 [0x74]) (regulars demo_ents)"
    by (rule prepare_flat [OF demo_flat]) blast
  then show "prepare_dir Little 64 demo_fopen [0x74] None (Some demo_ents) = Some (Some demo_tree)"
    "wf_tree 0 demo_tree" "n_records (demo_tree ! 0) = 3" "sf_ustart (sdbf_of (demo_tree ! 0)) = 0"
    "files_of_dir demo_tree = map (slot_of Little 64 [0x74]) (regulars demo_ents)"
    by (simp_all add: demo_tree_def demo_regulars)
qed


text \<open>C24: The tree read from a directory is well-formed: the first record of every directory is an
  interconnect that counts the entries, every entry is a device record or a bridge with a tree of the
  next level, every record has 64 bytes; the configuration files do not change that, and the
  allocation accepts every such tree and keeps it so, on hosts whose directories list a dot.\<close>

theorem gensdbfs_tree_typed:
  assumes "prepare_dir e bs fopen name None l = Some (Some tree)" and "listing_ok l"
  shows "wf_tree 0 tree \<and> (\<exists>t. alloc_storage e bs 0 tree = Some t \<and> wf_tree 0 t
    \<and> length t = length tree \<and> n_records (t ! 0) = n_records (tree ! 0))"
  using scanned_wf(4) [OF assms] alloc_wf(1) by (auto simp: parent_level_def)

theorem gensdbfs_tree_typed_witness:
  "wf_tree 0 demo_tree \<and> (\<exists>t. alloc_storage Little 64 0 demo_tree = Some t \<and> wf_tree 0 t
    \<and> length t = length demo_tree \<and> n_records (t ! 0) = n_records (demo_tree ! 0))"
  by (rule gensdbfs_tree_typed [OF demo_prepared(1) demo_listing_ok])

text \<open>C23: gensdbfs never leaves its arrays and always terminates with an image: once the input has been
  read (paths that fit their buffers, numbers that fit their types), the rest of the run is defined for
  every block size and device size, and files shorter than 2 GiB. It exits with 1 and an empty image
  when the reading failed, and otherwise exactly when the data goes past the device size.\<close>

theorem gensdbfs_total:
  assumes "prepare_dir e bs fopen name None l = Some prep" and "listing_ok l"
    and "\<forall>p c. fopen p = Some c \<longrightarrow> length c < 2 ^ 31"
  shows "case prep of
      None \<Rightarrow> gensdbfs_main e bs devsize fopen name (FDir m l) True = Some (Some [], 1)
    | Some tree \<Rightarrow> \<exists>t t' out img. alloc_storage e bs 0 tree = Some t
        \<and> write_sdb e bs fopen t \<lparr>o_bytes = [], o_pos = 0, lastwritten = 0\<rparr> = Some (t', out)
        \<and> gensdbfs_main e bs devsize fopen name (FDir m l) True
          = Some (Some img, if devsize \<noteq> 0 \<and> devsize < lastwritten out then 1 else 0)
        \<and> (devsize \<le> lastwritten out \<longrightarrow> img = o_bytes out)"
proof (cases prep)
  case None
  then show ?thesis using assms(1) by (simp add: gensdbfs_main_def)
next
  case (Some tree)
  have "wf_tree 0 tree" using scanned_wf(4) [OF assms(1) [unfolded Some] assms(2)] by (simp add: parent_level_def)
  then obtain t where t: "alloc_storage e bs 0 tree = Some t" "wf_tree 0 t" using alloc_wf(1) by blast
  obtain t' out where w: "write_sdb e bs fopen t \<lparr>o_bytes = [], o_pos = 0, lastwritten = 0\<rparr> = Some (t', out)"
    using write_total(1) [OF assms(3) t(2)] by blast
  let ?out = "if lastwritten out < devsize then fwrite [0] (fseek_set (devsize - 1) out) else out"
  have "lastwritten ?out = lastwritten out" by (simp add: fwrite_def fseek_set_def)
  then have "gensdbfs_main e bs devsize fopen name (FDir m l) True
      = Some (Some (o_bytes ?out), if devsize \<noteq> 0 \<and> devsize < lastwritten out then 1 else 0)"
    using assms(1) Some t(1) w by (simp add: gensdbfs_main_def Let_def)
  moreover have "devsize \<le> lastwritten out \<longrightarrow> o_bytes ?out = o_bytes out" by auto
  ultimately show ?thesis using Some t(1) w by simp
qed

theorem gensdbfs_total_witness:
  "\<exists>img ret. gensdbfs_main Little 64 5000 demo_fopen [0x74] (FDir 0 (Some demo_ents)) True = Some (Some img, ret)"
proof -
  have "\<forall>p c. demo_fopen p = Some c \<longrightarrow> length c < 2 ^ 31" by (auto simp: demo_fopen_def)
  from gensdbfs_total [OF demo_prepared(1) demo_listing_ok this, of 5000 0] show ?thesis by auto
qed

text \<open>C14: What sdb-extract writes, gensdbfs reads back: the configuration section of a record, given to
  gensdbfs for a directory with a file of the record's name, leaves that file's record with the vendor
  and device of the original, at the original's position when it is a top-level file, and writable if
  the original was; no other entry changes.\<close>

theorem extract_config_read_back:
  assumes "create_file h fs can_open r = Some x" and "length r = 64"
    and "extract_name (chunk 44 19 r) = Some name" and "section_name name"
    and "unat (be_word (chunk 8 8 r) :: u64) < 2 ^ 63"
    and "wf_tree lev tree" and "find_filename e tree name = Some (Some i)"
  shows "\<exists>y. scan_config e tree None (x_cfg x) = Some (tree[i := y]) \<and> same_shape (tree ! i) y
    \<and> chunk 24 12 (sf_record (sdbf_of y)) = chunk 24 12 r
    \<and> (lev = 0 \<longrightarrow> sf_userpos (sdbf_of y) \<and> sf_ustart (sdbf_of y) = be_word (chunk 8 8 r))
    \<and> ((be_word (chunk 4 4 r) :: u32) AND SDB_DATA_WRITE \<noteq> 0 \<longrightarrow>
        (be_word (chunk 4 4 (sf_record (sdbf_of y))) :: u32) AND SDB_DATA_WRITE \<noteq> 0)"
proof -
  let ?vendor = "be_word (chunk 24 8 r) :: u64" and ?dev = "be_word (chunk 32 4 r) :: u32"
  let ?pos = "be_word (chunk 8 8 r) :: u64" and ?wr = "(be_word (chunk 4 4 r) :: u32) AND SDB_DATA_WRITE \<noteq> 0"
  let ?y = "configured e lev ?vendor ?dev ?pos ?wr (tree ! i)"
  have i: "i < length tree" "i < n_records (tree ! 0)" using find_filename_counted [OF assms(6)] assms(7) by blast+
  then have len: "length (sf_record (sdbf_of (tree ! i))) = 64" using wf_tree_lengths [OF assms(6)] by blast
  have lev: "sf_level (sdbf_of (tree ! 0)) = lev"
    using assms(6) by (cases tree) (auto simp: wf_tree.simps dot_ok_def)
  have "x_cfg x = cfg_section name ?vendor ?dev ?pos ?wr"
    using create_file_cfg [OF assms(1,2)] assms(3) by auto
  then have scan: "scan_config e tree None (x_cfg x) = Some (tree[i := ?y])"
    using scan_section [OF assms(4,7) i(1) lev assms(5), of None ?vendor ?dev ?wr "[]"]
    by (simp add: scan_config.simps)
  note c = configured_record [OF len, where e = e and lev = lev and vendor = ?vendor and dev = ?dev and pos = ?pos and wr = ?wr]
  have "word_be 8 ?vendor = chunk 24 8 r" "word_be 4 ?dev = chunk 32 4 r"
    using word_be_be_word [where 'a = 64 and bs = "chunk 24 8 r"]
      word_be_be_word [where 'a = 32 and bs = "chunk 32 4 r"] assms(2) by simp_all
  then have "chunk 24 12 (sf_record (sdbf_of ?y)) = chunk 24 12 r"
    using c(1,2) chunk_append [of 24 8 "sf_record (sdbf_of ?y)" 4] chunk_append [of 24 8 r 4] by simp
  moreover have "same_shape (tree ! i) ?y" by (rule configured_shape [OF len])
  ultimately show ?thesis using scan c(3,4) by blast
qed

definition demo_file_record :: "u8 list" where
  "demo_file_record = store_device Little \<lparr>d_abi_class = 0, d_abi_ver_major = 0, d_abi_ver_minor = 0,
     d_bus_specific = htonl Little SDB_DATA_WRITE,
     d_component = demo_component 0x100 0x10f [0x61] sdb_type_device\<rparr>"

lemma demo_file_record_fields:
  "length demo_file_record = 64" "extract_name (chunk 44 19 demo_file_record) = Some [0x61]"
  "be_word (chunk 8 8 demo_file_record) = (0x100 :: u64)"
  "(be_word (chunk 4 4 demo_file_record) :: u32) AND SDB_DATA_WRITE \<noteq> 0"
  by code_simp+

lemma demo_file_record_extent: "first_of Little demo_file_record = 0x100" "file_len Little demo_file_record = 16"
  by code_simp+

lemma demo_found: "find_filename Little demo_tree [0x61] = Some (Some 1)"
  by code_simp

theorem extract_config_read_back_witness:
  "\<exists>x y. create_file demo_host demo_fs (\<lambda>_. True) demo_file_record = Some x
    \<and> scan_config Little demo_tree None (x_cfg x) = Some (demo_tree[1 := y])
    \<and> sf_userpos (sdbf_of y) \<and> sf_ustart (sdbf_of y) = 0x100"
proof -
  have "load_bytes (h_mem demo_host) (fs_data demo_fs + first_of Little demo_file_record)
      (unat (file_len Little demo_file_record)) \<noteq> None"
    using demo_load [of 256 16] by (simp add: demo_file_record_extent demo_fs_def)
  then have "create_file demo_host demo_fs (\<lambda>_. True) demo_file_record \<noteq> None"
    by (auto simp: create_file_fields demo_file_record_fields demo_host_def Let_def)
  then obtain x where x: "create_file demo_host demo_fs (\<lambda>_. True) demo_file_record = Some x" by blast
  have "section_name [0x61]" by code_simp
  from extract_config_read_back [OF x demo_file_record_fields(1,2) this _ demo_prepared(2) demo_found]
  show ?thesis using x by (auto simp: demo_file_record_fields)
qed

end
