(* ===== verification/SlotDriver.thy ===== *)
theory SlotDriver
  imports SdbfsClient CFormat "HOL-Library.Multiset"
begin

text \<open>
  What the drivers of SDB devices share (src/sdbfs/kernel/sdb-iomem.c, sdb-fakedev.c): each keeps its
  devices in an array of structures, its module parameters are strings, and when it is loaded each
  string makes the structure of its index a device, or none. The locale \<open>slot_driver\<close> is that
  contract; it shows which devices a load registers, and what an unload gives back.
\<close>

subsection \<open>What the drivers share\<close>

text \<open>The loop over the parameters: a step for each index, and the number of steps that made a
  device.\<close>

fun for_each :: "(nat \<Rightarrow> 'p \<Rightarrow> 's \<Rightarrow> ('s \<times> bool) option) \<Rightarrow> nat \<Rightarrow> 'p list \<Rightarrow> 's \<Rightarrow> ('s \<times> nat) option" where
  "for_each step i [] s = Some (s, 0)"
| "for_each step i (d # ds) s = do {
     (s, made) \<leftarrow> step i d s;
     (s, n) \<leftarrow> for_each step (Suc i) ds s;
     Some (s, if made then Suc n else n) }"

text \<open>What a load registers: of the devices offered the first of each name, unless the name is in
  use already; and what the others leave behind.\<close>

fun accepted :: "('p \<Rightarrow> sdbfs_dev option) \<Rightarrow> bytes set \<Rightarrow> nat \<Rightarrow> 'p list \<Rightarrow> (nat \<times> sdbfs_dev) list" where
  "accepted offer used i [] = []"
| "accepted offer used i (d # ds) = (case offer d of
     Some dev \<Rightarrow> if kd_name dev \<in> used then accepted offer used (Suc i) ds
       else (i, dev) # accepted offer (insert (kd_name dev) used) (Suc i) ds
   | None \<Rightarrow> accepted offer used (Suc i) ds)"

fun left_over :: "('p \<Rightarrow> sdbfs_dev option) \<Rightarrow> ('p \<Rightarrow> 'r multiset) \<Rightarrow> bytes set \<Rightarrow> 'p list \<Rightarrow> 'r multiset" where
  "left_over offer left used [] = {#}"
| "left_over offer left used (d # ds) = (case offer d of
     Some dev \<Rightarrow> if kd_name dev \<in> used then left d + left_over offer left used ds
       else left_over offer left (insert (kd_name dev) used) ds
   | None \<Rightarrow> left_over offer left used ds)"

lemma accepted_bounds: "x \<in> set (accepted offer used i ds) \<Longrightarrow> i \<le> fst x \<and> fst x < i + length ds"
  by (induction ds arbitrary: used i) (fastforce split: option.splits if_splits)+

definition names_in :: "client \<Rightarrow> u64 list \<Rightarrow> bytes set" where
  "names_in C xs = {n. Some n \<in> dev_name C ` set xs}"

text \<open>The registry while the structure at \<open>p\<close> is filled in.\<close>

lemma client_rep_moved:
  assumes "client_rep C xs" and "p \<notin> set xs" and "\<forall>q. q \<noteq> p \<longrightarrow> kd_heap C' q = kd_heap C q"
    and "sdbfs_devlist C' = xs"
  shows "client_rep C' xs" and "names_in C' xs = names_in C xs"
proof -
  have names: "dev_name C' x = dev_name C x" if "x \<in> set xs" for x
    using assms(2,3) that by (auto simp: dev_name_def)
  then show "client_rep C' xs" using assms(1,4) by (auto simp: client_rep_def inj_on_def)
  show "names_in C' xs = names_in C xs" using names by (auto simp: names_in_def image_iff)
qed

lemma client_rep_added:
  assumes "client_rep C xs" and "p \<notin> set xs" and "\<forall>q. q \<noteq> p \<longrightarrow> kd_heap C' q = kd_heap C q"
    and "kd_heap C' p = Some dev" and "kd_name dev \<notin> names_in C xs" and "sdbfs_devlist C' = p # xs"
  shows "client_rep C' (p # xs)" and "names_in C' (p # xs) = insert (kd_name dev) (names_in C xs)"
proof -
  have names: "dev_name C' x = dev_name C x" if "x \<in> set xs" for x
    using assms(2,3) that by (auto simp: dev_name_def)
  have p: "dev_name C' p = Some (kd_name dev)" using assms(4) by (simp add: dev_name_def)
  show "client_rep C' (p # xs)"
    using assms(1,2,5,6) names p by (auto simp: client_rep_def inj_on_def names_in_def image_iff)
  show "names_in C' (p # xs) = insert (kd_name dev) (names_in C xs)"
    using names p by (auto simp: names_in_def image_iff)
qed

lemma register_slot:
  fixes d :: sdbfs_dev
  assumes "client_rep C xs" and "p \<notin> set xs"
  defines "C' \<equiv> C\<lparr>kd_heap := (kd_heap C)(p \<mapsto> d)\<rparr>"
  shows "sdbfs_register_device C' p = Some (if kd_name d \<in> names_in C xs then (C', - EBUSY)
    else (C'\<lparr>sdbfs_devlist := p # xs\<rparr>, 0))"
proof -
  have rep: "client_rep C' xs" "names_in C' xs = names_in C xs"
    using client_rep_moved [OF assms(1,2), of C'] assms(1) by (simp_all add: C'_def client_rep_def)
  have d: "kd_heap C' p = Some d" by (simp add: C'_def)
  show ?thesis
  proof (cases "kd_name d \<in> names_in C xs")
    case True
    then obtain x where "x \<in> set xs" "dev_name C' x = Some (kd_name d)"
      unfolding rep(2) [symmetric] by (auto simp: names_in_def)
    then show ?thesis using register_busy [OF rep(1) _ d] True by simp
  next
    case False
    then have "client_admissible C' xs p"
      unfolding rep(2) [symmetric] using d by (auto simp: client_admissible_def names_in_def dev_name_def)
    then show ?thesis using register_rep(1) [OF rep(1)] False by simp
  qed
qed

lemma unregister_filter:
  assumes "distinct (sdbfs_devlist C)"
  shows "sdbfs_unregister_device C p = C\<lparr>sdbfs_devlist := filter (\<lambda>q. q \<noteq> p) (sdbfs_devlist C)\<rparr>"
proof -
  have "filter (\<lambda>q. q \<noteq> p) (sdbfs_devlist C) = remove1 p (sdbfs_devlist C)"
    using assms by (simp add: distinct_remove1_removeAll removeAll_filter_not_eq eq_commute)
  then show ?thesis by (simp add: sdbfs_unregister_device_def remove1_idem)
qed

lemma client_found:
  assumes "client_rep C xs" and "p \<in> set xs" and "dev_name C p = Some n"
  shows "scan_names C n xs = Some (Some p)"
proof -
  obtain q where q: "find (\<lambda>x. dev_name C x = Some n) xs = Some q"
    using assms(2,3) by (cases "find (\<lambda>x. dev_name C x = Some n) xs") (auto simp: find_None_iff)
  then have "q \<in> set xs" "dev_name C q = Some n" by (auto simp: find_Some_iff)
  then have "q = p" using assms by (intro inj_onD [of "dev_name C" "set xs"]) (simp_all add: client_rep_def)
  then show ?thesis using assms(1) q by (simp add: client_rep_def scan_names_find)
qed

locale slot_driver =
  fixes step :: "nat \<Rightarrow> 'p \<Rightarrow> 's \<Rightarrow> ('s \<times> bool) option" and out :: "nat \<Rightarrow> 's \<Rightarrow> 's"
    and client_of :: "'s \<Rightarrow> client" and slot :: "nat \<Rightarrow> u64"
    and fit :: "'s \<Rightarrow> nat \<Rightarrow> bool" and ready :: "'s \<Rightarrow> nat \<Rightarrow> bool"
    and held :: "'s \<Rightarrow> 'r multiset" and part :: "'s \<Rightarrow> nat \<Rightarrow> 'r multiset"
    and usable :: "'p \<Rightarrow> bool" and offer :: "'p \<Rightarrow> sdbfs_dev option" and left :: "'p \<Rightarrow> 'r multiset"
  assumes step_ok: "fit s i \<Longrightarrow> usable d \<Longrightarrow> client_rep (client_of s) xs \<Longrightarrow> slot i \<notin> set xs \<Longrightarrow>
      \<exists>s' made. step i d s = Some (s', made) \<and> ready s' i = made
        \<and> (\<forall>j. j \<noteq> i \<longrightarrow> ready s' j = ready s j \<and> part s' j = part s j \<and> fit s' j = fit s j)
        \<and> (\<forall>q. q \<noteq> slot i \<longrightarrow> kd_heap (client_of s') q = kd_heap (client_of s) q)
        \<and> (case offer d of
             None \<Rightarrow> \<not> made \<and> sdbfs_devlist (client_of s') = xs \<and> held s' = held s
           | Some dev \<Rightarrow>
               if kd_name dev \<in> names_in (client_of s) xs
               then \<not> made \<and> sdbfs_devlist (client_of s') = xs \<and> held s' = held s + left d
               else made \<and> sdbfs_devlist (client_of s') = slot i # xs
                 \<and> kd_heap (client_of s') (slot i) = Some dev \<and> held s' = held s + part s' i)"
    and out_ready: "ready s i \<Longrightarrow> client_of (out i s) = sdbfs_unregister_device (client_of s) (slot i)
        \<and> held (out i s) = held s - part s i \<and> ready (out i s) = ready s \<and> part (out i s) = part s"
    and out_idle: "\<not> ready s i \<Longrightarrow> out i s = s"
begin

lemma step_cases:
  assumes "fit s i" and "usable d" and "client_rep (client_of s) xs" and "slot i \<notin> set xs"
  obtains s' made ys where "step i d s = Some (s', made)" and "ready s' i = made"
    and "\<forall>j. j \<noteq> i \<longrightarrow> ready s' j = ready s j \<and> part s' j = part s j \<and> fit s' j = fit s j"
    and "\<forall>q. q \<noteq> slot i \<longrightarrow> kd_heap (client_of s') q = kd_heap (client_of s) q"
    and "client_rep (client_of s') ys" and "ys = (if made then slot i # xs else xs)"
    and "\<And>ds. accepted offer (names_in (client_of s) xs) i (d # ds)
      = (if made then [(i, the (kd_heap (client_of s') (slot i)))] else [])
        @ accepted offer (names_in (client_of s') ys) (Suc i) ds"
    and "\<And>ds. held s + left_over offer left (names_in (client_of s) xs) (d # ds)
      + (if made then part s' i else {#}) = held s' + left_over offer left (names_in (client_of s') ys) ds"
    and "made \<longrightarrow> kd_heap (client_of s') (slot i) \<noteq> None"
proof -
  from step_ok [OF assms] obtain s' made where s: "step i d s = Some (s', made)" "ready s' i = made"
    "\<forall>j. j \<noteq> i \<longrightarrow> ready s' j = ready s j \<and> part s' j = part s j \<and> fit s' j = fit s j"
    and heap: "\<forall>q. q \<noteq> slot i \<longrightarrow> kd_heap (client_of s') q = kd_heap (client_of s) q"
    and r: "case offer d of None \<Rightarrow> \<not> made \<and> sdbfs_devlist (client_of s') = xs \<and> held s' = held s
       | Some dev \<Rightarrow> if kd_name dev \<in> names_in (client_of s) xs
           then \<not> made \<and> sdbfs_devlist (client_of s') = xs \<and> held s' = held s + left d
           else made \<and> sdbfs_devlist (client_of s') = slot i # xs
             \<and> kd_heap (client_of s') (slot i) = Some dev \<and> held s' = held s + part s' i"
    by blast
  note same = client_rep_moved [OF assms(3,4) heap] and new = client_rep_added [OF assms(3,4) heap]
  show thesis
  proof (cases "made")
    case False
    then show thesis
      using r same s heap
      by (intro that [of s' made xs]) (auto split: option.splits if_splits simp: ac_simps)
  next
    case True
    then obtain dev where dev: "offer d = Some dev" "kd_name dev \<notin> names_in (client_of s) xs"
      "sdbfs_devlist (client_of s') = slot i # xs" "kd_heap (client_of s') (slot i) = Some dev"
      "held s' = held s + part s' i"
      using r by (auto split: option.splits if_splits)
    then show thesis
      using True new [OF dev(4,2,3)] s heap by (intro that [of s' made "slot i # xs"]) (auto simp: ac_simps)
  qed
qed

text \<open>What the structures from \<open>i\<close> on hold.\<close>

fun parts :: "'s \<Rightarrow> nat list \<Rightarrow> 'r multiset" where
  "parts s [] = {#}"
| "parts s (i # is) = (if ready s i then part s i else {#}) + parts s is"

lemma parts_cong:
  "(\<And>j. j \<in> set is \<Longrightarrow> ready s' j = ready s j \<and> part s' j = part s j) \<Longrightarrow> parts s' is = parts s is"
  by (induction "is") auto

lemma parts_append: "parts s (is @ js) = parts s is + parts s js"
  by (induction "is") (auto simp: ac_simps)

text \<open>What a load from index \<open>i\<close> on, over \<open>n\<close> parameters, does to the structures: those of the devices
  made are ready and filled in, all others are as they were.\<close>

definition loaded :: "nat \<Rightarrow> nat \<Rightarrow> (nat \<times> sdbfs_dev) list \<Rightarrow> 's \<Rightarrow> 's \<Rightarrow> bool" where
  "loaded i n acc s s' \<longleftrightarrow> (\<forall>(j, dev)\<in>set acc. kd_heap (client_of s') (slot j) = Some dev)
     \<and> (\<forall>j. ready s' j \<longleftrightarrow> (if i \<le> j \<and> j < i + n then j \<in> fst ` set acc else ready s j))
     \<and> (\<forall>j < i. part s' j = part s j)
     \<and> (\<forall>q. q \<notin> slot ` {i ..< i + n} \<longrightarrow> kd_heap (client_of s') q = kd_heap (client_of s) q)"

lemma loaded_step:
  assumes made: "ready s1 i = made"
    and keep: "\<forall>j. j \<noteq> i \<longrightarrow> ready s1 j = ready s j \<and> part s1 j = part s j \<and> fit s1 j = fit s j"
    and heap: "\<forall>q. q \<noteq> slot i \<longrightarrow> kd_heap (client_of s1) q = kd_heap (client_of s) q"
    and dev: "made \<longrightarrow> kd_heap (client_of s1) (slot i) \<noteq> None"
    and rest: "loaded (Suc i) n acc s1 s2" and bound: "\<forall>x\<in>set acc. Suc i \<le> fst x \<and> fst x < Suc i + n"
    and apart: "slot i \<notin> slot ` {Suc i ..< Suc i + n}"
  shows "loaded i (Suc n) ((if made then [(i, the (kd_heap (client_of s1) (slot i)))] else []) @ acc) s s2"
    and "part s2 i = part s1 i" and "ready s2 i = made"
proof -
  let ?acc = "(if made then [(i, the (kd_heap (client_of s1) (slot i)))] else []) @ acc"
  have i: "kd_heap (client_of s2) (slot i) = kd_heap (client_of s1) (slot i)"
    using rest apart unfolding loaded_def by blast
  show "part s2 i = part s1 i" "ready s2 i = made" using rest made by (auto simp: loaded_def)
  note r = this
  have "ready s2 j \<longleftrightarrow> (if i \<le> j \<and> j < i + Suc n then j \<in> fst ` set ?acc else ready s j)" for j
  proof -
    consider "j = i" | "Suc i \<le> j" "j < Suc i + n" | "j < i \<or> Suc i + n \<le> j" by linarith
    then show ?thesis
    proof cases
      case 1
      then show ?thesis using r(2) bound by fastforce
    next
      case 2
      then show ?thesis using rest by (auto simp: loaded_def)
    next
      case 3
      then show ?thesis using rest keep by (auto simp: loaded_def)
    qed
  qed
  moreover have "kd_heap (client_of s2) q = kd_heap (client_of s) q" if "q \<notin> slot ` {i ..< i + Suc n}" for q
  proof -
    have "q \<noteq> slot i" "q \<notin> slot ` {Suc i ..< Suc i + n}" using that by auto
    then show ?thesis using rest heap by (simp add: loaded_def)
  qed
  moreover have "\<forall>j < i. part s2 j = part s j" using rest keep by (simp add: loaded_def)
  moreover have "\<forall>(j, dev)\<in>set ?acc. kd_heap (client_of s2) (slot j) = Some dev"
    using rest i dev by (auto simp: loaded_def)
  ultimately show "loaded i (Suc n) ?acc s s2" unfolding loaded_def by blast
qed

lemma load:
  assumes "\<forall>j. i \<le> j \<longrightarrow> j < i + length ds \<longrightarrow> fit s j" and "\<forall>d\<in>set ds. usable d" and "client_rep (client_of s) xs"
    and "\<forall>j. i \<le> j \<longrightarrow> j < i + length ds \<longrightarrow> slot j \<notin> set xs" and "inj_on slot {..< i + length ds}"
  shows "\<exists>s'. for_each step i ds s = Some (s', length (accepted offer (names_in (client_of s) xs) i ds))
    \<and> client_rep (client_of s') (rev (map (slot \<circ> fst) (accepted offer (names_in (client_of s) xs) i ds)) @ xs)
    \<and> loaded i (length ds) (accepted offer (names_in (client_of s) xs) i ds) s s'
    \<and> held s' = held s + left_over offer left (names_in (client_of s) xs) ds + parts s' [i ..< i + length ds]"
  using assms
proof (induction ds arbitrary: i s xs)
  case Nil
  then show ?case by (auto simp: loaded_def not_less)
next
  case (Cons d ds)
  have "fit s i" "usable d" "slot i \<notin> set xs" using Cons.prems by auto
  then show ?case
  proof (rule step_cases [OF _ _ Cons.prems(3)])
    fix s1 made ys
    let ?used = "names_in (client_of s) xs" and ?acc = "accepted offer (names_in (client_of s1) ys) (Suc i) ds"
    assume step: "step i d s = Some (s1, made)"
      and keep: "\<forall>j. j \<noteq> i \<longrightarrow> ready s1 j = ready s j \<and> part s1 j = part s j \<and> fit s1 j = fit s j"
      and rep: "client_rep (client_of s1) ys" and ys: "ys = (if made then slot i # xs else xs)"
      and acc: "\<And>ds. accepted offer ?used i (d # ds)
        = (if made then [(i, the (kd_heap (client_of s1) (slot i)))] else [])
          @ accepted offer (names_in (client_of s1) ys) (Suc i) ds"
      and held: "\<And>ds. held s + left_over offer left ?used (d # ds)
        + (if made then part s1 i else {#}) = held s1 + left_over offer left (names_in (client_of s1) ys) ds"
      and new: "ready s1 i = made" "\<forall>q. q \<noteq> slot i \<longrightarrow> kd_heap (client_of s1) q = kd_heap (client_of s) q"
        "made \<longrightarrow> kd_heap (client_of s1) (slot i) \<noteq> None"
    have apart: "slot j \<noteq> slot i" if "Suc i \<le> j" "j < Suc i + length ds" for j
      using inj_onD [OF Cons.prems(5), of j i] that by auto
    have fresh: "slot i \<notin> slot ` {Suc i ..< Suc i + length ds}"
      using apart by (metis (no_types, lifting) atLeastLessThan_iff imageE)
    have "\<forall>j. Suc i \<le> j \<longrightarrow> j < Suc i + length ds \<longrightarrow> slot j \<notin> set ys"
      using Cons.prems(4) apart by (auto simp: ys)
    moreover have "\<forall>j. Suc i \<le> j \<longrightarrow> j < Suc i + length ds \<longrightarrow> fit s1 j" "\<forall>d\<in>set ds. usable d" "inj_on slot {..< Suc i + length ds}"
      using Cons.prems(1,2,5) keep by auto
    ultimately obtain s2 where s2: "for_each step (Suc i) ds s1 = Some (s2, length ?acc)"
      "client_rep (client_of s2) (rev (map (slot \<circ> fst) ?acc) @ ys)" "loaded (Suc i) (length ds) ?acc s1 s2"
      "held s2 = held s1 + left_over offer left (names_in (client_of s1) ys) ds + parts s2 [Suc i ..< Suc i + length ds]"
      using Cons.IH [OF _ _ rep] by blast
    have "\<forall>x\<in>set ?acc. Suc i \<le> fst x \<and> fst x < Suc i + length ds" by (blast dest: accepted_bounds)
    note l = loaded_step [OF new(1) keep new(2,3) s2(3) this fresh, folded acc]
    have range: "[i ..< i + length (d # ds)] = i # [Suc i ..< Suc i + length ds]" by (subst upt_conv_Cons) simp_all
    have "for_each step i (d # ds) s = Some (s2, length (accepted offer ?used i (d # ds)))"
      using s2(1) step by (simp only: for_each.simps acc) simp
    moreover have "client_rep (client_of s2) (rev (map (slot \<circ> fst) (accepted offer ?used i (d # ds))) @ xs)"
      using s2(2) unfolding acc by (simp add: ys split: if_splits)
    moreover have "held s2 = held s + left_over offer left ?used (d # ds) + parts s2 [i ..< i + length (d # ds)]"
      using held [of ds] unfolding range parts.simps s2(4) l(2,3) by (simp add: ac_simps)
    moreover have "loaded i (length (d # ds)) (accepted offer ?used i (d # ds)) s s2" using l(1) by simp
    ultimately show ?thesis by blast
  qed
qed

text \<open>The loop of the exit function.\<close>

lemma unload:
  "client_of (fold out [0 ..< n] s) = (client_of s)\<lparr>sdbfs_devlist :=
      filter (\<lambda>p. p \<notin> slot ` {j. j < n \<and> ready s j}) (sdbfs_devlist (client_of s))\<rparr>
    \<and> held (fold out [0 ..< n] s) = held s - parts s [0 ..< n]
    \<and> ready (fold out [0 ..< n] s) = ready s \<and> part (fold out [0 ..< n] s) = part s"
  if "distinct (sdbfs_devlist (client_of s))"
proof (induction n)
  case (Suc n)
  let ?s = "fold out [0 ..< n] s"
  show ?case
  proof (cases "ready s n")
    case True
    have "{j. j < Suc n \<and> ready s j} = insert n {j. j < n \<and> ready s j}" using True by (auto simp: less_Suc_eq)
    then have "filter (\<lambda>q. q \<noteq> slot n) (filter (\<lambda>p. p \<notin> slot ` {j. j < n \<and> ready s j}) (sdbfs_devlist (client_of s)))
        = filter (\<lambda>p. p \<notin> slot ` {j. j < Suc n \<and> ready s j}) (sdbfs_devlist (client_of s))"
      by (auto intro: filter_cong)
    moreover have "distinct (sdbfs_devlist (client_of ?s))" using Suc that by simp
    ultimately show ?thesis
      using Suc out_ready [of ?s n] True by (simp add: unregister_filter parts_append)
  next
    case False
    then have "{j. j < Suc n \<and> ready s j} = {j. j < n \<and> ready s j}" by (auto simp: less_Suc_eq)
    then show ?thesis using Suc out_idle [of ?s n] False by (simp add: parts_append)
  qed
qed simp

lemma load_unload:
  assumes "\<forall>j < length ds. fit s j" and "\<forall>d\<in>set ds. usable d" and "client_rep (client_of s) xs"
    and "\<forall>j < length ds. slot j \<notin> set xs" and "inj_on slot {..< length ds}"
    and acc: "acc = accepted offer (names_in (client_of s) xs) 0 ds"
  obtains s' where "for_each step 0 ds s = Some (s', length acc)"
    and "sdbfs_devlist (client_of s') = rev (map (slot \<circ> fst) acc) @ xs"
    and "\<forall>(j, dev)\<in>set acc. kd_heap (client_of s') (slot j) = Some dev
      \<and> scan_names (client_of s') (kd_name dev) (sdbfs_devlist (client_of s')) = Some (Some (slot j))"
    and "sdbfs_devlist (client_of (fold out [0 ..< length ds] s')) = xs"
    and "held (fold out [0 ..< length ds] s') = held s + left_over offer left (names_in (client_of s) xs) ds"
proof -
  have fits: "\<forall>j. 0 \<le> j \<longrightarrow> j < length ds \<longrightarrow> fit s j" using assms(1) by simp
  have fresh: "\<forall>j. 0 \<le> j \<longrightarrow> j < length ds \<longrightarrow> slot j \<notin> set xs" using assms(4) by simp
  from load [of 0 ds s xs, folded acc, unfolded add_0, OF fits assms(2,3) fresh assms(5)]
  obtain s' where s': "for_each step 0 ds s = Some (s', length acc)"
    and rep: "client_rep (client_of s') (rev (map (slot \<circ> fst) acc) @ xs)"
    and loaded: "loaded 0 (length ds) acc s s'"
    and held: "held s' = held s + left_over offer left (names_in (client_of s) xs) ds + parts s' [0 ..< length ds]"
    by blast
  have devs: "\<forall>(j, dev)\<in>set acc. kd_heap (client_of s') (slot j) = Some dev"
    and ready: "\<forall>j < length ds. ready s' j \<longleftrightarrow> j \<in> fst ` set acc"
    using loaded by (simp_all add: loaded_def)
  have bound: "j < length ds" if "j \<in> fst ` set acc" for j
    using that accepted_bounds [of _ offer _ 0 ds] unfolding acc by fastforce
  have list: "sdbfs_devlist (client_of s') = rev (map (slot \<circ> fst) acc) @ xs" using rep by (simp add: client_rep_def)
  have "scan_names (client_of s') (kd_name dev) (sdbfs_devlist (client_of s')) = Some (Some (slot j))"
    if dev: "(j, dev) \<in> set acc" for j dev
    unfolding list
  proof (rule client_found [OF rep])
    show "slot j \<in> set (rev (map (slot \<circ> fst) acc) @ xs)" using dev by force
    show "dev_name (client_of s') (slot j) = Some (kd_name dev)" using dev devs by (auto simp: dev_name_def)
  qed
  then have "\<forall>(j, dev)\<in>set acc. kd_heap (client_of s') (slot j) = Some dev
      \<and> scan_names (client_of s') (kd_name dev) (sdbfs_devlist (client_of s')) = Some (Some (slot j))"
    using devs by blast
  moreover have "{j. j < length ds \<and> ready s' j} = fst ` set acc"
    using ready bound by auto
  moreover have "filter (\<lambda>p. p \<notin> slot ` fst ` set acc) (rev (map (slot \<circ> fst) acc) @ xs) = xs"
  proof -
    have "slot j \<notin> set xs" if "j \<in> fst ` set acc" for j
      using assms(4) bound [OF that] by simp
    then have "filter (\<lambda>p. p \<notin> slot ` fst ` set acc) xs = xs" by (intro filter_True) auto
    moreover have "filter (\<lambda>p. p \<notin> slot ` fst ` set acc) (rev (map (slot \<circ> fst) acc)) = []"
      by (auto simp: filter_empty_conv)
    ultimately show ?thesis by simp
  qed
  moreover have "distinct (sdbfs_devlist (client_of s'))" using rep by (simp add: client_rep_def)
  ultimately show thesis
    using that [OF s' list] unload [of s' "length ds"] held by (simp add: list)
qed

end

end
