(* ===== verification/SdbfsModules.thy ===== *)
theory SdbfsModules
  imports SlotDriver
begin

text \<open>
  Loading and unloading the modules of the SDB file system: the memory areas of
  src/sdbfs/kernel/sdb-iomem.c, the firmware images of sdb-fakedev.c, the file system itself
  (sdbfs-core.c). The module parameters, what \<open>ioremap\<close> and the firmware loader answer, and the
  addresses of the structures are arguments; a mapped area is in memory. Messages are not modelled.
\<close>

subsection \<open>Memory areas\<close>

text \<open>A conversion \<open>%lx\<close> of the kernel's \<open>sscanf\<close>, which wraps around; the number, and the text
  behind it.\<close>

definition scan_lx :: "bytes \<Rightarrow> (u64 \<times> bytes) option" where
  "scan_lx s = (case dropWhile isspace s of
     [] \<Rightarrow> None
   | c # r \<Rightarrow>
      if digit_val 16 c = None then None
      else let ds = (if is_0x (c # r) then tl r else c # r)
           in Some (of_nat (scan_digits 16 0 ds), dropWhile (\<lambda>c. digit_val 16 c \<noteq> None) ds))"

text \<open>One of the two formats, with the character between address and second number: what has been
  assigned to the numbers, and the result of \<open>sscanf\<close>, which counts a character behind the entry
  point too.\<close>

definition scan_area :: "u8 \<Rightarrow> bytes \<Rightarrow> u64 list \<times> nat" where
  "scan_area sep at =
     (if take 1 at \<noteq> [0x40] then ([], 0)
      else case scan_lx (drop 1 at) of
        None \<Rightarrow> ([], 0)
      | Some (addr, s) \<Rightarrow>
         if take 1 s \<noteq> [sep] then ([addr], 1)
         else case scan_lx (drop 1 s) of
           None \<Rightarrow> ([addr], 1)
         | Some (sz, s) \<Rightarrow>
            if take 1 s \<noteq> [0x3d] then ([addr, sz], 2)
            else case scan_lx (drop 1 s) of
              None \<Rightarrow> ([addr, sz], 2)
            | Some (ent, s) \<Rightarrow> ([addr, sz, ent], if s = [] then 3 else 4))"

record sdbmem_dev =
  md_sd :: sdbfs_dev
  md_mem :: sdbmem
  md_ready :: bool

text \<open>The structure after \<open>memset\<close>. It has no name and no methods yet.\<close>

definition zero_sdbmem :: sdbmem_dev where
  "zero_sdbmem = \<lparr>md_sd = \<lparr>kd_name = [], kd_flags = 0, kd_blocksize = 0, kd_entrypoint = 0, kd_owner = 0,
       kd_read = (\<lambda>beg count. None), kd_size = 0\<rparr>,
     md_mem = \<lparr>sm_address = 0, sm_datalen = 0\<rparr>, md_ready = False\<rparr>"

text \<open>Parsing a description, and mapping the area.\<close>

definition sdbmem_parse :: "(u64 \<Rightarrow> u64 \<Rightarrow> u64 option) \<Rightarrow> bytes \<Rightarrow> sdbmem_dev \<times> int" where
  "sdbmem_parse ioremap desc =
     (let d = zero_sdbmem in
      if 0x40 \<notin> set desc then (d, - EINVAL)
      else
        let at = dropWhile (\<lambda>c. c \<noteq> 0x40) desc;
            (vals, i) = scan_area 0x2b at;
            (vals, i) = (if i \<noteq> 1 then (vals, i)
              else case scan_area 0x2d at of (vals, i) \<Rightarrow>
                (case vals of addr # sz # r \<Rightarrow> addr # (sz - addr) # r | _ \<Rightarrow> vals, i));
            d = d\<lparr>md_sd := (md_sd d)\<lparr>kd_entrypoint := (if 3 \<le> i then vals ! 2 else 0)\<rparr>\<rparr>
        in if i < 2 \<or> 3 < i then (d, - EINVAL)
           else
             let d = d\<lparr>md_sd := (md_sd d)\<lparr>kd_name := takeWhile (\<lambda>c. c \<noteq> 0x40) desc\<rparr>\<rparr>
             in case ioremap (vals ! 0) (vals ! 1) of
                  None \<Rightarrow> (d, - ENOMEM)
                | Some a \<Rightarrow> (d\<lparr>md_sd := (md_sd d)\<lparr>kd_size := vals ! 1\<rparr>,
                    md_mem := \<lparr>sm_address = a, sm_datalen = vals ! 1\<rparr>\<rparr>, 0))"

text \<open>The module's state: the registry, the array of structures, the areas mapped.\<close>

record iomem =
  im_client :: client
  sdbmem_devs :: "sdbmem_dev list"
  im_maps :: "u64 list"

text \<open>What is given: the byte order of the host, memory, \<open>ioremap\<close>, the firmware loader,
  the result of \<open>device_add\<close>, the addresses of the structures, the module itself.\<close>

record module_env =
  me_endian :: endian
  me_mem :: mem
  me_ioremap :: "u64 \<Rightarrow> u64 \<Rightarrow> u64 option"
  me_firmware :: "bytes \<Rightarrow> firmware option"     \<comment> \<open>the loader's answer to a name\<close>
  me_device_add :: int
  me_slot :: "nat \<Rightarrow> u64"
  me_module :: nat

text \<open>\<open>readl\<close> reads a little-endian word on every host.\<close>

definition readl :: "mem \<Rightarrow> u64 \<Rightarrow> u32 option" where
  "readl m a = map_option le_word (load_bytes m a 4)"

definition store_sdbmem :: "module_env \<Rightarrow> nat \<Rightarrow> sdbmem_dev \<Rightarrow> iomem \<Rightarrow> iomem" where
  "store_sdbmem E i d M = M\<lparr>sdbmem_devs := (sdbmem_devs M)[i := d],
     im_client := (im_client M)\<lparr>kd_heap := (kd_heap (im_client M))(me_slot E i \<mapsto> md_sd d)\<rparr>\<rparr>"

text \<open>One round of the loop of \<open>sdbmem_init\<close>; whether it made a device.\<close>

definition init_area :: "module_env \<Rightarrow> nat \<Rightarrow> bytes \<Rightarrow> iomem \<Rightarrow> (iomem \<times> bool) option" where
  "init_area E i desc M =
     (case sdbmem_parse (me_ioremap E) desc of (d, err) \<Rightarrow>
        if err < 0 then Some (store_sdbmem E i d M, False)
        else do {
          let a = sm_address (md_mem d);
          let M = (store_sdbmem E i d M)\<lparr>im_maps := a # im_maps M\<rparr>;
          magic \<leftarrow> readl (me_mem E) (a + kd_entrypoint (md_sd d));
          if magic \<noteq> SDB_MAGIC \<and> magic \<noteq> ntohl (me_endian E) SDB_MAGIC
          then Some (M\<lparr>im_maps := remove1 a (im_maps M)\<rparr>, False)
          else do {
            let d = d\<lparr>md_sd := (md_sd d)\<lparr>kd_blocksize := 4, kd_owner := me_module E,
                        kd_read := sdbmem_read (me_mem E) (md_mem d)\<rparr>\<rparr>;
            let M = store_sdbmem E i d M;
            (C, err) \<leftarrow> sdbfs_register_device (im_client M) (me_slot E i);
            let M = M\<lparr>im_client := C\<rparr>;
            if err < 0 then Some (M, False)
            else Some (M\<lparr>sdbmem_devs := (sdbmem_devs M)[i := d\<lparr>md_ready := True\<rparr>]\<rparr>, True) } })"

definition sdbmem_init :: "module_env \<Rightarrow> bytes list \<Rightarrow> iomem \<Rightarrow> (iomem \<times> int) option" where
  "sdbmem_init E areas M = do {
     (M, made) \<leftarrow> for_each (init_area E) 0 areas M;
     Some (M, if made \<noteq> 0 then 0 else - ENODEV) }"

definition exit_area :: "module_env \<Rightarrow> nat \<Rightarrow> iomem \<Rightarrow> iomem" where
  "exit_area E i M =
     (let d = sdbmem_devs M ! i in
      if \<not> md_ready d then M
      else M\<lparr>im_client := sdbfs_unregister_device (im_client M) (me_slot E i),
             im_maps := remove1 (sm_address (md_mem d)) (im_maps M)\<rparr>)"

definition sdbmem_exit :: "module_env \<Rightarrow> nat \<Rightarrow> iomem \<Rightarrow> iomem" where
  "sdbmem_exit E narea M = fold (exit_area E) [0 ..< narea] M"

text \<open>The device that a description makes: its area can be mapped and starts with the magic number,
  which has to be mapped to be looked at.\<close>

definition magic_ok :: "endian \<Rightarrow> u32 \<Rightarrow> bool" where
  "magic_ok e magic \<longleftrightarrow> magic = SDB_MAGIC \<or> magic = ntohl e SDB_MAGIC"

definition area_magic :: "module_env \<Rightarrow> sdbmem_dev \<Rightarrow> u32 option" where
  "area_magic E d = readl (me_mem E) (sm_address (md_mem d) + kd_entrypoint (md_sd d))"

definition area_usable :: "module_env \<Rightarrow> bytes \<Rightarrow> bool" where
  "area_usable E desc \<longleftrightarrow> (case sdbmem_parse (me_ioremap E) desc of (d, err) \<Rightarrow> err < 0 \<or> area_magic E d \<noteq> None)"

definition area_device :: "module_env \<Rightarrow> bytes \<Rightarrow> sdbfs_dev option" where
  "area_device E desc = (case sdbmem_parse (me_ioremap E) desc of (d, err) \<Rightarrow>
     if err < 0 then None
     else if map_option (magic_ok (me_endian E)) (area_magic E d) = Some True
     then Some ((md_sd d)\<lparr>kd_blocksize := 4, kd_owner := me_module E,
       kd_read := sdbmem_read (me_mem E) (md_mem d)\<rparr>)
     else None)"

definition area_left :: "module_env \<Rightarrow> bytes \<Rightarrow> u64 multiset" where
  "area_left E desc = {# sm_address (md_mem (fst (sdbmem_parse (me_ioremap E) desc))) #}"

lemma parse_idle: "sdbmem_parse r desc = (d, err) \<Longrightarrow> \<not> md_ready d"
  by (auto simp: sdbmem_parse_def zero_sdbmem_def Let_def split: if_splits prod.splits option.splits list.splits)

interpretation areas: slot_driver "init_area E" "exit_area E" im_client "me_slot E"
    "\<lambda>M i. i < length (sdbmem_devs M)" "\<lambda>M i. md_ready (sdbmem_devs M ! i)" "\<lambda>M. mset (im_maps M)"
    "\<lambda>M i. {# sm_address (md_mem (sdbmem_devs M ! i)) #}" "area_usable E" "area_device E" "area_left E" for E
proof (unfold_locales, goal_cases)
  case (1 M i desc xs)
  obtain d err where parse: "sdbmem_parse (me_ioremap E) desc = (d, err)" by fastforce
  have idle: "\<not> md_ready d" by (rule parse_idle [OF parse])
  have list: "sdbfs_devlist (im_client M) = xs" using 1(3) by (simp add: client_rep_def)
  show ?case
  proof (cases "err < 0")
    case True
    then show ?thesis
      using parse idle list 1(1) by (simp add: init_area_def area_device_def store_sdbmem_def fun_eq_iff)
  next
    case False
    then obtain magic where magic: "area_magic E d = Some magic" using 1(2) parse by (auto simp: area_usable_def)
    show ?thesis
    proof (cases "magic_ok (me_endian E) magic")
      case bad: False
      then show ?thesis
        using parse False idle list 1(1) magic
        by (simp add: init_area_def area_device_def store_sdbmem_def fun_eq_iff area_magic_def magic_ok_def Let_def)
    next
      case True
      let ?sd = "(md_sd d)\<lparr>kd_blocksize := 4, kd_owner := me_module E, kd_read := sdbmem_read (me_mem E) (md_mem d)\<rparr>"
      have "area_device E desc = Some ?sd" using parse False magic True by (simp add: area_device_def)
      moreover have "area_left E desc = {# sm_address (md_mem d) #}" using parse by (simp add: area_left_def)
      ultimately show ?thesis
        using parse False idle list 1(1) magic True register_slot [OF 1(3,4), of ?sd]
        by (simp add: init_area_def store_sdbmem_def fun_eq_iff area_magic_def magic_ok_def Let_def EBUSY_def)
    qed
  qed
next
  case (2 M i)
  then show ?case by (simp add: exit_area_def Let_def)
next
  case (3 M i)
  then show ?case by (simp add: exit_area_def)
qed


subsection \<open>Firmware images\<close>

record fakedev_slot =
  fd_sd :: sdbfs_dev
  fd_fw :: "firmware option"

record fakedevs =
  fk_client :: client
  fakedev_devs :: "fakedev_slot list"
  fk_loaded :: "firmware list"     \<comment> \<open>the images held\<close>
  fk_device :: bool     \<comment> \<open>whether \<open>fakedev_device\<close> has been added\<close>

text \<open>The array is static: this is what it holds when the module is loaded.\<close>

definition zero_fakedev :: fakedev_slot where
  "zero_fakedev = \<lparr>fd_sd = md_sd zero_sdbmem, fd_fw = None\<rparr>"

definition store_fakedev :: "module_env \<Rightarrow> nat \<Rightarrow> fakedev_slot \<Rightarrow> fakedevs \<Rightarrow> fakedevs" where
  "store_fakedev E i d M = M\<lparr>fakedev_devs := (fakedev_devs M)[i := d],
     fk_client := (fk_client M)\<lparr>kd_heap := (kd_heap (fk_client M))(me_slot E i \<mapsto> fd_sd d)\<rparr>\<rparr>"

definition init_image :: "module_env \<Rightarrow> nat \<Rightarrow> bytes \<Rightarrow> fakedevs \<Rightarrow> (fakedevs \<times> bool) option" where
  "init_image E i name M =
     (let d = fakedev_devs M ! i in
      case me_firmware E name of
        None \<Rightarrow> Some (store_fakedev E i (d\<lparr>fd_fw := None\<rparr>) M, False)
      | Some fw \<Rightarrow> do {
          let d = d\<lparr>fd_sd := (fd_sd d)\<lparr>kd_name := name, kd_blocksize := 64, kd_size := fw_size fw,
                      kd_owner := me_module E, kd_read := fakedev_read (me_mem E) fw\<rparr>, fd_fw := Some fw\<rparr>;
          let M = (store_fakedev E i d M)\<lparr>fk_loaded := fw # fk_loaded M\<rparr>;
          (C, err) \<leftarrow> sdbfs_register_device (fk_client M) (me_slot E i);
          let M = M\<lparr>fk_client := C\<rparr>;
          if err < 0
          then Some (M\<lparr>fk_loaded := remove1 fw (fk_loaded M),
                 fakedev_devs := (fakedev_devs M)[i := d\<lparr>fd_fw := None\<rparr>]\<rparr>, False)
          else Some (M, True) })"

definition fakedev_init :: "module_env \<Rightarrow> bytes list \<Rightarrow> fakedevs \<Rightarrow> (fakedevs \<times> int) option" where
  "fakedev_init E imgs M =
     (if me_device_add E < 0 then Some (M, me_device_add E)
      else do {
        (M, made) \<leftarrow> for_each (init_image E) 0 imgs (M\<lparr>fk_device := True\<rparr>);
        Some (M, 0) })"

definition exit_image :: "module_env \<Rightarrow> nat \<Rightarrow> fakedevs \<Rightarrow> fakedevs" where
  "exit_image E i M =
     (case fd_fw (fakedev_devs M ! i) of
        None \<Rightarrow> M
      | Some fw \<Rightarrow> M\<lparr>fk_client := sdbfs_unregister_device (fk_client M) (me_slot E i),
                      fk_loaded := remove1 fw (fk_loaded M)\<rparr>)"

definition fakedev_exit :: "module_env \<Rightarrow> nat \<Rightarrow> fakedevs \<Rightarrow> fakedevs" where
  "fakedev_exit E nimg M = (fold (exit_image E) [0 ..< nimg] M)\<lparr>fk_device := False\<rparr>"

definition image_device :: "module_env \<Rightarrow> bytes \<Rightarrow> sdbfs_dev option" where
  "image_device E name = map_option (\<lambda>fw. (fd_sd zero_fakedev)\<lparr>kd_name := name, kd_blocksize := 64,
     kd_size := fw_size fw, kd_owner := me_module E, kd_read := fakedev_read (me_mem E) fw\<rparr>) (me_firmware E name)"

interpretation images: slot_driver "init_image E" "exit_image E" fk_client "me_slot E"
    "\<lambda>M i. i < length (fakedev_devs M) \<and> fakedev_devs M ! i = zero_fakedev"
    "\<lambda>M i. fd_fw (fakedev_devs M ! i) \<noteq> None" "\<lambda>M. mset (fk_loaded M)"
    "\<lambda>M i. mset_set (set_option (fd_fw (fakedev_devs M ! i)))" "\<lambda>name. True" "image_device E" "\<lambda>name. {#}" for E
proof (unfold_locales, goal_cases)
  case (1 M i name xs)
  have list: "sdbfs_devlist (fk_client M) = xs" using 1(3) by (simp add: client_rep_def)
  show ?case
  proof (cases "me_firmware E name")
    case None
    then show ?thesis
      using list 1(1) by (simp add: init_image_def image_device_def store_fakedev_def zero_fakedev_def)
  next
    case (Some fw)
    let ?sd = "(fd_sd zero_fakedev)\<lparr>kd_name := name, kd_blocksize := 64,
      kd_size := fw_size fw, kd_owner := me_module E, kd_read := fakedev_read (me_mem E) fw\<rparr>"
    have "image_device E name = Some ?sd" using Some by (simp add: image_device_def)
    then show ?thesis
      using Some list 1(1) register_slot [OF 1(3,4), of ?sd]
      by (simp add: init_image_def store_fakedev_def Let_def EBUSY_def)
  qed
next
  case (2 M i)
  then show ?case by (auto simp: exit_image_def)
next
  case (3 M i)
  then show ?case by (simp add: exit_image_def)
qed

subsection \<open>The file system\<close>

text \<open>What the module holds: the cache of inodes, the registration of the type.\<close>

record fs_module =
  sdbfs_inode_cache :: bool
  fm_registered :: bool

definition sdbfs_init :: "bool \<Rightarrow> int \<Rightarrow> fs_module \<Rightarrow> fs_module \<times> int" where
  "sdbfs_init cache reg M =
     (let M = M\<lparr>sdbfs_inode_cache := cache\<rparr> in
      if \<not> cache then (M, - ENOMEM) else (M\<lparr>fm_registered := (reg = 0)\<rparr>, reg))"

definition sdbfs_exit :: "fs_module \<Rightarrow> fs_module" where
  "sdbfs_exit M = M\<lparr>fm_registered := False, sdbfs_inode_cache := False\<rparr>"

text \<open>Unloading gives back what loading took; a load that fails at the registration keeps the cache.\<close>

lemma sdbfs_init_exit:
  "sdbfs_init cache reg \<lparr>sdbfs_inode_cache = False, fm_registered = False\<rparr> = (M, err) \<Longrightarrow>
    (err = 0 \<longrightarrow> M = \<lparr>sdbfs_inode_cache = True, fm_registered = True\<rparr>
      \<and> sdbfs_exit M = \<lparr>sdbfs_inode_cache = False, fm_registered = False\<rparr>)
    \<and> (err \<noteq> 0 \<longrightarrow> \<not> fm_registered M \<and> (sdbfs_inode_cache M \<longleftrightarrow> cache))"
  by (auto simp: sdbfs_init_def sdbfs_exit_def Let_def ENOMEM_def split: if_splits)

end
