(* ===== verification/KernelFlat.thy ===== *)
theory KernelFlat
  imports GenFlat SdbfsFile SdbfsModules
begin

text \<open>
  An image of a directory in the kernel: what the file system lists, looks up and reads of it, on any
  device with a backing store (\<open>sdb_backing\<close>), and how the module of firmware images and a mount get
  there.
\<close>

subsection \<open>The directory\<close>

lemma c_strncpy_id: "0 \<notin> set s \<Longrightarrow> c_strncpy (length s) s = s"
  by (induction s) auto

lemma rstrip_padded:
  assumes "plain_name fn"
  shows "rstrip (padded fn) = fn"
proof -
  have "dropWhile (\<lambda>c. c = 0x20) (rev fn) = rev fn"
    using assms by (cases "rev fn") (auto simp: plain_name_def dest: arg_cong [of "rev fn" _ set])
  then have "dropWhile (\<lambda>c. c = 0x20) (replicate k 0x20 @ rev fn) = rev fn" for k
    by (induction k) auto
  then show ?thesis unfolding padded_plain [OF assms] by (simp add: rstrip_def)
qed

lemma shown_padded:
  assumes "plain_name fn" and "chunk 44 19 r = padded fn"
  shows "shown_name e r = fn"
proof -
  have "length (padded fn) = 19" "0 \<notin> set (padded fn)"
    using assms(1) by (auto simp: padded_plain plain_name_def)
  then show ?thesis
    using assms c_strncpy_id [of "padded fn"] rstrip_padded [OF assms(1)] by (simp add: shown_name_def load_product_def)
qed

lemma table_records:
  assumes "flat_table img dot recs" and "kd_flags sd AND SDBFS_F_FIXENDIAN = 0"
  shows "dir_ok e sd img 0" and "dir_records e sd img 0 = dot # recs"
proof -
  have rec: "rec_at e sd img off = chunk off 64 img" for off
    using assms(2) by (simp add: rec_at_def sdbfs_fix_endian_def)
  have dot: "chunk 0 64 img = dot" "64 \<le> length img" "64 * length recs + 64 \<le> length img"
    using assms(1) by (auto simp: flat_table_def)
  have count: "dir_count e sd img 0 = Suc (length recs)"
    using assms(1) dot(1) by (simp add: dir_count_def rec flat_table_def)
  have "ntohl e (i_sdb_magic (load_interconnect e dot)) = SDB_MAGIC"
    using assms(1) by (simp add: flat_table_def is_intercon_def)
  then have "i_sdb_magic (load_interconnect e dot) = htonl e SDB_MAGIC" by (metis ntohl_def ntohl_htonl)
  then show "dir_ok e sd img 0" using dot count by (simp add: dir_ok_def dir_magic_def rec)
  show "dir_records e sd img 0 = dot # recs"
    using assms(1) by (intro nth_equalityI) (simp_all add: dir_records_def count rec flat_table_def del: upt_Suc)
qed

lemma file_extent: "file_start e r = first_of e r" "file_size e r = file_len e r"
  by (simp_all add: file_start_def file_size_def file_len_def first_of_def last_of_def ntohll_def)

text \<open>What looking a name up in the root directory and reading the file found gives.\<close>

definition kernel_file :: "endian \<Rightarrow> sdbfs_dev \<Rightarrow> sdbfs_inode \<Rightarrow> bytes \<Rightarrow> bool" where
  "kernel_file e sd inode content \<longleftrightarrow> i_kind inode = RegFile \<and> unat (i_size inode) = length content
     \<and> (\<forall>off count. unat off \<le> length content \<longrightarrow> unat count \<le> 16 \<longrightarrow>
        (let n = min (unat count) (length content - unat off)
         in sdbfs_read e (\<lambda>_. True) sd (k_rec inode) off count
           = Some (chunk (unat off) n content, off + of_nat n, of_nat n)))"

definition kernel_lookup ::
    "endian \<Rightarrow> (u64 \<Rightarrow> ilocked) \<Rightarrow> sdbfs_dev \<Rightarrow> sdbfs_inode \<Rightarrow> bytes \<Rightarrow> (bytes \<times> bytes) option \<Rightarrow> bool" where
  "kernel_lookup e ig sd root name found \<longleftrightarrow> (\<exists>dir. case found of
       None \<Rightarrow> sdbfs_lookup e True True ig sd root name = Some (dir, None)
     | Some f \<Rightarrow> \<exists>inode. sdbfs_lookup e True True ig sd root name = Some (dir, Some (Inr inode, False))
         \<and> kernel_file e sd inode (snd f))"

context sdb_backing
begin

lemma kernel_file_holds:
  assumes sd: "kd_read sd = rd" and size: "length img < 2 ^ 31" and r: "record_holds e img f r"
    and type: "r ! 63 = sdb_type_device"
  shows "kernel_file e sd (iget_setup e dir r node) (snd f)"
proof -
  have off: "unat (file_start e r) + unat (file_size e r) \<le> length img"
    and content: "chunk (unat (file_start e r)) (unat (file_size e r)) img = snd f"
    using r by (auto simp: record_holds_def Let_def file_extent)
  have len: "length (snd f) = unat (file_size e r)" unfolding content [symmetric] using off by simp
  let ?ino = "iget_setup e dir r node"
  have ino: "i_kind ?ino = RegFile" "k_rec ?ino = r" "i_size ?ino = file_size e r"
    using type by (simp_all add: iget_setup_def Let_def sdb_type_defs load_empty_def file_size_def file_start_def)
  have "sdbfs_read e (\<lambda>_. True) sd r off count = (let n = min (unat count) (length (snd f) - unat off)
      in Some (chunk (unat off) n (snd f), off + of_nat n, of_nat n))"
    if "unat off \<le> length (snd f)" "unat count \<le> 16" for off count
  proof -
    have "file_in e img r off" using that off len size by (simp add: file_in_def)
    moreover have "clipped e r off count = min (unat count) (length (snd f) - unat off)"
      by (simp add: clipped_def len)
    moreover have "chunk (unat (file_start e r) + unat off) (min (unat count) (length (snd f) - unat off)) img
        = chunk (unat off) (min (unat count) (length (snd f) - unat off)) (snd f)"
      unfolding content [symmetric] by (rule chunk_chunk [symmetric]) (use that len content in simp)
    ultimately show ?thesis using sdbfs_read_small [OF sd, of e r off count] that(2) by (simp add: Let_def)
  qed
  then show ?thesis by (simp add: kernel_file_def ino len Let_def)
qed

lemma lookup_dir_image:
  assumes sd: "kd_read sd = rd" "kd_flags sd AND SDBFS_F_FIXENDIAN = 0" and img: "dir_image img files"
    and names: "\<forall>f\<in>set files. plain_name (fst f)" and nm: "plain_name name" "name \<noteq> [0x2e]"
    and root: "nfiles root = 0" "base_sdb root = 0" and ig: "\<And>ino. ig ino = NewInode node"
  shows "kernel_lookup e ig sd root name (find (\<lambda>f. fst f = name) files)"
proof -
  from img obtain dot recs where dot: "chunk 44 19 dot = padded [0x2e]" and tab: "flat_table img dot recs"
    and recs: "list_all2 (record_holds e img) files recs" by (rule dir_image_table)
  have size: "length img < 2 ^ 31" using img by (simp add: dir_image_def)
  have shown: "shown_name e dot = [0x2e]" by (rule shown_padded [OF _ dot]) (simp add: plain_name_def)
  have "rel_option (\<lambda>f r. record_holds e img f r \<and> f \<in> set files \<and> r \<in> set recs)
      (find (\<lambda>f. fst f = name) files) (find (\<lambda>r. shown_name e r = name) recs)"
  proof (rule find_corresponding [OF recs])
    fix f r assume "f \<in> set files" "record_holds e img f r"
    then show "fst f = name \<longleftrightarrow> shown_name e r = name"
      using shown_padded [of "fst f" r e] names by (auto simp: record_holds_def Let_def)
  qed
  moreover note lookup_image [OF sd(1) size root(1) _ _ _ ig, of e name] table_records [OF tab sd(2), of e]
  moreover have "kernel_file e sd (iget_setup e dir r node) (snd f)"
    if "record_holds e img f r" "r \<in> set recs" for dir f r
    by (rule kernel_file_holds [OF sd(1) size that(1)]) (use that(2) tab in \<open>simp add: flat_table_def\<close>)
  ultimately show ?thesis
    using root(2) nm shown unfolding kernel_lookup_def
    by (cases "find (\<lambda>f. fst f = name) files") (auto simp: plain_name_def option_rel_Some1)
qed

text \<open>Mounting a device that holds an image.\<close>

lemma mount_dir_image:
  assumes C: "sdbfs_get_by_name tmg C name = Some (C1, Inr p)" "kd_heap C1 p = Some d"
    and d: "kd_read d = rd" "kd_entrypoint d = 0" and img: "dir_image img files"
    and ig: "ig SDBFS_ROOT = NewInode node" and garbage: "length garbage = 4"
  shows "sdbfs_fill_super e tmg ig True garbage C sb name
    = Some (C1, sb\<lparr>s_fs_info := p, s_root := Some (sdbfs_iget_root e d node)\<rparr>, 0)"
proof -
  have size: "length img < 2 ^ 31" "chunk 0 4 img = word_be 4 SDB_MAGIC" using img by (simp_all add: dir_image_def)
  have "4 \<le> length img" using arg_cong [OF size(2), of length] by (simp add: chunk_def)
  then have "rd 0 4 = Some (word_be 4 SDB_MAGIC, 4)" using rd_full [OF size(1), of 0 4] size(2) by simp
  moreover have "overlay (word_be 4 SDB_MAGIC) garbage = word_be 4 SDB_MAGIC"
    by (rule overlay_full) (simp add: garbage)
  ultimately show ?thesis
    using C d ig by (simp add: sdbfs_fill_super_def host_word_magic ntohl_def fill_root_def sdbfs_iget_def Let_def)
qed

end

subsection \<open>From the module parameter to the file\<close>

text \<open>The module may be loaded: the registry is in order, the first structure is free, the name is not
  in use, and the loader has the image under that name.\<close>

definition firmware_ready :: "module_env \<Rightarrow> fakedevs \<Rightarrow> bytes \<Rightarrow> bytes \<Rightarrow> bool" where
  "firmware_ready E M fwname img \<longleftrightarrow> 0 \<le> me_device_add E \<and> fakedev_devs M \<noteq> []
     \<and> fakedev_devs M ! 0 = zero_fakedev
     \<and> (\<exists>xs. client_rep (fk_client M) xs \<and> me_slot E 0 \<notin> set xs \<and> fwname \<notin> names_in (fk_client M) xs)
     \<and> (\<exists>a. me_mem E = image_at a img \<and> me_firmware E fwname = Some \<lparr>fw_data = a, fw_size = of_nat (length img)\<rparr>)"

definition kernel_shows :: "endian \<Rightarrow> module_env \<Rightarrow> sdbfs_inode \<Rightarrow> fakedevs \<Rightarrow> bytes \<Rightarrow> (bytes \<times> bytes) list \<Rightarrow> bool" where
  "kernel_shows e E node M fwname files \<longleftrightarrow> (\<exists>M'. fakedev_init E [fwname] M = Some (M', 0)
     \<and> (\<forall>garbage. length garbage = 4 \<longrightarrow> (\<exists>C sb root sd.
          sdbfs_fill_super e (\<lambda>owner. True) (\<lambda>ino. NewInode node) True garbage (fk_client M')
            \<lparr>s_fs_info = 0, s_root = None\<rparr> fwname = Some (C, sb, 0)
        \<and> s_root sb = Some root \<and> kd_heap C (s_fs_info sb) = Some sd
        \<and> (\<forall>name. plain_name name \<longrightarrow> name \<noteq> [0x2e] \<longrightarrow>
            kernel_lookup e (\<lambda>ino. NewInode node) sd root name (find (\<lambda>f. fst f = name) files)))))"

lemma kernel_showsE:
  assumes "kernel_shows e E node M fwname files" and "length garbage = 4" and "plain_name name" and "name \<noteq> [0x2e]"
  obtains M' C sb root sd where "fakedev_init E [fwname] M = Some (M', 0)"
    and "sdbfs_fill_super e (\<lambda>owner. True) (\<lambda>ino. NewInode node) True garbage (fk_client M')
      \<lparr>s_fs_info = 0, s_root = None\<rparr> fwname = Some (C, sb, 0)"
    and "s_root sb = Some root"
    and "kernel_lookup e (\<lambda>ino. NewInode node) sd root name (find (\<lambda>f. fst f = name) files)"
proof -
  from assms(1) obtain M' where M': "fakedev_init E [fwname] M = Some (M', 0)"
    and all: "\<forall>garbage. length garbage = 4 \<longrightarrow> (\<exists>C sb root sd.
          sdbfs_fill_super e (\<lambda>owner. True) (\<lambda>ino. NewInode node) True garbage (fk_client M')
            \<lparr>s_fs_info = 0, s_root = None\<rparr> fwname = Some (C, sb, 0)
        \<and> s_root sb = Some root \<and> kd_heap C (s_fs_info sb) = Some sd
        \<and> (\<forall>name. plain_name name \<longrightarrow> name \<noteq> [0x2e] \<longrightarrow>
            kernel_lookup e (\<lambda>ino. NewInode node) sd root name (find (\<lambda>f. fst f = name) files)))"
    unfolding kernel_shows_def by (elim exE conjE)
  from all [rule_format, OF assms(2)] assms(3,4) that [OF M'] show thesis by blast
qed

lemma firmware_mounted:
  assumes ready: "firmware_ready E M fwname img" and img: "dir_image img files"
    and names: "\<forall>f\<in>set files. plain_name (fst f)" and node: "nfiles node = 0"
  shows "kernel_shows e E node M fwname files"
proof -
  let ?M = "M\<lparr>fk_device := True\<rparr>" and ?slot = "me_slot E 0"
  from ready obtain xs a where rep: "client_rep (fk_client ?M) xs" "?slot \<notin> set xs" "fwname \<notin> names_in (fk_client ?M) xs"
    and mem: "me_mem E = image_at a img" and fw: "me_firmware E fwname = Some \<lparr>fw_data = a, fw_size = of_nat (length img)\<rparr>"
    by (auto simp: firmware_ready_def)
  define d where "d = the (image_device E fwname)"
  have d: "image_device E fwname = Some d" "kd_name d = fwname" "kd_entrypoint d = 0" "kd_flags d = 0"
    "kd_read d = fakedev_read (image_at a img) \<lparr>fw_data = a, fw_size = of_nat (length img)\<rparr>"
    using fw mem by (simp_all add: d_def image_device_def zero_fakedev_def zero_sdbmem_def)
  have acc: "[(0, d)] = accepted (image_device E) (names_in (fk_client ?M) xs) 0 [fwname]"
    using d(1,2) rep(3) by simp
  have "\<forall>j < length [fwname]. j < length (fakedev_devs ?M) \<and> fakedev_devs ?M ! j = zero_fakedev"
    "\<forall>name\<in>set [fwname]. True" "\<forall>j < length [fwname]. me_slot E j \<notin> set xs" "inj_on (me_slot E) {..< length [fwname]}"
    using ready rep(2) by (auto simp: firmware_ready_def lessThan_Suc)
  then show ?thesis
  proof (rule images.load_unload [OF _ _ rep(1) _ _ acc], goal_cases)
    case (1 M')
    define C where "C = (fk_client M')\<lparr>mod_refs := (mod_refs (fk_client M'))(kd_owner d := mod_refs (fk_client M') (kd_owner d) + 1)\<rparr>"
    have C: "sdbfs_get_by_name (\<lambda>owner. True) (fk_client M') fwname = Some (C, Inr ?slot)" "kd_heap C ?slot = Some d"
      using 1(3) d(2) by (auto simp: sdbfs_get_by_name_def C_def)
    let ?root = "sdbfs_iget_root e d node"
    have root: "nfiles ?root = 0" "base_sdb ?root = 0" using node d(3) by (simp_all add: sdbfs_iget_root_def)
    have "kd_flags d AND SDBFS_F_FIXENDIAN = 0" using d(4) by simp
    note look = fakedev.lookup_dir_image [OF d(5) this img names _ _ root]
    note mount = fakedev.mount_dir_image [OF C d(5,3) img]
    have "fakedev_init E [fwname] M = Some (M', 0)"
      using 1(1) ready by (simp add: fakedev_init_def firmware_ready_def)
    then show ?case
      unfolding kernel_shows_def using mount look C(2) by (intro exI [of _ M'] conjI) (assumption, fastforce)
  qed
qed

end
