(* ===== verification/ModuleProperties.thy ===== *)
theory ModuleProperties
  imports GenProperties KernelFlat
begin

text \<open>
  The properties of the two modules that provide devices to the SDB file system, and of the way of a
  directory through gensdbfs into the kernel, with a load of three parameters and the directory of the
  other properties of gensdbfs as their concrete inputs.
\<close>

text \<open>C20: Loading and unloading the module of memory areas: every description is looked at, and those
  whose area can be mapped, starts with the magic number in either byte order, and has a name that is
  not in use become devices, found under their names from then on; the load fails exactly if there is
  none. Unloading leaves the registry as it was, and unmaps every area but those that were turned away
  for their names.\<close>

theorem areas_load_unload:
  assumes "client_rep (im_client M) xs" and "length areas \<le> length (sdbmem_devs M)"
    and "\<forall>j < length areas. me_slot E j \<notin> set xs" and "inj_on (me_slot E) {..< length areas}"
    and "\<forall>desc\<in>set areas. area_usable E desc"
  defines "used \<equiv> names_in (im_client M) xs"
  defines "acc \<equiv> accepted (area_device E) used 0 areas"
  shows "\<exists>M'. sdbmem_init E areas M = Some (M', if acc = [] then - ENODEV else 0)
    \<and> sdbfs_devlist (im_client M') = rev (map (\<lambda>(j, dev). me_slot E j) acc) @ xs
    \<and> (\<forall>(j, dev)\<in>set acc. kd_heap (im_client M') (me_slot E j) = Some dev
        \<and> (\<exists>C. sdbfs_get_by_name (\<lambda>owner. True) (im_client M') (kd_name dev) = Some (C, Inr (me_slot E j))))
    \<and> sdbfs_devlist (im_client (sdbmem_exit E (length areas) M')) = xs
    \<and> mset (im_maps (sdbmem_exit E (length areas) M'))
      = mset (im_maps M) + left_over (area_device E) (area_left E) used areas"
proof -
  have "\<forall>j < length areas. j < length (sdbmem_devs M)" using assms(2) by simp
  from areas.load_unload [OF this assms(5,1,3,4), folded used_def, OF acc_def [THEN meta_eq_to_obj_eq]]
  obtain M' where M': "for_each (init_area E) 0 areas M = Some (M', length acc)"
    "sdbfs_devlist (im_client M') = rev (map (me_slot E \<circ> fst) acc) @ xs"
    and dev: "\<forall>(j, dev)\<in>set acc. kd_heap (im_client M') (me_slot E j) = Some dev
      \<and> scan_names (im_client M') (kd_name dev) (sdbfs_devlist (im_client M')) = Some (Some (me_slot E j))"
    and exit: "sdbfs_devlist (im_client (fold (exit_area E) [0 ..< length areas] M')) = xs"
    "mset (im_maps (fold (exit_area E) [0 ..< length areas] M'))
      = mset (im_maps M) + left_over (area_device E) (area_left E) used areas" .
  moreover have "me_slot E \<circ> fst = (\<lambda>(j, dev). me_slot E j)" by (simp add: fun_eq_iff)
  ultimately show ?thesis
    by (intro exI [of _ M']) (auto simp: sdbmem_init_def sdbmem_exit_def sdbfs_get_by_name_def)
qed

text \<open>Three descriptions: an area, one without an address, another area of the first one's name.\<close>

definition demo_module :: module_env where
  "demo_module = \<lparr>me_endian = Little, me_mem = image_at 0x1000 (word_be 4 SDB_MAGIC @ word_be 4 SDB_MAGIC),
     me_ioremap = (\<lambda>a n. Some (a - 0x1000)), me_firmware = [[0x66] \<mapsto> \<lparr>fw_data = 0x1000, fw_size = 8\<rparr>],
     me_device_add = 0, me_slot = (\<lambda>i. 0x100 + 0x40 * of_nat i), me_module = 1\<rparr>"

definition demo_plus :: bytes where     \<comment> \<open>\<open>a@0x2000+4\<close>\<close>
  "demo_plus = [0x61, 0x40, 0x30, 0x78, 0x32, 0x30, 0x30, 0x30, 0x2b, 0x34]"

definition demo_minus :: bytes where     \<comment> \<open>\<open>a@2004-2008\<close>\<close>
  "demo_minus = [0x61, 0x40, 0x32, 0x30, 0x30, 0x34, 0x2d, 0x32, 0x30, 0x30, 0x38]"

definition demo_iomem :: iomem where
  "demo_iomem = \<lparr>im_client = \<lparr>kd_heap = (\<lambda>p. None), sdbfs_devlist = [], mod_refs = (\<lambda>m. 0)\<rparr>,
     sdbmem_devs = replicate 8 zero_sdbmem, im_maps = []\<rparr>"

lemma demo_scans:
  "scan_area 0x2b [0x40, 0x30, 0x78, 0x32, 0x30, 0x30, 0x30, 0x2b, 0x34] = ([0x2000, 4], 2)"
  "scan_area 0x2b [0x40, 0x32, 0x30, 0x30, 0x34, 0x2d, 0x32, 0x30, 0x30, 0x38] = ([0x2004], 1)"
  "scan_area 0x2d [0x40, 0x32, 0x30, 0x30, 0x34, 0x2d, 0x32, 0x30, 0x30, 0x38] = ([0x2004, 0x2008], 2)"
  by (simp_all add: scan_area_def scan_lx_def digit_val_def is_0x_def isspace_def)

definition demo_parsed :: "u64 \<Rightarrow> sdbmem_dev" where
  "demo_parsed a = zero_sdbmem\<lparr>md_sd := (md_sd zero_sdbmem)\<lparr>kd_name := [0x61], kd_size := 4\<rparr>,
     md_mem := \<lparr>sm_address = a, sm_datalen = 4\<rparr>\<rparr>"

lemma demo_parses:
  "sdbmem_parse (me_ioremap demo_module) demo_plus = (demo_parsed 0x1000, 0)"
  "sdbmem_parse (me_ioremap demo_module) [0x62] = (zero_sdbmem, - EINVAL)"
  "sdbmem_parse (me_ioremap demo_module) demo_minus = (demo_parsed 0x1004, 0)"
  by (simp_all add: sdbmem_parse_def demo_plus_def demo_minus_def demo_scans Let_def demo_module_def zero_sdbmem_def demo_parsed_def)

lemma demo_area_magic:
  "readl (me_mem demo_module) 0x1000 = Some (ntohl Little SDB_MAGIC)"
  "readl (me_mem demo_module) 0x1004 = Some (ntohl Little SDB_MAGIC)"
  unfolding demo_module_def module_env.simps by code_simp+

definition demo_area :: "u64 \<Rightarrow> sdbfs_dev" where
  "demo_area a = (md_sd zero_sdbmem)\<lparr>kd_name := [0x61], kd_size := 4, kd_blocksize := 4, kd_owner := 1,
     kd_read := sdbmem_read (me_mem demo_module) \<lparr>sm_address = a, sm_datalen = 4\<rparr>\<rparr>"

lemma demo_magic_of: "area_magic demo_module (demo_parsed 0x1000) = Some (ntohl Little SDB_MAGIC)"
  "area_magic demo_module (demo_parsed 0x1004) = Some (ntohl Little SDB_MAGIC)"
  by (simp_all add: area_magic_def demo_parsed_def zero_sdbmem_def demo_area_magic)

lemma demo_devices:
  "area_device demo_module demo_plus = Some (demo_area 0x1000)"
  "area_device demo_module [0x62] = None"
  "area_device demo_module demo_minus = Some (demo_area 0x1004)"
  "area_usable demo_module demo_plus" "area_usable demo_module [0x62]" "area_usable demo_module demo_minus"
  "area_left demo_module demo_minus = {# 0x1004 #}"
proof -
  have env: "me_endian demo_module = Little" "me_module demo_module = 1" by (simp_all add: demo_module_def)
  show "area_device demo_module demo_plus = Some (demo_area 0x1000)"
    "area_device demo_module [0x62] = None"
    "area_device demo_module demo_minus = Some (demo_area 0x1004)"
    by (simp_all add: area_device_def demo_parses demo_magic_of magic_ok_def env EINVAL_def)
      (simp_all add: demo_parsed_def demo_area_def zero_sdbmem_def)
  show "area_usable demo_module demo_plus" "area_usable demo_module [0x62]" "area_usable demo_module demo_minus"
    by (simp_all add: area_usable_def demo_parses demo_magic_of EINVAL_def)
  show "area_left demo_module demo_minus = {# 0x1004 #}"
    by (simp add: area_left_def demo_parses) (simp add: demo_parsed_def)
qed

definition demo_areas :: "bytes list" where
  "demo_areas = [demo_plus, [0x62], demo_minus]"

lemma demo_accepted:
  "accepted (area_device demo_module) {} 0 demo_areas = [(0, demo_area 0x1000)]"
  "left_over (area_device demo_module) (area_left demo_module) {} demo_areas = {# 0x1004 #}"
  by (simp_all add: demo_areas_def demo_devices) (simp_all add: demo_area_def)

lemma demo_slots: "inj_on (me_slot demo_module) {..< 3}"
  by (auto simp: inj_on_def demo_module_def numeral_3_eq_3 less_Suc_eq)

theorem areas_load_unload_witness:
  "\<exists>M'. sdbmem_init demo_module demo_areas demo_iomem = Some (M', 0) \<and> sdbfs_devlist (im_client M') = [0x100]
    \<and> sdbfs_devlist (im_client (sdbmem_exit demo_module 3 M')) = []
    \<and> mset (im_maps (sdbmem_exit demo_module 3 M')) = {# 0x1004 #}"
proof -
  have len: "length demo_areas = 3" by (simp add: demo_areas_def)
  have usable: "\<forall>desc\<in>set demo_areas. area_usable demo_module desc"
    by (simp add: demo_areas_def demo_devices)
  have rep: "client_rep (im_client demo_iomem) []" "names_in (im_client demo_iomem) [] = {}"
    by (simp_all add: client_rep_def demo_iomem_def names_in_def)
  from areas_load_unload [OF rep(1) _ _ _ usable] demo_slots show ?thesis
    unfolding rep(2) demo_accepted len by (auto simp: demo_iomem_def demo_module_def)
qed







end
