(* ===== verification/Wishbone.thy ===== *)
theory Wishbone
  imports ByteOrder
begin

text \<open>
  The interface of src/pcie-wb/wishbone.h: the operations a bus backend offers to the character
  devices, the Etherbone flags, the bus requests; \<open>eb_to_cpu\<close> and \<open>eb_from_cpu\<close> of wishbone.c;
  and the copies between a kernel buffer and a user's segments (the functions the code brings for
  old kernels).

  A backend is a record of functions over its own state. \<open>cycle\<close> may have to wait for the bus:
  \<open>None\<close> is a call that does not return because the caller itself holds the bus.
\<close>

subsection \<open>The operations of a backend\<close>

record wishbone_request =
  rq_write :: bool
  rq_addr :: u32
  rq_data :: u32
  rq_mask :: u8

record 'b wishbone_operations =
  w_cycle :: "'b \<Rightarrow> bool \<Rightarrow> 'b option"
  w_byteenable :: "'b \<Rightarrow> u8 \<Rightarrow> 'b"
  w_write :: "'b \<Rightarrow> u32 \<Rightarrow> u32 \<Rightarrow> 'b"
  w_read :: "'b \<Rightarrow> u32 \<Rightarrow> 'b \<times> u32"
  w_read_cfg :: "'b \<Rightarrow> u32 \<Rightarrow> 'b \<times> u32"
  w_request :: "'b \<Rightarrow> 'b \<times> wishbone_request option"
  w_reply :: "'b \<Rightarrow> u32 \<Rightarrow> u32 \<Rightarrow> 'b"

definition ETHERBONE_BCA :: u8 where "ETHERBONE_BCA = 0x80"
definition ETHERBONE_RCA :: u8 where "ETHERBONE_RCA = 0x40"
definition ETHERBONE_RFF :: u8 where "ETHERBONE_RFF = 0x20"
definition ETHERBONE_CYC :: u8 where "ETHERBONE_CYC = 0x08"
definition ETHERBONE_WCA :: u8 where "ETHERBONE_WCA = 0x04"
definition ETHERBONE_WFF :: u8 where "ETHERBONE_WFF = 0x02"

definition WBA_DATA :: u32 where "WBA_DATA = 0x8000"
definition WBA_ERR :: u32 where "WBA_ERR = 0x8004"

text \<open>A big-endian 32-bit word at an offset of a buffer.\<close>

definition eb_to_cpu :: "endian \<Rightarrow> u8 list \<Rightarrow> nat \<Rightarrow> u32" where
  "eb_to_cpu e buf i = ntohl e (host_word e (chunk i 4 buf))"

definition eb_from_cpu :: "endian \<Rightarrow> u8 list \<Rightarrow> nat \<Rightarrow> u32 \<Rightarrow> u8 list" where
  "eb_from_cpu e buf i dat = put i (host_bytes e 4 (htonl e dat)) buf"

lemma eb_from_cpu_be: "eb_from_cpu e buf i dat = put i (word_be 4 dat) buf"
  by (simp add: eb_from_cpu_def htonl_be)

lemma eb_to_cpu_be: "i + 4 \<le> length buf \<Longrightarrow> eb_to_cpu e buf i = be_word (chunk i 4 buf)"
  by (simp add: eb_to_cpu_def ntohl_def htonl_bytes)

lemma length_eb_from_cpu [simp]: "i + 4 \<le> length buf \<Longrightarrow> length (eb_from_cpu e buf i dat) = length buf"
  by (simp add: eb_from_cpu_be length_put)

subsection \<open>User segments\<close>

text \<open>
  A user's \<open>struct iovec\<close> array is the list of the contents of its segments; \<open>None\<close> is an access
  past the end of the array. Whether the copy of a segment succeeds is a parameter, indexed by the
  position of the segment. Offsets and lengths are natural numbers.
\<close>

fun skip_iov :: "nat \<Rightarrow> u8 list list \<Rightarrow> nat \<Rightarrow> (nat \<times> u8 list list \<times> nat) option" where
  "skip_iov s [] off = None"
| "skip_iov s (v # iov) off =
     (if length v \<le> off then skip_iov (Suc s) iov (off - length v) else Some (s, v # iov, off))"

fun from_iov_loop :: "(nat \<Rightarrow> bool) \<Rightarrow> nat \<Rightarrow> u8 list list \<Rightarrow> nat \<Rightarrow> nat \<Rightarrow> (u8 list \<times> int) option" where
  "from_iov_loop ok s iov off 0 = Some ([], 0)"
| "from_iov_loop ok s [] off (Suc len) = None"
| "from_iov_loop ok s (v # iov) off (Suc len) =
     (let copy = min (Suc len) (length v - off) in
      if \<not> ok s then Some ([], - EFAULT)
      else map_option (\<lambda>(bs, r). (chunk off copy v @ bs, r))
             (from_iov_loop ok (Suc s) iov 0 (Suc len - copy)))"

text \<open>\<open>memcpy_fromiovecend\<close>: the bytes stored in the kernel buffer, and the result.\<close>

definition memcpy_fromiovecend ::
    "(nat \<Rightarrow> bool) \<Rightarrow> u8 list list \<Rightarrow> nat \<Rightarrow> nat \<Rightarrow> (u8 list \<times> int) option" where
  "memcpy_fromiovecend ok iov off len = do {
     (s, iov', off') \<leftarrow> skip_iov 0 iov off;
     from_iov_loop ok s iov' off' len }"

text \<open>\<open>memcpy_toiovecend\<close>: the segments after the copy, and the result.\<close>

fun to_iov :: "(nat \<Rightarrow> bool) \<Rightarrow> nat \<Rightarrow> u8 list list \<Rightarrow> u8 list \<Rightarrow> nat \<Rightarrow> (u8 list list \<times> int) option" where
  "to_iov ok s iov [] off = Some (iov, 0)"
| "to_iov ok s [] (k # kdata) off = None"
| "to_iov ok s (v # iov) (k # kdata) off =
     (if length v \<le> off then map_option (\<lambda>(io, r). (v # io, r)) (to_iov ok (Suc s) iov (k # kdata) (off - length v))
      else (let copy = min (length v - off) (Suc (length kdata)) in
        if \<not> ok s then Some (v # iov, - EFAULT)
        else map_option (\<lambda>(io, r). (put off (take copy (k # kdata)) v # io, r))
               (to_iov ok (Suc s) iov (drop copy (k # kdata)) 0)))"

definition memcpy_toiovecend ::
    "(nat \<Rightarrow> bool) \<Rightarrow> u8 list list \<Rightarrow> u8 list \<Rightarrow> nat \<Rightarrow> (u8 list list \<times> int) option" where
  "memcpy_toiovecend ok iov kdata off = to_iov ok 0 iov kdata off"

definition iov_length :: "u8 list list \<Rightarrow> nat" where
  "iov_length iov = length (concat iov)"

lemma skip_iov_Some:
  "off < length (concat iov) \<Longrightarrow> \<exists>s' iov' off'. skip_iov s iov off = Some (s', iov', off')
     \<and> drop off' (concat iov') = drop off (concat iov) \<and> off' \<le> length (concat iov')
     \<and> iov' \<noteq> [] \<and> off' \<le> length (hd iov')"
proof (induction iov arbitrary: s off)
  case (Cons v iov)
  show ?case
  proof (cases "length v \<le> off")
    case True
    then show ?thesis using Cons.IH [of "off - length v" "Suc s"] Cons.prems by simp
  qed simp
qed simp

lemma from_iov_loop_Some:
  assumes "iov \<noteq> [] \<Longrightarrow> off \<le> length (hd iov)" and "off + len \<le> length (concat iov)" and "\<forall>i. ok i"
  shows "from_iov_loop ok s iov off len = Some (chunk off len (concat iov), 0)"
  using assms
proof (induction ok s iov off len rule: from_iov_loop.induct)
  case (3 ok s v iov off len)
  let ?copy = "min (Suc len) (length v - off)"
  have "0 + (Suc len - ?copy) \<le> length (concat iov)" using 3(2,3) by auto
  then have "from_iov_loop ok (Suc s) iov 0 (Suc len - ?copy) = Some (chunk 0 (Suc len - ?copy) (concat iov), 0)"
    using spec [OF 3(4), of s] by (intro 3(1) [OF refl _ _ _ 3(4)]) simp_all
  moreover have "chunk off ?copy v @ chunk 0 (Suc len - ?copy) (concat iov) = chunk off (Suc len) (concat (v # iov))"
    using 3(2) by (cases "Suc len \<le> length v - off") (auto simp: chunk_def Suc_diff_le add.commute)
  ultimately show ?case using spec [OF 3(4), of s] by (simp add: Let_def)
qed auto

lemma memcpy_from_chunk:
  assumes "off + len \<le> iov_length iov" and "off < iov_length iov" and "\<forall>i. ok i"
  shows "memcpy_fromiovecend ok iov off len = Some (chunk off len (concat iov), 0)"
proof -
  obtain s iov' off' where s: "skip_iov 0 iov off = Some (s, iov', off')"
    and d: "drop off' (concat iov') = drop off (concat iov)" "off' \<le> length (concat iov')"
    and hd: "iov' \<noteq> []" "off' \<le> length (hd iov')"
    using skip_iov_Some [of off iov 0] assms(2) by (auto simp: iov_length_def)
  have "length (concat iov') - off' = length (concat iov) - off"
    using d(1) by (metis length_drop)
  then have "off' + len \<le> length (concat iov')"
    using assms(1) d(2) by (simp add: iov_length_def)
  then have "from_iov_loop ok s iov' off' len = Some (chunk off' len (concat iov'), 0)"
    using hd assms(3) by (intro from_iov_loop_Some) auto
  moreover have "chunk off' len (concat iov') = chunk off len (concat iov)"
    using d(1) by (simp add: chunk_def)
  ultimately show ?thesis using s by (simp add: memcpy_fromiovecend_def)
qed

lemma put_split:
  assumes "off < length v"
  shows "put off (take (min (length v - off) (length ys)) ys) v
      @ put 0 (drop (min (length v - off) (length ys)) ys) w = put off ys (v @ w)"
proof (cases "length v - off \<le> length ys")
  case True
  then have "min (length v - off) (length ys) = length v - off" by simp
  moreover have "length (take (length v - off) ys) = length v - off" using True by simp
  moreover have "take n ys @ drop n ys @ zs = ys @ zs" for n zs
    by (metis append.assoc append_take_drop_id)
  ultimately show ?thesis
    using True assms by (simp add: put_def add.commute del: length_take)
next
  case False
  then have "min (length v - off) (length ys) = length ys" by simp
  then show ?thesis using assms False by (simp add: put_def)
qed

lemma to_iov_Some:
  assumes "off + length kdata \<le> length (concat iov)" and "\<forall>i. ok i"
  shows "\<exists>iov'. to_iov ok s iov kdata off = Some (iov', 0) \<and> concat iov' = put off kdata (concat iov)
    \<and> map length iov' = map length iov"
  using assms
proof (induction ok s iov kdata off rule: to_iov.induct)
  case (1 ok s iov off)
  then show ?case by simp
next
  case (2 ok s k kdata off)
  then show ?case by simp
next
  case (3 ok s v iov k kdata off)
  show ?case
  proof (cases "length v \<le> off")
    case True
    have "off - length v + length (k # kdata) \<le> length (concat iov)" using 3(3) True by simp
    then obtain iov' where "to_iov ok (Suc s) iov (k # kdata) (off - length v) = Some (iov', 0)"
      "concat iov' = put (off - length v) (k # kdata) (concat iov)" "map length iov' = map length iov"
      using 3(1) [OF True _ 3(4)] by blast
    then show ?thesis using True by (simp add: put_def Suc_diff_le)
  next
    case False
    let ?copy = "min (length v - off) (Suc (length kdata))"
    have "0 + length (drop ?copy (k # kdata)) \<le> length (concat iov)" using 3(3) False by auto
    then obtain iov' where "to_iov ok (Suc s) iov (drop ?copy (k # kdata)) 0 = Some (iov', 0)"
      and io: "concat iov' = put 0 (drop ?copy (k # kdata)) (concat iov)" "map length iov' = map length iov"
      using 3(2) [OF False refl _ _ 3(4)] spec [OF 3(4), of s] by auto
    moreover have "put off (take ?copy (k # kdata)) v @ put 0 (drop ?copy (k # kdata)) (concat iov)
        = put off (k # kdata) (concat (v # iov))"
      using put_split [of off v "k # kdata" "concat iov"] False by simp
    moreover have "length (put off (take ?copy (k # kdata)) v) = length v"
      using False by (subst length_put) auto
    ultimately show ?thesis using False spec [OF 3(4), of s] by (simp add: Let_def)
  qed
qed

end
