(* ===== verification/Ring.thy ===== *)
theory Ring
  imports Prelude
begin

text \<open>
  The ring buffer of wishbone.h: its size, the macros over its positions, and the copies in and
  out of it that may wrap. \<open>rotate i buf\<close> is the buffer read from index \<open>i\<close> on; a copy that wraps
  is a plain copy in that view.
\<close>

definition RING_SIZE :: nat where "RING_SIZE = 8192"

definition RING_INDEX :: "nat \<Rightarrow> nat" where
  "RING_INDEX x = x AND (RING_SIZE - 1)"

definition RING_POS :: "u32 \<Rightarrow> u32" where
  "RING_POS x = x AND (of_nat RING_SIZE * 2 - 1)"

lemma RING_INDEX_mod: "RING_INDEX x = x mod 8192"
proof -
  have "x AND (8192 - 1) = x AND mask 13" by (simp add: mask_eq_exp_minus_1)
  also have "\<dots> = take_bit 13 x" by (simp add: take_bit_eq_mask)
  finally show ?thesis by (simp add: RING_INDEX_def RING_SIZE_def take_bit_nat_def)
qed

lemma unat_RING_POS: "unat (RING_POS x) = unat x mod 16384"
proof -
  have "x AND (of_nat 8192 * 2 - 1) = x AND mask 14" by (simp add: mask_eq_exp_minus_1)
  also have "\<dots> = take_bit 14 x" by (simp add: take_bit_eq_mask)
  finally have "RING_POS x = take_bit 14 x" by (simp add: RING_POS_def RING_SIZE_def)
  then show ?thesis by (simp add: unsigned_take_bit_eq take_bit_nat_def)
qed

lemma unat_mod_2p32: "unat (of_nat n :: u32) = n mod 2 ^ 32"
  by (simp add: unat_of_nat)

text \<open>Sums and differences of positions.\<close>

lemma RING_POS_add: "unat (RING_POS (x + of_nat n)) = (unat x + n) mod 16384"
proof -
  have "unat (x + of_nat n) = (unat x + n mod 2 ^ 32) mod 2 ^ 32"
    by (simp add: unat_word_ariths(1) unat_of_nat)
  also have "\<dots> = (unat x + n) mod 2 ^ 32" by (simp add: mod_add_right_eq)
  finally show ?thesis by (simp add: unat_RING_POS mod_mod_cancel)
qed

lemma RING_POS_sub:
  assumes "unat x < 16384"
  shows "unat (RING_POS (y - x)) = (unat y + 16384 - unat x) mod 16384"
proof -
  have "int (unat (RING_POS (y - x))) = int (unat (y - x)) mod 16384"
    by (simp only: unat_RING_POS zmod_int of_nat_numeral)
  also have "int (unat (y - x)) = (int (unat y) - int (unat x)) mod 2 ^ 32"
    by (simp add: uint_word_ariths(2))
  also have "\<dots> mod 16384 = (int (unat y) - int (unat x)) mod 16384"
    by (simp add: mod_mod_cancel)
  also have "\<dots> = (int (unat y) - int (unat x) + 16384) mod 16384" by (simp only: mod_add_self2)
  also have "int (unat y) - int (unat x) + 16384 = int (unat y + 16384 - unat x)"
    using assms by (simp only: of_nat_diff)
  finally have "int (unat (RING_POS (y - x))) = int ((unat y + 16384 - unat x) mod 16384)"
    by (simp only: zmod_int of_nat_numeral)
  then show ?thesis by (simp only: of_nat_eq_iff)
qed

subsection \<open>Copies that may wrap\<close>

text \<open>Reading \<open>n\<close> bytes from index \<open>i\<close>, and writing bytes there: one copy, or two with the second
  at the start of the buffer.\<close>

definition ring_get :: "nat \<Rightarrow> nat \<Rightarrow> u8 list \<Rightarrow> u8 list" where
  "ring_get i n buf = (let buf_len = length buf - i in
     if buf_len < n then chunk i buf_len buf @ chunk 0 (n - buf_len) buf else chunk i n buf)"

definition ring_put :: "nat \<Rightarrow> u8 list \<Rightarrow> u8 list \<Rightarrow> u8 list" where
  "ring_put i d buf = (let buf_len = length buf - i in
     if buf_len < length d then put 0 (drop buf_len d) (put i (take buf_len d) buf) else put i d buf)"

lemma ring_get_view:
  assumes "i < length buf" and "n \<le> length buf"
  shows "ring_get i n buf = take n (rotate i buf)"
proof (cases "length buf - i < n")
  case True
  then have "n - (length buf - i) \<le> i" using assms by simp
  then have "take (n - (length buf - i)) (take i buf) = take (n - (length buf - i)) buf"
    by (simp add: min_absorb1)
  then show ?thesis
    using True assms by (simp add: ring_get_def rotate_drop_take chunk_def)
next
  case False
  then show ?thesis using assms by (simp add: ring_get_def rotate_drop_take chunk_def)
qed

lemma length_ring_put [simp]:
  "i < length buf \<Longrightarrow> length d \<le> length buf \<Longrightarrow> length (ring_put i d buf) = length buf"
  by (simp add: ring_put_def Let_def length_put)

lemma nth_ring_put:
  assumes "i < length buf" and "length d \<le> length buf" and "m < length buf"
  shows "ring_put i d buf ! m =
    (let t = (m + length buf - i) mod length buf in if t < length d then d ! t else buf ! m)"
proof -
  define b where "b = length buf - i"
  have t: "(m + length buf - i) mod length buf = (if m < i then m + b else m - i)"
  proof (cases "m < i")
    case True
    then have "m + length buf - i = m + b" "m + b < length buf" using assms(1) by (auto simp: b_def)
    then show ?thesis using True by simp
  next
    case False
    then have "m + length buf - i = (m - i) + length buf" by simp
    moreover have "(m - i + length buf) mod length buf = m - i" using assms(3) by simp
    ultimately show ?thesis using False by (simp only: if_False)
  qed
  show ?thesis
  proof (cases "b < length d")
    case True
    have len: "i + length (take b d) \<le> length buf" using assms(1) True by (simp add: b_def)
    define X where "X = put i (take b d) buf"
    have X: "length X = length buf" "X ! m = (if i \<le> m \<and> m < i + b then take b d ! (m - i) else buf ! m)"
      using len True assms(3) by (simp_all add: X_def length_put nth_put)
    have "0 + length (drop b d) \<le> length X" using assms(2) X(1) by simp
    then have "put 0 (drop b d) X ! m = (if m < length d - b then drop b d ! m else X ! m)"
      using assms(3) X(1) by (simp add: nth_put)
    moreover have "ring_put i d buf = put 0 (drop b d) X"
      using True by (simp add: ring_put_def Let_def b_def X_def)
    moreover have "m < i + b" using assms(1,3) by (simp add: b_def)
    moreover have "length d - b \<le> i" using assms(1,2) by (simp add: b_def)
    ultimately show ?thesis
      using X(2) True unfolding t Let_def by (cases "m < i") (auto simp: add.commute)
  next
    case False
    have "i + length d \<le> length buf" using False assms(1) by (simp add: b_def)
    moreover have "ring_put i d buf = put i d buf"
      using False by (simp add: ring_put_def Let_def b_def)
    ultimately show ?thesis
      using False assms(3) unfolding t Let_def by (cases "m < i") (auto simp: nth_put)
  qed
qed

text \<open>The view after a write at distance \<open>k\<close> from where the view starts.\<close>

lemma mod_cancel:
  fixes a b c n :: nat
  assumes "(a + c) mod n = (b + c) mod n" shows "a mod n = b mod n"
proof (cases "n = 0")
  case False
  define c' where "c' = n - c mod n"
  have "c mod n < n" using False by simp
  moreover have "c = n * (c div n) + c mod n" by simp
  ultimately have "c + c' = n * (c div n) + n" unfolding c'_def by linarith
  then have c': "(x + c + c') mod n = x mod n" for x
    by (simp only: add.assoc) (simp add: add.assoc [symmetric])
  have "(a + c + c') mod n = (b + c + c') mod n" using assms by (rule mod_add_cong) simp
  then show ?thesis by (simp only: c')
qed (use assms in simp)

lemma rotate_ring_put:
  assumes len: "length buf = n" and "0 < n" and fits: "k + length d \<le> n" and i: "i = (s + k) mod n"
  shows "rotate s (ring_put i d buf) = put k d (rotate s buf)"
proof (rule nth_equalityI)
  have i_lt: "i < n" using i assms(2) by simp
  show "length (rotate s (ring_put i d buf)) = length (put k d (rotate s buf))"
    using i_lt fits len by (simp add: length_put)
  fix m assume "m < length (rotate s (ring_put i d buf))"
  then have m: "m < n" using i_lt fits len by simp
  define j where "j = (s + m) mod n"
  have j: "j < n" using assms(2) by (simp add: j_def)
  have t: "(j + n - i) mod n = (m + n - k) mod n"
  proof (cases "k = n")
    case True
    have "i = s mod n" using i True by simp
    have "(j + n - i) mod n = (j + (n - i)) mod n" using i_lt by simp
    also have "\<dots> = (s + m + (n - i)) mod n" by (simp add: j_def mod_add_left_eq)
    also have "s + m + (n - i) = m + n + (s - i)"
      using \<open>i = s mod n\<close> i_lt by (simp add: mod_less_eq_dividend)
    also have "(m + n + (s - i)) mod n = (m + n + (s div n) * n) mod n"
      by (simp add: \<open>i = s mod n\<close> minus_mod_eq_div_mult)
    finally show ?thesis using True m by simp
  next
    case False
    then have "k < n" using fits by simp
    have "(j + n - i + (s + k)) mod n = (j + n - i + i) mod n"
      by (metis i mod_add_right_eq)
    also have "\<dots> = (s + m) mod n" using i_lt by (simp add: j_def)
    also have "\<dots> = (s + m + n) mod n" by simp
    also have "s + m + n = m + n - k + (s + k)" using \<open>k < n\<close> by simp
    finally have eq: "(j + n - i + (s + k)) mod n = (m + n - k + (s + k)) mod n" .
    then show ?thesis by (rule mod_cancel)
  qed
  have "rotate s (ring_put i d buf) ! m = ring_put i d buf ! j"
    using m i_lt fits len by (simp add: nth_rotate j_def)
  also have "\<dots> = (let t = (m + n - k) mod n in if t < length d then d ! t else buf ! j)"
  proof -
    have "length d \<le> n" using fits by simp
    from nth_ring_put [of i buf d j] have
      "ring_put i d buf ! j = (let t = (j + n - i) mod n in if t < length d then d ! t else buf ! j)"
      unfolding len using i_lt j \<open>length d \<le> n\<close> by blast
    then show ?thesis unfolding t .
  qed
  also have "\<dots> = put k d (rotate s buf) ! m"
  proof -
    have p: "put k d (rotate s buf) ! m = (if k \<le> m \<and> m < k + length d then d ! (m - k) else rotate s buf ! m)"
      by (rule nth_put) (simp_all only: length_rotate len fits m)
    have r: "rotate s buf ! m = buf ! j"
      using nth_rotate [of m buf s] m by (simp only: len j_def)
    show ?thesis
    proof (cases "m < k")
      case True
      then have "(m + n - k) mod n = m + n - k" using fits m by simp
      moreover have "\<not> m + n - k < length d" "\<not> k \<le> m" using fits True by simp_all
      ultimately show ?thesis unfolding p r by (simp only: Let_def if_False simp_thms)
    next
      case False
      then have "m + n - k = (m - k) + n" by simp
      moreover have "(m - k + n) mod n = m - k" using m by simp
      ultimately have "(m + n - k) mod n = m - k" by (simp only:)
      moreover have "k \<le> m \<and> m < k + length d \<longleftrightarrow> m - k < length d" using False by auto
      ultimately show ?thesis unfolding p r by (simp only: Let_def)
    qed
  qed
  finally show "rotate s (ring_put i d buf) ! m = put k d (rotate s buf) ! m" .
qed

end
