(* ===== verification/EtherboneMaster.thy ===== *)
theory EtherboneMaster
  imports Wishbone Ring
begin

text \<open>
  The master character device of src/pcie-wb/wishbone.c: one \<open>etherbone_master_context\<close> per open
  file, \<open>etherbone_master_process\<close> and the file operations. The counters are the code's 32-bit
  words; indices into the buffer and lengths computed from them are natural numbers, for they stay
  below \<open>2 ^ 14\<close> and no subtraction underflows. \<open>None\<close> is a call that blocks forever (or a copy
  past the user's segments, which the lengths exclude).
\<close>

datatype m_state = Header | Idle | Cycle

record eb_master =
  m_state :: m_state
  m_sent :: u32
  m_processed :: u32
  m_received :: u32
  m_buf :: "u8 list"

definition RING_READ_LEN :: "eb_master \<Rightarrow> nat" where
  "RING_READ_LEN c = unat (RING_POS (m_processed c - m_sent c))"

definition RING_PROC_LEN :: "eb_master \<Rightarrow> nat" where
  "RING_PROC_LEN c = unat (RING_POS (m_received c - m_processed c))"

definition RING_WRITE_LEN :: "eb_master \<Rightarrow> nat" where
  "RING_WRITE_LEN c = unat (RING_POS (m_sent c + of_nat RING_SIZE - m_received c))"

subsection \<open>Processing one record\<close>

definition record_len :: "u8 \<Rightarrow> u8 \<Rightarrow> nat" where
  "record_len wcount rcount =
     (1 + unat wcount + unat rcount + (if wcount > 0 then 1 else 0) + (if rcount > 0 then 1 else 0)) * 4"

text \<open>The three loops over the words of a record; \<open>j\<close> counts down.\<close>

fun erase_words :: "endian \<Rightarrow> u8 list \<Rightarrow> nat \<Rightarrow> nat \<Rightarrow> u8 list \<times> nat" where
  "erase_words e buf i 0 = (buf, i)"
| "erase_words e buf i (Suc j) = erase_words e (eb_from_cpu e buf i 0) (RING_INDEX (i + 4)) j"

fun write_words :: "endian \<Rightarrow> 'b wishbone_operations \<Rightarrow> u8 list \<Rightarrow> nat \<Rightarrow> 'b \<Rightarrow> u32 \<Rightarrow> u32 \<Rightarrow> nat
    \<Rightarrow> u8 list \<times> nat \<times> 'b" where
  "write_words e wops buf i b base increment 0 = (buf, i, b)"
| "write_words e wops buf i b base increment (Suc j) =
     (let buf = eb_from_cpu e buf i 0;
          i = RING_INDEX (i + 4);
          b = w_write wops b base (eb_to_cpu e buf i)
      in write_words e wops buf i b (base + increment) increment j)"

fun read_words :: "endian \<Rightarrow> ('b \<Rightarrow> u32 \<Rightarrow> 'b \<times> u32) \<Rightarrow> u8 list \<Rightarrow> nat \<Rightarrow> 'b \<Rightarrow> nat
    \<Rightarrow> u8 list \<times> nat \<times> 'b" where
  "read_words e rd buf i b 0 = (buf, i, b)"
| "read_words e rd buf i b (Suc j) =
     (case rd b (eb_to_cpu e buf i) of (b, dat) \<Rightarrow>
        read_words e rd (eb_from_cpu e buf i dat) (RING_INDEX (i + 4)) b j)"

definition reply_flags :: "u8 \<Rightarrow> u8" where
  "reply_flags flags = (flags AND ETHERBONE_CYC)
     OR (if flags AND ETHERBONE_RFF \<noteq> 0 then ETHERBONE_WFF else 0)
     OR (if flags AND ETHERBONE_BCA \<noteq> 0 then ETHERBONE_WCA else 0)"

text \<open>\<open>wff / ETHERBONE_WFF\<close> is 1 when the flag is set.\<close>

definition process_writes ::
    "endian \<Rightarrow> 'b wishbone_operations \<Rightarrow> u8 \<Rightarrow> nat \<Rightarrow> u8 list \<Rightarrow> nat \<Rightarrow> 'b \<Rightarrow> u8 list \<times> nat \<times> 'b" where
  "process_writes e wops flags wcount buf i b =
     (if 0 < wcount then
        (let increment = 4 * (1 - (if flags AND ETHERBONE_WFF \<noteq> 0 then 1 else 0)) :: u32;
             buf = eb_from_cpu e buf i 0;
             i = RING_INDEX (i + 4);
             base_address = eb_to_cpu e buf i
         in if flags AND ETHERBONE_WCA \<noteq> 0
            then (case erase_words e buf i wcount of (buf, i) \<Rightarrow> (buf, i, b))
            else write_words e wops buf i b base_address increment wcount)
      else (buf, i, b))"

definition process_reads ::
    "endian \<Rightarrow> 'b wishbone_operations \<Rightarrow> u8 \<Rightarrow> nat \<Rightarrow> u8 list \<Rightarrow> nat \<Rightarrow> 'b \<Rightarrow> u8 list \<times> nat \<times> 'b" where
  "process_reads e wops flags rcount buf i b =
     (if 0 < rcount then
        read_words e (if flags AND ETHERBONE_RCA \<noteq> 0 then w_read_cfg wops else w_read wops)
          buf (RING_INDEX (i + 4 + 4)) b rcount
      else (buf, RING_INDEX (i + 4), b))"

definition process_record ::
    "endian \<Rightarrow> 'b wishbone_operations \<Rightarrow> u8 list \<Rightarrow> nat \<Rightarrow> m_state \<Rightarrow> 'b
     \<Rightarrow> (u8 list \<times> nat \<times> m_state \<times> 'b) option" where
  "process_record e wops buf i st b =
     (let flags = buf ! (i + 0); be = buf ! (i + 1); wcount = buf ! (i + 2); rcount = buf ! (i + 3)
      in do {
        (st, b) \<leftarrow> (if st = Idle then do { b \<leftarrow> w_cycle wops b True; Some (Cycle, b) } else Some (st, b));
        let b = w_byteenable wops b be;
        case process_writes e wops flags (unat wcount) buf i b of (buf, i, b) \<Rightarrow>
        let buf = buf[i + 0 := reply_flags flags, i + 1 := be, i + 2 := rcount, i + 3 := 0] in
        case process_reads e wops flags (unat rcount) buf i b of (buf, i, b) \<Rightarrow>
          (if flags AND ETHERBONE_CYC \<noteq> 0
           then do { b \<leftarrow> w_cycle wops b False; Some (buf, i, Idle, b) }
           else Some (buf, i, st, b)) })"

subsection \<open>Processing the buffer\<close>

function master_loop ::
    "endian \<Rightarrow> 'b wishbone_operations \<Rightarrow> nat \<Rightarrow> u8 list \<Rightarrow> nat \<Rightarrow> m_state \<Rightarrow> 'b
     \<Rightarrow> (nat \<times> u8 list \<times> m_state \<times> 'b) option" where
  "master_loop e wops left buf i st b =
     (if left < 4 then Some (left, buf, st, b)
      else (let reclen = record_len (buf ! (i + 2)) (buf ! (i + 3)) in
        if left < reclen then Some (left, buf, st, b)
        else do {
          (buf, i, st, b) \<leftarrow> process_record e wops buf i st b;
          master_loop e wops (left - reclen) buf i st b }))"
  by pat_completeness auto
termination
  by (relation "measure (\<lambda>(e, wops, left, buf, i, st, b). left)") (auto simp: record_len_def)

declare master_loop.simps [simp del]

definition etherbone_master_process ::
    "endian \<Rightarrow> 'b wishbone_operations \<Rightarrow> eb_master \<Rightarrow> 'b \<Rightarrow> (eb_master \<times> 'b) option" where
  "etherbone_master_process e wops c b =
     (if m_state c = Header \<and> m_received c < 8 then Some (c, b)
      else
        (let c = (if m_state c = Header
                  then c\<lparr>m_buf := (m_buf c)[0 := 0x4E, 1 := 0x6F, 2 := 0x12, 3 := 0x44],
                         m_processed := 8, m_state := Idle\<rparr>
                  else c);
             i = RING_INDEX (unat (m_processed c));
             size = RING_PROC_LEN c
         in do {
           (left, buf, st, b) \<leftarrow> master_loop e wops size (m_buf c) i (m_state c) b;
           Some (c\<lparr>m_buf := buf, m_state := st,
                   m_processed := RING_POS (m_processed c + of_nat (size - left))\<rparr>, b) }))"

subsection \<open>The file operations\<close>

text \<open>Fresh memory is not cleared; the code leaves the buffer as it is.\<close>

definition char_master_open :: "bool \<Rightarrow> u8 list \<Rightarrow> int + eb_master" where
  "char_master_open alloc_ok mem =
     (if \<not> alloc_ok then Inl (- ENOMEM)
      else Inr \<lparr>m_state = Header, m_sent = 0, m_processed = 0, m_received = 0, m_buf = mem\<rparr>)"

definition char_master_release :: "'b wishbone_operations \<Rightarrow> eb_master \<Rightarrow> 'b \<Rightarrow> 'b option" where
  "char_master_release wops c b = (if m_state c = Cycle then w_cycle wops b False else Some b)"

text \<open>\<open>intr\<close>: the wait for the context's mutex was interrupted. The length of the user's segments
  is cut to an \<open>unsigned int\<close>. Copies to and from the user are assumed to be answered by \<open>ok\<close>, and
  their results are ignored, as in the code.\<close>

definition uint_length :: "u8 list list \<Rightarrow> nat" where
  "uint_length iov = iov_length iov mod 2 ^ 32"

definition char_master_aio_read ::
    "(nat \<Rightarrow> bool) \<Rightarrow> bool \<Rightarrow> bool \<Rightarrow> eb_master \<Rightarrow> u8 list list \<Rightarrow> (eb_master \<times> u8 list list \<times> int) option" where
  "char_master_aio_read ok intr nonblock c iov =
     (let iov_len = uint_length iov in
      if iov_len = 0 then Some (c, iov, 0)
      else if intr then Some (c, iov, - EINTR)
      else
        (let ring_len = RING_READ_LEN c;
             len = min ring_len iov_len;
             sent = RING_INDEX (unat (m_sent c));
             buf_len = RING_SIZE - sent
         in do {
           iov \<leftarrow> (if buf_len < len then do {
                     (iov, r1) \<leftarrow> memcpy_toiovecend ok iov (chunk sent buf_len (m_buf c)) 0;
                     (iov, r2) \<leftarrow> memcpy_toiovecend ok iov (chunk 0 (len - buf_len) (m_buf c)) buf_len;
                     Some iov }
                   else do {
                     (iov, r1) \<leftarrow> memcpy_toiovecend ok iov (chunk sent len (m_buf c)) 0;
                     Some iov });
           Some (c\<lparr>m_sent := RING_POS (m_sent c + of_nat len)\<rparr>, iov,
                 if len = 0 \<and> nonblock then - EAGAIN else int len) }))"

definition char_master_aio_write ::
    "endian \<Rightarrow> 'b wishbone_operations \<Rightarrow> (nat \<Rightarrow> bool) \<Rightarrow> bool \<Rightarrow> bool \<Rightarrow> eb_master \<Rightarrow> 'b \<Rightarrow> u8 list list
     \<Rightarrow> (eb_master \<times> 'b \<times> int) option" where
  "char_master_aio_write e wops ok intr nonblock c b iov =
     (let iov_len = uint_length iov in
      if iov_len = 0 then Some (c, b, 0)
      else if intr then Some (c, b, - EINTR)
      else
        (let ring_len = RING_WRITE_LEN c;
             len = min ring_len iov_len;
             received = RING_INDEX (unat (m_received c));
             buf_len = RING_SIZE - received
         in do {
           buf \<leftarrow> (if buf_len < len then do {
                     (bs1, r1) \<leftarrow> memcpy_fromiovecend ok iov 0 buf_len;
                     (bs2, r2) \<leftarrow> memcpy_fromiovecend ok iov buf_len (len - buf_len);
                     Some (put 0 bs2 (put received bs1 (m_buf c))) }
                   else do {
                     (bs1, r1) \<leftarrow> memcpy_fromiovecend ok iov 0 len;
                     Some (put received bs1 (m_buf c)) });
           let c = c\<lparr>m_buf := buf, m_received := RING_POS (m_received c + of_nat len)\<rparr>;
           (c, b) \<leftarrow> etherbone_master_process e wops c b;
           Some (c, b, if len = 0 \<and> nonblock then - EAGAIN else int len) }))"

definition POLLIN :: nat where "POLLIN = 0x01"
definition POLLOUT :: nat where "POLLOUT = 0x04"
definition POLLRDNORM :: nat where "POLLRDNORM = 0x40"
definition POLLWRNORM :: nat where "POLLWRNORM = 0x100"

definition char_master_poll :: "eb_master \<Rightarrow> nat" where
  "char_master_poll c =
     (if RING_READ_LEN c \<noteq> 0 then POLLIN OR POLLRDNORM else 0)
     OR (if RING_WRITE_LEN c \<noteq> 0 then POLLOUT OR POLLWRNORM else 0)"

end
