(* ===== verification/EtherboneStream.thy ===== *)
theory EtherboneStream
  imports EtherboneMaster
begin

text \<open>
  The Etherbone protocol as a function on byte streams: \<open>eb_record\<close> executes one complete record
  on the bus and gives the answer, of the same length; \<open>eb_stream\<close> does so for as many records
  as are complete. The lemmas show that the loops over the ring buffer compute this function in
  place, wherever the ring starts.
\<close>

subsection \<open>Records as streams see them\<close>

definition eb_word :: "u8 list \<Rightarrow> nat \<Rightarrow> u32" where
  "eb_word r k = be_word (chunk (4 * k) 4 r)"

text \<open>The word at which the answer starts: past the erased header and write base address.\<close>

definition answer_at :: "u8 list \<Rightarrow> nat" where
  "answer_at r = (if 0 < unat (r ! 2) then 1 + unat (r ! 2) else 0)"

definition rec_writes :: "u8 list \<Rightarrow> (u32 \<times> u32) list" where
  "rec_writes r =
     (if r ! 0 AND ETHERBONE_WCA \<noteq> 0 then []
      else map (\<lambda>j. (eb_word r 1 + of_nat j * (if r ! 0 AND ETHERBONE_WFF \<noteq> 0 then 0 else 4), eb_word r (2 + j)))
             [0..<unat (r ! 2)])"

definition rec_reads :: "u8 list \<Rightarrow> u32 list" where
  "rec_reads r = map (\<lambda>j. eb_word r (answer_at r + 2 + j)) [0..<unat (r ! 3)]"

definition run_writes :: "'b wishbone_operations \<Rightarrow> 'b \<Rightarrow> (u32 \<times> u32) list \<Rightarrow> 'b" where
  "run_writes wops b ws = foldl (\<lambda>b (a, d). w_write wops b a d) b ws"

fun run_reads :: "('b \<Rightarrow> u32 \<Rightarrow> 'b \<times> u32) \<Rightarrow> 'b \<Rightarrow> u32 list \<Rightarrow> 'b \<times> u32 list" where
  "run_reads rd b [] = (b, [])"
| "run_reads rd b (a # as) =
     (case rd b a of (b1, v) \<Rightarrow> case run_reads rd b1 as of (b2, vs) \<Rightarrow> (b2, v # vs))"

definition eb_record ::
    "'b wishbone_operations \<Rightarrow> m_state \<Rightarrow> 'b \<Rightarrow> u8 list \<Rightarrow> (u8 list \<times> m_state \<times> 'b) option" where
  "eb_record wops st b r =
     do {
       (st, b) \<leftarrow> (if st = Idle then do { b \<leftarrow> w_cycle wops b True; Some (Cycle, b) } else Some (st, b));
       let b = run_writes wops (w_byteenable wops b (r ! 1)) (rec_writes r);
       case run_reads (if r ! 0 AND ETHERBONE_RCA \<noteq> 0 then w_read_cfg wops else w_read wops) b (rec_reads r) of
         (b, vs) \<Rightarrow>
       let answer = replicate (4 * answer_at r) 0 @ [reply_flags (r ! 0), r ! 1, r ! 3, 0]
             @ (if 0 < unat (r ! 3) then chunk (4 * (answer_at r + 1)) 4 r @ concat (map (word_be 4) vs) else [])
       in (if r ! 0 AND ETHERBONE_CYC \<noteq> 0
           then do { b \<leftarrow> w_cycle wops b False; Some (answer, Idle, b) }
           else Some (answer, st, b)) }"

text \<open>The bytes answered, the bytes of an incomplete record, the state.\<close>

function eb_stream ::
    "'b wishbone_operations \<Rightarrow> m_state \<Rightarrow> 'b \<Rightarrow> u8 list \<Rightarrow> (u8 list \<times> u8 list \<times> m_state \<times> 'b) option" where
  "eb_stream wops st b xs =
     (if length xs < 4 then Some ([], xs, st, b)
      else (let n = record_len (xs ! 2) (xs ! 3) in
        if length xs < n then Some ([], xs, st, b)
        else do {
          (answer, st, b) \<leftarrow> eb_record wops st b (take n xs);
          (out, rest, st, b) \<leftarrow> eb_stream wops st b (drop n xs);
          Some (answer @ out, rest, st, b) }))"
  by pat_completeness auto
termination
  by (relation "measure (\<lambda>(wops, st, b, xs). length xs)") (auto simp: record_len_def)

declare eb_stream.simps [simp del]

lemma record_len_pos [simp]: "0 < record_len w r" "4 \<le> record_len w r"
  by (simp_all add: record_len_def)

lemma record_len_answer:
  "record_len (r ! 2) (r ! 3) = 4 * (answer_at r + 1 + (if 0 < unat (r ! 3) then 1 + unat (r ! 3) else 0))"
  by (auto simp: record_len_def answer_at_def word_gt_0 unat_gt_0)

lemma unat_pos_word: "0 < unat (w :: u8) \<longleftrightarrow> 0 < w"
  by (simp add: word_gt_0 unat_gt_0)

lemma length_run_reads: "length (snd (run_reads rd b as)) = length as"
proof (induction as arbitrary: b)
  case (Cons a as)
  then show ?case
    by (simp split: prod.split) (metis snd_conv)
qed simp

lemma length_words [simp]: "length (concat (map (word_be 4) vs)) = 4 * length (vs :: u32 list)"
  by (induction vs) auto

subsection \<open>Words of the ring\<close>

lemma put_put_append:
  "k + length a + length b \<le> length xs \<Longrightarrow> put (k + length a) b (put k a xs) = put k (a @ b) xs"
  by (simp add: put_def add.assoc) (simp add: add.commute add.left_commute)

text \<open>A ring of 8192 bytes seen from an aligned index \<open>s\<close>; position \<open>k\<close> of the view.\<close>

definition aligned_ring :: "nat \<Rightarrow> u8 list \<Rightarrow> bool" where
  "aligned_ring s buf \<longleftrightarrow> length buf = 8192 \<and> 4 dvd s"

definition ring_at :: "nat \<Rightarrow> nat \<Rightarrow> nat" where
  "ring_at s k = (s + k) mod 8192"

lemma ring_at_next: "RING_INDEX (ring_at s k + 4) = ring_at s (k + 4)"
  by (simp add: RING_INDEX_mod ring_at_def mod_add_left_eq add.assoc)

lemma ring_at_fits:
  assumes "4 dvd s" and "4 dvd k" shows "ring_at s k + 4 \<le> 8192"
proof -
  have "4 dvd ring_at s k" using assms by (simp add: ring_at_def dvd_mod)
  then obtain q where q: "ring_at s k = 4 * q" by (auto elim: dvdE)
  have "ring_at s k < 8192" by (simp add: ring_at_def)
  then show ?thesis using q by simp
qed

lemma ring_word:
  assumes ring: "aligned_ring s buf" and k: "4 dvd k" "k + 4 \<le> 8192"
  shows "chunk (ring_at s k) 4 buf = chunk k 4 (rotate s buf)"
proof -
  have fit: "ring_at s k + 4 \<le> length buf"
    using ring_at_fits [of s k] ring k by (simp add: aligned_ring_def)
  then have "\<not> length buf - ring_at s k < 4" by simp
  then have "chunk (ring_at s k) 4 buf = ring_get (ring_at s k) 4 buf"
    by (simp only: ring_get_def Let_def if_False)
  also have "\<dots> = take 4 (rotate (ring_at s k) buf)" using fit by (intro ring_get_view) auto
  also have "rotate (ring_at s k) buf = rotate k (rotate s buf)"
    using ring by (metis rotate_conv_mod rotate_rotate add.commute aligned_ring_def ring_at_def)
  also have "take 4 (rotate k (rotate s buf)) = chunk k 4 (rotate s buf)"
    using ring k(2) by (simp add: aligned_ring_def rotate_drop_take [of k] chunk_def)
  finally show ?thesis .
qed

lemma ring_to_cpu:
  assumes "aligned_ring s buf" and "4 dvd k" and "k + 4 \<le> 8192"
  shows "eb_to_cpu e buf (ring_at s k) = eb_to_cpu e (rotate s buf) k"
  using ring_word [OF assms] by (simp add: eb_to_cpu_def)

lemma ring_put_word:
  assumes ring: "aligned_ring s buf" and k: "4 dvd k" "k + 4 \<le> 8192" and d: "length d = 4"
  shows "rotate s (put (ring_at s k) d buf) = put k d (rotate s buf)"
    and "aligned_ring s (put (ring_at s k) d buf)"
proof -
  have fit: "ring_at s k + 4 \<le> length buf"
    using ring_at_fits [of s k] ring k by (simp add: aligned_ring_def)
  then have "\<not> length buf - ring_at s k < 4" by simp
  then have "put (ring_at s k) d buf = ring_put (ring_at s k) d buf"
    by (simp only: ring_put_def Let_def d if_False)
  then show "rotate s (put (ring_at s k) d buf) = put k d (rotate s buf)"
    using ring k d rotate_ring_put [of buf 8192 k d "ring_at s k" s]
    by (simp add: aligned_ring_def ring_at_def)
  show "aligned_ring s (put (ring_at s k) d buf)"
    using ring fit d by (simp add: aligned_ring_def length_put)
qed

lemma ring_from_cpu:
  assumes "aligned_ring s buf" and "4 dvd k" and "k + 4 \<le> 8192"
  shows "rotate s (eb_from_cpu e buf (ring_at s k) w) = eb_from_cpu e (rotate s buf) k w"
    and "aligned_ring s (eb_from_cpu e buf (ring_at s k) w)"
  using ring_put_word [OF assms, of "word_be 4 w"] by (simp_all add: eb_from_cpu_be)

lemma eb_to_cpu_put_below:
  "off + length d \<le> k \<Longrightarrow> off + length d \<le> length xs \<Longrightarrow> eb_to_cpu e (put off d xs) k = eb_to_cpu e xs k"
  by (simp add: eb_to_cpu_def chunk_put_above)

subsection \<open>The loops, in the view\<close>

text \<open>\<open>ring_result s L k d buf i\<close>: the view is \<open>L\<close> with \<open>d\<close> stored at \<open>k\<close>, the index is past it.\<close>

definition ring_result :: "nat \<Rightarrow> u8 list \<Rightarrow> nat \<Rightarrow> u8 list \<Rightarrow> u8 list \<Rightarrow> nat \<Rightarrow> bool" where
  "ring_result s L k d buf i \<longleftrightarrow> aligned_ring s buf \<and> rotate s buf = put k d L \<and> i = ring_at s (k + length d)"

lemma erase_words_ring:
  assumes "aligned_ring s buf" and "4 dvd k" and "k + 4 * n \<le> 8192"
  shows "\<exists>buf' i'. erase_words e buf (ring_at s k) n = (buf', i')
    \<and> ring_result s (rotate s buf) k (replicate (4 * n) 0) buf' i'"
  using assms
proof (induction n arbitrary: buf k)
  case 0
  then show ?case by (simp add: ring_result_def)
next
  case (Suc n)
  let ?buf = "eb_from_cpu e buf (ring_at s k) 0"
  have k: "k + 4 \<le> 8192" using Suc.prems(3) by simp
  note step = ring_from_cpu [OF Suc.prems(1,2) k, of e 0]
  have stored: "rotate s ?buf = put k (word_be 4 (0 :: u32)) (rotate s buf)"
    using step(1) by (simp only: eb_from_cpu_be)
  obtain buf' i' where "erase_words e ?buf (ring_at s (k + 4)) n = (buf', i')"
    and r: "ring_result s (rotate s ?buf) (k + 4) (replicate (4 * n) 0) buf' i'"
    using Suc.IH [OF step(2), of "k + 4"] Suc.prems by auto
  moreover have "put (k + 4) (replicate (4 * n) 0) (rotate s ?buf) = put k (replicate (4 * Suc n) 0) (rotate s buf)"
  proof -
    have "word_be 4 (0 :: u32) = replicate 4 0" by code_simp
    then have "rotate s ?buf = put k (replicate 4 0) (rotate s buf)"
      using step(1) by (simp only: eb_from_cpu_be)
    moreover have "k + length (replicate 4 (0 :: u8)) + length (replicate (4 * n) (0 :: u8)) \<le> length (rotate s buf)"
      using Suc.prems by (simp add: aligned_ring_def)
    ultimately show ?thesis
      using put_put_append [of k "replicate 4 0" "replicate (4 * n) 0" "rotate s buf"]
      by (simp add: replicate_add [symmetric])
  qed
  ultimately show ?case
    using r by (simp add: ring_at_next ring_result_def add.assoc)
qed

lemma write_words_ring:
  assumes "aligned_ring s buf" and "4 dvd k" and "k + 4 * n + 4 \<le> 8192"
  shows "\<exists>buf' i'. write_words e wops buf (ring_at s k) b base inc n = (buf', i',
      run_writes wops b (map (\<lambda>j. (base + of_nat j * inc, eb_to_cpu e (rotate s buf) (k + 4 + 4 * j))) [0..<n]))
    \<and> ring_result s (rotate s buf) k (replicate (4 * n) 0) buf' i'"
  using assms
proof (induction n arbitrary: buf k b base)
  case 0
  then show ?case by (simp add: ring_result_def run_writes_def)
next
  case (Suc n)
  let ?buf = "eb_from_cpu e buf (ring_at s k) 0" and ?V = "rotate s buf"
  have k: "k + 4 \<le> 8192" using Suc.prems(3) by simp
  note step = ring_from_cpu [OF Suc.prems(1,2) k, of e 0]
  have stored: "rotate s ?buf = put k (word_be 4 (0 :: u32)) (rotate s buf)"
    using step(1) by (simp only: eb_from_cpu_be)
  have k4: "4 dvd k + 4" "k + 4 + 4 \<le> 8192" using Suc.prems by simp_all
  define b1 where "b1 = w_write wops b base (eb_to_cpu e ?V (k + 4))"
  have below: "eb_to_cpu e (rotate s ?buf) m = eb_to_cpu e ?V m" if "k + 4 \<le> m" for m
    using that k Suc.prems(1) unfolding stored
    by (intro eb_to_cpu_put_below) (simp_all add: aligned_ring_def)
  have first: "eb_to_cpu e ?buf (ring_at s (k + 4)) = eb_to_cpu e ?V (k + 4)"
    using ring_to_cpu [OF step(2) k4, of e] below by simp
  obtain buf' i' where w: "write_words e wops ?buf (ring_at s (k + 4)) b1 (base + inc) inc n = (buf', i',
      run_writes wops b1 (map (\<lambda>j. (base + inc + of_nat j * inc, eb_to_cpu e (rotate s ?buf) (k + 4 + 4 + 4 * j))) [0..<n]))"
    and r: "ring_result s (rotate s ?buf) (k + 4) (replicate (4 * n) 0) buf' i'"
    using Suc.IH [OF step(2) k4(1), of b1 "base + inc"] Suc.prems by auto
  have "put (k + 4) (replicate (4 * n) 0) (rotate s ?buf) = put k (replicate (4 * Suc n) 0) ?V"
  proof -
    have "word_be 4 (0 :: u32) = replicate 4 0" by code_simp
    then have "rotate s ?buf = put k (replicate 4 0) ?V"
      using step(1) by (simp only: eb_from_cpu_be)
    moreover have "k + length (replicate 4 (0 :: u8)) + length (replicate (4 * n) (0 :: u8)) \<le> length ?V"
      using Suc.prems by (simp add: aligned_ring_def)
    ultimately show ?thesis
      using put_put_append [of k "replicate 4 0" "replicate (4 * n) 0" ?V]
      by (simp add: replicate_add [symmetric])
  qed
  moreover have "[0..<Suc n] = 0 # map Suc [0..<n]" by (simp add: map_Suc_upt upt_conv_Cons)
  then have "run_writes wops b (map (\<lambda>j. (base + of_nat j * inc, eb_to_cpu e ?V (k + 4 + 4 * j))) [0..<Suc n])
      = run_writes wops b1 (map (\<lambda>j. (base + inc + of_nat j * inc, eb_to_cpu e (rotate s ?buf) (k + 4 + 4 + 4 * j))) [0..<n])"
    by (simp add: run_writes_def b1_def below o_def algebra_simps del: upt_Suc)
  ultimately show ?case
    using r w by (simp add: ring_at_next ring_result_def add.assoc Let_def first b1_def [symmetric] del: upt_Suc)
qed

lemma read_words_ring:
  assumes "aligned_ring s buf" and "4 dvd k" and "k + 4 * n \<le> 8192"
    and "run_reads rd b (map (\<lambda>j. eb_to_cpu e (rotate s buf) (k + 4 * j)) [0..<n]) = (b', vs)"
  shows "\<exists>buf' i'. read_words e rd buf (ring_at s k) b n = (buf', i', b')
    \<and> ring_result s (rotate s buf) k (concat (map (word_be 4) vs)) buf' i'"
  using assms
proof (induction n arbitrary: buf k b vs)
  case 0
  then show ?case by (simp add: ring_result_def)
next
  case (Suc n)
  let ?V = "rotate s buf"
  have k: "k + 4 \<le> 8192" using Suc.prems(3) by simp
  have up: "[0..<Suc n] = 0 # map Suc [0..<n]" by (simp add: map_Suc_upt upt_conv_Cons)
  obtain b1 v where v: "rd b (eb_to_cpu e ?V k) = (b1, v)" by (cases "rd b (eb_to_cpu e ?V k)")
  obtain vs' where vs': "run_reads rd b1 (map (\<lambda>j. eb_to_cpu e ?V (k + 4 + 4 * j)) [0..<n]) = (b', vs')"
    and vs: "vs = v # vs'"
    using Suc.prems(4) v unfolding up by (auto simp: o_def add.assoc split: prod.splits)
  let ?buf = "eb_from_cpu e buf (ring_at s k) v"
  note step = ring_from_cpu [OF Suc.prems(1,2) k, of e v]
  have stored: "rotate s ?buf = put k (word_be 4 v) (rotate s buf)"
    using step(1) by (simp only: eb_from_cpu_be)
  have below: "eb_to_cpu e (rotate s ?buf) m = eb_to_cpu e ?V m" if "k + 4 \<le> m" for m
    using that k Suc.prems(1) unfolding stored
    by (intro eb_to_cpu_put_below) (simp_all add: aligned_ring_def)
  have "run_reads rd b1 (map (\<lambda>j. eb_to_cpu e (rotate s ?buf) (k + 4 + 4 * j)) [0..<n]) = (b', vs')"
    using vs' below by simp
  moreover have "k + 4 + 4 * n \<le> 8192" "4 dvd k + 4" using Suc.prems(2,3) by simp_all
  ultimately obtain buf' i' where w: "read_words e rd ?buf (ring_at s (k + 4)) b1 n = (buf', i', b')"
    and r: "ring_result s (rotate s ?buf) (k + 4) (concat (map (word_be 4) vs')) buf' i'"
    using Suc.IH [OF step(2)] by blast
  have len: "length vs' = n" using vs' length_run_reads [of rd b1] by (metis length_map length_upt minus_nat.diff_0 snd_conv)
  have "rotate s ?buf = put k (word_be 4 v) ?V"
    using step(1) by (simp only: eb_from_cpu_be)
  then have "put (k + 4) (concat (map (word_be 4) vs')) (rotate s ?buf) = put k (concat (map (word_be 4) vs)) ?V"
    using put_put_append [of k "word_be 4 v" "concat (map (word_be 4) vs')" ?V] Suc.prems(1,3) len
    by (simp add: vs aligned_ring_def)
  then show ?case
    using r w v ring_to_cpu [OF Suc.prems(1,2) k, of e]
    by (simp add: ring_at_next ring_result_def add.assoc vs)
qed

subsection \<open>One record\<close>

lemma put_gap:
  assumes "k + length a + g + length d \<le> length xs"
  shows "put (k + length a + g) d (put k a xs) = put k (a @ chunk (k + length a) g xs @ d) xs"
proof -
  have "chunk (k + length a) g xs = take g (drop (k + length a) xs)" by (simp add: chunk_def)
  moreover have "length (take g (drop (k + length a) xs)) = g" using assms by simp
  ultimately show ?thesis using assms by (simp add: put_def ac_simps)
qed

lemma list_update_put:
  assumes "i + 4 \<le> length buf"
  shows "buf[i + 0 := a, i + 1 := b, i + 2 := c, i + 3 := d] = put i [a, b, c, d] buf"
proof (rule nth_equalityI)
  show "length (buf[i + 0 := a, i + 1 := b, i + 2 := c, i + 3 := d]) = length (put i [a, b, c, d] buf)"
    using assms by (simp add: length_put)
  fix m assume "m < length (buf[i + 0 := a, i + 1 := b, i + 2 := c, i + 3 := d])"
  then have m: "m < length buf" by simp
  consider "m < i" | "m = i" | "m = i + 1" | "m = i + 2" | "m = i + 3" | "i + 4 \<le> m" by linarith
  then show "buf[i + 0 := a, i + 1 := b, i + 2 := c, i + 3 := d] ! m = put i [a, b, c, d] buf ! m"
    using m assms by cases (simp_all add: nth_put)
qed

lemma eb_word_chunk:
  assumes "4 * m + 4 \<le> n" and "k + n \<le> length V"
  shows "eb_to_cpu e V (k + 4 * m) = eb_word (chunk k n V) m"
  using assms by (simp add: eb_to_cpu_be eb_word_def chunk_chunk)

lemma process_writes_ring:
  fixes w :: nat
  assumes ring: "aligned_ring s buf" and k: "4 dvd k" and n: "4 * (if 0 < w then w + 2 else 1) \<le> n"
    and fits: "k + n \<le> 8192" and r: "r = chunk k n (rotate s buf)"
    and w: "w = unat (r ! 2)" and flags: "flags = r ! 0"
  shows "\<exists>buf' i'. process_writes e wops flags w buf (ring_at s k) b
      = (buf', i', run_writes wops b (rec_writes r))
    \<and> ring_result s (rotate s buf) k (replicate (4 * answer_at r) 0) buf' i'"
proof (cases "0 < w")
  case False
  then show ?thesis
    using w ring by (simp add: process_writes_def rec_writes_def run_writes_def answer_at_def ring_result_def)
next
  case True
  let ?V = "rotate s buf" and ?buf = "eb_from_cpu e buf (ring_at s k) 0"
  have len: "length ?V = 8192" using ring by (simp add: aligned_ring_def)
  have wn: "4 * (w + 2) \<le> n" using n True by simp
  have k4: "k + 4 \<le> 8192" "4 dvd k + 4" "k + 4 + 4 \<le> 8192" using k wn fits by simp_all
  note step = ring_from_cpu [OF ring k k4(1), of e 0]
  have "word_be 4 (0 :: u32) = replicate 4 0" by code_simp
  then have stored: "rotate s ?buf = put k (replicate 4 0) ?V"
    using step(1) by (simp only: eb_from_cpu_be)
  have below: "eb_to_cpu e (rotate s ?buf) m = eb_to_cpu e ?V m" if "k + 4 \<le> m" for m
    using that k4 len unfolding stored by (intro eb_to_cpu_put_below) simp_all
  have base: "eb_to_cpu e ?buf (ring_at s (k + 4)) = eb_word r 1"
    using ring_to_cpu [OF step(2) k4(2,3), of e] below [of "k + 4"] eb_word_chunk [of 1 n k ?V e] wn fits len r
    by simp
  have glue: "put (k + 4) (replicate (4 * w) 0) (rotate s ?buf) = put k (replicate (4 * answer_at r) 0) ?V"
  proof -
    have "k + length (replicate 4 (0 :: u8)) + length (replicate (4 * w) (0 :: u8)) \<le> length ?V"
      using wn fits len by simp
    from put_put_append [OF this] show ?thesis
      unfolding stored using True w by (simp add: answer_at_def replicate_add [symmetric])
  qed
  have idx: "k + 4 + 4 * w = k + 4 * answer_at r" using True w by (simp add: answer_at_def)
  show ?thesis
  proof (cases "flags AND ETHERBONE_WCA \<noteq> 0")
    case wca: True
    have "k + 4 + 4 * w \<le> 8192" using wn fits by simp
    then obtain buf' i' where "erase_words e ?buf (ring_at s (k + 4)) w = (buf', i')"
      "ring_result s (rotate s ?buf) (k + 4) (replicate (4 * w) 0) buf' i'"
      using erase_words_ring [OF step(2) k4(2)] by blast
    then show ?thesis
      using wca True flags idx
      by (simp add: process_writes_def Let_def ring_at_next rec_writes_def run_writes_def ring_result_def glue)
  next
    case raw: False
    let ?inc = "4 * (1 - (if flags AND ETHERBONE_WFF \<noteq> 0 then 1 else 0)) :: u32"
    have fit: "k + 4 + 4 * w + 4 \<le> 8192" using wn fits by simp
    obtain buf' i' where ww: "write_words e wops ?buf (ring_at s (k + 4)) b (eb_word r 1) ?inc w = (buf', i',
        run_writes wops b (map (\<lambda>j. (eb_word r 1 + of_nat j * ?inc, eb_to_cpu e (rotate s ?buf) (k + 4 + 4 + 4 * j))) [0..<w]))"
      and res: "ring_result s (rotate s ?buf) (k + 4) (replicate (4 * w) 0) buf' i'"
      using write_words_ring [OF step(2) k4(2) fit, of e wops b "eb_word r 1" "?inc"] by blast
    have words: "eb_to_cpu e (rotate s ?buf) (k + 4 + 4 + 4 * j) = eb_word r (2 + j)" if "j < w" for j
    proof -
      have "4 * (2 + j) + 4 \<le> n" using that wn by simp
      then have "eb_to_cpu e ?V (k + 4 * (2 + j)) = eb_word r (2 + j)"
        unfolding r using fits len by (intro eb_word_chunk) simp_all
      moreover have "eb_to_cpu e (rotate s ?buf) (k + 4 * (2 + j)) = eb_to_cpu e ?V (k + 4 * (2 + j))"
        by (rule below) simp
      moreover have "k + 4 + 4 + 4 * j = k + 4 * (2 + j)" by simp
      ultimately show ?thesis by (simp only:)
    qed
    have inc: "?inc = (if flags AND ETHERBONE_WFF \<noteq> 0 then 0 else 4)" by simp
    have "map (\<lambda>j. (eb_word r 1 + of_nat j * ?inc, eb_to_cpu e (rotate s ?buf) (k + 4 + 4 + 4 * j))) [0..<w] = rec_writes r"
      using raw flags w words unfolding rec_writes_def inc by simp
    then have "write_words e wops ?buf (ring_at s (k + 4)) b (eb_word r 1) ?inc w = (buf', i', run_writes wops b (rec_writes r))"
      using ww by (simp only:)
    then show ?thesis
      using raw True res idx
      by (simp only: process_writes_def Let_def ring_at_next base ring_result_def glue length_replicate if_False if_True) auto
  qed
qed

lemma process_reads_ring:
  fixes rc :: nat
  assumes ring: "aligned_ring s buf" and k: "4 dvd k"
    and fits: "k + 4 * (if 0 < rc then 2 + rc else 1) \<le> 8192"
    and reads: "run_reads (if flags AND ETHERBONE_RCA \<noteq> 0 then w_read_cfg wops else w_read wops) b
      (map (\<lambda>j. eb_to_cpu e (rotate s buf) (k + 8 + 4 * j)) [0..<rc]) = (b', vs)"
  shows "\<exists>buf' i'. process_reads e wops flags rc buf (ring_at s k) b = (buf', i', b')
    \<and> aligned_ring s buf' \<and> i' = ring_at s (k + 4 * (if 0 < rc then 2 + rc else 1))
    \<and> rotate s buf' = (if 0 < rc then put (k + 8) (concat (map (word_be 4) vs)) (rotate s buf) else rotate s buf)"
proof (cases "0 < rc")
  case False
  then show ?thesis
    using reads ring by (simp add: process_reads_def ring_at_next)
next
  case True
  have "4 dvd k + 8" "k + 8 + 4 * rc \<le> 8192" using k fits True by simp_all
  from read_words_ring [OF ring this reads] obtain buf' i' where
    "read_words e (if flags AND ETHERBONE_RCA \<noteq> 0 then w_read_cfg wops else w_read wops) buf
       (ring_at s (k + 8)) b rc = (buf', i', b')"
    and r: "ring_result s (rotate s buf) (k + 8) (concat (map (word_be 4) vs)) buf' i'" by blast
  moreover have "length vs = rc" using reads length_run_reads
    by (metis length_map length_upt minus_nat.diff_0 snd_conv)
  moreover have "RING_INDEX (ring_at s k + 4 + 4) = ring_at s (k + 8)"
    by (simp add: RING_INDEX_mod ring_at_def mod_add_left_eq add.assoc)
  ultimately show ?thesis
    using True by (simp add: process_reads_def ring_result_def add.assoc)
qed

text \<open>A record in the ring is executed as \<^const>\<open>eb_record\<close> executes its bytes, and the answer
  takes its place.\<close>

lemma process_record_ring:
  assumes ring: "aligned_ring s buf" and k: "4 dvd k"
    and n: "n = record_len (rotate s buf ! (k + 2)) (rotate s buf ! (k + 3))"
    and fits: "k + n \<le> 8192" and r: "r = chunk k n (rotate s buf)"
  shows "case eb_record wops st b r of
      None \<Rightarrow> process_record e wops buf (ring_at s k) st b = None
    | Some (ans, st', b') \<Rightarrow> length ans = n \<and> (\<exists>buf'.
        process_record e wops buf (ring_at s k) st b = Some (buf', ring_at s (k + n), st', b')
        \<and> aligned_ring s buf' \<and> rotate s buf' = put k ans (rotate s buf))"
proof -
  let ?V = "rotate s buf"
  have len: "length ?V = 8192" using ring by (simp add: aligned_ring_def)
  have n4: "4 \<le> n" unfolding n by simp
  have byte: "r ! j = ?V ! (k + j)" if "j < 4" for j
    using that n4 fits len unfolding r by (simp add: nth_chunk)
  have bbyte: "buf ! (ring_at s k + j) = r ! j" if "j < 4" for j
  proof -
    have "buf ! (ring_at s k + j) = chunk (ring_at s k) 4 buf ! j"
      using that ring_at_fits [of s k] ring k by (simp add: nth_chunk aligned_ring_def)
    also have "\<dots> = chunk k 4 ?V ! j" using ring_word [OF ring k] n4 fits by simp
    also have "\<dots> = ?V ! (k + j)" using that n4 fits len by (simp add: nth_chunk)
    finally show ?thesis using byte [OF that] by simp
  qed
  define h where "h = answer_at r"
  define rc where "rc = unat (r ! 3)"
  have n_eq: "n = 4 * (h + 1 + (if 0 < rc then 1 + rc else 0))"
    using record_len_answer [of r] byte [of 2] byte [of 3] by (simp add: n h_def rc_def)
  have h: "h = (if 0 < unat (r ! 2) then 1 + unat (r ! 2) else 0)" by (simp add: h_def answer_at_def)
  define hd where "hd = [reply_flags (r ! 0), r ! 1, r ! 3, 0]"
  define rd where "rd = (if r ! 0 AND ETHERBONE_RCA \<noteq> 0 then w_read_cfg wops else w_read wops)"
  have core: "\<exists>buf'. (case process_writes e wops (r ! 0) (unat (r ! 2)) buf (ring_at s k) b0 of (buf, i, b) \<Rightarrow>
        process_reads e wops (r ! 0) rc
          (buf[i + 0 := reply_flags (r ! 0), i + 1 := r ! 1, i + 2 := r ! 3, i + 3 := 0]) i b)
      = (buf', ring_at s (k + n), b1)
      \<and> aligned_ring s buf' \<and> rotate s buf' = put k (replicate (4 * h) 0 @ hd
          @ (if 0 < rc then chunk (4 * (h + 1)) 4 r @ concat (map (word_be 4) vs) else [])) ?V
      \<and> length vs = rc"
    if run: "run_reads rd (run_writes wops b0 (rec_writes r)) (rec_reads r) = (b1, vs)" for b0 b1 vs
  proof -
    have wn: "4 * (if 0 < unat (r ! 2) then unat (r ! 2) + 2 else 1) \<le> n" unfolding n_eq h by simp
    obtain wbuf i where w: "process_writes e wops (r ! 0) (unat (r ! 2)) buf (ring_at s k) b0
        = (wbuf, i, run_writes wops b0 (rec_writes r))"
      and "ring_result s ?V k (replicate (4 * h) 0) wbuf i"
      using process_writes_ring [OF ring k wn fits r refl refl, of e wops b0] unfolding h_def by blast
    then have wr: "aligned_ring s wbuf" "rotate s wbuf = put k (replicate (4 * h) 0) ?V" "i = ring_at s (k + 4 * h)"
      by (simp_all add: ring_result_def)
    let ?k = "k + 4 * h" and ?buf = "wbuf[i + 0 := reply_flags (r ! 0), i + 1 := r ! 1, i + 2 := r ! 3, i + 3 := 0]"
    have k': "4 dvd ?k" "?k + 4 \<le> 8192" using k fits unfolding n_eq by simp_all
    have "i + 4 \<le> length wbuf"
      using ring_at_fits [of s ?k] wr(1,3) k'(1) by (simp add: aligned_ring_def)
    then have "?buf = put i hd wbuf" unfolding hd_def by (rule list_update_put)
    moreover have "length hd = 4" by (simp add: hd_def)
    ultimately have hr: "aligned_ring s ?buf" "rotate s ?buf = put ?k hd (rotate s wbuf)"
      using ring_put_word [OF wr(1) k', of hd] wr(3) by simp_all
    have hv: "rotate s ?buf = put k (replicate (4 * h) 0 @ hd) ?V"
      using hr(2) wr(2) put_put_append [of k "replicate (4 * h) 0" hd ?V] k' len \<open>length hd = 4\<close> by simp
    have zh: "length (replicate (4 * h) (0 :: u8) @ hd) = 4 * h + 4" using \<open>length hd = 4\<close> by simp
    have "map (\<lambda>j. eb_to_cpu e (rotate s ?buf) (?k + 8 + 4 * j)) [0..<rc] = rec_reads r"
    proof -
      have "eb_to_cpu e (rotate s ?buf) (?k + 8 + 4 * j) = eb_word r (h + 2 + j)" if j: "j < rc" for j
      proof -
        have "eb_to_cpu e (rotate s ?buf) (?k + 8 + 4 * j) = eb_to_cpu e ?V (?k + 8 + 4 * j)"
          unfolding hv using k' len zh by (intro eb_to_cpu_put_below) simp_all
        also have eq: "?k + 8 + 4 * j = k + 4 * (h + 2 + j)" by simp
        also have "4 * (h + 2 + j) + 4 \<le> n" using j unfolding n_eq by simp
        then have "eb_to_cpu e ?V (k + 4 * (h + 2 + j)) = eb_word r (h + 2 + j)"
          unfolding r using fits len by (intro eb_word_chunk) simp_all
        finally show ?thesis unfolding eq .
      qed
      then show ?thesis by (simp add: rec_reads_def h_def rc_def)
    qed
    then have reads: "run_reads (if r ! 0 AND ETHERBONE_RCA \<noteq> 0 then w_read_cfg wops else w_read wops)
        (run_writes wops b0 (rec_writes r)) (map (\<lambda>j. eb_to_cpu e (rotate s ?buf) (?k + 8 + 4 * j)) [0..<rc]) = (b1, vs)"
      using run by (simp only: rd_def)
    have fit: "?k + 4 * (if 0 < rc then 2 + rc else 1) = k + n" unfolding n_eq by simp
    then have "?k + 4 * (if 0 < rc then 2 + rc else 1) \<le> 8192" using fits by (simp only:)
    from process_reads_ring [OF hr(1) k'(1) this reads] obtain buf' where
      rr: "process_reads e wops (r ! 0) rc ?buf (ring_at s ?k) (run_writes wops b0 (rec_writes r))
        = (buf', ring_at s (k + n), b1)" "aligned_ring s buf'"
      and rv: "rotate s buf' = (if 0 < rc then put (?k + 8) (concat (map (word_be 4) vs)) (rotate s ?buf) else rotate s ?buf)"
      unfolding fit by blast
    have lvs: "length vs = rc" using reads length_run_reads
      by (metis length_map length_upt minus_nat.diff_0 snd_conv)
    have "rotate s buf' = put k (replicate (4 * h) 0 @ hd
          @ (if 0 < rc then chunk (4 * (h + 1)) 4 r @ concat (map (word_be 4) vs) else [])) ?V"
    proof (cases "0 < rc")
      case True
      have bound: "k + length (replicate (4 * h) (0 :: u8) @ hd) + 4 + length (concat (map (word_be 4) vs)) \<le> length ?V"
        using fits len lvs True zh unfolding n_eq by simp
      have "chunk (k + (4 * h + 4)) 4 ?V = chunk (4 * (h + 1)) 4 r"
      proof -
        have "4 * (h + 1) + 4 \<le> n" using True unfolding n_eq by simp
        then show ?thesis unfolding r by (subst chunk_chunk) (simp_all add: add.commute)
      qed
      moreover have eq: "?k + 8 = k + (4 * h + 4) + 4" by simp
      have "rotate s buf' = put (k + (4 * h + 4) + 4) (concat (map (word_be 4) vs))
          (put k (replicate (4 * h) 0 @ hd) ?V)"
        using rv True unfolding hv eq by (simp only: if_True)
      ultimately show ?thesis
        using put_gap [OF bound] True unfolding zh by (simp only: if_True append_assoc)
    next
      case False
      then show ?thesis using rv hv by simp
    qed
    then show ?thesis using w rr lvs wr(3) by simp
  qed
  show ?thesis
  proof (cases "if st = Idle then do { b \<leftarrow> w_cycle wops b True; Some (Cycle, b) } else Some (st, b)")
    case None
    then have "eb_record wops st b r = None" "process_record e wops buf (ring_at s k) st b = None"
      by (simp_all only: eb_record_def process_record_def Let_def bind.bind_lzero)
    then show ?thesis by simp
  next
    case (Some p)
    obtain st1 b1 where p: "p = (st1, b1)" by (cases p)
    define b2 where "b2 = w_byteenable wops b1 (r ! 1)"
    obtain b3 vs where run: "run_reads rd (run_writes wops b2 (rec_writes r)) (rec_reads r) = (b3, vs)"
      by (cases "run_reads rd (run_writes wops b2 (rec_writes r)) (rec_reads r)")
    define ans where "ans = replicate (4 * h) 0 @ hd
      @ (if 0 < rc then chunk (4 * (h + 1)) 4 r @ concat (map (word_be 4) vs) else [])"
    from core [OF run] obtain buf' where
      c: "(case process_writes e wops (r ! 0) (unat (r ! 2)) buf (ring_at s k) b2 of (buf, i, b) \<Rightarrow>
        process_reads e wops (r ! 0) rc
          (buf[i + 0 := reply_flags (r ! 0), i + 1 := r ! 1, i + 2 := r ! 3, i + 3 := 0]) i b)
        = (buf', ring_at s (k + n), b3)"
      and res: "aligned_ring s buf'" "rotate s buf' = put k ans ?V" "length vs = rc"
      unfolding ans_def by blast
    have spec: "eb_record wops st b r = (if r ! 0 AND ETHERBONE_CYC \<noteq> 0
        then do { b \<leftarrow> w_cycle wops b3 False; Some (ans, Idle, b) } else Some (ans, st1, b3))"
      unfolding eb_record_def Some p bind.bind_lunit prod.case Let_def b2_def [symmetric]
        rd_def [symmetric] run
      by (simp only: prod.case h_def hd_def rc_def ans_def)
    have code: "process_record e wops buf (ring_at s k) st b = (if r ! 0 AND ETHERBONE_CYC \<noteq> 0
        then do { b \<leftarrow> w_cycle wops b3 False; Some (buf', ring_at s (k + n), Idle, b) }
        else Some (buf', ring_at s (k + n), st1, b3))"
    proof -
      have f: "buf ! (ring_at s k + 0) = r ! 0" "buf ! (ring_at s k + 1) = r ! 1"
        "buf ! (ring_at s k + 2) = r ! 2" "buf ! (ring_at s k + 3) = r ! 3"
        by (rule bbyte; simp)+
      obtain wbuf i wb where w: "process_writes e wops (r ! 0) (unat (r ! 2)) buf (ring_at s k) b2 = (wbuf, i, wb)"
        by (cases "process_writes e wops (r ! 0) (unat (r ! 2)) buf (ring_at s k) b2")
      show ?thesis
        using c unfolding process_record_def Let_def f Some p bind.bind_lunit prod.case b2_def [symmetric] w
        by (simp only: prod.case rc_def) 
    qed
    have "length r = n" unfolding r using fits len by simp
    then have "0 < rc \<Longrightarrow> length (chunk (4 * (h + 1)) 4 r) = 4" using n_eq by (intro length_chunk_in) simp
    then have "length ans = n" unfolding ans_def n_eq using res(3) by (simp add: hd_def)
    then show ?thesis
      using res(1,2) unfolding spec code
      by (cases "r ! 0 AND ETHERBONE_CYC = 0"; cases "w_cycle wops b3 False") simp_all
  qed
qed

subsection \<open>The answer to a record\<close>

lemma eb_record_cases:
  assumes "eb_record wops st b r = Some (ans, st', b')"
  obtains b1 b2 vs where "st = Idle \<and> w_cycle wops b True = Some b1 \<or> st \<noteq> Idle \<and> b1 = b"
    and "run_reads (if r ! 0 AND ETHERBONE_RCA \<noteq> 0 then w_read_cfg wops else w_read wops)
      (run_writes wops (w_byteenable wops b1 (r ! 1)) (rec_writes r)) (rec_reads r) = (b2, vs)"
    and "length vs = unat (r ! 3)"
    and "ans = replicate (4 * answer_at r) 0 @ [reply_flags (r ! 0), r ! 1, r ! 3, 0]
      @ (if 0 < unat (r ! 3) then chunk (4 * (answer_at r + 1)) 4 r @ concat (map (word_be 4) vs) else [])"
    and "r ! 0 AND ETHERBONE_CYC \<noteq> 0 \<and> w_cycle wops b2 False = Some b' \<and> st' = Idle
      \<or> r ! 0 AND ETHERBONE_CYC = 0 \<and> b' = b2 \<and> st' = (if st = Idle then Cycle else st)"
proof -
  let ?rd = "if r ! 0 AND ETHERBONE_RCA \<noteq> 0 then w_read_cfg wops else w_read wops"
  obtain st1 b1 where o: "(if st = Idle then do { b \<leftarrow> w_cycle wops b True; Some (Cycle, b) } else Some (st, b)) = Some (st1, b1)"
    using assms unfolding eb_record_def by (auto simp: bind_eq_Some_conv split: if_splits)
  then have c1: "st = Idle \<and> w_cycle wops b True = Some b1 \<or> st \<noteq> Idle \<and> b1 = b" "st1 = (if st = Idle then Cycle else st)"
    by (auto simp: bind_eq_Some_conv split: if_splits)
  obtain b2 vs where rs: "run_reads ?rd (run_writes wops (w_byteenable wops b1 (r ! 1)) (rec_writes r)) (rec_reads r) = (b2, vs)"
    by fastforce
  then have l: "length vs = unat (r ! 3)"
    using length_run_reads [of ?rd "run_writes wops (w_byteenable wops b1 (r ! 1)) (rec_writes r)" "rec_reads r"]
    by (simp add: rec_reads_def)
  define ans1 where "ans1 = replicate (4 * answer_at r) 0 @ [reply_flags (r ! 0), r ! 1, r ! 3, 0]
      @ (if 0 < unat (r ! 3) then chunk (4 * (answer_at r + 1)) 4 r @ concat (map (word_be 4) vs) else [])"
  have "eb_record wops st b r = (if r ! 0 AND ETHERBONE_CYC \<noteq> 0
      then do { b \<leftarrow> w_cycle wops b2 False; Some (ans1, Idle, b) } else Some (ans1, st1, b2))"
    unfolding eb_record_def o bind.bind_lunit prod.case Let_def rs by (simp only: prod.case ans1_def)
  then have "ans = ans1" "r ! 0 AND ETHERBONE_CYC \<noteq> 0 \<and> w_cycle wops b2 False = Some b' \<and> st' = Idle
      \<or> r ! 0 AND ETHERBONE_CYC = 0 \<and> b' = b2 \<and> st' = st1"
    using assms by (cases "w_cycle wops b2 False"; auto split: if_splits)+
  then show ?thesis using that [OF c1(1) rs l] c1(2) ans1_def by simp
qed

lemma length_eb_record:
  assumes "eb_record wops st b r = Some (ans, st', b')" and "length r = record_len (r ! 2) (r ! 3)"
  shows "length ans = length r"
  using eb_record_cases [OF assms(1)]
proof cases
  case (1 b1 b2 vs)
  have "length ans = 4 * answer_at r + 4
      + (if 0 < unat (r ! 3) then length (chunk (4 * (answer_at r + 1)) 4 r) + 4 * unat (r ! 3) else 0)"
    unfolding 1(4) using 1(3) by simp
  then show ?thesis using assms(2) by (simp add: record_len_answer split: if_splits)
qed

lemma length_eb_stream:
  "eb_stream wops st b xs = Some (out, rest, st', b') \<Longrightarrow> length out + length rest = length xs"
proof (induction wops st b xs arbitrary: out rest st' b' rule: eb_stream.induct)
  case (1 wops st b xs)
  show ?case
  proof (cases "length xs < 4 \<or> length xs < record_len (xs ! 2) (xs ! 3)")
    case True
    then have "eb_stream wops st b xs = Some ([], xs, st, b)" by (subst eb_stream.simps) (auto simp: Let_def)
    then show ?thesis using "1.prems" by simp
  next
    case False
    define n where "n = record_len (xs ! 2) (xs ! 3)"
    have n: "4 \<le> n" "n \<le> length xs" "\<not> length xs < 4" using False by (auto simp: n_def)
    have nth: "take n xs ! 2 = xs ! 2" "take n xs ! 3 = xs ! 3" using n by simp_all
    from "1.prems" n obtain a st1 b1 o1 where rec: "eb_record wops st b (take n xs) = Some (a, st1, b1)"
      and str: "eb_stream wops st1 b1 (drop n xs) = Some (o1, rest, st', b')" and out: "out = a @ o1"
      by (subst (asm) eb_stream.simps) (auto simp: Let_def n_def [symmetric] bind_eq_Some_conv)
    have "length a = n" using length_eb_record [OF rec] nth n by (simp add: n_def)
    moreover have "length o1 + length rest = length (drop n xs)"
      by (rule "1.IH" [OF _ n_def _ _ _ _ str]) (use n rec in auto)
    ultimately show ?thesis using n out by simp
  qed
qed

lemma eb_stream_one:
  assumes "length r = record_len (r ! 2) (r ! 3)"
  shows "eb_stream wops st b r = do { (ans, st, b) \<leftarrow> eb_record wops st b r; Some (ans, [], st, b) }"
proof -
  have "4 \<le> length r" using assms by simp
  moreover have "eb_stream wops st1 b1 [] = Some ([], [], st1, b1)" for st1 b1 by (subst eb_stream.simps) simp
  ultimately show ?thesis
    by (subst eb_stream.simps) (simp add: assms [symmetric] Let_def case_prod_unfold)
qed

end
