(* ===== verification/EtherboneFifo.thy ===== *)
theory EtherboneFifo
  imports EtherboneStream
begin

text \<open>
  The master device as two queues: the answers not yet read and the input not yet processed, both
  in the ring. The lemmas relate every operation of the context to these queues and to the stream
  function.
\<close>

subsection \<open>The loop\<close>

lemma master_loop_stream:
  assumes "aligned_ring s buf" and "4 dvd k" and "k + left \<le> 8192"
  shows "case eb_stream wops st b (chunk k left (rotate s buf)) of
      None \<Rightarrow> master_loop e wops left buf (ring_at s k) st b = None
    | Some (out, rest, st', b') \<Rightarrow>
        length out + length rest = left \<and> 4 dvd length out
        \<and> rest = drop (length out) (chunk k left (rotate s buf))
        \<and> (\<exists>buf'. master_loop e wops left buf (ring_at s k) st b = Some (length rest, buf', st', b')
             \<and> aligned_ring s buf' \<and> rotate s buf' = put k out (rotate s buf))"
  using assms
proof (induction left arbitrary: buf k st b rule: less_induct)
  case (less left)
  let ?V = "rotate s buf" and ?i = "ring_at s k"
  let ?xs = "chunk k left ?V"
  have len: "length ?V = 8192" using less.prems(1) by (simp add: aligned_ring_def)
  have lxs: "length ?xs = left" using less.prems(3) len by simp
  show ?case
  proof (cases "left < 4")
    case True
    then show ?thesis
      using lxs less.prems by (subst eb_stream.simps, subst master_loop.simps) simp
  next
    case big: False
    define n where "n = record_len (?V ! (k + 2)) (?V ! (k + 3))"
    have xs: "?xs ! 2 = ?V ! (k + 2)" "?xs ! 3 = ?V ! (k + 3)"
      using big less.prems(3) len by (simp_all add: nth_chunk)
    have byte: "buf ! (?i + j) = ?V ! (k + j)" if "j < 4" for j
    proof -
      have "buf ! (?i + j) = chunk ?i 4 buf ! j"
        using that ring_at_fits [of s k] less.prems by (simp add: nth_chunk aligned_ring_def)
      also have "\<dots> = chunk k 4 ?V ! j" using ring_word [OF less.prems(1,2)] big less.prems(3) by simp
      finally show ?thesis using that big less.prems(3) len by (simp add: nth_chunk)
    qed
    have rl: "record_len (buf ! (?i + 2)) (buf ! (?i + 3)) = n"
      using byte [of 2] byte [of 3] by (simp only: n_def)
    show ?thesis
    proof (cases "left < n")
      case True
      then have "eb_stream wops st b ?xs = Some ([], ?xs, st, b)"
        using big lxs by (subst eb_stream.simps) (simp add: xs n_def)
      moreover have "master_loop e wops left buf ?i st b = Some (left, buf, st, b)"
        using big True by (subst master_loop.simps) (simp only: rl Let_def if_False if_True)
      ultimately show ?thesis using less.prems(1) lxs by simp
    next
      case fits: False
      have kn: "k + n \<le> 8192" using fits less.prems(3) by simp
      define r where "r = chunk k n ?V"
      have tk: "take n ?xs = r" using fits by (simp add: r_def chunk_def)
      have dr: "drop n ?xs = chunk (k + n) (left - n) ?V" using fits by (simp add: chunk_def drop_take add.commute)
      have n4: "4 dvd n" "0 < n" by (simp_all add: n_def record_len_def)
      have stream: "eb_stream wops st b ?xs = do {
          (answer, st, b) \<leftarrow> eb_record wops st b r;
          (out, rest, st, b) \<leftarrow> eb_stream wops st b (chunk (k + n) (left - n) ?V);
          Some (answer @ out, rest, st, b) }"
        using big fits by (subst eb_stream.simps) (simp only: lxs tk dr xs n_def [symmetric] Let_def if_False)
      have loop: "master_loop e wops left buf ?i st b = do {
          (buf, i, st, b) \<leftarrow> process_record e wops buf ?i st b;
          master_loop e wops (left - n) buf i st b }"
        using big fits by (subst master_loop.simps) (simp only: rl Let_def if_False)
      note rec = process_record_ring [OF less.prems(1,2) n_def kn r_def, where e = e and wops = wops and st = st and b = b]
      show ?thesis
      proof (cases "eb_record wops st b r")
        case None
        then show ?thesis using rec by (simp add: stream loop)
      next
        case (Some p)
        obtain ans st1 b1 where p: "p = (ans, st1, b1)" by (cases p)
        from rec Some p obtain buf1 where la: "length ans = n"
          and pr: "process_record e wops buf ?i st b = Some (buf1, ring_at s (k + n), st1, b1)"
          and ring1: "aligned_ring s buf1" and v1: "rotate s buf1 = put k ans ?V" by auto
        have same: "chunk (k + n) (left - n) (rotate s buf1) = chunk (k + n) (left - n) ?V"
          unfolding v1 using la kn len by (intro chunk_put_above) simp_all
        have "left - n < left" "4 dvd k + n" "k + n + (left - n) \<le> 8192"
          using n4 fits less.prems by simp_all
        note ih = less.IH [OF this(1) ring1 this(2,3), of st1 b1, unfolded same]
        show ?thesis
        proof (cases "eb_stream wops st1 b1 (chunk (k + n) (left - n) ?V)")
          case None
          then show ?thesis using ih Some p pr by (simp add: stream loop)
        next
          case (Some q)
          obtain out rest st2 b2 where q: "q = (out, rest, st2, b2)" by (cases q)
          from ih Some q obtain buf2 where lo: "length out + length rest = left - n" "4 dvd length out"
            and rest: "rest = drop (length out) (chunk (k + n) (left - n) ?V)"
            and ml: "master_loop e wops (left - n) buf1 (ring_at s (k + n)) st1 b1 = Some (length rest, buf2, st2, b2)"
            and ring2: "aligned_ring s buf2" and v2: "rotate s buf2 = put (k + n) out (rotate s buf1)" by auto
          have "rotate s buf2 = put k (ans @ out) ?V"
            using v2 v1 put_put_append [of k ans out ?V] la lo fits less.prems(3) len by simp
          moreover have "rest = drop (length (ans @ out)) ?xs"
            unfolding rest dr [symmetric] by (simp add: la add.commute)
          ultimately show ?thesis
            using Some q \<open>eb_record wops st b r = Some p\<close> p pr ml lo la n4 fits ring2
            by (simp add: stream loop)
        qed
      qed
    qed
  qed
qed

text \<open>How the input is cut into pieces does not matter.\<close>

lemma eb_stream_append:
  "eb_stream wops st b (xs @ ys) = do {
     (out1, rest1, st1, b1) \<leftarrow> eb_stream wops st b xs;
     (out2, rest2, st2, b2) \<leftarrow> eb_stream wops st1 b1 (rest1 @ ys);
     Some (out1 @ out2, rest2, st2, b2) }"
proof (induction wops st b xs rule: eb_stream.induct)
  case (1 wops st b xs)
  have base: "do { (out2, rest2, st2, b2) \<leftarrow> eb_stream wops st b (xs @ ys); Some ([] @ out2, rest2, st2, b2) }
      = eb_stream wops st b (xs @ ys)"
    by (cases "eb_stream wops st b (xs @ ys)") auto
  show ?case
  proof (cases "length xs < 4 \<or> length xs < record_len (xs ! 2) (xs ! 3)")
    case True
    then have "eb_stream wops st b xs = Some ([], xs, st, b)"
      by (subst eb_stream.simps) (auto simp: Let_def)
    then show ?thesis using base by simp
  next
    case False
    define n where "n = record_len (xs ! 2) (xs ! 3)"
    have len: "4 \<le> length xs" "n \<le> length xs" using False by (auto simp: n_def)
    have nth: "(xs @ ys) ! 2 = xs ! 2" "(xs @ ys) ! 3 = xs ! 3" using len by (simp_all add: nth_append)
    have l: "eb_stream wops st b xs = do {
        (answer, st, b) \<leftarrow> eb_record wops st b (take n xs);
        (out, rest, st, b) \<leftarrow> eb_stream wops st b (drop n xs);
        Some (answer @ out, rest, st, b) }"
      using len by (subst eb_stream.simps) (simp add: n_def [symmetric])
    have r: "eb_stream wops st b (xs @ ys) = do {
        (answer, st, b) \<leftarrow> eb_record wops st b (take n xs);
        (out, rest, st, b) \<leftarrow> eb_stream wops st b (drop n xs @ ys);
        Some (answer @ out, rest, st, b) }"
      using len by (subst eb_stream.simps) (simp add: nth n_def [symmetric])
    show ?thesis
    proof (cases "eb_record wops st b (take n xs)")
      case None
      then show ?thesis by (simp add: l r)
    next
      case (Some p)
      obtain ans st1 b1 where p: "p = (ans, st1, b1)" by (cases p)
      have "eb_stream wops st1 b1 (drop n xs @ ys) = do {
          (out1, rest1, st1, b1) \<leftarrow> eb_stream wops st1 b1 (drop n xs);
          (out2, rest2, st2, b2) \<leftarrow> eb_stream wops st1 b1 (rest1 @ ys);
          Some (out1 @ out2, rest2, st2, b2) }"
        using False Some p by (intro 1) (auto simp: n_def)
      then show ?thesis
        unfolding l r Some p
        by (cases "eb_stream wops st1 b1 (drop n xs)")
          (auto simp: Option.bind_assoc split: prod.splits intro!: Option.bind_cong)
    qed
  qed
qed

subsection \<open>The two queues\<close>

definition view :: "eb_master \<Rightarrow> u8 list" where
  "view c = rotate (unat (m_sent c) mod 8192) (m_buf c)"

definition readable :: "eb_master \<Rightarrow> u8 list" where
  "readable c = take (RING_READ_LEN c) (view c)"

definition pending_in :: "eb_master \<Rightarrow> u8 list" where
  "pending_in c = chunk (RING_READ_LEN c) (RING_PROC_LEN c) (view c)"

definition ring_ok :: "eb_master \<Rightarrow> bool" where
  "ring_ok c \<longleftrightarrow> length (m_buf c) = 8192 \<and> unat (m_sent c) < 16384 \<and> unat (m_processed c) < 16384
     \<and> unat (m_received c) < 16384 \<and> RING_READ_LEN c + RING_PROC_LEN c \<le> 8192
     \<and> 4 dvd unat (m_processed c)
     \<and> (m_state c = Header \<longrightarrow> m_sent c = 0 \<and> m_processed c = 0)"

text \<open>The invariant of a context between two operations.\<close>

definition master_inv :: "eb_master \<Rightarrow> bool" where
  "master_inv c \<longleftrightarrow> ring_ok c \<and> (m_state c = Header \<longrightarrow> length (pending_in c) < 8)"

lemma length_view: "ring_ok c \<Longrightarrow> length (view c) = 8192"
  by (simp add: view_def ring_ok_def)

lemma length_queues:
  assumes "ring_ok c"
  shows "length (readable c) = RING_READ_LEN c" and "length (pending_in c) = RING_PROC_LEN c"
  using assms length_view [OF assms] by (simp_all add: readable_def pending_in_def ring_ok_def)

lemma pos_diff:
  assumes "unat x < 16384" and "unat y < 16384" and "unat (RING_POS (y - x)) = d"
  shows "unat y = (unat x + d) mod 16384"
proof -
  have "d = (unat y + 16384 - unat x) mod 16384"
    using RING_POS_sub [OF assms(1), of y] assms(3) by (simp only:)
  then have "(unat x + d) mod 16384 = (unat x + (unat y + 16384 - unat x)) mod 16384"
    by (simp only: mod_add_right_eq)
  also have "unat x + (unat y + 16384 - unat x) = unat y + 16384"
    by (rule le_add_diff_inverse) (use assms(1) in linarith)
  also have "(unat y + 16384) mod 16384 = unat y"
    by (simp only: mod_add_self2 mod_less [OF assms(2)])
  finally show ?thesis by (rule sym)
qed

lemma diff_pos:
  assumes "unat x < 16384" and "unat y = (unat x + d) mod 16384" and "d < 16384"
  shows "unat (RING_POS (y - x)) = d"
proof -
  have s: "unat (RING_POS (y - x)) = (unat y + 16384 - unat x) mod 16384"
    using RING_POS_sub [OF assms(1)] .
  show ?thesis
  proof (cases "unat x + d < 16384")
    case True
    then have "unat y + 16384 - unat x = d + 16384" using assms(2) by simp
    then show ?thesis using s assms(3) by simp
  next
    case False
    have "(unat x + d) mod 16384 = (unat x + d - 16384) mod 16384" using False by (simp add: le_mod_geq)
    then have "unat y = unat x + d - 16384" using assms False by simp
    then have "unat y + 16384 - unat x = d" using False by simp
    then show ?thesis using s assms(3) by simp
  qed
qed

lemma ring_positions:
  assumes "ring_ok c"
  shows "unat (m_processed c) = (unat (m_sent c) + RING_READ_LEN c) mod 16384"
    and "unat (m_received c) = (unat (m_sent c) + RING_READ_LEN c + RING_PROC_LEN c) mod 16384"
    and "RING_WRITE_LEN c = 8192 - RING_READ_LEN c - RING_PROC_LEN c"
proof -
  show p: "unat (m_processed c) = (unat (m_sent c) + RING_READ_LEN c) mod 16384"
    using assms by (intro pos_diff) (auto simp: ring_ok_def RING_READ_LEN_def)
  have "unat (m_received c) = (unat (m_processed c) + RING_PROC_LEN c) mod 16384"
    using assms by (intro pos_diff) (auto simp: ring_ok_def RING_PROC_LEN_def)
  then show r: "unat (m_received c) = (unat (m_sent c) + RING_READ_LEN c + RING_PROC_LEN c) mod 16384"
    by (simp add: p mod_add_left_eq)
  let ?u = "RING_READ_LEN c + RING_PROC_LEN c"
  have u: "?u \<le> 8192" "unat (m_sent c) < 16384" using assms by (auto simp: ring_ok_def)
  have s: "unat (m_sent c + of_nat RING_SIZE) = unat (m_sent c) + 8192"
  proof -
    have "unat (of_nat RING_SIZE :: u32) = 8192" by (simp add: RING_SIZE_def)
    moreover have "unat (m_sent c) + unat (of_nat RING_SIZE :: u32) < 2 ^ LENGTH(32)"
      using calculation u(2) by simp
    then have "unat (m_sent c + of_nat RING_SIZE) = unat (m_sent c) + unat (of_nat RING_SIZE :: u32)"
      by (simp only: unat_add_lem)
    ultimately show ?thesis by simp
  qed
  have "RING_WRITE_LEN c = (unat (m_sent c) + 8192 + 16384 - unat (m_received c)) mod 16384"
    unfolding RING_WRITE_LEN_def using assms s by (subst RING_POS_sub) (simp_all add: ring_ok_def)
  also have "\<dots> = 8192 - ?u"
  proof (cases "unat (m_sent c) + ?u < 16384")
    case True
    then have "unat (m_received c) = unat (m_sent c) + ?u" using r by (simp add: add.assoc)
    then have "unat (m_sent c) + 8192 + 16384 - unat (m_received c) = (8192 - ?u) + 16384" using u by simp
    then show ?thesis by simp
  next
    case False
    then have "(unat (m_sent c) + ?u) mod 16384 = unat (m_sent c) + ?u - 16384"
      using u by (simp add: le_mod_geq)
    then have "unat (m_received c) = unat (m_sent c) + ?u - 16384" using r by (simp add: add.assoc)
    then have e: "unat (m_sent c) + 8192 + 16384 - unat (m_received c) = (8192 - ?u) + 16384 + 16384"
      using u False by linarith
    have "8192 - ?u < 16384" by linarith
    then show ?thesis unfolding e by (simp only: mod_add_self2 mod_less)
  qed
  finally show "RING_WRITE_LEN c = 8192 - RING_READ_LEN c - RING_PROC_LEN c" by simp
qed

text \<open>The view from a later position.\<close>

lemma view_from:
  assumes "ring_ok c" and "unat x = (unat (m_sent c) + d) mod 16384"
  shows "rotate (unat x mod 8192) (m_buf c) = rotate d (view c)"
proof -
  have "unat x mod 8192 = (unat (m_sent c) + d) mod 8192"
    using assms(2) by (simp add: mod_mod_cancel)
  moreover have "rotate ((unat (m_sent c) + d) mod 8192) (m_buf c) = rotate (d + unat (m_sent c) mod 8192) (m_buf c)"
    using assms(1) by (metis rotate_conv_mod ring_ok_def mod_add_left_eq add.commute)
  ultimately show ?thesis by (simp add: view_def rotate_rotate)
qed

lemma take_rotate:
  "d + n \<le> length V \<Longrightarrow> take n (rotate d V) = chunk d n V"
  by (cases "d = length V") (simp_all add: rotate_drop_take chunk_def)

lemma rotate_put:
  assumes "d + k + length ws \<le> length V"
  shows "put k ws (rotate d V) = rotate d (put (d + k) ws V)"
proof (cases "d < length V")
  case True
  have l: "length (put (d + k) ws V) = length V" using assms by (simp add: length_put)
  show ?thesis
    using assms True by (simp add: rotate_drop_take l) (simp add: put_def drop_take add.commute add.left_commute)
next
  case False
  then have "length ws = 0" "k = 0" using assms by linarith+
  then show ?thesis by simp
qed

lemma rotate_cancel:
  assumes "rotate d A = rotate d B" and "length A = length B" shows "A = B"
proof -
  let ?m = "d mod length A"
  have "drop ?m A @ take ?m A = drop ?m B @ take ?m B"
    using assms by (simp add: rotate_drop_take)
  then have "drop ?m A = drop ?m B" "take ?m A = take ?m B"
    using assms(2) by (simp_all add: append_eq_append_conv)
  then show ?thesis by (metis append_take_drop_id)
qed

subsection \<open>Processing is the stream function on the queues\<close>

definition eb_hello :: "u8 list \<Rightarrow> u8 list" where
  "eb_hello pend = [0x4E, 0x6F, 0x12, 0x44] @ chunk 4 4 pend"

lemma hello_put:
  assumes "8 \<le> length buf"
  shows "put 0 (eb_hello buf) buf = buf[0 := 0x4E, 1 := 0x6F, 2 := 0x12, 3 := 0x44]"
proof -
  have "0 + 4 \<le> length buf" using assms by simp
  then have "buf[0 := 0x4E, 1 := 0x6F, 2 := 0x12, 3 := 0x44] = put 0 [0x4E, 0x6F, 0x12, 0x44] buf"
    using list_update_put [of 0 buf "0x4E" "0x6F" "0x12" "0x44"] by (simp only: add_0)
  also have "\<dots> = [0x4E, 0x6F, 0x12, 0x44] @ drop 4 buf" by (simp add: put_def eval_nat_numeral)
  also have "drop 4 buf = take 4 (drop 4 buf) @ drop 8 buf"
    using append_take_drop_id [of 4 "drop 4 buf"] by simp
  finally show ?thesis using assms by (simp add: put_def eb_hello_def chunk_def)
qed

text \<open>The protocol of a connection: eight bytes of greeting, then records.\<close>

definition eb_input ::
    "'b wishbone_operations \<Rightarrow> m_state \<Rightarrow> 'b \<Rightarrow> u8 list \<Rightarrow> (u8 list \<times> u8 list \<times> m_state \<times> 'b) option" where
  "eb_input wops st b pend =
     (if st = Header then
        (if length pend < 8 then Some ([], pend, Header, b)
         else do {
           (out, rest, st, b) \<leftarrow> eb_stream wops Idle b (drop 8 pend);
           Some (eb_hello pend @ out, rest, st, b) })
      else eb_stream wops st b pend)"

lemma eb_record_state: "eb_record wops st b r = Some (out, st', b') \<Longrightarrow> st \<noteq> Header \<Longrightarrow> st' \<noteq> Header"
  by (cases st; cases "w_cycle wops b True")
    (auto simp: eb_record_def Let_def bind_eq_Some_conv split: prod.splits if_splits)

lemma eb_stream_state:
  "eb_stream wops st b xs = Some (out, rest, st', b') \<Longrightarrow> st \<noteq> Header \<Longrightarrow> st' \<noteq> Header"
proof (induction wops st b xs arbitrary: out rest st' b' rule: eb_stream.induct)
  case (1 wops st b xs)
  show ?case
  proof (cases "length xs < 4 \<or> length xs < record_len (xs ! 2) (xs ! 3)")
    case True
    then have "eb_stream wops st b xs = Some ([], xs, st, b)" by (subst eb_stream.simps) (auto simp: Let_def)
    then show ?thesis using "1.prems" by simp
  next
    case False
    with "1.prems" obtain ans st1 b1 out1 where
      r: "eb_record wops st b (take (record_len (xs ! 2) (xs ! 3)) xs) = Some (ans, st1, b1)"
      and s: "eb_stream wops st1 b1 (drop (record_len (xs ! 2) (xs ! 3)) xs) = Some (out1, rest, st', b')"
      by (subst (asm) eb_stream.simps) (auto simp: Let_def bind_eq_Some_conv)
    show ?thesis
      using "1.IH" [OF _ refl _ _ _ _ s] False r eb_record_state [OF r "1.prems"(2)] by auto
  qed
qed

lemma length_eb_input:
  "eb_input wops st b xs = Some (out, rest, st', b') \<Longrightarrow> length out + length rest = length xs"
  by (auto simp: eb_input_def eb_hello_def bind_eq_Some_conv dest!: length_eb_stream split: if_splits)

text \<open>Input that comes in two pieces is answered as if it came in one.\<close>

lemma eb_input_append:
  "eb_input wops st b (xs @ ys) = do {
     (out1, rest1, st1, b1) \<leftarrow> eb_input wops st b xs;
     (out2, rest2, st2, b2) \<leftarrow> eb_input wops st1 b1 (rest1 @ ys);
     Some (out1 @ out2, rest2, st2, b2) }"
proof (cases "st = Header \<and> length xs < 8")
  case True
  then have "eb_input wops st b xs = Some ([], xs, Header, b)" by (simp add: eb_input_def)
  then show ?thesis using True by (cases "eb_input wops Header b (xs @ ys)") auto
next
  case False
  have run: "eb_input wops st1 b1 zs = eb_stream wops st1 b1 zs" if "st1 \<noteq> Header" for st1 b1 zs
    using that by (simp add: eb_input_def)
  have cont: "eb_stream wops st0 b0 (zs @ ys) = do {
     (out1, rest1, st1, b1) \<leftarrow> eb_stream wops st0 b0 zs;
     (out2, rest2, st2, b2) \<leftarrow> eb_input wops st1 b1 (rest1 @ ys);
     Some (out1 @ out2, rest2, st2, b2) }" if "st0 \<noteq> Header" for st0 b0 zs
    using eb_stream_append [of wops st0 b0 zs ys] eb_stream_state [of wops st0 b0 zs] that run
    by (cases "eb_stream wops st0 b0 zs") auto
  show ?thesis
  proof (cases "st = Header")
    case hdr: True
    then have len: "8 \<le> length xs" using False by simp
    then have h: "eb_hello (xs @ ys) = eb_hello xs" by (simp add: eb_hello_def chunk_app_left)
    have l: "eb_input wops st b (xs @ ys) = do {
        (out, rest, st, b) \<leftarrow> eb_stream wops Idle b (drop 8 xs @ ys); Some (eb_hello xs @ out, rest, st, b) }"
      and r: "eb_input wops st b xs = do {
        (out, rest, st, b) \<leftarrow> eb_stream wops Idle b (drop 8 xs); Some (eb_hello xs @ out, rest, st, b) }"
      using hdr len h by (simp_all add: eb_input_def)
    show ?thesis
    proof (cases "eb_stream wops Idle b (drop 8 xs)")
      case None
      then show ?thesis unfolding l r using cont [of Idle b "drop 8 xs"] by simp
    next
      case (Some q)
      obtain out1 rest1 st1 b1 where q: "q = (out1, rest1, st1, b1)" by (cases q)
      show ?thesis
        unfolding l r using cont [of Idle b "drop 8 xs"] Some q
        by (cases "eb_input wops st1 b1 (rest1 @ ys)") auto
    qed
  next
    case False
    then show ?thesis using cont [OF False] by (simp add: run [OF False])
  qed
qed

text \<open>The position of the processed input moves on over \<open>out\<close>, stored in the place of the input.\<close>

lemma advance_processed:
  assumes ok: "ring_ok c" and buf: "length buf' = 8192"
    and v: "rotate (unat (m_sent c) mod 8192) buf' = put (RING_READ_LEN c) out (view c)"
    and out: "length out \<le> RING_PROC_LEN c" "4 dvd length out"
    and p: "unat p' = (unat (m_processed c) + length out) mod 16384" and st: "st \<noteq> Header"
  shows "ring_ok (c\<lparr>m_buf := buf', m_state := st, m_processed := p'\<rparr>)"
    and "readable (c\<lparr>m_buf := buf', m_state := st, m_processed := p'\<rparr>) = readable c @ out"
    and "pending_in (c\<lparr>m_buf := buf', m_state := st, m_processed := p'\<rparr>) = drop (length out) (pending_in c)"
proof -
  let ?c = "c\<lparr>m_buf := buf', m_state := st, m_processed := p'\<rparr>"
  define R where "R = RING_READ_LEN c"
  define P where "P = RING_PROC_LEN c"
  have bounds: "unat (m_sent c) < 16384" "unat (m_received c) < 16384" "R + P \<le> 8192" "4 dvd unat (m_processed c)"
    using ok by (auto simp: ring_ok_def R_def P_def)
  have p16: "unat p' < 16384" unfolding p by simp
  have pR: "unat p' = (unat (m_sent c) + (R + length out)) mod 16384"
    unfolding p ring_positions(1) [OF ok] R_def by (simp only: mod_add_left_eq add.assoc)
  have R': "RING_READ_LEN ?c = R + length out"
    using diff_pos [OF bounds(1) pR] out bounds(3) by (simp add: RING_READ_LEN_def P_def)
  have sum: "R + length out + (P - length out) = R + P" using out by (simp add: P_def)
  have rP: "unat (m_received c) = (unat p' + (P - length out)) mod 16384"
  proof -
    have "unat (m_sent c) + R + P = unat (m_sent c) + (R + length out) + (P - length out)" using sum by linarith
    then show ?thesis
      unfolding pR ring_positions(2) [OF ok] R_def [symmetric] P_def [symmetric] by (simp only: mod_add_left_eq)
  qed
  have P': "RING_PROC_LEN ?c = P - length out"
    using diff_pos [OF p16 rP] bounds(3) by (simp add: RING_PROC_LEN_def)
  have v': "view ?c = put R out (view c)" using v by (simp add: view_def R_def)
  have lv: "length (view c) = 8192" by (rule length_view [OF ok])
  have "4 dvd (unat (m_processed c) + length out) mod 16384"
    using bounds(4) out(2) by (intro dvd_mod) simp_all
  then show "ring_ok ?c"
    using ok buf R' P' p16 sum bounds st p by (simp add: ring_ok_def R_def P_def)
  show "readable ?c = readable c @ out"
    using lv bounds out unfolding readable_def R' v' by (simp add: put_def R_def P_def)
  show "pending_in ?c = drop (length out) (pending_in c)"
    using lv bounds out sum unfolding pending_in_def R' P' v'
    by (subst chunk_put_above) (simp_all add: chunk_def drop_take R_def P_def add.commute)
qed

lemma process_running:
  assumes ok: "ring_ok c" and st: "m_state c \<noteq> Header"
  shows "case eb_stream wops (m_state c) b (pending_in c) of
      None \<Rightarrow> etherbone_master_process e wops c b = None
    | Some (out, rest, st', b') \<Rightarrow> \<exists>c'. etherbone_master_process e wops c b = Some (c', b')
        \<and> ring_ok c' \<and> m_state c' = st' \<and> st' \<noteq> Header \<and> readable c' = readable c @ out
        \<and> pending_in c' = rest \<and> m_sent c' = m_sent c \<and> m_received c' = m_received c"
proof -
  define s where "s = unat (m_processed c) mod 8192"
  define R where "R = RING_READ_LEN c"
  define P where "P = RING_PROC_LEN c"
  have bounds: "unat (m_processed c) < 16384" "R + P \<le> 8192" "length (m_buf c) = 8192"
    using ok by (auto simp: ring_ok_def R_def P_def)
  have lv: "length (view c) = 8192" by (rule length_view [OF ok])
  have "4 dvd s" using ok by (simp add: s_def ring_ok_def dvd_mod)
  then have ring: "aligned_ring s (m_buf c)" using bounds by (simp add: aligned_ring_def)
  have v: "rotate s (m_buf c) = rotate R (view c)"
    using view_from [OF ok ring_positions(1) [OF ok]] by (simp only: s_def R_def)
  have pend: "chunk 0 P (rotate s (m_buf c)) = pending_in c"
    using take_rotate [of R P "view c"] bounds lv by (simp add: v chunk_def pending_in_def R_def P_def)
  have i: "ring_at s 0 = RING_INDEX (unat (m_processed c))"
    by (simp add: ring_at_def RING_INDEX_mod s_def)
  have P0: "0 + P \<le> 8192" using bounds by simp
  have code: "etherbone_master_process e wops c b = do {
      (left, buf, st, b) \<leftarrow> master_loop e wops P (m_buf c) (ring_at s 0) (m_state c) b;
      Some (c\<lparr>m_buf := buf, m_state := st,
              m_processed := RING_POS (m_processed c + of_nat (P - left))\<rparr>, b) }"
    using st by (simp add: etherbone_master_process_def i P_def Let_def)
  show ?thesis
  proof (cases "eb_stream wops (m_state c) b (pending_in c)")
    case None
    then show ?thesis
      using master_loop_stream [OF ring dvd_0_right P0, where wops = wops and st = "m_state c" and b = b and e = e] by (simp add: pend code)
  next
    case (Some q)
    obtain out rest st' b' where q: "q = (out, rest, st', b')" by (cases q)
    from Some q obtain buf' where l: "length out + length rest = P" "4 dvd length out"
      and rest: "rest = drop (length out) (pending_in c)"
      and ml: "master_loop e wops P (m_buf c) (ring_at s 0) (m_state c) b = Some (length rest, buf', st', b')"
      and ring': "aligned_ring s buf'" and rv: "rotate s buf' = put 0 out (rotate s (m_buf c))"
      using master_loop_stream [OF ring dvd_0_right P0, where wops = wops and st = "m_state c" and b = b and e = e] by (auto simp: pend)
    have st': "st' \<noteq> Header" using eb_stream_state [OF Some [unfolded q] st] .
    define V' where "V' = rotate (unat (m_sent c) mod 8192) buf'"
    have lb: "length buf' = 8192" using ring' by (simp add: aligned_ring_def)
    have r1: "rotate s buf' = rotate R V'"
    proof -
      have "ring_ok (c\<lparr>m_buf := buf'\<rparr>)"
        using ok lb by (simp add: ring_ok_def RING_READ_LEN_def RING_PROC_LEN_def)
      from view_from [OF this, of "m_processed c" R] ring_positions(1) [OF ok] show ?thesis
        by (simp add: V'_def view_def s_def R_def)
    qed
    have fit: "R + length out \<le> length (view c)" using l(1) bounds(2) lv by linarith
    then have r2: "rotate s buf' = rotate R (put R out (view c))"
      unfolding rv v using rotate_put [of R 0 out "view c"] by simp
    have "length V' = length (put R out (view c))" using fit by (simp add: V'_def length_put lb lv)
    then have V': "V' = put R out (view c)"
      by (rule rotate_cancel [OF trans [OF sym [OF r1] r2]])
    define p' where "p' = RING_POS (m_processed c + of_nat (P - length rest))"
    have "P - length rest = length out" using l by linarith
    then have p': "unat p' = (unat (m_processed c) + length out) mod 16384"
      unfolding p'_def by (simp only: RING_POS_add)
    have lo: "length out \<le> RING_PROC_LEN c" using l by (simp add: P_def)
    note adv = advance_processed [OF ok lb V' [unfolded V'_def R_def] lo l(2) p' st']
    have "etherbone_master_process e wops c b
        = Some (c\<lparr>m_buf := buf', m_state := st', m_processed := p'\<rparr>, b')"
      unfolding code ml p'_def by (simp only: bind.bind_lunit prod.case)
    then show ?thesis
      using adv st' unfolding Some q rest by auto
  qed
qed

text \<open>Processing replaces the pending input by the answers the protocol gives.\<close>

lemma process_input:
  assumes ok: "ring_ok c"
  shows "case eb_input wops (m_state c) b (pending_in c) of
      None \<Rightarrow> etherbone_master_process e wops c b = None
    | Some (out, rest, st', b') \<Rightarrow> \<exists>c'. etherbone_master_process e wops c b = Some (c', b')
        \<and> master_inv c' \<and> m_state c' = st' \<and> readable c' = readable c @ out
        \<and> pending_in c' = rest \<and> m_sent c' = m_sent c \<and> m_received c' = m_received c"
proof (cases "m_state c = Header")
  case False
  then show ?thesis
    using process_running [OF ok False, where wops = wops and b = b and e = e]
    by (auto simp: eb_input_def master_inv_def split: option.splits)
next
  case hdr: True
  have z: "m_sent c = 0" "m_processed c = 0" using ok hdr by (auto simp: ring_ok_def)
  have R: "RING_READ_LEN c = 0" by (simp add: RING_READ_LEN_def z unat_RING_POS)
  have P: "RING_PROC_LEN c = unat (m_received c)"
    using ok by (simp add: RING_PROC_LEN_def z unat_RING_POS ring_ok_def)
  have len: "length (pending_in c) = unat (m_received c)" using length_queues [OF ok] P by simp
  have less: "m_received c < 8 \<longleftrightarrow> length (pending_in c) < 8" by (simp add: len word_less_nat_alt)
  show ?thesis
  proof (cases "length (pending_in c) < 8")
    case True
    then show ?thesis
      using hdr ok less by (simp add: eb_input_def etherbone_master_process_def master_inv_def)
  next
    case False
    define buf' where "buf' = (m_buf c)[0 := 0x4E, 1 := 0x6F, 2 := 0x12, 3 := 0x44]"
    define c1 where "c1 = c\<lparr>m_buf := buf', m_state := Idle, m_processed := 8\<rparr>"
    have lb: "length (m_buf c) = 8192" using ok by (simp add: ring_ok_def)
    have lh: "length (eb_hello (pending_in c)) = 8" using False by (simp add: eb_hello_def)
    have "eb_hello (pending_in c) = eb_hello (m_buf c)"
      using False lb P ok by (simp add: eb_hello_def pending_in_def R view_def z chunk_def len ring_ok_def drop_take min_absorb1)
    then have "put 0 (eb_hello (pending_in c)) (m_buf c) = buf'"
      using hello_put [of "m_buf c"] lb by (simp only: buf'_def)
    then have v: "rotate (unat (m_sent c) mod 8192) buf' = put (RING_READ_LEN c) (eb_hello (pending_in c)) (view c)"
      by (simp add: z R view_def)
    have "unat (8 :: u32) = (unat (m_processed c) + length (eb_hello (pending_in c))) mod 16384"
      by (simp add: z lh)
    note adv = advance_processed [OF ok _ v _ _ this, of Idle, folded c1_def]
    have c1: "ring_ok c1" "readable c1 = readable c @ eb_hello (pending_in c)" "pending_in c1 = drop 8 (pending_in c)"
      using adv lb lh False P len by (simp_all add: buf'_def)
    have st1: "m_state c1 \<noteq> Header" by (simp add: c1_def)
    have nless: "\<not> m_received c < 8" using less False by simp
    have code: "etherbone_master_process e wops c b = etherbone_master_process e wops c1 b"
    proof -
      have "c1 = c\<lparr>m_buf := buf', m_processed := 8, m_state := Idle\<rparr>" by (cases c) (simp add: c1_def)
      then show ?thesis
        unfolding etherbone_master_process_def buf'_def using hdr st1 nless by (simp add: Let_def)
    qed
    have "m_state c1 = Idle" "m_sent c1 = m_sent c" "m_received c1 = m_received c" by (simp_all add: c1_def)
    with process_running [OF c1(1) st1, where wops = wops and b = b and e = e] show ?thesis
      unfolding code using hdr False c1
      by (cases "eb_stream wops Idle b (drop 8 (pending_in c))") (auto simp: eb_input_def master_inv_def)
  qed
qed

subsection \<open>The file operations on the queues\<close>

text \<open>The lengths the code computes are those of the queues.\<close>

lemma free_space: "ring_ok c \<Longrightarrow> RING_WRITE_LEN c = 8192 - length (readable c) - length (pending_in c)"
  using ring_positions(3) length_queues by simp

text \<open>Input is copied behind the pending input.\<close>

lemma receive_input:
  assumes ok: "ring_ok c" and d: "length d \<le> RING_WRITE_LEN c"
    and q: "unat q = (unat (m_received c) + length d) mod 16384"
  shows "ring_ok (c\<lparr>m_buf := ring_put (RING_INDEX (unat (m_received c))) d (m_buf c), m_received := q\<rparr>)"
    and "readable (c\<lparr>m_buf := ring_put (RING_INDEX (unat (m_received c))) d (m_buf c), m_received := q\<rparr>) = readable c"
    and "pending_in (c\<lparr>m_buf := ring_put (RING_INDEX (unat (m_received c))) d (m_buf c), m_received := q\<rparr>)
      = pending_in c @ d"
proof -
  let ?i = "RING_INDEX (unat (m_received c))"
  let ?c = "c\<lparr>m_buf := ring_put ?i d (m_buf c), m_received := q\<rparr>"
  define R where "R = RING_READ_LEN c"
  define P where "P = RING_PROC_LEN c"
  have b: "length (m_buf c) = 8192" "unat (m_sent c) < 16384" "unat (m_processed c) < 16384" "R + P \<le> 8192"
    using ok by (auto simp: ring_ok_def R_def P_def)
  have fit: "R + P + length d \<le> 8192" using d ring_positions(3) [OF ok] b(4) by (simp add: R_def P_def)
  have lv: "length (view c) = 8192" by (rule length_view [OF ok])
  have i: "?i = (unat (m_sent c) mod 8192 + (R + P)) mod 8192"
    using ring_positions(2) [OF ok]
    by (simp add: RING_INDEX_mod mod_mod_cancel R_def P_def mod_add_left_eq add.assoc)
  have v: "view ?c = put (R + P) d (view c)"
    using rotate_ring_put [OF b(1) _ fit i] by (simp add: view_def)
  have R': "RING_READ_LEN ?c = R" by (simp add: RING_READ_LEN_def R_def)
  have rP: "unat q = (unat (m_processed c) + (P + length d)) mod 16384"
    unfolding q ring_positions(2) [OF ok] ring_positions(1) [OF ok] R_def [symmetric] P_def [symmetric]
    by (simp only: mod_add_left_eq add.assoc)
  have P': "RING_PROC_LEN ?c = P + length d"
    using diff_pos [OF b(3) rP] fit by (simp add: RING_PROC_LEN_def)
  have lr: "length (ring_put ?i d (m_buf c)) = 8192"
    using fit b(1) length_ring_put by (simp add: RING_INDEX_mod)
  have q16: "unat q < 16384" unfolding q by simp
  show "ring_ok ?c" using ok q16 lr fit R' P' by (simp add: ring_ok_def)
  show "readable ?c = readable c"
    unfolding readable_def R' v using fit lv by (simp add: put_def R_def)
  show "pending_in ?c = pending_in c @ d"
    unfolding pending_in_def R' P' v using fit lv by (simp add: put_def chunk_def drop_take R_def P_def)
qed

text \<open>What is read leaves the queue of answers.\<close>

lemma send_output:
  assumes ok: "ring_ok c" and n: "n \<le> RING_READ_LEN c" and q: "unat q = (unat (m_sent c) + n) mod 16384"
  shows "ring_ok (c\<lparr>m_sent := q\<rparr>)"
    and "readable (c\<lparr>m_sent := q\<rparr>) = drop n (readable c)"
    and "pending_in (c\<lparr>m_sent := q\<rparr>) = pending_in c"
proof -
  let ?c = "c\<lparr>m_sent := q\<rparr>"
  define R where "R = RING_READ_LEN c"
  define P where "P = RING_PROC_LEN c"
  have b: "length (m_buf c) = 8192" "unat (m_sent c) < 16384" "R + P \<le> 8192"
    using ok by (auto simp: ring_ok_def R_def P_def)
  have nR: "n \<le> R" using n by (simp add: R_def)
  have lv: "length (view c) = 8192" by (rule length_view [OF ok])
  have v: "view ?c = rotate n (view c)" using view_from [OF ok q] by (simp add: view_def)
  have q16: "unat q < 16384" unfolding q by simp
  have rR: "unat (m_processed c) = (unat q + (R - n)) mod 16384"
  proof -
    have "unat (m_sent c) + n + (R - n) = unat (m_sent c) + R" using nR by linarith
    then show ?thesis
      unfolding q ring_positions(1) [OF ok] R_def [symmetric] by (simp only: mod_add_left_eq)
  qed
  have R': "RING_READ_LEN ?c = R - n"
    using diff_pos [OF q16 rR] b nR by (simp add: RING_READ_LEN_def)
  have P': "RING_PROC_LEN ?c = P" by (simp add: RING_PROC_LEN_def P_def)
  have hdr: "m_state c = Header \<Longrightarrow> q = 0"
  proof -
    assume "m_state c = Header"
    then have z: "m_sent c = 0" "m_processed c = 0" using ok by (auto simp: ring_ok_def)
    then have "R = 0" by (simp add: R_def RING_READ_LEN_def unat_RING_POS)
    then have "unat q = 0" using q nR z by simp
    then show "q = 0" by (simp add: unat_eq_zero)
  qed
  show "ring_ok ?c" using ok q16 R' P' b nR hdr by (simp add: ring_ok_def)
  have rot: "chunk k m (rotate n (view c)) = chunk (n + k) m (view c)" if "n + k + m \<le> 8192" for k m
    using that lv nR b by (cases "n = 8192") (simp_all add: rotate_drop_take chunk_def add.commute)
  show "readable ?c = drop n (readable c)"
    unfolding readable_def R' v using rot [of 0 "R - n"] b nR
    by (simp add: chunk_def drop_take R_def)
  show "pending_in ?c = pending_in c"
    unfolding pending_in_def R' P' v using rot [of "R - n" P] b nR by (simp add: R_def P_def)
qed

text \<open>The two copies of a write, and of a read, are one ring copy.\<close>

lemma write_copy:
  assumes ok: "\<forall>i. ok i" and n: "0 < iov_length iov" "n \<le> iov_length iov"
    and i: "i < length buf" and l: "length buf = RING_SIZE"
  shows "(if RING_SIZE - i < n then do {
            (bs1, r1) \<leftarrow> memcpy_fromiovecend ok iov 0 (RING_SIZE - i);
            (bs2, r2) \<leftarrow> memcpy_fromiovecend ok iov (RING_SIZE - i) (n - (RING_SIZE - i));
            Some (put 0 bs2 (put i bs1 buf)) }
          else do { (bs1, r1) \<leftarrow> memcpy_fromiovecend ok iov 0 n; Some (put i bs1 buf) })
    = Some (ring_put i (take n (concat iov)) buf)"
proof -
  define b where "b = RING_SIZE - i"
  have lt: "length (take n (concat iov)) = n" using n by (simp add: iov_length_def)
  show ?thesis
  proof (cases "b < n")
    case True
    have "memcpy_fromiovecend ok iov 0 b = Some (chunk 0 b (concat iov), 0)"
      "memcpy_fromiovecend ok iov b (n - b) = Some (chunk b (n - b) (concat iov), 0)"
      using True n ok by (intro memcpy_from_chunk; simp)+
    then show ?thesis
      using True lt n unfolding b_def [symmetric]
      by (simp add: ring_put_def l b_def [symmetric] chunk_def drop_take min_absorb1 min_absorb2)
  next
    case False
    have "memcpy_fromiovecend ok iov 0 n = Some (chunk 0 n (concat iov), 0)"
      using n ok by (intro memcpy_from_chunk) simp_all
    then show ?thesis
      using False lt unfolding b_def [symmetric] by (simp add: ring_put_def l b_def [symmetric] chunk_def)
  qed
qed

lemma read_copy:
  assumes ok: "\<forall>i. ok i" and n: "n \<le> iov_length iov" and i: "i < length buf" and l: "length buf = RING_SIZE"
    and nb: "n \<le> RING_SIZE"
  shows "\<exists>iov'. (if RING_SIZE - i < n then do {
            (iov, r1) \<leftarrow> memcpy_toiovecend ok iov (chunk i (RING_SIZE - i) buf) 0;
            (iov, r2) \<leftarrow> memcpy_toiovecend ok iov (chunk 0 (n - (RING_SIZE - i)) buf) (RING_SIZE - i);
            Some iov }
          else do { (iov, r1) \<leftarrow> memcpy_toiovecend ok iov (chunk i n buf) 0; Some iov })
    = Some iov' \<and> concat iov' = put 0 (take n (rotate i buf)) (concat iov) \<and> map length iov' = map length iov"
proof -
  define b where "b = RING_SIZE - i"
  have len: "length buf = i + b" using i l by (simp add: b_def)
  show ?thesis
  proof (cases "b < n")
    case True
    have l1: "length (chunk i b buf) = b" "length (chunk 0 (n - b) buf) = n - b"
      using len nb l by (simp_all add: length_chunk_in)
    obtain iov1 where 1: "memcpy_toiovecend ok iov (chunk i b buf) 0 = Some (iov1, 0)"
      "concat iov1 = put 0 (chunk i b buf) (concat iov)" "map length iov1 = map length iov"
      using to_iov_Some [of 0 "chunk i b buf" iov ok 0] l1 n True ok
      by (auto simp: memcpy_toiovecend_def iov_length_def)
    have "length (concat iov1) = length (concat iov)" using 1(3) by (simp add: length_concat)
    then have "b + length (chunk 0 (n - b) buf) \<le> length (concat iov1)"
      using l1 n True by (simp add: iov_length_def)
    then obtain iov2 where 2: "memcpy_toiovecend ok iov1 (chunk 0 (n - b) buf) b = Some (iov2, 0)"
      "concat iov2 = put b (chunk 0 (n - b) buf) (concat iov1)" "map length iov2 = map length iov1"
      using to_iov_Some [of b "chunk 0 (n - b) buf" iov1 ok 0] ok by (auto simp: memcpy_toiovecend_def)
    have "take n (rotate i buf) = chunk i b buf @ chunk 0 (n - b) buf"
      using ring_get_view [OF i, of n] True nb l unfolding ring_get_def l b_def [symmetric] by simp
    moreover have "put (0 + length (chunk i b buf)) (chunk 0 (n - b) buf) (put 0 (chunk i b buf) (concat iov))
        = put 0 (chunk i b buf @ chunk 0 (n - b) buf) (concat iov)"
      using l1 n True by (intro put_put_append) (simp add: iov_length_def)
    ultimately show ?thesis
      using True 1 2 l1 unfolding b_def [symmetric] by simp
  next
    case False
    have "length (chunk i n buf) = n" using len False by (simp add: length_chunk_in)
    then obtain iov1 where 1: "memcpy_toiovecend ok iov (chunk i n buf) 0 = Some (iov1, 0)"
      "concat iov1 = put 0 (chunk i n buf) (concat iov)" "map length iov1 = map length iov"
      using to_iov_Some [of 0 "chunk i n buf" iov ok 0] n ok
      by (auto simp: memcpy_toiovecend_def iov_length_def)
    have "take n (rotate i buf) = chunk i n buf"
      using ring_get_view [OF i, of n] False nb l unfolding ring_get_def l b_def [symmetric] by simp
    then show ?thesis using False 1 unfolding b_def [symmetric] by simp
  qed
qed

lemma uint_length_le: "uint_length iov \<le> iov_length iov"
  by (simp add: uint_length_def)

text \<open>A write takes what fits and answers it at once.\<close>

lemma master_write_step:
  fixes iov :: "u8 list list"
  assumes inv: "master_inv c" and ok: "\<forall>i. ok i" and pos: "uint_length iov \<noteq> 0"
    and n: "n = min (8192 - length (readable c) - length (pending_in c)) (uint_length iov)"
  shows "case eb_input wops (m_state c) b (pending_in c @ take n (concat iov)) of
      None \<Rightarrow> char_master_aio_write e wops ok False nb c b iov = None
    | Some (out, rest, st', b') \<Rightarrow> \<exists>c'. char_master_aio_write e wops ok False nb c b iov
          = Some (c', b', if n = 0 \<and> nb then - EAGAIN else int n)
        \<and> master_inv c' \<and> m_state c' = st' \<and> readable c' = readable c @ out \<and> pending_in c' = rest"
proof -
  have rok: "ring_ok c" using inv by (simp add: master_inv_def)
  have nW: "n = min (RING_WRITE_LEN c) (uint_length iov)" by (simp only: n free_space [OF rok])
  have lb: "length (m_buf c) = RING_SIZE" using rok by (simp add: ring_ok_def RING_SIZE_def)
  define i where "i = RING_INDEX (unat (m_received c))"
  have i: "i < length (m_buf c)" by (simp add: i_def RING_INDEX_mod lb RING_SIZE_def)
  have nl: "n \<le> iov_length iov" "0 < iov_length iov"
    using uint_length_le [of iov] pos unfolding n by simp_all
  define d where "d = take n (concat iov)"
  have ld: "length d = n" using nl by (simp add: d_def iov_length_def)
  define q where "q = RING_POS (m_received c + of_nat n)"
  have q: "unat q = (unat (m_received c) + length d) mod 16384" unfolding q_def ld by (rule RING_POS_add)
  define c1 where "c1 = c\<lparr>m_buf := ring_put i d (m_buf c), m_received := q\<rparr>"
  have "length d \<le> RING_WRITE_LEN c" unfolding ld nW by simp
  from receive_input [OF rok this q, folded i_def, folded c1_def] have
    c1: "ring_ok c1" "readable c1 = readable c" "pending_in c1 = pending_in c @ d" .
  have "char_master_aio_write e wops ok False nb c b iov = do {
      (c, b) \<leftarrow> etherbone_master_process e wops c1 b;
      Some (c, b, if n = 0 \<and> nb then - EAGAIN else int n) }"
    unfolding char_master_aio_write_def Let_def nW [symmetric] i_def [symmetric]
      write_copy [OF ok nl(2,1) i lb] bind.bind_lunit
    using pos by (simp add: c1_def d_def q_def)
  moreover have "m_state c1 = m_state c" by (simp add: c1_def)
  ultimately show ?thesis
    using process_input [OF c1(1), where wops = wops and b = b and e = e] c1(2,3)
    by (cases "eb_input wops (m_state c) b (pending_in c @ d)") (auto simp: d_def)
qed

text \<open>A read delivers the oldest answers and removes them.\<close>

lemma master_read_step:
  fixes iov :: "u8 list list"
  assumes inv: "master_inv c" and ok: "\<forall>i. ok i" and pos: "uint_length iov \<noteq> 0"
    and n: "n = min (length (readable c)) (uint_length iov)"
  shows "\<exists>c' iov'. char_master_aio_read ok False nb c iov
        = Some (c', iov', if n = 0 \<and> nb then - EAGAIN else int n)
      \<and> concat iov' = put 0 (take n (readable c)) (concat iov) \<and> map length iov' = map length iov
      \<and> master_inv c' \<and> m_state c' = m_state c
      \<and> readable c' = drop n (readable c) \<and> pending_in c' = pending_in c"
proof -
  have rok: "ring_ok c" using inv by (simp add: master_inv_def)
  have nR: "n = min (RING_READ_LEN c) (uint_length iov)" by (simp only: n length_queues [OF rok])
  have lb: "length (m_buf c) = RING_SIZE" using rok by (simp add: ring_ok_def RING_SIZE_def)
  define i where "i = RING_INDEX (unat (m_sent c))"
  have i: "i < length (m_buf c)" by (simp add: i_def RING_INDEX_mod lb RING_SIZE_def)
  have nl: "n \<le> iov_length iov" using uint_length_le [of iov] unfolding n by simp
  have "n \<le> RING_READ_LEN c" using nR by simp
  also have "\<dots> \<le> RING_SIZE" using rok by (simp add: ring_ok_def RING_SIZE_def)
  finally have nb: "n \<le> RING_SIZE" .
  define q where "q = RING_POS (m_sent c + of_nat n)"
  have q: "unat q = (unat (m_sent c) + n) mod 16384" unfolding q_def by (rule RING_POS_add)
  have out: "take n (rotate i (m_buf c)) = take n (readable c)"
    using nR by (simp add: i_def RING_INDEX_mod readable_def view_def min_absorb1)
  obtain iov' where copy: "(if RING_SIZE - i < n then do {
            (iov, r1) \<leftarrow> memcpy_toiovecend ok iov (chunk i (RING_SIZE - i) (m_buf c)) 0;
            (iov, r2) \<leftarrow> memcpy_toiovecend ok iov (chunk 0 (n - (RING_SIZE - i)) (m_buf c)) (RING_SIZE - i);
            Some iov }
          else do { (iov, r1) \<leftarrow> memcpy_toiovecend ok iov (chunk i n (m_buf c)) 0; Some iov })
    = Some iov'" and iov': "concat iov' = put 0 (take n (readable c)) (concat iov)" "map length iov' = map length iov"
    using read_copy [OF ok nl i lb nb] unfolding out by blast
  have "char_master_aio_read ok False nb c iov
      = Some (c\<lparr>m_sent := q\<rparr>, iov', if n = 0 \<and> nb then - EAGAIN else int n)"
    unfolding char_master_aio_read_def Let_def nR [symmetric] i_def [symmetric] copy bind.bind_lunit
    using pos by (simp add: q_def)
  moreover have "n \<le> RING_READ_LEN c" using nR by simp
  ultimately show ?thesis
    using send_output [OF rok _ q] iov' inv by (simp add: master_inv_def)
qed

text \<open>A fresh context, and what \<open>poll\<close> reports.\<close>

lemma master_open_inv:
  "length mem = 8192 \<Longrightarrow> char_master_open True mem = Inr c \<Longrightarrow> master_inv c \<and> readable c = [] \<and> pending_in c = []"
  by (auto simp: char_master_open_def master_inv_def ring_ok_def RING_READ_LEN_def RING_PROC_LEN_def
      unat_RING_POS readable_def pending_in_def)

lemma master_poll_bits:
  assumes "ring_ok c"
  shows "char_master_poll c AND POLLIN \<noteq> 0 \<longleftrightarrow> readable c \<noteq> []"
    and "char_master_poll c AND POLLOUT \<noteq> 0 \<longleftrightarrow> length (readable c) + length (pending_in c) < 8192"
proof -
  have r: "RING_READ_LEN c = 0 \<longleftrightarrow> readable c = []" using length_queues(1) [OF assms] by auto
  have w: "RING_WRITE_LEN c = 0 \<longleftrightarrow> \<not> length (readable c) + length (pending_in c) < 8192"
    unfolding free_space [OF assms] by auto
  have p: "char_master_poll c = (if readable c \<noteq> [] then 65 else 0)
      OR (if length (readable c) + length (pending_in c) < 8192 then 260 else 0)"
    unfolding char_master_poll_def r w by (simp add: POLLIN_def POLLOUT_def POLLRDNORM_def POLLWRNORM_def)
  show "char_master_poll c AND POLLIN \<noteq> 0 \<longleftrightarrow> readable c \<noteq> []"
    unfolding p by (simp add: POLLIN_def)
  show "char_master_poll c AND POLLOUT \<noteq> 0 \<longleftrightarrow> length (readable c) + length (pending_in c) < 8192"
    unfolding p by (simp add: POLLOUT_def)
qed

end
