(* ===== verification/WbBackend.thy ===== *)
theory WbBackend
  imports EtherboneFifo
begin

text \<open>
  What the character devices rely on from a bus backend: opening a cycle when the caller does not
  hold the bus returns with the bus held, closing it gives the bus back, and no other operation
  changes who holds it. Under these laws the master device never blocks on its own cycle: its
  state \<open>Cycle\<close> is the same as holding the bus, whatever the bytes written to it.
\<close>

locale wb_backend =
  fixes wops :: "'b wishbone_operations"
    and held :: "'b \<Rightarrow> bool"
  assumes cycle_open: "\<not> held b \<Longrightarrow> \<exists>b'. w_cycle wops b True = Some b' \<and> held b'"
    and cycle_close: "held b \<Longrightarrow> \<exists>b'. w_cycle wops b False = Some b' \<and> \<not> held b'"
    and held_byteenable: "held (w_byteenable wops b m) = held b"
    and held_write: "held (w_write wops b a d) = held b"
    and held_read: "held (fst (w_read wops b a)) = held b"
    and held_read_cfg: "held (fst (w_read_cfg wops b a)) = held b"
    and held_request: "held (fst (w_request wops b)) = held b"
    and held_reply: "held (w_reply wops b err d) = held b"
begin

lemma held_run_writes: "held (run_writes wops b ws) = held b"
proof (induction ws arbitrary: b)
  case (Cons w ws)
  obtain a d where w: "w = (a, d)" by (cases w)
  have "run_writes wops b (w # ws) = run_writes wops (w_write wops b a d) ws"
    by (simp add: run_writes_def w)
  then show ?case using Cons.IH [of "w_write wops b a d"] held_write [of b a d] by simp
qed (simp add: run_writes_def)

lemma held_run_reads:
  assumes "\<And>b a. held (fst (rd b a)) = held b"
  shows "held (fst (run_reads rd b as)) = held b"
proof (induction as arbitrary: b)
  case (Cons a as)
  then show ?case using assms by (auto split: prod.splits) (metis fst_conv)+
qed simp

lemma record_total:
  assumes "st \<noteq> Header" and "st = Cycle \<longleftrightarrow> held b"
  obtains ans st' b' where "eb_record wops st b r = Some (ans, st', b')" "st' \<noteq> Header" "st' = Cycle \<longleftrightarrow> held b'"
proof -
  obtain b1 where opened: "(if st = Idle then do { b \<leftarrow> w_cycle wops b True; Some (Cycle, b) } else Some (st, b))
      = Some (Cycle, b1)" and h1: "held b1"
    using cycle_open [of b] assms by (cases st) auto
  define b2 where "b2 = run_writes wops (w_byteenable wops b1 (r ! 1)) (rec_writes r)"
  define rd where "rd = (if r ! 0 AND ETHERBONE_RCA \<noteq> 0 then w_read_cfg wops else w_read wops)"
  obtain b3 vs where reads: "run_reads rd b2 (rec_reads r) = (b3, vs)" by (cases "run_reads rd b2 (rec_reads r)")
  have "held b2" by (simp add: b2_def held_run_writes held_byteenable h1)
  moreover have "held (fst (rd b a)) = held b" for b a by (simp add: rd_def held_read held_read_cfg)
  ultimately have h3: "held b3" using held_run_reads [of rd b2 "rec_reads r"] reads by simp
  obtain b4 where close: "w_cycle wops b3 False = Some b4" "\<not> held b4" using cycle_close [OF h3] by blast
  define ans where "ans = replicate (4 * answer_at r) 0 @ [reply_flags (r ! 0), r ! 1, r ! 3, 0]
      @ (if 0 < unat (r ! 3) then chunk (4 * (answer_at r + 1)) 4 r @ concat (map (word_be 4) vs) else [])"
  have "eb_record wops st b r = (if r ! 0 AND ETHERBONE_CYC \<noteq> 0
      then do { b \<leftarrow> w_cycle wops b3 False; Some (ans, Idle, b) } else Some (ans, Cycle, b3))"
    unfolding eb_record_def opened bind.bind_lunit prod.case Let_def b2_def [symmetric] rd_def [symmetric] reads
    by (simp only: prod.case ans_def)
  then show ?thesis using that h3 close by (auto split: if_splits)
qed

lemma stream_total:
  assumes "st \<noteq> Header" and "st = Cycle \<longleftrightarrow> held b"
  shows "\<exists>out rest st' b'. eb_stream wops st b xs = Some (out, rest, st', b')
    \<and> st' \<noteq> Header \<and> (st' = Cycle \<longleftrightarrow> held b')"
  using assms
proof (induction "length xs" arbitrary: xs st b rule: less_induct)
  case less
  show ?case
  proof (cases "length xs < 4 \<or> length xs < record_len (xs ! 2) (xs ! 3)")
    case True
    then have "eb_stream wops st b xs = Some ([], xs, st, b)" by (subst eb_stream.simps) (auto simp: Let_def)
    then show ?thesis using less.prems by simp
  next
    case False
    define n where "n = record_len (xs ! 2) (xs ! 3)"
    obtain ans st1 b1 where r: "eb_record wops st b (take n xs) = Some (ans, st1, b1)" "st1 \<noteq> Header"
      "st1 = Cycle \<longleftrightarrow> held b1"
      using record_total [OF less.prems] .
    have "4 \<le> length xs" "4 \<le> n" using False by (auto simp: n_def)
    then have "length (drop n xs) < length xs" unfolding length_drop by linarith
    from less.hyps [OF this r(2,3)] show ?thesis
      using False r(1) by (subst eb_stream.simps) (auto simp: n_def [symmetric] Let_def)
  qed
qed

lemma input_total:
  assumes "st = Cycle \<longleftrightarrow> held b"
  shows "\<exists>out rest st' b'. eb_input wops st b xs = Some (out, rest, st', b') \<and> (st' = Cycle \<longleftrightarrow> held b')"
proof (cases "st = Header")
  case True
  then show ?thesis
    using stream_total [of Idle b "drop 8 xs"] assms by (auto simp: eb_input_def)
next
  case False
  then show ?thesis using stream_total [OF False assms, of xs] by (auto simp: eb_input_def)
qed

text \<open>A write to the master device returns; a release leaves the bus free.\<close>

lemma master_write_returns:
  assumes inv: "master_inv c" and ok: "\<forall>i. ok i" and cyc: "m_state c = Cycle \<longleftrightarrow> held b"
  shows "\<exists>c' b' r. char_master_aio_write e wops ok intr nb c b iov = Some (c', b', r)
    \<and> master_inv c' \<and> (m_state c' = Cycle \<longleftrightarrow> held b')"
proof (cases "uint_length iov = 0 \<or> intr")
  case True
  then have "char_master_aio_write e wops ok intr nb c b iov
      = Some (c, b, if uint_length iov = 0 then 0 else - EINTR)"
    unfolding char_master_aio_write_def Let_def by auto
  then show ?thesis using inv cyc by simp
next
  case False
  then have pos: "uint_length iov \<noteq> 0" "intr = False" by auto
  define n where "n = min (8192 - length (readable c) - length (pending_in c)) (uint_length iov)"
  obtain out rest st' b' where i: "eb_input wops (m_state c) b (pending_in c @ take n (concat iov))
      = Some (out, rest, st', b')" "st' = Cycle \<longleftrightarrow> held b'"
    using input_total [OF cyc] by blast
  from master_write_step [OF inv ok pos(1) n_def, where wops = wops and b = b and e = e and nb = nb]
  show ?thesis using i unfolding pos(2) by auto
qed

lemma master_release_free:
  assumes "m_state c = Cycle \<longleftrightarrow> held b"
  shows "\<exists>b'. char_master_release wops c b = Some b' \<and> \<not> held b'"
  using assms cycle_close [of b] by (auto simp: char_master_release_def)

end

end
