(* ===== verification/BusIo.thy ===== *)
theory BusIo
  imports WbBackend
begin

text \<open>
  Device registers. A driver reads and writes them with the kernel's \<open>ioread\<close> and \<open>iowrite\<close>
  functions; what the device answers is not part of the program, so it is a function of the
  accesses so far. A driver's state keeps the accesses it made, oldest first.

  A backend's accesses stand for transfers on the Wishbone bus behind the device. The second locale
  adds to the laws of a backend that a read or a write is one transfer, determined by the byte
  lanes selected before, and that nothing else transfers.
\<close>

datatype 'r io_event =
    Io_write 'r u32 nat u32  \<comment> \<open>region, offset, width in bytes, value\<close>
  | Io_read 'r u32 nat u32

type_synonym 'r device = "'r io_event list \<Rightarrow> 'r \<Rightarrow> u32 \<Rightarrow> nat \<Rightarrow> u32"

definition iowrite :: "'r \<Rightarrow> u32 \<Rightarrow> nat \<Rightarrow> u32 \<Rightarrow> 'r io_event list \<Rightarrow> 'r io_event list" where
  "iowrite r off w v io = io @ [Io_write r off w (take_bit (8 * w) v)]"

definition ioread :: "'r device \<Rightarrow> 'r \<Rightarrow> u32 \<Rightarrow> nat \<Rightarrow> 'r io_event list \<Rightarrow> 'r io_event list \<times> u32" where
  "ioread hw r off w io = (let v = take_bit (8 * w) (hw io r off w) in (io @ [Io_read r off w v], v))"

lemma fst_ioread: "fst (ioread hw r off w io) = io @ [Io_read r off w (snd (ioread hw r off w io))]"
  by (simp add: ioread_def Let_def)

subsection \<open>Byte lanes\<close>

text \<open>\<open>endian_addr\<close> of the drivers, and the lanes a byte-enable mask selects: the address of the
  first byte within the word, the width in bytes, the shift in bits. The other masks select
  nothing new.\<close>

definition endian_addr :: "endian \<Rightarrow> u32 \<Rightarrow> u32 \<Rightarrow> u32" where
  "endian_addr e width shift = (case e of Big \<Rightarrow> (4 - width) - shift | Little \<Rightarrow> shift)"

record lanes =
  l_low_addr :: u32
  l_width :: nat
  l_shift :: nat

definition lanes_word :: lanes where
  "lanes_word = \<lparr>l_low_addr = 0, l_width = 4, l_shift = 0\<rparr>"

definition wb_byteenable :: "endian \<Rightarrow> lanes \<Rightarrow> u8 \<Rightarrow> lanes" where
  "wb_byteenable e l be =
     (if be = 0x1 then \<lparr>l_low_addr = endian_addr e 1 0, l_width = 1, l_shift = 0\<rparr>
      else if be = 0x2 then \<lparr>l_low_addr = endian_addr e 1 1, l_width = 1, l_shift = 8\<rparr>
      else if be = 0x4 then \<lparr>l_low_addr = endian_addr e 1 2, l_width = 1, l_shift = 16\<rparr>
      else if be = 0x8 then \<lparr>l_low_addr = endian_addr e 1 3, l_width = 1, l_shift = 24\<rparr>
      else if be = 0x3 then \<lparr>l_low_addr = endian_addr e 2 0, l_width = 2, l_shift = 0\<rparr>
      else if be = 0xC then \<lparr>l_low_addr = endian_addr e 2 2, l_width = 2, l_shift = 16\<rparr>
      else if be = 0xF then \<lparr>l_low_addr = endian_addr e 4 0, l_width = 4, l_shift = 0\<rparr>
      else l)"

text \<open>The bits of the data word a mask stands for, lane 0 being the low byte.\<close>

definition lane_mask :: "lanes \<Rightarrow> u32" where
  "lane_mask l = push_bit (l_shift l) (mask (8 * l_width l))"

definition valid_lanes :: "endian \<Rightarrow> lanes \<Rightarrow> bool" where
  "valid_lanes e l \<longleftrightarrow> (\<exists>be \<in> {0x1, 0x2, 0x4, 0x8, 0x3, 0xC, 0xF}. l = wb_byteenable e lanes_word be)"

lemma valid_lanes_word: "valid_lanes e lanes_word"
  unfolding valid_lanes_def by (rule bexI [of _ "0xF"]) (cases e; simp add: wb_byteenable_def lanes_word_def endian_addr_def)+

lemma valid_byteenable: "valid_lanes e l \<Longrightarrow> valid_lanes e (wb_byteenable e l be)"
proof (cases "be \<in> {0x1, 0x2, 0x4, 0x8, 0x3, 0xC, 0xF}")
  case True
  then have "wb_byteenable e l be = wb_byteenable e lanes_word be"
    unfolding wb_byteenable_def by auto
  then show ?thesis unfolding valid_lanes_def using True by blast
next
  case False
  then have "wb_byteenable e l be = l" unfolding wb_byteenable_def by auto
  then show "valid_lanes e l \<Longrightarrow> ?thesis" by simp
qed

subsection \<open>Transfers on the bus\<close>

datatype bus_transfer = Bus_write u32 nat u32 | Bus_read u32 nat u32  \<comment> \<open>address, width, data\<close>

text \<open>The transfer of a bus access: the word's address with its last two bits replaced by the first
  lane, the data moved to the low bits.\<close>

definition lane_write :: "lanes \<Rightarrow> u32 \<Rightarrow> u32 \<Rightarrow> bus_transfer" where
  "lane_write l addr data = Bus_write ((addr AND 0xFFFFFFFC) + l_low_addr l) (l_width l)
     (take_bit (8 * l_width l) (drop_bit (l_shift l) data))"

definition lane_read :: "lanes \<Rightarrow> u32 \<Rightarrow> u32 \<Rightarrow> bus_transfer" where
  "lane_read l addr v = Bus_read ((addr AND 0xFFFFFFFC) + l_low_addr l) (l_width l)
     (take_bit (8 * l_width l) (drop_bit (l_shift l) v))"

lemma valid_lanes_width:
  assumes "valid_lanes e l"
  shows "l_width l \<in> {1, 2, 4}" and "l_width l = 4 \<longrightarrow> l_low_addr l = 0 \<and> l_shift l = 0"
    and "l_shift l + 8 * l_width l \<le> 32" and "unat (l_low_addr l) + l_width l \<le> 4"
  using assms unfolding valid_lanes_def
  by (cases e; fastforce simp: wb_byteenable_def endian_addr_def)+

lemma lane_round:
  fixes x :: u32
  assumes "x = take_bit n x" and "k + n \<le> 32"
  shows "take_bit n (drop_bit k (push_bit k x)) = x"
proof (rule bit_word_eqI)
  fix i assume "i < LENGTH(32)"
  have "bit x i \<Longrightarrow> i < n" using assms(1) by (metis bit_take_bit_iff)
  then show "bit (take_bit n (drop_bit k (push_bit k x))) i = bit x i"
    using assms(2) by (auto simp: bit_simps)
qed

locale wb_bus = wb_backend wops held
  for wops :: "'b wishbone_operations" and held :: "'b \<Rightarrow> bool" +
  fixes good :: "'b \<Rightarrow> bool"
    and xfers :: "'b \<Rightarrow> bus_transfer list"
    and wr :: "'b \<Rightarrow> u32 \<Rightarrow> u32 \<Rightarrow> bus_transfer"
    and rd :: "'b \<Rightarrow> u32 \<Rightarrow> u32 \<Rightarrow> bus_transfer"
  assumes write_xfers: "good b \<Longrightarrow> xfers (w_write wops b a d) = xfers b @ [wr b a d]"
    and write_good: "good b \<Longrightarrow> good (w_write wops b a d)"
    and write_lanes: "wr (w_write wops b a d) = wr b" "rd (w_write wops b a d) = rd b"
    and read_xfers: "good b \<Longrightarrow> w_read wops b a = (b', v) \<Longrightarrow> xfers b' = xfers b @ [rd b a v]"
    and read_good: "good b \<Longrightarrow> w_read wops b a = (b', v) \<Longrightarrow> good b'"
    and read_lanes: "w_read wops b a = (b', v) \<Longrightarrow> wr b' = wr b \<and> rd b' = rd b"
    and byteenable_xfers: "good b \<Longrightarrow> xfers (w_byteenable wops b m) = xfers b"
    and byteenable_good: "good b \<Longrightarrow> good (w_byteenable wops b m)"
    and cycle_xfers: "good b \<Longrightarrow> w_cycle wops b on = Some b' \<Longrightarrow> xfers b' = xfers b"
    and cycle_good: "good b \<Longrightarrow> w_cycle wops b on = Some b' \<Longrightarrow> good b'"
    and cycle_lanes: "w_cycle wops b on = Some b' \<Longrightarrow> wr (w_byteenable wops b' m) = wr (w_byteenable wops b m)
      \<and> rd (w_byteenable wops b' m) = rd (w_byteenable wops b m)"
begin

lemma run_writes_xfers:
  "good b \<Longrightarrow> xfers (run_writes wops b ws) = xfers b @ map (\<lambda>(a, d). wr b a d) ws
    \<and> good (run_writes wops b ws) \<and> rd (run_writes wops b ws) = rd b"
proof (induction ws arbitrary: b)
  case (Cons w ws)
  obtain a d where w: "w = (a, d)" by (cases w)
  have "run_writes wops b (w # ws) = run_writes wops (w_write wops b a d) ws"
    by (simp add: run_writes_def w)
  then show ?case
    using Cons.IH [OF write_good [OF Cons.prems], of a d] write_xfers [OF Cons.prems]
    by (simp add: w write_lanes)
qed (simp add: run_writes_def)

lemma run_reads_xfers:
  "good b \<Longrightarrow> run_reads (w_read wops) b as = (b', vs) \<Longrightarrow>
   xfers b' = xfers b @ map (\<lambda>(a, v). rd b a v) (zip as vs) \<and> good b'"
proof (induction as arbitrary: b b' vs)
  case (Cons a as)
  obtain b1 v where r: "w_read wops b a = (b1, v)" by (cases "w_read wops b a")
  obtain b2 ws where rs: "run_reads (w_read wops) b1 as = (b2, ws)" by (cases "run_reads (w_read wops) b1 as")
  have eq: "b' = b2" "vs = v # ws" using Cons.prems(2) r rs by auto
  show ?case
    using Cons.IH [OF read_good [OF Cons.prems(1) r] rs] read_xfers [OF Cons.prems(1) r] read_lanes [OF r]
    by (simp add: eq)
qed simp

text \<open>A record whose reads are of the bus transfers its writes, then its reads, in their order.\<close>

lemma record_xfers:
  assumes g: "good b" and r: "eb_record wops st b r = Some (ans, st', b')"
    and bus: "r ! 0 AND ETHERBONE_RCA = 0"
  shows "\<exists>vs. xfers b' = xfers b @ map (\<lambda>(a, d). wr (w_byteenable wops b (r ! 1)) a d) (rec_writes r)
      @ map (\<lambda>(a, v). rd (w_byteenable wops b (r ! 1)) a v) (zip (rec_reads r) vs)
    \<and> length vs = length (rec_reads r) \<and> good b'
    \<and> (0 < unat (r ! 3) \<and> 4 * (answer_at r + 2) \<le> length r \<longrightarrow> drop (4 * (answer_at r + 2)) ans = concat (map (word_be 4) vs))"
proof -
  let ?be = "r ! 1"
  from r show ?thesis
  proof (cases rule: eb_record_cases)
    case (1 b1 b3 vs)
    have b1: "good b1" "xfers b1 = xfers b"
      "wr (w_byteenable wops b1 ?be) = wr (w_byteenable wops b ?be)" "rd (w_byteenable wops b1 ?be) = rd (w_byteenable wops b ?be)"
      using 1(1) g cycle_good [OF g] cycle_xfers [OF g] cycle_lanes by auto
    define b2 where "b2 = run_writes wops (w_byteenable wops b1 ?be) (rec_writes r)"
    have b2: "good b2" "rd b2 = rd (w_byteenable wops b ?be)"
      "xfers b2 = xfers b @ map (\<lambda>(a, d). wr (w_byteenable wops b ?be) a d) (rec_writes r)"
      using run_writes_xfers [OF byteenable_good [OF b1(1)], of ?be "rec_writes r"] byteenable_xfers [OF b1(1), of ?be] b1
      by (simp_all add: b2_def)
    have rs: "run_reads (w_read wops) b2 (rec_reads r) = (b3, vs)" using 1(2) bus by (simp add: b2_def)
    have b3: "good b3" "xfers b3 = xfers b2 @ map (\<lambda>(a, v). rd b2 a v) (zip (rec_reads r) vs)"
      using run_reads_xfers [OF b2(1) rs] by auto
    have "good b'" "xfers b' = xfers b3" using 1(5) cycle_good [OF b3(1)] cycle_xfers [OF b3(1)] b3(1) by auto
    moreover have "drop (4 * (answer_at r + 2)) ans = concat (map (word_be 4) vs)" if "0 < unat (r ! 3)"
        and "4 * (answer_at r + 2) \<le> length r"
      using that unfolding 1(4) by simp
    moreover have "length vs = length (rec_reads r)" using 1(3) by (simp add: rec_reads_def)
    ultimately show ?thesis using b2 b3 by auto
  qed
qed

text \<open>So does a record written to the master device, when nothing else is pending; the values read
  are appended to the answers.\<close>

lemma master_record_xfers:
  fixes iov :: "u8 list list"
  assumes inv: "master_inv c" and ok: "\<forall>i. ok i" and st: "m_state c \<noteq> Header" "pending_in c = []"
    and b: "good b" "m_state c = Cycle \<longleftrightarrow> held b"
    and r: "concat iov = r" "length r = record_len (r ! 2) (r ! 3)" "length (readable c) + length r \<le> 8192"
    and bus: "r ! 0 AND ETHERBONE_RCA = 0"
  shows "\<exists>c' b' vs. char_master_aio_write e wops ok False nb c b iov = Some (c', b', int (length r))
    \<and> length vs = length (rec_reads r) \<and> good b' \<and> (m_state c' = Cycle \<longleftrightarrow> held b')
    \<and> xfers b' = xfers b @ map (\<lambda>(a, d). wr (w_byteenable wops b (r ! 1)) a d) (rec_writes r)
        @ map (\<lambda>(a, v). rd (w_byteenable wops b (r ! 1)) a v) (zip (rec_reads r) vs)
    \<and> (0 < unat (r ! 3) \<longrightarrow> drop (length (readable c) + 4 * (answer_at r + 2)) (readable c') = concat (map (word_be 4) vs))"
proof -
  have len: "0 < length r" using r(2) by simp
  have u: "uint_length iov = length r" using r(1,3) by (simp add: uint_length_def iov_length_def)
  have n: "uint_length iov \<noteq> 0" "length r = min (8192 - length (readable c) - length (pending_in c)) (uint_length iov)"
    using len r(3) by (simp_all add: u st(2))
  have inp: "eb_input wops (m_state c) b (pending_in c @ take (length r) (concat iov))
      = do { (ans, st, b) \<leftarrow> eb_record wops (m_state c) b r; Some (ans, [], st, b) }"
    using st r(1) eb_stream_one [OF r(2)] by (simp add: eb_input_def)
  obtain c' b' x where w: "char_master_aio_write e wops ok False nb c b iov = Some (c', b', x)"
    and h: "m_state c' = Cycle \<longleftrightarrow> held b'"
    using master_write_returns [OF inv ok b(2), of e False nb iov] by blast
  note step = master_write_step [OF inv ok n, where wops = wops and b = b and e = e and nb = nb, unfolded inp w]
  obtain ans st' b1 where rec: "eb_record wops (m_state c) b r = Some (ans, st', b1)"
    using step by (cases "eb_record wops (m_state c) b r") auto
  then have c': "b' = b1" "x = int (length r)" "readable c' = readable c @ ans"
    using step len by auto
  have at: "4 * (answer_at r + 2) \<le> length r" if "0 < unat (r ! 3)"
    using that r(2) record_len_answer [of r] by simp
  obtain vs where vs: "length vs = length (rec_reads r)" "good b1"
    "xfers b1 = xfers b @ map (\<lambda>(a, d). wr (w_byteenable wops b (r ! 1)) a d) (rec_writes r)
      @ map (\<lambda>(a, v). rd (w_byteenable wops b (r ! 1)) a v) (zip (rec_reads r) vs)"
    "0 < unat (r ! 3) \<and> 4 * (answer_at r + 2) \<le> length r
      \<longrightarrow> drop (4 * (answer_at r + 2)) ans = concat (map (word_be 4) vs)"
    using record_xfers [OF b(1) rec bus] by blast
  have "drop (length (readable c) + 4 * (answer_at r + 2)) (readable c') = concat (map (word_be 4) vs)" if "0 < unat (r ! 3)"
    unfolding c'(3) using vs(4) at [OF that] that by simp
  then show ?thesis
    using w h vs(1-3) unfolding c'(1,2) by (intro exI [of _ c'] exI [of _ b1] exI [of _ vs]) simp
qed

end

end
