(* ===== verification/PcieWb.thy ===== *)
theory PcieWb
  imports BusIo
begin

text \<open>
  The bus operations of the PCI Express bridge, src/pcie-wb/pcie_wb.c and pcie_wb.h. The state of
  the driver's \<open>struct pcie_wb_dev\<close> the operations use, the mutex that guards a cycle, and the
  register accesses made. The debugging output is not modelled.
\<close>

datatype pcie_bar = Control | Window  \<comment> \<open>\<open>pci_res[0]\<close>, \<open>pci_res[1]\<close>\<close>

record pcie_wb_dev =
  p_msi :: bool
  p_mutex :: bool
  p_window_offset :: u32
  p_lanes :: lanes
  p_io :: "pcie_bar io_event list"

definition CONTROL_REGISTER_HIGH :: u32 where "CONTROL_REGISTER_HIGH = 0"
definition ERROR_FLAG_HIGH :: u32 where "ERROR_FLAG_HIGH = 8"
definition ERROR_FLAG_LOW :: u32 where "ERROR_FLAG_LOW = 12"
definition WINDOW_OFFSET_LOW :: u32 where "WINDOW_OFFSET_LOW = 20"
definition SDWB_ADDRESS_HIGH :: u32 where "SDWB_ADDRESS_HIGH = 24"
definition SDWB_ADDRESS_LOW :: u32 where "SDWB_ADDRESS_LOW = 28"
definition MASTER_CTL_HIGH :: u32 where "MASTER_CTL_HIGH = 64"
definition MASTER_ADR_LOW :: u32 where "MASTER_ADR_LOW = 76"
definition MASTER_DAT_LOW :: u32 where "MASTER_DAT_LOW = 84"
definition WINDOW_HIGH :: u32 where "WINDOW_HIGH = 0xFFFF0000"
definition WINDOW_LOW :: u32 where "WINDOW_LOW = 0x0000FFFC"

definition p_out :: "pcie_bar \<Rightarrow> u32 \<Rightarrow> nat \<Rightarrow> u32 \<Rightarrow> pcie_wb_dev \<Rightarrow> pcie_wb_dev" where
  "p_out bar off w v d = d\<lparr>p_io := iowrite bar off w v (p_io d)\<rparr>"

definition p_in :: "pcie_bar device \<Rightarrow> pcie_bar \<Rightarrow> u32 \<Rightarrow> nat \<Rightarrow> pcie_wb_dev \<Rightarrow> pcie_wb_dev \<times> u32" where
  "p_in hw bar off w d = (case ioread hw bar off w (p_io d) of (io, v) \<Rightarrow> (d\<lparr>p_io := io\<rparr>, v))"

definition pcie_int_enable :: "bool \<Rightarrow> pcie_wb_dev \<Rightarrow> pcie_wb_dev" where
  "pcie_int_enable on d =
     (let enable = on \<and> \<not> p_msi d
      in p_out Control CONTROL_REGISTER_HIGH 4 ((if enable then 0x20000000 else 0) + 0x10000000) d)"

text \<open>\<open>mutex_lock\<close> of the mutex the caller already holds never returns.\<close>

definition pcie_wb_cycle :: "pcie_wb_dev \<Rightarrow> bool \<Rightarrow> pcie_wb_dev option" where
  "pcie_wb_cycle d on = do {
     d \<leftarrow> (if on then if p_mutex d then None else Some (d\<lparr>p_mutex := True\<rparr>) else Some d);
     let d = p_out Control CONTROL_REGISTER_HIGH 4 ((if on then 0x80000000 else 0) + 0x40000000) d;
     Some (if \<not> on then d\<lparr>p_mutex := False\<rparr> else d) }"

definition pcie_wb_byteenable :: "endian \<Rightarrow> pcie_wb_dev \<Rightarrow> u8 \<Rightarrow> pcie_wb_dev" where
  "pcie_wb_byteenable e d be = d\<lparr>p_lanes := wb_byteenable e (p_lanes d) be\<rparr>"

text \<open>The part of \<open>wb_write\<close> and \<open>wb_read\<close> that moves the window.\<close>

definition pcie_set_window :: "u32 \<Rightarrow> pcie_wb_dev \<Rightarrow> pcie_wb_dev" where
  "pcie_set_window addr d =
     (let window_offset = addr AND WINDOW_HIGH
      in if window_offset \<noteq> p_window_offset d
         then (p_out Control WINDOW_OFFSET_LOW 4 window_offset d)\<lparr>p_window_offset := window_offset\<rparr>
         else d)"

definition pcie_wb_write :: "pcie_wb_dev \<Rightarrow> u32 \<Rightarrow> u32 \<Rightarrow> pcie_wb_dev" where
  "pcie_wb_write d addr data =
     (let d = pcie_set_window addr d; l = p_lanes d in
      if l_width l = 4 then p_out Window (addr AND WINDOW_LOW) 4 data d
      else if l_width l = 2
        then p_out Window ((addr AND WINDOW_LOW) + l_low_addr l) 2 (drop_bit (l_shift l) data) d
      else if l_width l = 1
        then p_out Window ((addr AND WINDOW_LOW) + l_low_addr l) 1 (drop_bit (l_shift l) data) d
      else d)"

definition pcie_wb_read :: "pcie_bar device \<Rightarrow> pcie_wb_dev \<Rightarrow> u32 \<Rightarrow> pcie_wb_dev \<times> u32" where
  "pcie_wb_read hw d addr =
     (let d = pcie_set_window addr d; l = p_lanes d in
      if l_width l = 4 then p_in hw Window (addr AND WINDOW_LOW) 4 d
      else if l_width l = 2
        then (case p_in hw Window ((addr AND WINDOW_LOW) + l_low_addr l) 2 d of (d, v) \<Rightarrow> (d, push_bit (l_shift l) v))
      else if l_width l = 1
        then (case p_in hw Window ((addr AND WINDOW_LOW) + l_low_addr l) 1 d of (d, v) \<Rightarrow> (d, push_bit (l_shift l) v))
      else (d, 0))"

definition pcie_wb_read_cfg :: "pcie_bar device \<Rightarrow> pcie_wb_dev \<Rightarrow> u32 \<Rightarrow> pcie_wb_dev \<times> u32" where
  "pcie_wb_read_cfg hw d addr =
     (if addr = 0 then p_in hw Control ERROR_FLAG_HIGH 4 d
      else if addr = 4 then p_in hw Control ERROR_FLAG_LOW 4 d
      else if addr = 8 then p_in hw Control SDWB_ADDRESS_HIGH 4 d
      else if addr = 12 then p_in hw Control SDWB_ADDRESS_LOW 4 d
      else (d, 0))"

text \<open>A request is dequeued when there is one; interrupts are enabled again in both cases.\<close>

definition pcie_wb_request :: "pcie_bar device \<Rightarrow> pcie_wb_dev \<Rightarrow> pcie_wb_dev \<times> wishbone_request option" where
  "pcie_wb_request hw d =
     (let (d, ctl) = p_in hw Control MASTER_CTL_HIGH 4 d;
          (d, addr) = p_in hw Control MASTER_ADR_LOW 4 d;
          (d, dat) = p_in hw Control MASTER_DAT_LOW 4 d;
          req = \<lparr>rq_write = ctl AND 0x40000000 \<noteq> 0, rq_addr = addr, rq_data = dat, rq_mask = ucast (ctl AND 0xf)\<rparr>;
          out = ctl AND 0x80000000 \<noteq> 0;
          d = (if out then p_out Control MASTER_CTL_HIGH 4 1 d else d);
          d = pcie_int_enable True d
      in (d, if out then Some req else None))"

definition pcie_wb_reply :: "pcie_wb_dev \<Rightarrow> u32 \<Rightarrow> u32 \<Rightarrow> pcie_wb_dev" where
  "pcie_wb_reply d err dat =
     p_out Control MASTER_CTL_HIGH 4 (err + 2) (p_out Control MASTER_DAT_LOW 4 dat d)"

definition pcie_wb_ops :: "endian \<Rightarrow> pcie_bar device \<Rightarrow> pcie_wb_dev wishbone_operations" where
  "pcie_wb_ops e hw =
     \<lparr>w_cycle = pcie_wb_cycle, w_byteenable = pcie_wb_byteenable e, w_write = pcie_wb_write,
      w_read = pcie_wb_read hw, w_read_cfg = pcie_wb_read_cfg hw,
      w_request = pcie_wb_request hw, w_reply = pcie_wb_reply\<rparr>"

definition pcie_irq_handler :: "pcie_wb_dev \<Rightarrow> pcie_wb_dev" where
  \<comment> \<open>then wakes the readers of the slave device\<close>
  "pcie_irq_handler d = pcie_int_enable False d"

subsection \<open>Transfers\<close>

text \<open>
  The bridge maps the 64 KiB window in its second BAR to the bus at the offset last written to its
  window register. \<open>pcie_xfers w io\<close> are the bus transfers of the accesses \<open>io\<close>, the register
  holding \<open>w\<close> before; \<open>pcie_window w io\<close> is what it holds after.
\<close>

fun pcie_window :: "u32 \<Rightarrow> pcie_bar io_event list \<Rightarrow> u32" where
  "pcie_window w [] = w"
| "pcie_window w (Io_write Control off n v # io) = pcie_window (if off = WINDOW_OFFSET_LOW then v else w) io"
| "pcie_window w (_ # io) = pcie_window w io"

fun pcie_xfers :: "u32 \<Rightarrow> pcie_bar io_event list \<Rightarrow> bus_transfer list" where
  "pcie_xfers w [] = []"
| "pcie_xfers w (Io_write Control off n v # io) = pcie_xfers (if off = WINDOW_OFFSET_LOW then v else w) io"
| "pcie_xfers w (Io_write Window off n v # io) = Bus_write (w + off) n v # pcie_xfers w io"
| "pcie_xfers w (Io_read Window off n v # io) = Bus_read (w + off) n v # pcie_xfers w io"
| "pcie_xfers w (Io_read Control off n v # io) = pcie_xfers w io"

text \<open>The driver's copy of the window register is true.\<close>

definition window_ok :: "endian \<Rightarrow> pcie_wb_dev \<Rightarrow> bool" where
  "window_ok e d \<longleftrightarrow> pcie_window 0 (p_io d) = p_window_offset d \<and> valid_lanes e (p_lanes d)"

definition pcie_transfers :: "pcie_wb_dev \<Rightarrow> bus_transfer list" where
  "pcie_transfers d = pcie_xfers 0 (p_io d)"

lemma pcie_window_append: "pcie_window w (io1 @ io2) = pcie_window (pcie_window w io1) io2"
  by (induction w io1 rule: pcie_window.induct) auto

lemma pcie_xfers_append: "pcie_xfers w (io1 @ io2) = pcie_xfers w io1 @ pcie_xfers (pcie_window w io1) io2"
  by (induction w io1 rule: pcie_xfers.induct) auto

lemma lane_address: "(addr AND WINDOW_HIGH) + (addr AND WINDOW_LOW) = addr AND 0xFFFFFFFC"
proof -
  have "(addr AND WINDOW_HIGH) AND (addr AND WINDOW_LOW) = addr AND (WINDOW_HIGH AND WINDOW_LOW)"
    by (simp add: and.assoc and.left_commute)
  also have "WINDOW_HIGH AND WINDOW_LOW = 0" by code_simp
  finally have "(addr AND WINDOW_HIGH) + (addr AND WINDOW_LOW) = (addr AND WINDOW_HIGH) OR (addr AND WINDOW_LOW)"
    using word_plus_and_or [of "addr AND WINDOW_HIGH" "addr AND WINDOW_LOW"] by simp
  also have "\<dots> = addr AND (WINDOW_HIGH OR WINDOW_LOW)" by (simp add: bit.conj_disj_distrib)
  also have "WINDOW_HIGH OR WINDOW_LOW = 0xFFFFFFFC" by code_simp
  finally show ?thesis .
qed

lemmas pcie_defs = p_out_def p_in_def iowrite_def Let_def pcie_transfers_def window_ok_def
  pcie_window_append pcie_xfers_append

lemma set_window:
  assumes "window_ok e d"
  shows "window_ok e (pcie_set_window a d)" and "pcie_transfers (pcie_set_window a d) = pcie_transfers d"
    and "p_window_offset (pcie_set_window a d) = a AND WINDOW_HIGH"
    and "p_lanes (pcie_set_window a d) = p_lanes d" and "p_mutex (pcie_set_window a d) = p_mutex d"
  using assms by (simp_all add: pcie_set_window_def pcie_defs take_bit_word_eq_self)

lemma write_transfer:
  assumes "window_ok e d"
  shows "pcie_transfers (pcie_wb_write d a v) = pcie_transfers d @ [lane_write (p_lanes d) a v]"
    and "window_ok e (pcie_wb_write d a v)" and "p_lanes (pcie_wb_write d a v) = p_lanes d"
    and "p_mutex (pcie_wb_write d a v) = p_mutex d"
proof -
  note s = set_window [OF assms, of a]
  define d1 where "d1 = pcie_set_window a d"
  have w: "pcie_window 0 (p_io d1) = a AND WINDOW_HIGH" using s(1,3) by (simp add: window_ok_def d1_def)
  have l: "p_lanes d1 = p_lanes d" using s(4) by (simp add: d1_def)
  have out: "pcie_transfers (p_out Window off n v d1) = pcie_transfers d @ [Bus_write ((a AND WINDOW_HIGH) + off) n (take_bit (8 * n) v)]"
    "window_ok e (p_out Window off n v d1)" for off n v
    using s(1,2) w by (simp_all add: pcie_defs d1_def [symmetric])
  have v: "valid_lanes e (p_lanes d)" using assms by (simp add: window_ok_def)
  have shape: "pcie_wb_write d a v = p_out Window ((a AND WINDOW_LOW) + l_low_addr (p_lanes d)) (l_width (p_lanes d))
      (drop_bit (l_shift (p_lanes d)) v) d1"
    using valid_lanes_width [OF v] by (auto simp: pcie_wb_write_def Let_def d1_def [symmetric] l)
  show "pcie_transfers (pcie_wb_write d a v) = pcie_transfers d @ [lane_write (p_lanes d) a v]"
    unfolding shape out lane_write_def lane_address [symmetric] by (simp add: add.assoc)
  show "window_ok e (pcie_wb_write d a v)" unfolding shape by (rule out)
  show "p_lanes (pcie_wb_write d a v) = p_lanes d" unfolding shape by (simp add: p_out_def l)
  show "p_mutex (pcie_wb_write d a v) = p_mutex d" unfolding shape using s(5) by (simp add: p_out_def d1_def)
qed

lemma read_transfer:
  assumes "window_ok e d" and r: "pcie_wb_read hw d a = (d', v)"
  shows "pcie_transfers d' = pcie_transfers d @ [lane_read (p_lanes d) a v]"
    and "window_ok e d'" and "p_lanes d' = p_lanes d" and "p_mutex d' = p_mutex d"
    and "v = v AND lane_mask (p_lanes d)"
proof -
  note s = set_window [OF assms(1), of a]
  define d1 where "d1 = pcie_set_window a d"
  define l where "l = p_lanes d"
  have w: "pcie_window 0 (p_io d1) = a AND WINDOW_HIGH" using s(1,3) by (simp add: window_ok_def d1_def)
  have l1: "p_lanes d1 = l" using s(4) by (simp add: d1_def l_def)
  have vl: "valid_lanes e l" using assms by (simp add: window_ok_def l_def)
  define v1 where "v1 = snd (p_in hw Window ((a AND WINDOW_LOW) + l_low_addr l) (l_width l) d1)"
  have t: "v1 = take_bit (8 * l_width l) v1" by (simp add: v1_def p_in_def ioread_def Let_def)
  have shape: "pcie_wb_read hw d a = (fst (p_in hw Window ((a AND WINDOW_LOW) + l_low_addr l) (l_width l) d1), push_bit (l_shift l) v1)"
    using valid_lanes_width [OF vl]
    by (auto simp: pcie_wb_read_def Let_def d1_def [symmetric] l1 v1_def split: prod.splits)
  have d': "d' = d1\<lparr>p_io := p_io d1 @ [Io_read Window ((a AND WINDOW_LOW) + l_low_addr l) (l_width l) v1]\<rparr>"
    and v: "v = push_bit (l_shift l) v1"
    using r unfolding shape by (auto simp: v1_def p_in_def ioread_def Let_def)
  have unshift: "take_bit (8 * l_width l) (drop_bit (l_shift l) v) = v1"
    using t valid_lanes_width [OF vl] unfolding v by (intro lane_round) auto
  have addr: "(a AND WINDOW_HIGH) + ((a AND WINDOW_LOW) + l_low_addr l) = (a AND 0xFFFFFFFC) + l_low_addr l"
    by (simp only: add.assoc [symmetric] lane_address)
  show "pcie_transfers d' = pcie_transfers d @ [lane_read (p_lanes d) a v]"
    using s(2) unfolding d' by (simp add: pcie_defs d1_def [symmetric] w addr lane_read_def unshift l_def [symmetric])
  show "window_ok e d'" using s(1) unfolding d' by (simp add: pcie_defs d1_def [symmetric])
  show "p_lanes d' = p_lanes d" unfolding d' by (simp add: l1 l_def)
  show "p_mutex d' = p_mutex d" unfolding d' using s(5) by (simp add: d1_def)
  show "v = v AND lane_mask (p_lanes d)"
  proof (rule bit_word_eqI)
    fix i assume "i < LENGTH(32)"
    have "bit v1 (i - l_shift l) \<Longrightarrow> i - l_shift l < 8 * l_width l" using t by (metis bit_take_bit_iff)
    then show "bit v i = bit (v AND lane_mask (p_lanes d)) i"
      unfolding v lane_mask_def l_def [symmetric] by (auto simp: bit_simps)
  qed
qed

text \<open>The other operations touch neither the window nor the bus.\<close>

definition same_bus :: "pcie_wb_dev \<Rightarrow> pcie_wb_dev \<Rightarrow> bool" where
  "same_bus d d' \<longleftrightarrow> pcie_transfers d' = pcie_transfers d \<and> pcie_window 0 (p_io d') = pcie_window 0 (p_io d)
     \<and> p_window_offset d' = p_window_offset d"

lemma same_bus_refl [simp]: "same_bus d d"
  by (simp add: same_bus_def)

lemma same_bus_out: "off \<noteq> WINDOW_OFFSET_LOW \<Longrightarrow> same_bus d d1 \<Longrightarrow> same_bus d (p_out Control off w v d1)"
  by (simp add: same_bus_def pcie_defs)

lemma same_bus_in: "same_bus d d1 \<Longrightarrow> same_bus d (fst (p_in hw Control off w d1))"
  by (simp add: same_bus_def pcie_defs ioread_def)

lemma p_in_out_frame [simp]:
  "p_mutex (p_out bar off w v d) = p_mutex d" "p_lanes (p_out bar off w v d) = p_lanes d"
  "p_msi (p_out bar off w v d) = p_msi d"
  "p_mutex (fst (p_in hw bar off w d)) = p_mutex d" "p_lanes (fst (p_in hw bar off w d)) = p_lanes d"
  by (simp_all add: p_out_def p_in_def split: prod.split)

lemma not_window_register [simp]:
  "CONTROL_REGISTER_HIGH \<noteq> WINDOW_OFFSET_LOW" "MASTER_CTL_HIGH \<noteq> WINDOW_OFFSET_LOW" "MASTER_DAT_LOW \<noteq> WINDOW_OFFSET_LOW"
  by (simp_all add: CONTROL_REGISTER_HIGH_def MASTER_CTL_HIGH_def MASTER_DAT_LOW_def WINDOW_OFFSET_LOW_def)

lemma cycle_frame:
  assumes "pcie_wb_cycle d on = Some d'"
  shows "same_bus d d'" and "p_lanes d' = p_lanes d" and "p_mutex d' = on"
proof -
  have keep: "same_bus d (d\<lparr>p_mutex := m\<rparr>)" for m by (simp add: same_bus_def pcie_transfers_def)
  have keep': "same_bus d d1 \<Longrightarrow> same_bus d (d1\<lparr>p_mutex := m\<rparr>)" for d1 m by (simp add: same_bus_def pcie_transfers_def)
  show "same_bus d d'"
    using assms by (auto simp: pcie_wb_cycle_def Let_def keep intro!: same_bus_out keep' split: if_splits)
  show "p_lanes d' = p_lanes d" "p_mutex d' = on"
    using assms by (auto simp: pcie_wb_cycle_def Let_def split: if_splits)
qed

lemma read_cfg_frame:
  "same_bus d (fst (pcie_wb_read_cfg hw d a))" "p_mutex (fst (pcie_wb_read_cfg hw d a)) = p_mutex d"
  by (simp_all add: pcie_wb_read_cfg_def same_bus_in)

lemma request_frame: "p_mutex (fst (pcie_wb_request hw d)) = p_mutex d"
  by (auto simp: pcie_wb_request_def pcie_int_enable_def Let_def split: prod.split)
    (metis p_in_out_frame(4) fst_conv)+

lemma write_frame:
  "p_mutex (pcie_wb_write d a v) = p_mutex d" "p_lanes (pcie_wb_write d a v) = p_lanes d"
  by (simp_all add: pcie_wb_write_def pcie_set_window_def Let_def)

lemma read_frame:
  "p_mutex (fst (pcie_wb_read hw d a)) = p_mutex d" "p_lanes (fst (pcie_wb_read hw d a)) = p_lanes d"
  by (auto simp: pcie_wb_read_def pcie_set_window_def Let_def p_in_def p_out_def split: prod.splits)

interpretation pcie: wb_bus "pcie_wb_ops e hw" p_mutex "window_ok e" pcie_transfers
    "\<lambda>d. lane_write (p_lanes d)" "\<lambda>d. lane_read (p_lanes d)" for e hw
proof (unfold_locales, goal_cases)
  case (1 b)
  then show ?case by (simp add: pcie_wb_ops_def pcie_wb_cycle_def Let_def)
next
  case (2 b)
  then show ?case by (simp add: pcie_wb_ops_def pcie_wb_cycle_def Let_def)
next
  case (3 b m)
  then show ?case by (simp add: pcie_wb_ops_def pcie_wb_byteenable_def)
next
  case (4 b a d)
  then show ?case by (simp add: pcie_wb_ops_def write_frame)
next
  case (5 b a)
  then show ?case by (simp add: pcie_wb_ops_def read_frame)
next
  case (6 b a)
  then show ?case by (simp add: pcie_wb_ops_def read_cfg_frame)
next
  case (7 b)
  then show ?case by (simp add: pcie_wb_ops_def request_frame)
next
  case (8 b err d)
  then show ?case by (simp add: pcie_wb_ops_def pcie_wb_reply_def)
next
  case (9 b a d)
  then show ?case by (simp add: pcie_wb_ops_def write_transfer)
next
  case (10 b a d)
  then show ?case by (simp add: pcie_wb_ops_def write_transfer)
next
  case (11 b a d)
  then show ?case by (simp add: pcie_wb_ops_def write_frame)
next
  case (12 b a d)
  then show ?case by (simp add: pcie_wb_ops_def write_frame)
next
  case (13 b a b' v)
  then show ?case using read_transfer [of e b hw a b' v] by (simp add: pcie_wb_ops_def)
next
  case (14 b a b' v)
  then show ?case using read_transfer [of e b hw a b' v] by (simp add: pcie_wb_ops_def)
next
  case (15 b a b' v)
  then show ?case using read_frame(2) [of hw b a] by (simp add: pcie_wb_ops_def)
next
  case (16 b m)
  then show ?case by (simp add: pcie_wb_ops_def pcie_wb_byteenable_def pcie_transfers_def)
next
  case (17 b m)
  then show ?case by (simp add: pcie_wb_ops_def pcie_wb_byteenable_def window_ok_def valid_byteenable)
next
  case (18 b on b')
  then show ?case using cycle_frame(1) [of b on b'] by (simp add: pcie_wb_ops_def same_bus_def)
next
  case (19 b on b')
  then show ?case using cycle_frame(1,2) [of b on b'] by (simp add: pcie_wb_ops_def same_bus_def window_ok_def)
next
  case (20 b on b' m)
  then show ?case using cycle_frame(2) [of b on b'] by (simp add: pcie_wb_ops_def pcie_wb_byteenable_def)
qed

end
