(* ===== verification/SpecWb.thy ===== *)
theory SpecWb
  imports BusIo
begin

text \<open>
  The bus operations of the SPEC card's bridge, src/pcie-wb/spec_wb.c and spec_wb.h: a window of
  256 KiB in the first BAR, without registers of its own. The module parameter \<open>sdb_addr\<close> is an
  argument. The debugging output is not modelled.
\<close>

record spec_wb_dev =
  s_mutex :: bool
  s_lanes :: lanes
  s_io :: "unit io_event list"  \<comment> \<open>one region: \<open>pci_res[WB_BAR].addr\<close>\<close>

definition WB_OFFSET :: u32 where "WB_OFFSET = 0x80000"
definition WB_LOW :: u32 where "WB_LOW = 0x3fffc"

definition spec_wb_cycle :: "spec_wb_dev \<Rightarrow> bool \<Rightarrow> spec_wb_dev option" where
  "spec_wb_cycle d on = do {
     d \<leftarrow> (if on then if s_mutex d then None else Some (d\<lparr>s_mutex := True\<rparr>) else Some d);
     Some (if \<not> on then d\<lparr>s_mutex := False\<rparr> else d) }"

definition spec_wb_byteenable :: "endian \<Rightarrow> spec_wb_dev \<Rightarrow> u8 \<Rightarrow> spec_wb_dev" where
  "spec_wb_byteenable e d be = d\<lparr>s_lanes := wb_byteenable e (s_lanes d) be\<rparr>"

definition spec_wb_write :: "spec_wb_dev \<Rightarrow> u32 \<Rightarrow> u32 \<Rightarrow> spec_wb_dev" where
  "spec_wb_write d addr data =
     (let l = s_lanes d; addr = (addr AND WB_LOW) + l_low_addr l in
      if l_width l = 4 then d\<lparr>s_io := iowrite () (WB_OFFSET + addr) 4 data (s_io d)\<rparr>
      else if l_width l = 2 then d\<lparr>s_io := iowrite () (WB_OFFSET + addr) 2 (drop_bit (l_shift l) data) (s_io d)\<rparr>
      else if l_width l = 1 then d\<lparr>s_io := iowrite () (WB_OFFSET + addr) 1 (drop_bit (l_shift l) data) (s_io d)\<rparr>
      else d)"

definition s_in :: "unit device \<Rightarrow> u32 \<Rightarrow> nat \<Rightarrow> spec_wb_dev \<Rightarrow> spec_wb_dev \<times> u32" where
  "s_in hw off w d = (case ioread hw () off w (s_io d) of (io, v) \<Rightarrow> (d\<lparr>s_io := io\<rparr>, v))"

definition spec_wb_read :: "unit device \<Rightarrow> spec_wb_dev \<Rightarrow> u32 \<Rightarrow> spec_wb_dev \<times> u32" where
  "spec_wb_read hw d addr =
     (let l = s_lanes d; addr = (addr AND WB_LOW) + l_low_addr l in
      if l_width l = 4 then s_in hw (WB_OFFSET + addr) 4 d
      else if l_width l = 2 then (case s_in hw (WB_OFFSET + addr) 2 d of (d, v) \<Rightarrow> (d, push_bit (l_shift l) v))
      else if l_width l = 1 then (case s_in hw (WB_OFFSET + addr) 1 d of (d, v) \<Rightarrow> (d, push_bit (l_shift l) v))
      else (d, 0))"

definition spec_wb_read_cfg :: "u32 \<Rightarrow> spec_wb_dev \<Rightarrow> u32 \<Rightarrow> spec_wb_dev \<times> u32" where
  "spec_wb_read_cfg sdb_addr d addr =
     (d, if addr = 0 then 0 else if addr = 4 then 0 else if addr = 8 then 0 else if addr = 12 then sdb_addr else 0)"

definition spec_wb_request :: "spec_wb_dev \<Rightarrow> spec_wb_dev \<times> wishbone_request option" where
  "spec_wb_request d = (d, None)"

definition spec_wb_reply :: "spec_wb_dev \<Rightarrow> u32 \<Rightarrow> u32 \<Rightarrow> spec_wb_dev" where
  "spec_wb_reply d err dat = d"

definition spec_wb_ops :: "endian \<Rightarrow> u32 \<Rightarrow> unit device \<Rightarrow> spec_wb_dev wishbone_operations" where
  "spec_wb_ops e sdb_addr hw =
     \<lparr>w_cycle = spec_wb_cycle, w_byteenable = spec_wb_byteenable e, w_write = spec_wb_write,
      w_read = spec_wb_read hw, w_read_cfg = spec_wb_read_cfg sdb_addr,
      w_request = spec_wb_request, w_reply = spec_wb_reply\<rparr>"

subsection \<open>Transfers\<close>

text \<open>The window is mapped to the first 256 KiB of the bus.\<close>

fun spec_xfer :: "unit io_event \<Rightarrow> bus_transfer" where
  "spec_xfer (Io_write r off n v) = Bus_write (off - WB_OFFSET) n v"
| "spec_xfer (Io_read r off n v) = Bus_read (off - WB_OFFSET) n v"

definition spec_transfers :: "spec_wb_dev \<Rightarrow> bus_transfer list" where
  "spec_transfers d = map spec_xfer (s_io d)"

definition spec_lane_write :: "lanes \<Rightarrow> u32 \<Rightarrow> u32 \<Rightarrow> bus_transfer" where
  "spec_lane_write l addr data = lane_write l (addr AND WB_LOW) data"

definition spec_lane_read :: "lanes \<Rightarrow> u32 \<Rightarrow> u32 \<Rightarrow> bus_transfer" where
  "spec_lane_read l addr v = lane_read l (addr AND WB_LOW) v"

lemma low_word: "(a AND WB_LOW) AND 0xFFFFFFFC = a AND WB_LOW"
proof -
  have "WB_LOW AND 0xFFFFFFFC = WB_LOW" by code_simp
  then show ?thesis by (simp add: and.assoc)
qed

lemma spec_write_transfer:
  assumes "valid_lanes e (s_lanes d)"
  shows "spec_transfers (spec_wb_write d a v) = spec_transfers d @ [spec_lane_write (s_lanes d) a v]"
proof -
  define l where "l = s_lanes d"
  have w: "l_width l \<in> {1, 2, 4}" "l_width l = 4 \<longrightarrow> l_low_addr l = 0 \<and> l_shift l = 0"
    using valid_lanes_width [OF assms] by (simp_all only: l_def)
  have "spec_wb_write d a v = d\<lparr>s_io := iowrite () (WB_OFFSET + ((a AND WB_LOW) + l_low_addr l)) (l_width l)
      (drop_bit (l_shift l) v) (s_io d)\<rparr>"
    using w by (auto simp: spec_wb_write_def Let_def l_def)
  then show ?thesis
    by (simp add: spec_transfers_def iowrite_def spec_lane_write_def lane_write_def low_word l_def)
qed

lemma spec_read_transfer:
  assumes "valid_lanes e (s_lanes d)" and r: "spec_wb_read hw d a = (d', v)"
  shows "spec_transfers d' = spec_transfers d @ [spec_lane_read (s_lanes d) a v]"
proof -
  define l where "l = s_lanes d"
  have w: "l_width l \<in> {1, 2, 4}" "l_width l = 4 \<longrightarrow> l_low_addr l = 0 \<and> l_shift l = 0" "l_shift l + 8 * l_width l \<le> 32"
    using valid_lanes_width [OF assms(1)] by (simp_all only: l_def)
  define off where "off = WB_OFFSET + ((a AND WB_LOW) + l_low_addr l)"
  define v1 where "v1 = snd (s_in hw off (l_width l) d)"
  have t: "v1 = take_bit (8 * l_width l) v1" by (simp add: v1_def s_in_def ioread_def Let_def)
  have "spec_wb_read hw d a = (fst (s_in hw off (l_width l) d), push_bit (l_shift l) v1)"
    using w(1,2) by (auto simp: spec_wb_read_def Let_def l_def [symmetric] v1_def off_def split: prod.splits)
  then have d': "d' = d\<lparr>s_io := s_io d @ [Io_read () off (l_width l) v1]\<rparr>" and v: "v = push_bit (l_shift l) v1"
    using r by (auto simp: v1_def s_in_def ioread_def Let_def)
  have "take_bit (8 * l_width l) (drop_bit (l_shift l) v) = v1"
    using t w(3) unfolding v by (intro lane_round) auto
  then show ?thesis
    unfolding d' by (simp add: spec_transfers_def spec_lane_read_def lane_read_def low_word l_def [symmetric] off_def)
qed

lemma spec_frame:
  "s_mutex (spec_wb_write d a v) = s_mutex d" "s_lanes (spec_wb_write d a v) = s_lanes d"
  "s_mutex (fst (spec_wb_read hw d a)) = s_mutex d" "s_lanes (fst (spec_wb_read hw d a)) = s_lanes d"
  by (auto simp: spec_wb_write_def spec_wb_read_def s_in_def Let_def split: prod.splits)

lemma spec_lanes_transfers: "spec_transfers (d\<lparr>s_lanes := l\<rparr>) = spec_transfers d"
  by (simp add: spec_transfers_def)

lemma spec_cycle_frame:
  assumes "spec_wb_cycle d on = Some d'" shows "s_io d' = s_io d" and "s_lanes d' = s_lanes d"
  using assms by (auto simp: spec_wb_cycle_def split: if_splits)

interpretation spec: wb_bus "spec_wb_ops e sdb_addr hw" s_mutex "\<lambda>d. valid_lanes e (s_lanes d)" spec_transfers
    "\<lambda>d. spec_lane_write (s_lanes d)" "\<lambda>d. spec_lane_read (s_lanes d)" for e sdb_addr hw
proof (unfold_locales, goal_cases)
  case (13 b a b' v)
  then show ?case using spec_read_transfer [of e b hw a b' v] by (simp add: spec_wb_ops_def)
next
  case (14 b a b' v)
  then show ?case using spec_frame(4) [of hw b a] by (simp add: spec_wb_ops_def)
next
  case (15 b a b' v)
  then show ?case using spec_frame(4) [of hw b a] by (simp add: spec_wb_ops_def)
next
  case (18 b on b')
  then show ?case using spec_cycle_frame [of b on b'] by (simp add: spec_wb_ops_def spec_transfers_def)
next
  case (19 b on b')
  then show ?case using spec_cycle_frame [of b on b'] by (simp add: spec_wb_ops_def)
next
  case (20 b on b' m)
  then show ?case using spec_cycle_frame [of b on b'] by (simp add: spec_wb_ops_def spec_wb_byteenable_def)
qed (simp_all add: spec_wb_ops_def spec_wb_cycle_def spec_wb_byteenable_def spec_wb_read_cfg_def spec_wb_request_def
    spec_wb_reply_def spec_frame spec_write_transfer valid_byteenable spec_lanes_transfers)

end
