(* ===== verification/VmeWb.thy ===== *)
theory VmeWb
  imports BusIo
begin

text \<open>
  The VME bridge, src/vme-wb/vme_wb_external.c and vme_wb.h: its bus operations, the three address
  windows of a card, the configuration of the card's CR/CSR space and the test for its presence.
  The VME bus driver (\<open>vme_find_mapping\<close>, \<open>vme_release_mapping\<close>) is not part of the program: its
  answers are arguments. Messages to the log are not modelled.
\<close>

datatype vme_map_win = MAP_CR_CSR | MAP_REG | MAP_CTRL

datatype vme_address_modifier = VME_A32_USER_DATA_SCT | VME_A24_USER_DATA_SCT | VME_CR_CSR

record vme_mapping =
  vm_am :: vme_address_modifier
  vm_addrl :: u64
  vm_sizel :: u32

record vme_wb_dev =
  v_slot :: u32
  v_map :: "vme_map_win \<Rightarrow> vme_mapping option"
  v_mutex :: bool
  v_window_offset :: u32
  v_io :: "vme_map_win io_event list"

definition VME_ERROR_FLAG :: u32 where "VME_ERROR_FLAG = 0"
definition VME_SDWB_ADDRESS :: u32 where "VME_SDWB_ADDRESS = 8"
definition VME_CTRL :: u32 where "VME_CTRL = 16"
definition VME_MASTER_CTRL :: u32 where "VME_MASTER_CTRL = 24"
definition VME_MASTER_ADD :: u32 where "VME_MASTER_ADD = 32"
definition VME_MASTER_DATA :: u32 where "VME_MASTER_DATA = 40"
definition VME_EMUL_DAT_WD :: u32 where "VME_EMUL_DAT_WD = 48"
definition VME_WINDOW_OFFSET_LOW :: u32 where "VME_WINDOW_OFFSET_LOW = 56"
definition WBM_ADD_MASK :: u32 where "WBM_ADD_MASK = 0xFFFFFFFC"
definition VME_WINDOW_HIGH :: u32 where "VME_WINDOW_HIGH = 0xFFFF0000"
definition VME_WINDOW_LOW :: u32 where "VME_WINDOW_LOW = 0x0000FFFC"

subsection \<open>Bus operations\<close>

text \<open>\<open>cpu_to_be32\<close> and \<open>be32_to_cpu\<close> are the conversions of the host's byte order.\<close>

definition v_out :: "vme_map_win \<Rightarrow> u32 \<Rightarrow> u32 \<Rightarrow> vme_wb_dev \<Rightarrow> vme_wb_dev" where
  "v_out win off v d = d\<lparr>v_io := iowrite win off 4 v (v_io d)\<rparr>"

definition v_in :: "vme_map_win device \<Rightarrow> vme_map_win \<Rightarrow> u32 \<Rightarrow> vme_wb_dev \<Rightarrow> vme_wb_dev \<times> u32" where
  "v_in hw win off d = (case ioread hw win off 4 (v_io d) of (io, v) \<Rightarrow> (d\<lparr>v_io := io\<rparr>, v))"

definition vme_wb_cycle :: "endian \<Rightarrow> vme_wb_dev \<Rightarrow> bool \<Rightarrow> vme_wb_dev option" where
  "vme_wb_cycle e d on = do {
     d \<leftarrow> (if on then if v_mutex d then None else Some (d\<lparr>v_mutex := True\<rparr>) else Some d);
     let d = v_out MAP_CTRL VME_CTRL (htonl e ((if on then 0x80000000 else 0) + 0x40000000)) d;
     Some (if \<not> on then d\<lparr>v_mutex := False\<rparr> else d) }"

definition vme_wb_byteenable :: "endian \<Rightarrow> vme_wb_dev \<Rightarrow> u8 \<Rightarrow> vme_wb_dev" where
  "vme_wb_byteenable e d be = v_out MAP_CTRL VME_EMUL_DAT_WD (htonl e (ucast be)) d"

definition vme_set_window :: "endian \<Rightarrow> u32 \<Rightarrow> vme_wb_dev \<Rightarrow> vme_wb_dev" where
  "vme_set_window e addr d =
     (let window_offset = addr AND VME_WINDOW_HIGH
      in if window_offset \<noteq> v_window_offset d
         then (v_out MAP_CTRL VME_WINDOW_OFFSET_LOW (htonl e window_offset) d)\<lparr>v_window_offset := window_offset\<rparr>
         else d)"

definition vme_wb_write :: "endian \<Rightarrow> vme_wb_dev \<Rightarrow> u32 \<Rightarrow> u32 \<Rightarrow> vme_wb_dev" where
  "vme_wb_write e d addr data =
     (let addr = addr AND WBM_ADD_MASK; d = vme_set_window e addr d
      in v_out MAP_REG (addr AND VME_WINDOW_LOW) (htonl e data) d)"

definition vme_wb_read :: "endian \<Rightarrow> vme_map_win device \<Rightarrow> vme_wb_dev \<Rightarrow> u32 \<Rightarrow> vme_wb_dev \<times> u32" where
  "vme_wb_read e hw d addr =
     (let addr = addr AND WBM_ADD_MASK; d = vme_set_window e addr d
      in case v_in hw MAP_REG (addr AND VME_WINDOW_LOW) d of (d, v) \<Rightarrow> (d, ntohl e v))"

definition vme_wb_read_cfg :: "endian \<Rightarrow> vme_map_win device \<Rightarrow> vme_wb_dev \<Rightarrow> u32 \<Rightarrow> vme_wb_dev \<times> u32" where
  "vme_wb_read_cfg e hw d addr =
     (if addr = 0 then (d, 0)
      else if addr = 4 then (case v_in hw MAP_CTRL VME_ERROR_FLAG d of (d, v) \<Rightarrow> (d, ntohl e v))
      else if addr = 8 then (d, 0)
      else if addr = 12 then (case v_in hw MAP_CTRL VME_SDWB_ADDRESS d of (d, v) \<Rightarrow> (d, ntohl e v))
      else (d, 0))"

definition vme_wb_request :: "endian \<Rightarrow> vme_map_win device \<Rightarrow> vme_wb_dev \<Rightarrow> vme_wb_dev \<times> wishbone_request option" where
  "vme_wb_request e hw d =
     (let (d, c) = v_in hw MAP_CTRL VME_MASTER_CTRL d; ctrl = ntohl e c;
          (d, a) = v_in hw MAP_CTRL VME_MASTER_ADD d;
          (d, x) = v_in hw MAP_CTRL VME_MASTER_DATA d;
          req = \<lparr>rq_write = ctrl AND 0x40000000 \<noteq> 0, rq_addr = ntohl e a, rq_data = ntohl e x,
                 rq_mask = ucast (ctrl AND 0xf)\<rparr>;
          out = ctrl AND 0x80000000 \<noteq> 0
      in (if out then v_out MAP_CTRL VME_MASTER_CTRL (htonl e 1) d else d, if out then Some req else None))"

definition vme_wb_reply :: "endian \<Rightarrow> vme_wb_dev \<Rightarrow> u32 \<Rightarrow> u32 \<Rightarrow> vme_wb_dev" where
  "vme_wb_reply e d err dat =
     v_out MAP_CTRL VME_MASTER_CTRL (htonl e (err + 2)) (v_out MAP_CTRL VME_MASTER_DATA (htonl e dat) d)"

definition vme_wb_ops :: "endian \<Rightarrow> vme_map_win device \<Rightarrow> vme_wb_dev wishbone_operations" where
  "vme_wb_ops e hw =
     \<lparr>w_cycle = vme_wb_cycle e, w_byteenable = vme_wb_byteenable e, w_write = vme_wb_write e,
      w_read = vme_wb_read e hw, w_read_cfg = vme_wb_read_cfg e hw,
      w_request = vme_wb_request e hw, w_reply = vme_wb_reply e\<rparr>"

definition init_ctrl_reg :: "vme_wb_dev \<Rightarrow> vme_wb_dev" where
  "init_ctrl_reg d = v_out MAP_CTRL VME_MASTER_CTRL 0
     (v_out MAP_CTRL VME_WINDOW_OFFSET_LOW 0 (v_out MAP_CTRL VME_EMUL_DAT_WD 0 d))"

subsection \<open>Transfers\<close>

text \<open>The card maps its A32 window of 64 KiB to the bus at the offset in its window register; the
  registers are big-endian.\<close>

fun vme_window :: "endian \<Rightarrow> u32 \<Rightarrow> vme_map_win io_event list \<Rightarrow> u32" where
  "vme_window e w [] = w"
| "vme_window e w (Io_write MAP_CTRL off n v # io) =
     vme_window e (if off = VME_WINDOW_OFFSET_LOW then ntohl e v else w) io"
| "vme_window e w (_ # io) = vme_window e w io"

fun vme_xfers :: "endian \<Rightarrow> u32 \<Rightarrow> vme_map_win io_event list \<Rightarrow> bus_transfer list" where
  "vme_xfers e w [] = []"
| "vme_xfers e w (Io_write MAP_CTRL off n v # io) =
     vme_xfers e (if off = VME_WINDOW_OFFSET_LOW then ntohl e v else w) io"
| "vme_xfers e w (Io_write MAP_REG off n v # io) = Bus_write (w + off) n (ntohl e v) # vme_xfers e w io"
| "vme_xfers e w (Io_read MAP_REG off n v # io) = Bus_read (w + off) n (ntohl e v) # vme_xfers e w io"
| "vme_xfers e w (_ # io) = vme_xfers e w io"

definition vme_window_ok :: "endian \<Rightarrow> vme_wb_dev \<Rightarrow> bool" where
  "vme_window_ok e d \<longleftrightarrow> vme_window e 0 (v_io d) = v_window_offset d"

definition vme_transfers :: "endian \<Rightarrow> vme_wb_dev \<Rightarrow> bus_transfer list" where
  "vme_transfers e d = vme_xfers e 0 (v_io d)"

lemma vme_window_append: "vme_window e w (io1 @ io2) = vme_window e (vme_window e w io1) io2"
  by (induction e w io1 rule: vme_window.induct) auto

lemma vme_xfers_append: "vme_xfers e w (io1 @ io2) = vme_xfers e w io1 @ vme_xfers e (vme_window e w io1) io2"
  by (induction e w io1 rule: vme_xfers.induct) auto

lemma vme_address:
  "((addr AND WBM_ADD_MASK) AND VME_WINDOW_HIGH) + ((addr AND WBM_ADD_MASK) AND VME_WINDOW_LOW) = addr AND WBM_ADD_MASK"
proof -
  let ?a = "addr AND WBM_ADD_MASK"
  have "(?a AND VME_WINDOW_HIGH) AND (?a AND VME_WINDOW_LOW) = ?a AND (VME_WINDOW_HIGH AND VME_WINDOW_LOW)"
    by (simp add: and.assoc and.left_commute)
  also have "VME_WINDOW_HIGH AND VME_WINDOW_LOW = 0" by code_simp
  finally have "(?a AND VME_WINDOW_HIGH) + (?a AND VME_WINDOW_LOW) = (?a AND VME_WINDOW_HIGH) OR (?a AND VME_WINDOW_LOW)"
    using word_plus_and_or [of "?a AND VME_WINDOW_HIGH" "?a AND VME_WINDOW_LOW"] by simp
  also have "\<dots> = ?a AND (VME_WINDOW_HIGH OR VME_WINDOW_LOW)" by (simp only: bit.conj_disj_distrib)
  also have "VME_WINDOW_HIGH OR VME_WINDOW_LOW = WBM_ADD_MASK" by code_simp
  finally show ?thesis by (simp add: and.assoc)
qed

lemmas vme_defs = v_out_def v_in_def iowrite_def ioread_def Let_def vme_transfers_def vme_window_ok_def
  vme_window_append vme_xfers_append take_bit_word_eq_self

lemma vme_set_window_ok:
  assumes "vme_window_ok e d"
  shows "vme_window_ok e (vme_set_window e a d)" and "vme_transfers e (vme_set_window e a d) = vme_transfers e d"
    and "v_window_offset (vme_set_window e a d) = a AND VME_WINDOW_HIGH"
  using assms by (simp_all add: vme_set_window_def vme_defs)

lemma vme_write_transfer:
  assumes "vme_window_ok e d"
  shows "vme_transfers e (vme_wb_write e d a v) = vme_transfers e d @ [Bus_write (a AND WBM_ADD_MASK) 4 v]"
    and "vme_window_ok e (vme_wb_write e d a v)"
proof -
  note s = vme_set_window_ok [OF assms, of "a AND WBM_ADD_MASK"]
  have w: "vme_window e 0 (v_io (vme_set_window e (a AND WBM_ADD_MASK) d)) = (a AND WBM_ADD_MASK) AND VME_WINDOW_HIGH"
    using s(1,3) by (simp add: vme_window_ok_def)
  show "vme_transfers e (vme_wb_write e d a v) = vme_transfers e d @ [Bus_write (a AND WBM_ADD_MASK) 4 v]"
    using s(2) w vme_address [of a] by (simp add: vme_wb_write_def vme_defs)
  show "vme_window_ok e (vme_wb_write e d a v)"
    using s(1) by (simp add: vme_wb_write_def vme_defs)
qed

lemma vme_read_transfer:
  assumes "vme_window_ok e d" and "vme_wb_read e hw d a = (d', v)"
  shows "vme_transfers e d' = vme_transfers e d @ [Bus_read (a AND WBM_ADD_MASK) 4 v]"
    and "vme_window_ok e d'"
proof -
  note s = vme_set_window_ok [OF assms(1), of "a AND WBM_ADD_MASK"]
  have w: "vme_window e 0 (v_io (vme_set_window e (a AND WBM_ADD_MASK) d)) = (a AND WBM_ADD_MASK) AND VME_WINDOW_HIGH"
    using s(1,3) by (simp add: vme_window_ok_def)
  show "vme_transfers e d' = vme_transfers e d @ [Bus_read (a AND WBM_ADD_MASK) 4 v]"
    using assms(2) s(2) w vme_address [of a] by (auto simp: vme_wb_read_def vme_defs)
  show "vme_window_ok e d'"
    using assms(2) s(1) by (auto simp: vme_wb_read_def vme_defs)
qed

lemma vme_frame [simp]:
  "v_mutex (v_out win off v d) = v_mutex d" "v_window_offset (v_out win off v d) = v_window_offset d"
  "v_mutex (fst (v_in hw win off d)) = v_mutex d"
  "v_mutex (vme_set_window e a d) = v_mutex d" "v_map (v_out win off v d) = v_map d"
  by (simp_all add: v_out_def v_in_def vme_set_window_def Let_def split: prod.split)

lemma vme_ctrl_out:
  assumes "off \<noteq> VME_WINDOW_OFFSET_LOW"
  shows "vme_transfers e (v_out MAP_CTRL off v d) = vme_transfers e d"
    and "vme_window_ok e (v_out MAP_CTRL off v d) = vme_window_ok e d"
  using assms by (simp_all add: vme_defs)

lemma vme_not_window [simp]: "VME_CTRL \<noteq> VME_WINDOW_OFFSET_LOW" "VME_EMUL_DAT_WD \<noteq> VME_WINDOW_OFFSET_LOW"
  by (simp_all add: VME_CTRL_def VME_EMUL_DAT_WD_def VME_WINDOW_OFFSET_LOW_def)

lemma vme_cycle_frame:
  assumes "vme_wb_cycle e d on = Some d'"
  shows "vme_transfers e d' = vme_transfers e d" and "vme_window_ok e d' = vme_window_ok e d" and "v_mutex d' = on"
proof -
  have m: "vme_transfers e (d1\<lparr>v_mutex := x\<rparr>) = vme_transfers e d1" "vme_window_ok e (d1\<lparr>v_mutex := x\<rparr>) = vme_window_ok e d1"
    for d1 x by (simp_all add: vme_transfers_def vme_window_ok_def)
  show "vme_transfers e d' = vme_transfers e d" "vme_window_ok e d' = vme_window_ok e d" "v_mutex d' = on"
    using assms by (auto simp: vme_wb_cycle_def Let_def m vme_ctrl_out split: if_splits)
qed

lemma vme_request_frame: "v_mutex (fst (vme_wb_request e hw d)) = v_mutex d"
  by (auto simp: vme_wb_request_def Let_def v_in_def v_out_def split: prod.splits)

lemma vme_read_frame:
  "v_mutex (fst (vme_wb_read e hw d a)) = v_mutex d" "v_mutex (fst (vme_wb_read_cfg e hw d a)) = v_mutex d"
  by (auto simp: vme_wb_read_def vme_wb_read_cfg_def Let_def v_in_def split: prod.splits)

interpretation vme: wb_bus "vme_wb_ops e hw" v_mutex "vme_window_ok e" "vme_transfers e"
    "\<lambda>d a v. Bus_write (a AND WBM_ADD_MASK) 4 v" "\<lambda>d a v. Bus_read (a AND WBM_ADD_MASK) 4 v" for e hw
proof (unfold_locales, goal_cases)
  case (13 b a b' v)
  then show ?case using vme_read_transfer [of e b hw a b' v] by (simp add: vme_wb_ops_def)
next
  case (14 b a b' v)
  then show ?case using vme_read_transfer [of e b hw a b' v] by (simp add: vme_wb_ops_def)
next
  case (18 b on b')
  then show ?case using vme_cycle_frame [of e b on b'] by (simp add: vme_wb_ops_def)
next
  case (19 b on b')
  then show ?case using vme_cycle_frame [of e b on b'] by (simp add: vme_wb_ops_def)
qed (simp_all add: vme_wb_ops_def vme_write_transfer vme_wb_byteenable_def vme_ctrl_out vme_read_frame
    vme_request_frame, simp_all add: vme_wb_cycle_def vme_wb_write_def vme_wb_reply_def Let_def)

subsection \<open>Address windows\<close>

text \<open>\<open>slot * 0x10000000\<close> and the like are products of an \<open>int\<close> converted to \<open>unsigned long\<close>.\<close>

definition vme_window_base :: "u32 \<Rightarrow> vme_map_win \<Rightarrow> u64" where
  "vme_window_base slot w = (case w of
     MAP_REG \<Rightarrow> int_to_ulong (slot * 0x10000000)
   | MAP_CTRL \<Rightarrow> int_to_ulong (slot * 0x400)
   | MAP_CR_CSR \<Rightarrow> int_to_ulong (slot * 0x80000))"

definition vme_window_size :: "vme_map_win \<Rightarrow> u32" where
  "vme_window_size w = (case w of MAP_REG \<Rightarrow> 0x10000 | MAP_CTRL \<Rightarrow> 0xA0 | MAP_CR_CSR \<Rightarrow> 0x80000)"

definition vme_window_am :: "vme_map_win \<Rightarrow> vme_address_modifier" where
  "vme_window_am w = (case w of MAP_REG \<Rightarrow> VME_A32_USER_DATA_SCT | MAP_CTRL \<Rightarrow> VME_A24_USER_DATA_SCT
     | MAP_CR_CSR \<Rightarrow> VME_CR_CSR)"

text \<open>The answers of the allocator and of \<open>vme_find_mapping\<close> are arguments.\<close>

definition vme_map_window :: "bool \<Rightarrow> int \<Rightarrow> vme_wb_dev \<Rightarrow> vme_map_win \<Rightarrow> vme_wb_dev \<times> int" where
  "vme_map_window alloc_ok rval d w =
     (if v_map d w \<noteq> None then (d, - EPERM)
      else if \<not> alloc_ok then (d, - ENOMEM)
      else
        (let m = \<lparr>vm_am = vme_window_am w, vm_addrl = vme_window_base (v_slot d) w, vm_sizel = vme_window_size w\<rparr>;
             d1 = d\<lparr>v_map := (v_map d)(w := Some m)\<rparr>
         in if rval \<noteq> 0 then (d1\<lparr>v_map := (v_map d1)(w := None)\<rparr>, - EINVAL) else (d1, 0)))"

definition vme_unmap_window :: "int \<Rightarrow> vme_wb_dev \<Rightarrow> vme_map_win \<Rightarrow> vme_wb_dev \<times> int" where
  "vme_unmap_window rel d w =
     (if v_map d w = None then (d, - EINVAL)
      else if rel \<noteq> 0 then (d, - EINVAL)
      else (d\<lparr>v_map := (v_map d)(w := None)\<rparr>, 0))"

lemma map_window_result:
  "vme_map_window a r d w = (d', 0) \<longleftrightarrow> a \<and> r = 0 \<and> v_map d w = None \<and>
     d' = d\<lparr>v_map := (v_map d)(w \<mapsto> \<lparr>vm_am = vme_window_am w, vm_addrl = vme_window_base (v_slot d) w,
       vm_sizel = vme_window_size w\<rparr>)\<rparr>"
  by (auto simp: vme_map_window_def Let_def EPERM_def ENOMEM_def EINVAL_def)

lemma map_window_failed: "vme_map_window a r d w = (d', x) \<Longrightarrow> x \<noteq> 0 \<Longrightarrow> v_map d' = v_map d \<and> x < 0"
  by (auto simp: vme_map_window_def Let_def EPERM_def ENOMEM_def EINVAL_def fun_eq_iff split: if_splits)

text \<open>Mapping and unmapping are inverse.\<close>

lemma unmap_map_window:
  "vme_map_window a 0 d w = (d1, 0) \<Longrightarrow> vme_unmap_window 0 d1 w = (d, 0)"
  by (auto simp: map_window_result vme_unmap_window_def fun_eq_iff intro!: vme_wb_dev.equality)

subsection \<open>The CR/CSR space\<close>

text \<open>\<open>iowrite32be\<close> is \<open>iowrite32\<close>, which is little-endian, of the value with its bytes swapped.\<close>

definition iowrite32be :: "u32 \<Rightarrow> u32 \<Rightarrow> vme_wb_dev \<Rightarrow> vme_wb_dev" where
  "iowrite32be v off d = v_out MAP_CR_CSR off (htonl Little v) d"

definition vme_csr_write :: "u8 \<Rightarrow> u32 \<Rightarrow> vme_wb_dev \<Rightarrow> vme_wb_dev" where
  "vme_csr_write v off d = (let off = off - off mod 4 in iowrite32be (ucast v) off d)"

definition FUN0ADER :: u32 where "FUN0ADER = 0x7FF63"
definition FUN1ADER :: u32 where "FUN1ADER = 0x7FF73"
definition WB_32_64 :: u32 where "WB_32_64 = 0x7ff33"
definition BIT_SET_REG :: u32 where "BIT_SET_REG = 0x7FFFB"
definition BIT_CLR_REG :: u32 where "BIT_CLR_REG = 0x7FFF7"
definition IRQ_VECTOR :: u32 where "IRQ_VECTOR = 0x7FF5F"
definition IRQ_LEVEL :: u32 where "IRQ_LEVEL = 0x7FF5B"
definition WB32 :: u8 where "WB32 = 1"
definition RESET_CORE :: u8 where "RESET_CORE = 0x80"
definition ENABLE_CORE :: u8 where "ENABLE_CORE = 0x10"

text \<open>The address modifiers of block transfers come from the VME bus driver: \<open>a32\<close> and \<open>a24\<close>.\<close>

definition ader_bytes :: "u32 \<Rightarrow> u32 \<Rightarrow> u8 list" where
  "ader_bytes addr am =
     [ucast (drop_bit 24 addr AND 0xFF), ucast (drop_bit 16 addr AND 0xFF), ucast (drop_bit 8 addr AND 0xFF),
      ucast (push_bit 2 (am AND 0x3F))]"

definition csr_ader :: "u32 \<Rightarrow> u8 list \<Rightarrow> vme_wb_dev \<Rightarrow> vme_wb_dev" where
  "csr_ader off fa d =
     (let d = vme_csr_write (fa ! 0) off d;
          d = vme_csr_write (fa ! 1) (off + 4) d;
          d = vme_csr_write (fa ! 2) (off + 8) d
      in vme_csr_write (fa ! 3) (off + 12) d)"

definition vme_setup_csr_fa0 :: "u32 \<Rightarrow> u32 \<Rightarrow> u32 \<Rightarrow> u32 \<Rightarrow> u32 \<Rightarrow> vme_wb_dev \<Rightarrow> vme_wb_dev" where
  "vme_setup_csr_fa0 a32 a24 wb_vme vector level d =
     (let wb_add = push_bit 28 wb_vme;
          wb_ctrl_add = push_bit 10 wb_vme;
          d = vme_csr_write RESET_CORE BIT_SET_REG d;
          d = vme_csr_write ENABLE_CORE BIT_CLR_REG d;
          d = vme_csr_write WB32 WB_32_64 d;
          d = vme_csr_write (ucast vector) IRQ_VECTOR d;
          d = vme_csr_write (ucast level) IRQ_LEVEL d;
          d = csr_ader FUN0ADER (ader_bytes wb_add a32) d;
          d = csr_ader FUN1ADER (ader_bytes wb_ctrl_add a24) d
      in vme_csr_write ENABLE_CORE BIT_SET_REG d)"

definition VME_VENDOR_ID :: u32 where "VME_VENDOR_ID = 0x80031"
definition VME_VENDOR_ID_OFFSET :: u32 where "VME_VENDOR_ID_OFFSET = 0x24"

definition vme_is_present :: "endian \<Rightarrow> vme_map_win device \<Rightarrow> vme_wb_dev \<Rightarrow> vme_wb_dev \<times> bool" where
  "vme_is_present e hw d =
     (let (d, x0) = v_in hw MAP_CR_CSR VME_VENDOR_ID_OFFSET d;
          (d, x1) = v_in hw MAP_CR_CSR (VME_VENDOR_ID_OFFSET + 4) d;
          (d, x2) = v_in hw MAP_CR_CSR (VME_VENDOR_ID_OFFSET + 8) d;
          idc = push_bit 16 (ntohl e x0) + push_bit 8 (ntohl e x1) + ntohl e x2
      in (d, idc = VME_VENDOR_ID))"

text \<open>The set-up writes these registers in this order, and nothing else.\<close>

lemma csr_writes:
  "v_io (vme_setup_csr_fa0 a32 a24 slot vector level d) = v_io d @
    map (\<lambda>(off, v :: u8). Io_write MAP_CR_CSR off 4 (htonl Little (ucast v)))
     ([(0x7FFF8, 0x80), (0x7FFF4, 0x10), (0x7FF30, 1), (0x7FF5C, ucast vector), (0x7FF58, ucast level)]
      @ zip [0x7FF60, 0x7FF64, 0x7FF68, 0x7FF6C] (ader_bytes (push_bit 28 slot) a32)
      @ zip [0x7FF70, 0x7FF74, 0x7FF78, 0x7FF7C] (ader_bytes (push_bit 10 slot) a24)
      @ [(0x7FFF8, 0x10)])"
  by (simp add: vme_setup_csr_fa0_def csr_ader_def vme_csr_write_def iowrite32be_def Let_def v_out_def iowrite_def ader_bytes_def
      take_bit_word_eq_self BIT_SET_REG_def BIT_CLR_REG_def WB_32_64_def IRQ_VECTOR_def IRQ_LEVEL_def
      FUN0ADER_def FUN1ADER_def RESET_CORE_def ENABLE_CORE_def WB32_def)

lemma ader_address: "be_word (take 3 (ader_bytes addr am) @ [0]) = addr AND NOT 0xFF"
proof -
  have m: "(0xFF :: u32) = mask 8" by (simp add: mask_eq_exp_minus_1)
  show ?thesis
    unfolding ader_bytes_def m
  proof (rule bit_word_eqI)
    fix n assume n: "n < LENGTH(32)"
    have "n < 8 \<or> 8 \<le> n \<and> n < 16 \<or> 16 \<le> n \<and> n < 24 \<or> 24 \<le> n" by linarith
    moreover have "k \<le> n \<Longrightarrow> k + (n - k) = n" for k by simp
    ultimately show "bit (be_word (take 3 [ucast (drop_bit 24 addr AND mask 8) :: u8, ucast (drop_bit 16 addr AND mask 8),
        ucast (drop_bit 8 addr AND mask 8), ucast (push_bit 2 (am AND 0x3F))] @ [0]) :: u32) n = bit (addr AND NOT (mask 8)) n"
      using n by (elim disjE conjE) (simp_all add: be_word_def bit_simps less_diff_conv2)
  qed
qed

text \<open>The address the card decodes for its A32 window, and for its control window, is the one the
  driver maps, while the product of the slot fits an \<open>int\<close>.\<close>

lemma decode_matches_window:
  "unat slot < 8 \<Longrightarrow> vme_window_base slot MAP_REG = ucast (be_word (take 3 (ader_bytes (push_bit 28 slot) a32) @ [0]) :: u32)"
  "unat slot < 2 ^ 21 \<Longrightarrow> vme_window_base slot MAP_CTRL = ucast (be_word (take 3 (ader_bytes (push_bit 10 slot) a24) @ [0]) :: u32)"
proof -
  have low: "push_bit k slot AND NOT 0xFF = push_bit k slot" if "8 \<le> k" for k
  proof -
    have m: "(0xFF :: u32) = mask 8" by (simp add: mask_eq_exp_minus_1)
    show ?thesis unfolding m using that by (intro bit_word_eqI) (auto simp: bit_simps)
  qed
  have u: "unat (slot * of_nat m) = unat slot * m" if "unat slot * m < 2 ^ 32" "m < 2 ^ 32" for m
    using that by (simp add: unat_word_ariths(2) unat_of_nat)
  show "vme_window_base slot MAP_REG = ucast (be_word (take 3 (ader_bytes (push_bit 28 slot) a32) @ [0]) :: u32)"
    if "unat slot < 8"
  proof -
    have "unat (slot * 0x10000000) = unat slot * 0x10000000" using u [of "0x10000000"] that by simp
    then have "unat (slot * 0x10000000) < 2 ^ 31" using that by simp
    then show ?thesis
      unfolding ader_address by (subst low) (simp_all add: vme_window_base_def int_to_ulong_small push_bit_eq_mult)
  qed
  show "vme_window_base slot MAP_CTRL = ucast (be_word (take 3 (ader_bytes (push_bit 10 slot) a24) @ [0]) :: u32)"
    if "unat slot < 2 ^ 21"
  proof -
    have "unat (slot * 0x400) = unat slot * 0x400" using u [of "0x400"] that by simp
    then have "unat (slot * 0x400) < 2 ^ 31" using that by simp
    then show ?thesis
      unfolding ader_address by (subst low) (simp_all add: vme_window_base_def int_to_ulong_small push_bit_eq_mult)
  qed
qed

end
