(* ===== verification/EtherboneSystem.thy ===== *)
theory EtherboneSystem
  imports PcieWb SpecWb VmeWb
begin

text \<open>
  Several open master files on one bus. A step is one call on one of the files; a write that would
  have to wait for the bus is not a step until the bus is free. The bus is held exactly when one
  file is inside a cycle, and never by two.
\<close>

locale wb_exclusive = wb_backend wops held
  for wops :: "'b wishbone_operations" and held :: "'b \<Rightarrow> bool" +
  assumes cycle_wait: "held b \<Longrightarrow> w_cycle wops b True = None"
begin

lemma stream_waits:
  assumes "held b" and "eb_stream wops Idle b xs = Some (out, rest, st', b')"
  shows "st' = Idle \<and> b' = b \<and> out = [] \<and> rest = xs"
proof (cases "length xs < 4 \<or> length xs < record_len (xs ! 2) (xs ! 3)")
  case True
  then show ?thesis using assms(2) by (subst (asm) eb_stream.simps) (auto simp: Let_def split: if_splits)
next
  case False
  have "eb_record wops Idle b (take (record_len (xs ! 2) (xs ! 3)) xs) = None"
    using cycle_wait [OF assms(1)] by (simp add: eb_record_def)
  then have "eb_stream wops Idle b xs = None" using False by (subst eb_stream.simps) (simp add: Let_def)
  then show ?thesis using assms(2) by simp
qed

lemma input_waits:
  assumes "held b" and "st \<noteq> Cycle" and "eb_input wops st b xs = Some (out, rest, st', b')"
  shows "st' \<noteq> Cycle \<and> b' = b"
proof (cases "st = Header")
  case True
  then show ?thesis
    using assms stream_waits [OF assms(1), of "drop 8 xs"]
    by (auto simp: eb_input_def bind_eq_Some_conv split: if_splits)
next
  case False
  then have "st = Idle" using assms(2) by (cases st) auto
  then show ?thesis using assms stream_waits [OF assms(1), of xs] by (auto simp: eb_input_def)
qed

lemma write_waits:
  assumes inv: "master_inv c" and ok: "\<forall>i. ok i" and "held b" and "m_state c \<noteq> Cycle"
    and w: "char_master_aio_write e wops ok intr nb c b iov = Some (c', b', r)"
  shows "m_state c' \<noteq> Cycle \<and> b' = b \<and> master_inv c'"
proof (cases "uint_length iov = 0 \<or> intr")
  case True
  then have "char_master_aio_write e wops ok intr nb c b iov
      = Some (c, b, if uint_length iov = 0 then 0 else - EINTR)"
    unfolding char_master_aio_write_def Let_def by auto
  then show ?thesis using w inv assms(4) by simp
next
  case False
  then have pos: "uint_length iov \<noteq> 0" "intr = False" by auto
  define n where "n = min (8192 - length (readable c) - length (pending_in c)) (uint_length iov)"
  note step = master_write_step [OF inv ok pos(1) n_def, where wops = wops and b = b and e = e and nb = nb]
  show ?thesis
  proof (cases "eb_input wops (m_state c) b (pending_in c @ take n (concat iov))")
    case None
    then show ?thesis using step w pos(2) by simp
  next
    case (Some q)
    obtain out rest st' b'' where q: "q = (out, rest, st', b'')" by (cases q)
    have "st' \<noteq> Cycle" "b'' = b" using input_waits [OF assms(3,4) Some [unfolded q]] by auto
    then show ?thesis using step w pos(2) unfolding Some q by auto
  qed
qed

end

record 'b wb_system =
  y_files :: "nat \<Rightarrow> eb_master option"
  y_bus :: 'b

inductive sys_step ::
    "endian \<Rightarrow> 'b wishbone_operations \<Rightarrow> 'b wb_system \<Rightarrow> 'b wb_system \<Rightarrow> bool"
  for e :: endian and wops :: "'b wishbone_operations" where
  sys_open: "y_files s i = None \<Longrightarrow> length mem = 8192 \<Longrightarrow> char_master_open True mem = Inr c \<Longrightarrow>
     sys_step e wops s (s\<lparr>y_files := (y_files s)(i \<mapsto> c)\<rparr>)"
| sys_write: "y_files s i = Some c \<Longrightarrow>
     char_master_aio_write e wops (\<lambda>_. True) intr nb c (y_bus s) iov = Some (c', b', r) \<Longrightarrow>
     sys_step e wops s (s\<lparr>y_files := (y_files s)(i \<mapsto> c'), y_bus := b'\<rparr>)"
| sys_read: "y_files s i = Some c \<Longrightarrow>
     char_master_aio_read (\<lambda>_. True) intr nb c iov = Some (c', iov', r) \<Longrightarrow>
     sys_step e wops s (s\<lparr>y_files := (y_files s)(i \<mapsto> c')\<rparr>)"
| sys_release: "y_files s i = Some c \<Longrightarrow> char_master_release wops c (y_bus s) = Some b' \<Longrightarrow>
     sys_step e wops s (s\<lparr>y_files := (y_files s)(i := None), y_bus := b'\<rparr>)"

inductive sys_reach :: "endian \<Rightarrow> 'b wishbone_operations \<Rightarrow> 'b \<Rightarrow> 'b wb_system \<Rightarrow> bool"
  for e :: endian and wops :: "'b wishbone_operations" and b0 :: 'b where
  reach_init: "sys_reach e wops b0 \<lparr>y_files = \<lambda>_. None, y_bus = b0\<rparr>"
| reach_step: "sys_reach e wops b0 s \<Longrightarrow> sys_step e wops s t \<Longrightarrow> sys_reach e wops b0 t"

definition in_cycle :: "'b wb_system \<Rightarrow> nat \<Rightarrow> bool" where
  "in_cycle s i \<longleftrightarrow> (\<exists>c. y_files s i = Some c \<and> m_state c = Cycle)"

definition sys_inv :: "('b \<Rightarrow> bool) \<Rightarrow> 'b wb_system \<Rightarrow> bool" where
  "sys_inv held s \<longleftrightarrow> (\<forall>i c. y_files s i = Some c \<longrightarrow> master_inv c)
     \<and> (\<forall>i j. in_cycle s i \<longrightarrow> in_cycle s j \<longrightarrow> i = j) \<and> (held (y_bus s) \<longleftrightarrow> (\<exists>i. in_cycle s i))"

lemma in_cycle_upd: "in_cycle (s\<lparr>y_files := (y_files s)(i := x), y_bus := b\<rparr>) j
  \<longleftrightarrow> (if j = i then \<exists>c. x = Some c \<and> m_state c = Cycle else in_cycle s j)"
  by (auto simp: in_cycle_def)

lemma in_cycle_upd': "in_cycle (s\<lparr>y_files := (y_files s)(i := x)\<rparr>) j
  \<longleftrightarrow> (if j = i then \<exists>c. x = Some c \<and> m_state c = Cycle else in_cycle s j)"
  by (auto simp: in_cycle_def)

lemma aio_read_frame:
  assumes "master_inv c" and "char_master_aio_read (\<lambda>_. True) intr nb c iov = Some (c', iov', r)"
  shows "master_inv c' \<and> m_state c' = m_state c"
proof (cases "uint_length iov = 0 \<or> intr")
  case True
  then have "char_master_aio_read (\<lambda>_. True) intr nb c iov
      = Some (c, iov, if uint_length iov = 0 then 0 else - EINTR)"
    unfolding char_master_aio_read_def Let_def by auto
  then show ?thesis using assms by simp
next
  case False
  then show ?thesis
    using master_read_step [OF assms(1), of "\<lambda>_. True" iov "min (length (readable c)) (uint_length iov)" nb] assms(2) by auto
qed

text \<open>A call on one file that ends with this file deciding who holds the bus, or with the bus and
  the cycles of the others as they were.\<close>

lemma sys_inv_update:
  assumes inv: "sys_inv held s" and x: "\<And>c. x = Some c \<Longrightarrow> master_inv c"
    and cyc: "cyc \<longleftrightarrow> (\<exists>c. x = Some c \<and> m_state c = Cycle)"
    and bus: "(\<forall>j. j \<noteq> i \<longrightarrow> \<not> in_cycle s j) \<and> (held b' \<longleftrightarrow> cyc) \<or> \<not> cyc \<and> \<not> in_cycle s i \<and> b' = y_bus s"
  shows "sys_inv held (s\<lparr>y_files := (y_files s)(i := x), y_bus := b'\<rparr>)"
proof -
  let ?t = "s\<lparr>y_files := (y_files s)(i := x), y_bus := b'\<rparr>"
  have upd: "in_cycle ?t j \<longleftrightarrow> (if j = i then cyc else in_cycle s j)" for j
    unfolding in_cycle_upd cyc ..
  have masters: "\<forall>j c. y_files ?t j = Some c \<longrightarrow> master_inv c"
    using inv x by (auto simp: sys_inv_def)
  have one: "\<forall>j k. in_cycle s j \<longrightarrow> in_cycle s k \<longrightarrow> j = k" "held (y_bus s) \<longleftrightarrow> (\<exists>j. in_cycle s j)"
    using inv by (auto simp: sys_inv_def)
  have "(\<forall>j k. in_cycle ?t j \<longrightarrow> in_cycle ?t k \<longrightarrow> j = k) \<and> (held (y_bus ?t) \<longleftrightarrow> (\<exists>j. in_cycle ?t j))"
    using bus
  proof
    assume b: "(\<forall>j. j \<noteq> i \<longrightarrow> \<not> in_cycle s j) \<and> (held b' \<longleftrightarrow> cyc)"
    then have "in_cycle ?t j \<longleftrightarrow> j = i \<and> cyc" for j unfolding upd by auto
    then show ?thesis using b by simp
  next
    assume b: "\<not> cyc \<and> \<not> in_cycle s i \<and> b' = y_bus s"
    then have "in_cycle ?t j \<longleftrightarrow> in_cycle s j" for j unfolding upd by auto
    then show ?thesis using b one by simp
  qed
  then show ?thesis using masters unfolding sys_inv_def by blast
qed

context wb_exclusive
begin

lemma step_inv:
  assumes inv: "sys_inv held s" and "sys_step e wops s t"
  shows "sys_inv held t"
  using assms(2)
proof (cases rule: sys_step.cases)
  case (sys_open i mem c)
  have c: "master_inv c" "m_state c = Header"
    using master_open_inv [OF sys_open(3,4)] sys_open(4) by (auto simp: char_master_open_def)
  have i: "\<not> in_cycle s i" using sys_open(2) by (simp add: in_cycle_def)
  have "t = s\<lparr>y_files := (y_files s)(i := Some c), y_bus := y_bus s\<rparr>" unfolding sys_open(1) by (cases s) simp
  moreover have "sys_inv held \<dots>"
    by (rule sys_inv_update [OF inv _ refl]) (use c i in auto)
  ultimately show ?thesis by simp
next
  case (sys_write i c intr nb iov c' b' r)
  have c: "master_inv c" using inv sys_write(2) by (simp add: sys_inv_def)
  have i: "in_cycle s i \<longleftrightarrow> m_state c = Cycle" using sys_write(2) by (simp add: in_cycle_def)
  show ?thesis
  proof (cases "held (y_bus s) \<and> m_state c \<noteq> Cycle")
    case True
    have w: "m_state c' \<noteq> Cycle" "b' = y_bus s" "master_inv c'"
      using write_waits [OF c _ _ _ sys_write(3)] True by auto
    show ?thesis
      unfolding sys_write(1) by (rule sys_inv_update [OF inv _ refl]) (use w i True in auto)
  next
    case False
    have cyc: "m_state c = Cycle \<longleftrightarrow> held (y_bus s)" using False inv i unfolding sys_inv_def by auto
    have w: "master_inv c'" "m_state c' = Cycle \<longleftrightarrow> held b'"
      using master_write_returns [OF c _ cyc, of "\<lambda>_. True" e intr nb iov] sys_write(3) by auto
    have "\<not> in_cycle s j" if "j \<noteq> i" for j
      using that inv i cyc unfolding sys_inv_def by metis
    then show ?thesis
      unfolding sys_write(1) using w by (intro sys_inv_update [OF inv _ refl]) auto
  qed
next
  case (sys_read i c intr nb iov c' iov' r)
  have c: "master_inv c" using inv sys_read(2) by (simp add: sys_inv_def)
  have r: "master_inv c'" "m_state c' = m_state c" using aio_read_frame [OF c sys_read(3)] by auto
  have same: "in_cycle t j = in_cycle s j" for j
    using sys_read(2) r(2) unfolding sys_read(1) in_cycle_upd' by (auto simp: in_cycle_def)
  have "y_bus t = y_bus s" "\<forall>j d. y_files t j = Some d \<longrightarrow> master_inv d"
    using inv r(1) by (auto simp: sys_read(1) sys_inv_def)
  then show ?thesis using inv unfolding sys_inv_def same by simp
next
  case (sys_release i c b')
  have i: "in_cycle s i \<longleftrightarrow> m_state c = Cycle" using sys_release(2) by (simp add: in_cycle_def)
  have "(\<forall>j. j \<noteq> i \<longrightarrow> \<not> in_cycle s j) \<and> \<not> held b' \<or> \<not> in_cycle s i \<and> b' = y_bus s"
  proof (cases "m_state c = Cycle")
    case True
    then have "held (y_bus s)" "\<forall>j. j \<noteq> i \<longrightarrow> \<not> in_cycle s j" using inv i unfolding sys_inv_def by metis+
    moreover from this have "\<not> held b'"
      using master_release_free [of c "y_bus s"] True sys_release(3) by auto
    ultimately show ?thesis by simp
  next
    case False
    then show ?thesis using sys_release(3) i by (simp add: char_master_release_def)
  qed
  then show ?thesis
    unfolding sys_release(1) by (intro sys_inv_update [OF inv _ refl]) auto
qed

lemma reach_inv:
  assumes "sys_reach e wops b0 s" and "\<not> held b0" shows "sys_inv held s"
  using assms(1)
proof (induction rule: sys_reach.induct)
  case reach_init
  then show ?case using assms(2) by (simp add: sys_inv_def in_cycle_def)
next
  case (reach_step s t)
  then show ?case using step_inv by simp
qed

text \<open>Closing the file that is inside a cycle frees the bus; then a write to any other returns.\<close>

lemma release_frees:
  assumes inv: "sys_inv held s" and c: "y_files s i = Some c" and cyc: "in_cycle s i"
  shows "\<exists>b'. sys_step e wops s (s\<lparr>y_files := (y_files s)(i := None), y_bus := b'\<rparr>) \<and> \<not> held b'
    \<and> (\<forall>j d nb iov. j \<noteq> i \<longrightarrow> y_files s j = Some d
        \<longrightarrow> (\<exists>d' b'' r. char_master_aio_write e wops (\<lambda>_. True) False nb d b' iov = Some (d', b'', r)))"
proof -
  have "held (y_bus s)" "m_state c = Cycle" using inv c cyc by (auto simp: sys_inv_def in_cycle_def)
  then obtain b' where b': "char_master_release wops c (y_bus s) = Some b'" "\<not> held b'"
    using master_release_free [of c "y_bus s"] by auto
  have "\<exists>d' b'' r. char_master_aio_write e wops (\<lambda>_. True) False nb d b' iov = Some (d', b'', r)"
    if d: "j \<noteq> i" "y_files s j = Some d" for j d nb iov
  proof -
    have "m_state d \<noteq> Cycle" using inv d cyc unfolding sys_inv_def in_cycle_def by blast
    moreover have "master_inv d" using inv d(2) by (auto simp: sys_inv_def)
    ultimately show ?thesis using master_write_returns [of d "\<lambda>_. True" b' e False nb iov] b'(2) by blast
  qed
  then show ?thesis using sys_release [OF c b'(1), of e] b'(2) by blast
qed

end

interpretation pcie_x: wb_exclusive "pcie_wb_ops e hw" p_mutex for e hw
  by unfold_locales (simp add: pcie_wb_ops_def pcie_wb_cycle_def)

interpretation spec_x: wb_exclusive "spec_wb_ops e sdb_addr hw" s_mutex for e sdb_addr hw
  by unfold_locales (simp add: spec_wb_ops_def spec_wb_cycle_def)

interpretation vme_x: wb_exclusive "vme_wb_ops e hw" v_mutex for e hw
  by unfold_locales (simp add: vme_wb_ops_def vme_wb_cycle_def)

end
