(* ===== verification/EtherboneSlave.thy ===== *)
theory EtherboneSlave
  imports WbBackend
begin

text \<open>
  The slave character device of src/pcie-wb/wishbone.c: requests of the bus are handed to one user
  process as Etherbone records, its records answer them. \<open>etherbone_slave_out_process\<close>,
  \<open>etherbone_slave_in_process\<close> and the file operations. Positions in the two buffers are natural
  numbers; \<open>usub\<close> is their \<open>unsigned int\<close> difference.
\<close>

definition usub :: "nat \<Rightarrow> nat \<Rightarrow> nat" where
  "usub a b = (a + 2 ^ 32 - b) mod 2 ^ 32"

lemma usub_le: "b \<le> a \<Longrightarrow> a < 2 ^ 32 \<Longrightarrow> usub a b = a - b"
proof -
  assume le: "b \<le> a" and lt: "a < 2 ^ 32"
  have "a + 2 ^ 32 - b = (a - b) + 2 ^ 32" using le by linarith
  moreover have "a - b < 2 ^ 32" using lt by linarith
  ultimately show ?thesis unfolding usub_def by (simp only: mod_add_self2 mod_less)
qed

record eb_slave =
  sl_pending_err :: u32
  sl_negotiated :: bool
  sl_data :: u32
  sl_rbuf_done :: nat
  sl_rbuf_end :: nat
  sl_rbuf :: "u8 list"
  sl_wbuf_fill :: nat
  sl_wbuf :: "u8 list"

text \<open>The request as two records: the access itself, then a read of the error register that closes
  the cycle.\<close>

definition slave_request_bytes :: "endian \<Rightarrow> wishbone_request \<Rightarrow> u8 list \<Rightarrow> u8 list" where
  "slave_request_bytes e rq rbuf =
     (let rbuf = rbuf[0 := ETHERBONE_BCA, 1 := rq_mask rq];
          rbuf = (if rq_write rq
            then (let rbuf = rbuf[2 := 1, 3 := 0];
                      rbuf = eb_from_cpu e rbuf 4 (rq_addr rq)
                  in eb_from_cpu e rbuf 8 (rq_data rq))
            else (let rbuf = rbuf[2 := 0, 3 := 1];
                      rbuf = eb_from_cpu e rbuf 4 WBA_DATA
                  in eb_from_cpu e rbuf 8 (rq_addr rq)));
          rbuf = rbuf[12 + 0 := ETHERBONE_CYC OR ETHERBONE_BCA OR ETHERBONE_RCA, 12 + 1 := 0xf, 12 + 2 := 0, 12 + 3 := 1];
          rbuf = eb_from_cpu e rbuf 16 WBA_ERR
      in eb_from_cpu e rbuf 20 4)"

definition etherbone_slave_out_process ::
    "endian \<Rightarrow> 'b wishbone_operations \<Rightarrow> eb_slave \<Rightarrow> 'b \<Rightarrow> eb_slave \<times> 'b" where
  "etherbone_slave_out_process e wops c b =
     (if sl_rbuf_done c \<noteq> sl_rbuf_end c \<or> \<not> sl_negotiated c then (c, b)
      else case w_request wops b of
        (b, None) \<Rightarrow> (c, b)
      | (b, Some request) \<Rightarrow>
          (c\<lparr>sl_pending_err := sl_pending_err c + 1, sl_rbuf_done := 0,
             sl_rbuf := slave_request_bytes e request (sl_rbuf c), sl_rbuf_end := 24\<rparr>, b))"

text \<open>The loop over the words written: the data register, the error register.\<close>

fun slave_in_words ::
    "endian \<Rightarrow> 'b wishbone_operations \<Rightarrow> bool \<Rightarrow> eb_slave \<Rightarrow> 'b \<Rightarrow> nat \<Rightarrow> u32 \<Rightarrow> nat \<Rightarrow> eb_slave \<times> 'b \<times> int" where
  "slave_in_words e wops wff c b rptr base_address 0 = (c, b, 0)"
| "slave_in_words e wops wff c b rptr base_address (Suc n) =
     (let dat = eb_to_cpu e (sl_wbuf c) rptr;
          rptr = rptr + 4;
          base' = (if \<not> wff then base_address + 4 else base_address)
      in if base_address = WBA_DATA
           then slave_in_words e wops wff (c\<lparr>sl_data := dat\<rparr>) b rptr base' n
         else if base_address = WBA_ERR
           then (if sl_pending_err c = 0 then (c, b, - EIO)
                 else let c = c\<lparr>sl_pending_err := sl_pending_err c - 1\<rparr>;
                          b = w_reply wops b (dat AND 1) (sl_data c)
                      in slave_in_words e wops wff c b rptr base' n)
         else (c, b, - EIO))"

definition etherbone_slave_in_process ::
    "endian \<Rightarrow> 'b wishbone_operations \<Rightarrow> eb_slave \<Rightarrow> 'b \<Rightarrow> eb_slave \<times> 'b \<times> int" where
  "etherbone_slave_in_process e wops c b =
     (let flags = sl_wbuf c ! 0; be = sl_wbuf c ! 1; wcount = sl_wbuf c ! 2; rcount = sl_wbuf c ! 3 in
      if rcount \<noteq> 0 then (c, b, - EIO)
      else if wcount = 0 then (c, b, 0)
      else if be \<noteq> 0xf then (c, b, - EIO)
      else if flags AND ETHERBONE_WCA = 0 then (c, b, - EIO)
      else slave_in_words e wops (flags AND ETHERBONE_WFF \<noteq> 0) c b 8 (eb_to_cpu e (sl_wbuf c) 4) (unat wcount))"

lemma slave_in_words_frame:
  "slave_in_words e wops wff c b rptr base n = (c', b', r) \<Longrightarrow>
   sl_wbuf_fill c' = sl_wbuf_fill c \<and> sl_wbuf c' = sl_wbuf c \<and> sl_negotiated c' = sl_negotiated c
   \<and> sl_rbuf c' = sl_rbuf c \<and> sl_rbuf_done c' = sl_rbuf_done c \<and> sl_rbuf_end c' = sl_rbuf_end c"
  by (induction e wops wff c b rptr base n rule: slave_in_words.induct) (auto simp: Let_def split: if_splits)

lemma slave_in_frame:
  assumes "etherbone_slave_in_process e wops c b = (c', b', r)"
  shows "sl_wbuf_fill c' = sl_wbuf_fill c" and "sl_wbuf c' = sl_wbuf c" and "sl_negotiated c' = sl_negotiated c"
    and "sl_rbuf c' = sl_rbuf c" and "sl_rbuf_done c' = sl_rbuf_done c" and "sl_rbuf_end c' = sl_rbuf_end c"
  using assms
  by (auto simp: etherbone_slave_in_process_def Let_def dest: slave_in_words_frame split: if_splits)

subsection \<open>The file operations\<close>

text \<open>\<open>slave\<close>: the device is open already. Fresh memory is not cleared.\<close>

definition char_slave_open :: "bool \<Rightarrow> bool \<Rightarrow> eb_slave \<Rightarrow> int + eb_slave" where
  "char_slave_open alloc_ok slave mem =
     (if \<not> alloc_ok then Inl (- ENOMEM)
      else if slave then Inl (- EBUSY)
      else Inr (mem\<lparr>sl_pending_err := 0, sl_negotiated := False, sl_rbuf_done := 0, sl_wbuf_fill := 0,
                    sl_rbuf := put 4 (replicate 4 0) ((sl_rbuf mem)[0 := 0x4E, 1 := 0x6F, 2 := 0x11, 3 := 0x44]),
                    sl_rbuf_end := 8\<rparr>))"

definition slave_reply_all :: "'b wishbone_operations \<Rightarrow> nat \<Rightarrow> 'b \<Rightarrow> 'b" where
  "slave_reply_all wops n b = ((\<lambda>b. w_reply wops b 1 0) ^^ n) b"

text \<open>\<open>errors\<close> and \<open>pending\<close> are \<open>int\<close>s; the device is free for the next open.\<close>

definition char_slave_release :: "'b wishbone_operations \<Rightarrow> eb_slave \<Rightarrow> 'b \<Rightarrow> 'b \<times> int" where
  "char_slave_release wops c b =
     (let errors = sint (sl_pending_err c);
          b = slave_reply_all wops (nat errors) b
      in (b, if errors \<noteq> 0 then - EIO else 0))"

definition char_slave_aio_read ::
    "endian \<Rightarrow> 'b wishbone_operations \<Rightarrow> (nat \<Rightarrow> bool) \<Rightarrow> bool \<Rightarrow> bool \<Rightarrow> eb_slave \<Rightarrow> 'b \<Rightarrow> u8 list list
     \<Rightarrow> (eb_slave \<times> 'b \<times> u8 list list \<times> int) option" where
  "char_slave_aio_read e wops ok intr nonblock c b iov =
     (let iov_len = uint_length iov in
      if iov_len = 0 then Some (c, b, iov, 0)
      else if intr then Some (c, b, iov, - EINTR)
      else case etherbone_slave_out_process e wops c b of (c, b) \<Rightarrow>
        (let buf_len = usub (sl_rbuf_end c) (sl_rbuf_done c);
             len = (if buf_len > iov_len then iov_len else buf_len)
         in do {
           (iov, r) \<leftarrow> memcpy_toiovecend ok iov (chunk (sl_rbuf_done c) len (sl_rbuf c)) 0;
           Some (c\<lparr>sl_rbuf_done := sl_rbuf_done c + len\<rparr>, b, iov, if len = 0 \<and> nonblock then - EAGAIN else int len) }))"

definition slave_record_len :: "u8 list \<Rightarrow> nat" where
  "slave_record_len wbuf =
     ((if wbuf ! 2 > 0 then 1 else 0) + (if wbuf ! 3 > 0 then 1 else 0) + unat (wbuf ! 2) + unat (wbuf ! 3) + 1) * 4"

definition slave_fill :: "u8 list \<Rightarrow> eb_slave \<Rightarrow> eb_slave" where
  "slave_fill bs c = c\<lparr>sl_wbuf := put (sl_wbuf_fill c) bs (sl_wbuf c)\<rparr>"

text \<open>The loop of \<open>char_slave_aio_write\<close>: the number of bytes not taken when it ends. A round takes
  some input, or empties the buffer of a header that is complete; so the loop ends.\<close>

function slave_write_loop ::
    "endian \<Rightarrow> 'b wishbone_operations \<Rightarrow> (nat \<Rightarrow> bool) \<Rightarrow> nat \<Rightarrow> u8 list list \<Rightarrow> nat \<Rightarrow> nat \<Rightarrow> eb_slave \<Rightarrow> 'b
     \<Rightarrow> (eb_slave \<times> 'b \<times> nat) option" where
  "slave_write_loop e wops ok s iov iov_off iov_len c b =
     (if iov_len = 0 then Some (c, b, 0)
      else case skip_iov s iov iov_off of None \<Rightarrow> None | Some (s, iov, iov_off) \<Rightarrow>
        (let copy = (\<lambda>len. memcpy_fromiovecend (\<lambda>i. ok (s + i)) iov iov_off len) in
         if sl_wbuf_fill c < 4 then
           (let buf_len = 4 - sl_wbuf_fill c; len = (if buf_len > iov_len then iov_len else buf_len) in
            case copy len of None \<Rightarrow> None | Some (bs, r) \<Rightarrow>
              let c = slave_fill bs c; c = c\<lparr>sl_wbuf_fill := sl_wbuf_fill c + len\<rparr> in
              slave_write_loop e wops ok s iov (iov_off + len) (iov_len - len) c b)
         else if \<not> sl_negotiated c then
           (if sl_wbuf c ! 0 \<noteq> 0x4E \<or> sl_wbuf c ! 1 \<noteq> 0x6F \<or> sl_wbuf c ! 2 AND 0x7 \<noteq> 0x6
               \<or> sl_wbuf c ! 3 AND 0x44 \<noteq> 0x44
            then Some (c, b, iov_len)
            else slave_write_loop e wops ok s iov iov_off iov_len (c\<lparr>sl_wbuf_fill := 0, sl_negotiated := True\<rparr>) b)
         else
           (let buf_len = usub (slave_record_len (sl_wbuf c)) (sl_wbuf_fill c) in
            if buf_len > iov_len then
              (case copy iov_len of None \<Rightarrow> None | Some (bs, r) \<Rightarrow>
                let c = slave_fill bs c; c = c\<lparr>sl_wbuf_fill := sl_wbuf_fill c + iov_len\<rparr> in Some (c, b, 0))
            else
              (case copy buf_len of None \<Rightarrow> None | Some (bs, r) \<Rightarrow>
                let c = (slave_fill bs c)\<lparr>sl_wbuf_fill := 0\<rparr> in
                case etherbone_slave_in_process e wops c b of (c, b, err) \<Rightarrow>
                if err \<noteq> 0 then Some (c, b, iov_len)
                else slave_write_loop e wops ok s iov (iov_off + buf_len) (iov_len - buf_len) c b))))"
  by pat_completeness auto
termination
  by (relation "measures [\<lambda>(e, wops, ok, s, iov, off, len, c, b). len, \<lambda>(e, wops, ok, s, iov, off, len, c, b). sl_wbuf_fill c]")
    (auto simp: slave_fill_def dest: slave_in_frame(1) [OF sym])

declare slave_write_loop.simps [simp del]

definition char_slave_aio_write ::
    "endian \<Rightarrow> 'b wishbone_operations \<Rightarrow> (nat \<Rightarrow> bool) \<Rightarrow> bool \<Rightarrow> eb_slave \<Rightarrow> 'b \<Rightarrow> u8 list list
     \<Rightarrow> (eb_slave \<times> 'b \<times> int) option" where
  "char_slave_aio_write e wops ok intr c b iov =
     (let outlen = uint_length iov in
      if intr then Some (c, b, - EINTR)
      else do {
        (c, b, left) \<leftarrow> slave_write_loop e wops ok 0 iov 0 outlen c b;
        Some (c, b, if left > 0 then - EIO else int outlen) })"

definition char_slave_poll :: "endian \<Rightarrow> 'b wishbone_operations \<Rightarrow> eb_slave \<Rightarrow> 'b \<Rightarrow> eb_slave \<times> 'b \<times> nat" where
  "char_slave_poll e wops c b =
     (case etherbone_slave_out_process e wops c b of (c, b) \<Rightarrow>
        (c, b, if sl_rbuf_done c \<noteq> sl_rbuf_end c then POLLIN OR POLLRDNORM OR POLLOUT OR POLLWRNORM
               else POLLOUT OR POLLWRNORM))"

subsection \<open>The input as one string of bytes\<close>

text \<open>The loop without the user's segments: what it does to the bytes they hold.\<close>

function slave_bytes :: "endian \<Rightarrow> 'b wishbone_operations \<Rightarrow> eb_slave \<Rightarrow> 'b \<Rightarrow> u8 list \<Rightarrow> eb_slave \<times> 'b \<times> nat" where
  "slave_bytes e wops c b xs =
     (if xs = [] then (c, b, 0)
      else if sl_wbuf_fill c < 4 then
        (let n = min (4 - sl_wbuf_fill c) (length xs)
         in slave_bytes e wops ((slave_fill (take n xs) c)\<lparr>sl_wbuf_fill := sl_wbuf_fill c + n\<rparr>) b (drop n xs))
      else if \<not> sl_negotiated c then
        (if sl_wbuf c ! 0 \<noteq> 0x4E \<or> sl_wbuf c ! 1 \<noteq> 0x6F \<or> sl_wbuf c ! 2 AND 0x7 \<noteq> 0x6 \<or> sl_wbuf c ! 3 AND 0x44 \<noteq> 0x44
         then (c, b, length xs)
         else slave_bytes e wops (c\<lparr>sl_wbuf_fill := 0, sl_negotiated := True\<rparr>) b xs)
      else
        (let n = usub (slave_record_len (sl_wbuf c)) (sl_wbuf_fill c) in
         if n > length xs then ((slave_fill xs c)\<lparr>sl_wbuf_fill := sl_wbuf_fill c + length xs\<rparr>, b, 0)
         else case etherbone_slave_in_process e wops ((slave_fill (take n xs) c)\<lparr>sl_wbuf_fill := 0\<rparr>) b of (c, b, err) \<Rightarrow>
           if err \<noteq> 0 then (c, b, length xs) else slave_bytes e wops c b (drop n xs)))"
  by pat_completeness auto
termination
  by (relation "measures [\<lambda>(e, wops, c, b, xs). length xs, \<lambda>(e, wops, c, b, xs). sl_wbuf_fill c]")
    (auto simp: slave_fill_def dest: slave_in_frame(1) [OF sym])

declare slave_bytes.simps [simp del]

text \<open>Skipping the segments already read leaves the same bytes to come.\<close>

lemma skip_iov_rest:
  assumes "off < length (concat iov)"
  obtains s' iov' off' where "skip_iov s iov off = Some (s', iov', off')"
    "drop off' (concat iov') = drop off (concat iov)" "off' < length (concat iov')"
    "length (concat iov') - off' = length (concat iov) - off"
proof -
  obtain s' iov' off' where s: "skip_iov s iov off = Some (s', iov', off')"
    and d: "drop off' (concat iov') = drop off (concat iov)"
    using skip_iov_Some [OF assms, of s] by blast
  have "length (concat iov') - off' = length (concat iov) - off" using d by (metis length_drop)
  moreover from this have "off' < length (concat iov')" using assms by linarith
  ultimately show ?thesis using that s d by blast
qed

lemma write_loop_bytes:
  assumes "\<forall>i. ok i" and "off + len \<le> length (concat iov)"
  shows "slave_write_loop e wops ok s iov off len c b = Some (slave_bytes e wops c b (chunk off len (concat iov)))"
  using assms(2)
proof (induction "(len, sl_wbuf_fill c)" arbitrary: len c b off iov s rule: wf_induct_rule [OF wf_lex_prod [OF wf_less_than wf_less_than]])
  case (1 len c b off iov s)
  note IH = "1.hyps"
  show ?case
  proof (cases "len = 0")
    case True
    then show ?thesis by (subst slave_write_loop.simps, subst slave_bytes.simps) simp
  next
    case pos: False
    define xs where "xs = chunk off len (concat iov)"
    have "length xs = len" using "1.prems" by (simp add: xs_def)
    then have xs: "length xs = len" "xs \<noteq> []" using pos by auto
    have "off < length (concat iov)" using pos "1.prems" by linarith
    then obtain s1 iov1 off1 where skip: "skip_iov s iov off = Some (s1, iov1, off1)"
      and rest: "drop off1 (concat iov1) = drop off (concat iov)" "off1 < length (concat iov1)"
        "length (concat iov1) - off1 = length (concat iov) - off"
      by (rule skip_iov_rest)
    have fit: "off1 + len \<le> length (concat iov1)" using rest "1.prems" by linarith
    have ch: "chunk (off1 + n) m (concat iov1) = chunk n m (drop off (concat iov))" for n m
      unfolding chunk_def by (metis add.commute drop_drop rest(1))
    have copy: "memcpy_fromiovecend (\<lambda>i. ok (s1 + i)) iov1 off1 n = Some (take n xs, 0)" if "n \<le> len" for n
    proof -
      have "memcpy_fromiovecend (\<lambda>i. ok (s1 + i)) iov1 off1 n = Some (chunk off1 n (concat iov1), 0)"
        using that fit rest(2) assms(1) by (intro memcpy_from_chunk) (auto simp: iov_length_def)
      also have "chunk off1 n (concat iov1) = take n xs"
        using that ch [of 0 n] by (simp add: xs_def chunk_def min_absorb1)
      finally show ?thesis .
    qed
    have more: "chunk (off1 + n) (len - n) (concat iov1) = drop n xs" if "n \<le> len" for n
      unfolding ch unfolding xs_def chunk_def using that by (simp add: drop_take add.commute)
    have next_fit: "off1 + n + (len - n) \<le> length (concat iov1)" if "n \<le> len" for n using fit that by linarith
    show ?thesis
    proof (cases "sl_wbuf_fill c < 4")
      case True
      define n where "n = min (4 - sl_wbuf_fill c) len"
      have n: "n \<le> len" "len - n < len" using True pos by (auto simp: n_def)
      have if_n: "(if 4 - sl_wbuf_fill c > len then len else 4 - sl_wbuf_fill c) = n" by (simp add: n_def min_def)
      define c1 where "c1 = (slave_fill (take n xs) c)\<lparr>sl_wbuf_fill := sl_wbuf_fill c + n\<rparr>"
      have f: "sl_wbuf_fill (slave_fill (take n xs) c) = sl_wbuf_fill c" by (simp add: slave_fill_def)
      have "slave_write_loop e wops ok s iov off len c b
          = slave_write_loop e wops ok s1 iov1 (off1 + n) (len - n) c1 b"
        using pos True copy [OF n(1)]
        by (subst slave_write_loop.simps) (simp add: skip if_n Let_def c1_def f del: min_less_iff_conj)
      also have "\<dots> = Some (slave_bytes e wops c1 b (drop n xs))"
        unfolding more [OF n(1), symmetric] using n next_fit [OF n(1)] by (intro IH) auto
      also have "slave_bytes e wops c1 b (drop n xs) = slave_bytes e wops c b xs"
        using xs True by (subst (2) slave_bytes.simps) (simp add: Let_def n_def c1_def)
      finally show ?thesis by (simp add: xs_def)
    next
      case full: False
      show ?thesis
      proof (cases "sl_negotiated c")
        case False
        have "slave_write_loop e wops ok s1 iov1 off1 len (c\<lparr>sl_wbuf_fill := 0, sl_negotiated := True\<rparr>) b
            = Some (slave_bytes e wops (c\<lparr>sl_wbuf_fill := 0, sl_negotiated := True\<rparr>) b xs)"
          using more [of 0] fit full pos
            IH [of len "c\<lparr>sl_wbuf_fill := 0, sl_negotiated := True\<rparr>" off1 iov1 s1 b] by simp
        then show ?thesis
          using pos full False xs unfolding xs_def [symmetric]
          by (subst slave_write_loop.simps, subst slave_bytes.simps) (simp add: skip Let_def)
      next
        case neg: True
        define n where "n = usub (slave_record_len (sl_wbuf c)) (sl_wbuf_fill c)"
        show ?thesis
        proof (cases "n > len")
          case True
          then show ?thesis
            using pos full neg xs copy [of len] unfolding xs_def [symmetric]
            by (subst slave_write_loop.simps, subst slave_bytes.simps) (simp add: skip Let_def n_def [symmetric] slave_fill_def)
        next
          case False
          define c1 where "c1 = (slave_fill (take n xs) c)\<lparr>sl_wbuf_fill := 0\<rparr>"
          obtain c2 b2 err where ip: "etherbone_slave_in_process e wops c1 b = (c2, b2, err)"
            by (cases "etherbone_slave_in_process e wops c1 b")
          have "sl_wbuf_fill c2 = 0" using slave_in_frame(1) [OF ip] by (simp add: c1_def)
          then have "slave_write_loop e wops ok s1 iov1 (off1 + n) (len - n) c2 b2
              = Some (slave_bytes e wops c2 b2 (drop n xs))"
            unfolding more [OF leI [OF False], symmetric]
            using pos full next_fit [of n] False by (intro IH) auto
          then show ?thesis
            using pos full neg xs copy [of n] False ip unfolding xs_def [symmetric]
            by (subst slave_write_loop.simps, subst slave_bytes.simps)
              (simp add: skip Let_def n_def [symmetric] c1_def)
        qed
      qed
    qed
  qed
qed

subsection \<open>Bounds\<close>

text \<open>The positions stay inside the two buffers of the context, 24 and 2052 bytes.\<close>

definition slave_inv :: "eb_slave \<Rightarrow> bool" where
  "slave_inv c \<longleftrightarrow> length (sl_rbuf c) = 24 \<and> length (sl_wbuf c) = 2052
     \<and> sl_rbuf_done c \<le> sl_rbuf_end c \<and> sl_rbuf_end c \<le> 24
     \<and> (sl_wbuf_fill c \<le> 4 \<or> sl_negotiated c \<and> sl_wbuf_fill c < slave_record_len (sl_wbuf c))"

lemma slave_record_len_bounds: "4 \<le> slave_record_len w" "slave_record_len w \<le> 2052"
proof -
  have "unat (w ! 2) < 2 ^ LENGTH(8)" "unat (w ! 3) < 2 ^ LENGTH(8)" by (rule unsigned_less)+
  then have "unat (w ! 2) \<le> 255" "unat (w ! 3) \<le> 255" by simp_all
  then show "slave_record_len w \<le> 2052" by (simp add: slave_record_len_def)
qed (simp add: slave_record_len_def)

lemma slave_room:
  assumes "slave_inv c" and "4 \<le> sl_wbuf_fill c"
  shows "usub (slave_record_len (sl_wbuf c)) (sl_wbuf_fill c) = slave_record_len (sl_wbuf c) - sl_wbuf_fill c"
    and "sl_wbuf_fill c \<le> slave_record_len (sl_wbuf c)"
proof -
  show "sl_wbuf_fill c \<le> slave_record_len (sl_wbuf c)"
    using assms slave_record_len_bounds(1) [of "sl_wbuf c"] by (auto simp: slave_inv_def)
  then show "usub (slave_record_len (sl_wbuf c)) (sl_wbuf_fill c) = slave_record_len (sl_wbuf c) - sl_wbuf_fill c"
    using slave_record_len_bounds(2) [of "sl_wbuf c"] by (intro usub_le) simp_all
qed

lemma record_len_put:
  "4 \<le> k \<Longrightarrow> k + length d \<le> length w \<Longrightarrow> slave_record_len (put k d w) = slave_record_len w"
  by (simp add: slave_record_len_def nth_put)

lemma slave_inv_small:
  assumes "slave_inv c" and "k + length d \<le> 2052" and "m \<le> 4"
  shows "slave_inv (c\<lparr>sl_wbuf := put k d (sl_wbuf c), sl_wbuf_fill := m\<rparr>)"
  using assms by (simp add: slave_inv_def length_put)

lemma slave_inv_frame:
  assumes "slave_inv c" and "etherbone_slave_in_process e wops c b = (c', b', r)"
  shows "slave_inv c'"
  using assms(1) slave_in_frame [OF assms(2)] by (simp add: slave_inv_def)

text \<open>The rounds of the loop one by one, and induction over them.\<close>

definition hello_bad :: "u8 list \<Rightarrow> bool" where
  "hello_bad w \<longleftrightarrow> w ! 0 \<noteq> 0x4E \<or> w ! 1 \<noteq> 0x6F \<or> w ! 2 AND 0x7 \<noteq> 0x6 \<or> w ! 3 AND 0x44 \<noteq> 0x44"

lemma sb_nil: "slave_bytes e wops c b [] = (c, b, 0)"
  by (subst slave_bytes.simps) simp

lemma sb_header:
  assumes "xs \<noteq> []" and "sl_wbuf_fill c < 4" and "n = min (4 - sl_wbuf_fill c) (length xs)"
  shows "slave_bytes e wops c b xs = slave_bytes e wops
    (c\<lparr>sl_wbuf := put (sl_wbuf_fill c) (take n xs) (sl_wbuf c), sl_wbuf_fill := sl_wbuf_fill c + n\<rparr>) b (drop n xs)"
  using assms by (subst slave_bytes.simps) (simp add: Let_def slave_fill_def)

lemma sb_hello:
  assumes "xs \<noteq> []" and "\<not> sl_wbuf_fill c < 4" and "\<not> sl_negotiated c"
  shows "slave_bytes e wops c b xs = (if hello_bad (sl_wbuf c) then (c, b, length xs)
    else slave_bytes e wops (c\<lparr>sl_wbuf_fill := 0, sl_negotiated := True\<rparr>) b xs)"
  using assms by (subst slave_bytes.simps) (simp add: hello_bad_def)

lemma sb_record:
  assumes "slave_inv c" and "xs \<noteq> []" and "\<not> sl_wbuf_fill c < 4" and "sl_negotiated c"
    and n: "n = slave_record_len (sl_wbuf c) - sl_wbuf_fill c"
    and ip: "etherbone_slave_in_process e wops
      (c\<lparr>sl_wbuf := put (sl_wbuf_fill c) (take n xs) (sl_wbuf c), sl_wbuf_fill := 0\<rparr>) b = (c2, b2, err)"
  shows "slave_bytes e wops c b xs =
    (if n > length xs
     then (c\<lparr>sl_wbuf := put (sl_wbuf_fill c) xs (sl_wbuf c), sl_wbuf_fill := sl_wbuf_fill c + length xs\<rparr>, b, 0)
     else if err \<noteq> 0 then (c2, b2, length xs) else slave_bytes e wops c2 b2 (drop n xs))"
proof -
  have "usub (slave_record_len (sl_wbuf c)) (sl_wbuf_fill c) = n" using slave_room(1) [OF assms(1)] assms(3) n by simp
  then show ?thesis
    using assms(2-4) ip by (subst slave_bytes.simps) (simp add: Let_def slave_fill_def)
qed

lemma slave_induct:
  assumes "\<And>c b xs. (\<And>c1 b1 xs1. length xs1 < length xs \<or> length xs1 = length xs \<and> sl_wbuf_fill c1 < sl_wbuf_fill c
      \<Longrightarrow> P c1 b1 xs1) \<Longrightarrow> P c b xs"
  shows "P c b xs"
proof (induction "(length xs, sl_wbuf_fill c)" arbitrary: c b xs rule: wf_induct_rule [OF wf_lex_prod [OF wf_less_than wf_less_than]])
  case (1 xs c b)
  show ?case by (rule assms) (rule "1.hyps", auto)
qed

text \<open>What the buffers do not matter to, and what every record keeps, a write keeps.\<close>

lemma slave_bytes_preserves:
  assumes buf: "\<And>c b w k neg. P c b \<Longrightarrow> P (c\<lparr>sl_wbuf := w, sl_wbuf_fill := k, sl_negotiated := neg\<rparr>) b"
    and step: "\<And>c b c' b' r. P c b \<Longrightarrow> etherbone_slave_in_process e wops c b = (c', b', r) \<Longrightarrow> P c' b'"
  shows "P c b \<Longrightarrow> slave_bytes e wops c b xs = (c', b', left) \<Longrightarrow> P c' b'"
proof (induction c b xs rule: slave_induct)
  case (1 c b xs)
  note P = "1.prems"(1) and res = "1.prems"(2) and IH = "1.IH"
  have buf2: "P (c\<lparr>sl_wbuf := w, sl_wbuf_fill := k\<rparr>) b" for w k
    using buf [OF P, where w = w and k = k and neg = "sl_negotiated c"] by simp
  consider "xs = []" | "xs \<noteq> []" "sl_wbuf_fill c < 4" | "xs \<noteq> []" "\<not> sl_wbuf_fill c < 4" "\<not> sl_negotiated c"
    | "xs \<noteq> []" "\<not> sl_wbuf_fill c < 4" "sl_negotiated c" by blast
  then show ?case
  proof cases
    case 1
    then show ?thesis using P res by (simp add: sb_nil)
  next
    case 2
    define n where "n = min (4 - sl_wbuf_fill c) (length xs)"
    have "length (drop n xs) < length xs" using 2 by (auto simp: n_def)
    then show ?thesis using res buf2 unfolding sb_header [OF 2 n_def] by (intro IH [OF disjI1])
  next
    case 3
    have "P (c\<lparr>sl_wbuf_fill := 0, sl_negotiated := True\<rparr>) b" using buf [OF P, where w = "sl_wbuf c" and k = 0 and neg = True] by simp
    then show ?thesis
      using res 3 P IH [of xs "c\<lparr>sl_wbuf_fill := 0, sl_negotiated := True\<rparr>" b]
      unfolding sb_hello [OF 3] by (auto split: if_splits)
  next
    case 4
    define n where "n = usub (slave_record_len (sl_wbuf c)) (sl_wbuf_fill c)"
    define c1 where "c1 = c\<lparr>sl_wbuf := put (sl_wbuf_fill c) (take n xs) (sl_wbuf c), sl_wbuf_fill := 0\<rparr>"
    obtain c2 b2 err where ip: "etherbone_slave_in_process e wops c1 b = (c2, b2, err)"
      by (cases "etherbone_slave_in_process e wops c1 b")
    have c2: "P c2 b2" by (rule step [OF _ ip]) (simp only: c1_def buf2)
    have eq: "slave_bytes e wops c b xs =
        (if n > length xs
         then (c\<lparr>sl_wbuf := put (sl_wbuf_fill c) xs (sl_wbuf c), sl_wbuf_fill := sl_wbuf_fill c + length xs\<rparr>, b, 0)
         else if err \<noteq> 0 then (c2, b2, length xs) else slave_bytes e wops c2 b2 (drop n xs))"
      using 4 ip by (subst slave_bytes.simps) (simp add: Let_def n_def [symmetric] c1_def slave_fill_def)
    have "sl_wbuf_fill c2 = 0" using slave_in_frame(1) [OF ip] by (simp add: c1_def)
    then have less: "length (drop n xs) < length xs \<or> length (drop n xs) = length xs \<and> sl_wbuf_fill c2 < sl_wbuf_fill c"
      using 4 by auto
    show ?thesis
      using res c2 buf2 IH [OF less c2] unfolding eq by (auto split: if_splits)
  qed
qed

lemma slave_bytes_inv:
  "slave_inv c \<Longrightarrow> slave_bytes e wops c b xs = (c', b', left) \<Longrightarrow> slave_inv c'"
proof (induction c b xs rule: slave_induct)
  case (1 c b xs)
  note inv = "1.prems"(1) and res = "1.prems"(2) and IH = "1.IH"
  consider "xs = []" | "xs \<noteq> []" "sl_wbuf_fill c < 4" | "xs \<noteq> []" "\<not> sl_wbuf_fill c < 4" "\<not> sl_negotiated c"
    | "xs \<noteq> []" "\<not> sl_wbuf_fill c < 4" "sl_negotiated c" by blast
  then show ?case
  proof cases
    case 1
    then show ?thesis using inv res by (simp add: sb_nil)
  next
    case 2
    define n where "n = min (4 - sl_wbuf_fill c) (length xs)"
    have n: "sl_wbuf_fill c + n \<le> 4" "length (take n xs) = n" "length (drop n xs) < length xs"
      using 2 by (auto simp: n_def)
    show ?thesis
      using res n slave_inv_small [OF inv, of "sl_wbuf_fill c" "take n xs" "sl_wbuf_fill c + n"]
      unfolding sb_header [OF 2 n_def] by (intro IH [OF disjI1]) auto
  next
    case 3
    have "slave_inv (c\<lparr>sl_wbuf_fill := 0, sl_negotiated := True\<rparr>)" using inv by (simp add: slave_inv_def)
    then show ?thesis
      using res 3 inv IH [of xs "c\<lparr>sl_wbuf_fill := 0, sl_negotiated := True\<rparr>" b]
      unfolding sb_hello [OF 3] by (auto split: if_splits)
  next
    case 4
    define L where "L = slave_record_len (sl_wbuf c)"
    define n where "n = L - sl_wbuf_fill c"
    have room: "sl_wbuf_fill c + n = L" "L \<le> 2052"
      using slave_room [OF inv] 4 slave_record_len_bounds(2) [of "sl_wbuf c"] by (simp_all add: L_def n_def)
    define c1 where "c1 = c\<lparr>sl_wbuf := put (sl_wbuf_fill c) (take n xs) (sl_wbuf c), sl_wbuf_fill := 0\<rparr>"
    obtain c2 b2 err where ip: "etherbone_slave_in_process e wops c1 b = (c2, b2, err)"
      by (cases "etherbone_slave_in_process e wops c1 b")
    note step = sb_record [OF inv 4 n_def [unfolded L_def] ip [unfolded c1_def]]
    show ?thesis
    proof (cases "n > length xs")
      case True
      then have "slave_record_len (put (sl_wbuf_fill c) xs (sl_wbuf c)) = L"
        using 4 room inv unfolding L_def by (intro record_len_put) (auto simp: slave_inv_def)
      then have "slave_inv (c\<lparr>sl_wbuf := put (sl_wbuf_fill c) xs (sl_wbuf c), sl_wbuf_fill := sl_wbuf_fill c + length xs\<rparr>)"
        using inv True room 4 by (simp add: slave_inv_def length_put)
      then show ?thesis using res True unfolding step by simp
    next
      case False
      have "slave_inv c1"
        using slave_inv_small [OF inv, of "sl_wbuf_fill c" "take n xs" 0] room False by (simp add: c1_def)
      then have i2: "slave_inv c2" by (rule slave_inv_frame [OF _ ip])
      have f2: "sl_wbuf_fill c2 = 0" using slave_in_frame(1) [OF ip] by (simp add: c1_def)
      have less: "length (drop n xs) < length xs \<or> length (drop n xs) = length xs \<and> sl_wbuf_fill c2 < sl_wbuf_fill c"
        using f2 4 by auto
      show ?thesis using res False i2 IH [OF less i2] unfolding step by (auto split: if_splits)
    qed
  qed
qed

subsection \<open>Cutting the input into writes\<close>

lemma put_extend:
  "k + length xs + length ys \<le> length w \<Longrightarrow> put (k + length xs) ys (put k xs w) = put k (xs @ ys) w"
  by (rule put_put_append)

text \<open>The number of bytes left does not matter to a write, only whether there are any.\<close>

definition taken :: "eb_slave \<times> 'b \<times> nat \<Rightarrow> eb_slave \<times> 'b \<times> bool" where
  "taken r = (case r of (c, b, left) \<Rightarrow> (c, b, left = 0))"

lemma slave_bytes_append:
  "slave_inv c \<Longrightarrow> slave_bytes e wops c b xs = (c1, b1, 0) \<Longrightarrow>
   taken (slave_bytes e wops c b (xs @ ys)) = taken (slave_bytes e wops c1 b1 ys)"
proof (induction c b xs rule: slave_induct)
  case (1 c b xs)
  note inv = "1.prems"(1) and res = "1.prems"(2) and IH = "1.IH"
  have lw: "length (sl_wbuf c) = 2052" using inv by (simp add: slave_inv_def)
  consider "xs = [] \<or> ys = []" | "xs \<noteq> []" "ys \<noteq> []" "sl_wbuf_fill c < 4"
    | "xs \<noteq> []" "ys \<noteq> []" "\<not> sl_wbuf_fill c < 4" "\<not> sl_negotiated c"
    | "xs \<noteq> []" "ys \<noteq> []" "\<not> sl_wbuf_fill c < 4" "sl_negotiated c" by blast
  then show ?case
  proof cases
    case 1
    then show ?thesis using res by (auto simp: sb_nil)
  next
    case 2
    define f where "f = sl_wbuf_fill c"
    define n where "n = min (4 - f) (length xs)"
    define c2 where "c2 = c\<lparr>sl_wbuf := put f (take n xs) (sl_wbuf c), sl_wbuf_fill := f + n\<rparr>"
    have n: "f + n \<le> 4" "length (take n xs) = n" "length (drop n xs) < length xs" using 2 by (auto simp: n_def f_def)
    have l: "slave_bytes e wops c b xs = slave_bytes e wops c2 b (drop n xs)"
      using sb_header [OF 2(1,3), folded f_def, OF n_def] by (simp add: c2_def f_def)
    have i2: "slave_inv c2"
      using slave_inv_small [OF inv, of f "take n xs" "f + n"] n by (simp add: c2_def)
    show ?thesis
    proof (cases "4 - f \<le> length xs")
      case True
      then have "min (4 - f) (length (xs @ ys)) = n" "take n (xs @ ys) = take n xs" "drop n (xs @ ys) = drop n xs @ ys"
        by (simp_all add: n_def)
      then have "slave_bytes e wops c b (xs @ ys) = slave_bytes e wops c2 b (drop n xs @ ys)"
        using 2 sb_header [of "xs @ ys" c n e wops b] by (simp add: c2_def f_def)
      then show ?thesis using IH [OF disjI1 [OF n(3)] i2] res l by simp
    next
      case False
      define k where "k = min (4 - (f + length xs)) (length ys)"
      have nx: "n = length xs" using False by (simp add: n_def)
      have "c1 = c2" "b1 = b" using res l nx by (simp_all add: sb_nil)
      have nn: "min (4 - f) (length (xs @ ys)) = length xs + k" using False by (auto simp: k_def)
      have f2: "sl_wbuf_fill c2 < 4" using False by (simp add: c2_def nx)
      have kk: "min (4 - sl_wbuf_fill c2) (length ys) = k" by (simp add: c2_def nx k_def)
      have p: "put (f + length xs) (take k ys) (put f xs (sl_wbuf c)) = put f (xs @ take k ys) (sl_wbuf c)"
        using False lw by (intro put_extend) (auto simp: k_def)
      have "slave_bytes e wops c b (xs @ ys) = slave_bytes e wops
          (c\<lparr>sl_wbuf := put f (xs @ take k ys) (sl_wbuf c), sl_wbuf_fill := f + (length xs + k)\<rparr>) b (drop k ys)"
        using 2 nn sb_header [of "xs @ ys" c "length xs + k" e wops b] by (simp add: f_def)
      moreover have "slave_bytes e wops c2 b ys = slave_bytes e wops
          (c\<lparr>sl_wbuf := put f (xs @ take k ys) (sl_wbuf c), sl_wbuf_fill := f + (length xs + k)\<rparr>) b (drop k ys)"
        using sb_header [OF 2(2) f2 kk [symmetric], of e wops b] p by (simp add: c2_def nx add.assoc)
      ultimately show ?thesis using \<open>c1 = c2\<close> \<open>b1 = b\<close> by simp
    qed
  next
    case 3
    have "slave_inv (c\<lparr>sl_wbuf_fill := 0, sl_negotiated := True\<rparr>)" using inv by (simp add: slave_inv_def)
    moreover have "xs @ ys \<noteq> []" using 3 by simp
    ultimately show ?thesis
      using res 3 IH [of xs "c\<lparr>sl_wbuf_fill := 0, sl_negotiated := True\<rparr>" b]
        sb_hello [OF 3(1,3,4), of e wops b] sb_hello [of "xs @ ys" c e wops b] by (auto split: if_splits)
  next
    case 4
    define f where "f = sl_wbuf_fill c"
    define L where "L = slave_record_len (sl_wbuf c)"
    define n where "n = L - f"
    have room: "f + n = L" "L \<le> 2052" "4 \<le> f"
      using slave_room [OF inv] 4 slave_record_len_bounds(2) [of "sl_wbuf c"] by (simp_all add: L_def n_def f_def)
    show ?thesis
    proof (cases "n > length xs")
      case True
      define c2 where "c2 = c\<lparr>sl_wbuf := put f xs (sl_wbuf c), sl_wbuf_fill := f + length xs\<rparr>"
      obtain x1 x2 x3 where ip1: "etherbone_slave_in_process e wops
          (c\<lparr>sl_wbuf := put f (take n xs) (sl_wbuf c), sl_wbuf_fill := 0\<rparr>) b = (x1, x2, x3)" by (metis prod_cases3)
      have c1: "c1 = c2" "b1 = b"
        using res True sb_record [OF inv 4(1,3,4) n_def [unfolded L_def f_def] ip1 [unfolded f_def]]
        by (simp_all add: c2_def f_def)
      have i2: "slave_inv c2" using slave_bytes_inv [OF inv res] c1 by simp
      have L2: "slave_record_len (sl_wbuf c2) = L"
        using room True lw unfolding L_def c2_def by (simp add: record_len_put)
      define k where "k = n - length xs"
      have k: "k = slave_record_len (sl_wbuf c2) - sl_wbuf_fill c2" unfolding L2 by (simp add: c2_def k_def n_def)
      have nk: "n = length xs + k" using True by (simp add: k_def)
      obtain y1 y2 y3 where ip2: "etherbone_slave_in_process e wops
          (c\<lparr>sl_wbuf := put f (xs @ take k ys) (sl_wbuf c), sl_wbuf_fill := 0\<rparr>) b = (y1, y2, y3)" by (metis prod_cases3)
      have p: "put (f + length xs) zs (put f xs (sl_wbuf c)) = put f (xs @ zs) (sl_wbuf c)" if "length zs \<le> k" for zs
        using that room nk lw by (intro put_extend) simp
      have l: "slave_bytes e wops c b (xs @ ys) =
          (if n > length (xs @ ys) then (c\<lparr>sl_wbuf := put f (xs @ ys) (sl_wbuf c), sl_wbuf_fill := f + length (xs @ ys)\<rparr>, b, 0)
           else if y3 \<noteq> 0 then (y1, y2, length (xs @ ys)) else slave_bytes e wops y1 y2 (drop n (xs @ ys)))"
        using sb_record [OF inv _ 4(3,4) n_def [unfolded L_def f_def], of "xs @ ys" e wops b y1 y2 y3] 4 ip2
        by (simp add: f_def nk)
      have r: "slave_bytes e wops c2 b ys =
          (if k > length ys then (c\<lparr>sl_wbuf := put f (xs @ ys) (sl_wbuf c), sl_wbuf_fill := f + length (xs @ ys)\<rparr>, b, 0)
           else if y3 \<noteq> 0 then (y1, y2, length ys) else slave_bytes e wops y1 y2 (drop k ys))"
      proof -
        have ip3: "etherbone_slave_in_process e wops
            (c2\<lparr>sl_wbuf := put (sl_wbuf_fill c2) (take k ys) (sl_wbuf c2), sl_wbuf_fill := 0\<rparr>) b = (y1, y2, y3)"
          using ip2 p [of "take k ys"] by (simp add: c2_def)
        have neg: "\<not> sl_wbuf_fill c2 < 4" "sl_negotiated c2" using room 4 by (simp_all add: c2_def)
        have "slave_bytes e wops c2 b ys =
          (if k > length ys then (c2\<lparr>sl_wbuf := put (sl_wbuf_fill c2) ys (sl_wbuf c2), sl_wbuf_fill := sl_wbuf_fill c2 + length ys\<rparr>, b, 0)
           else if y3 \<noteq> 0 then (y1, y2, length ys) else slave_bytes e wops y1 y2 (drop k ys))"
          by (rule sb_record [OF i2 4(2) neg k ip3])
        then show ?thesis using p [of ys] by (simp add: c2_def add.assoc)
      qed
      show ?thesis unfolding c1 l r using 4(1,2) nk by (auto simp: taken_def)
    next
      case False
      obtain x1 x2 x3 where ip: "etherbone_slave_in_process e wops
          (c\<lparr>sl_wbuf := put f (take n xs) (sl_wbuf c), sl_wbuf_fill := 0\<rparr>) b = (x1, x2, x3)" by (metis prod_cases3)
      have tk: "take n (xs @ ys) = take n xs" "drop n (xs @ ys) = drop n xs @ ys" using False by simp_all
      have i1: "slave_inv (c\<lparr>sl_wbuf := put f (take n xs) (sl_wbuf c), sl_wbuf_fill := 0\<rparr>)"
        using slave_inv_small [OF inv, of f "take n xs" 0] room False by simp
      have i2: "slave_inv x1" by (rule slave_inv_frame [OF i1 ip])
      have f1: "sl_wbuf_fill x1 = 0" using slave_in_frame(1) [OF ip] by simp
      have l: "slave_bytes e wops c b (xs @ ys)
          = (if x3 \<noteq> 0 then (x1, x2, length (xs @ ys)) else slave_bytes e wops x1 x2 (drop n xs @ ys))"
        using sb_record [OF inv _ 4(3,4) n_def [unfolded L_def f_def], of "xs @ ys" e wops b x1 x2 x3] 4 ip False tk
        by (simp add: f_def)
      have r: "slave_bytes e wops c b xs = (if x3 \<noteq> 0 then (x1, x2, length xs) else slave_bytes e wops x1 x2 (drop n xs))"
        using sb_record [OF inv 4(1,3,4) n_def [unfolded L_def f_def] ip [unfolded f_def]] False by (simp add: f_def)
      have less: "length (drop n xs) < length xs \<or> length (drop n xs) = length xs \<and> sl_wbuf_fill x1 < sl_wbuf_fill c"
        using f1 4 by auto
      show ?thesis
        using res IH [OF less i2] 4(1) unfolding l r by (auto split: if_splits)
    qed
  qed
qed

subsection \<open>Requests and answers as bytes\<close>

lemma put_at: "length d = length x \<Longrightarrow> put (length a) d (a @ x @ z) = a @ d @ z"
  by (simp add: put_def)

lemma put_words:
  fixes x0 :: "u8 list"
  assumes "length x0 = 4" "length x1 = 4" "length x2 = 4" "length x3 = 4" "length x4 = 4" "length x5 = 4" "length d = 4"
  shows "put 0 d (x0 @ x1 @ x2 @ x3 @ x4 @ x5) = d @ x1 @ x2 @ x3 @ x4 @ x5"
    and "put 4 d (x0 @ x1 @ x2 @ x3 @ x4 @ x5) = x0 @ d @ x2 @ x3 @ x4 @ x5"
    and "put 8 d (x0 @ x1 @ x2 @ x3 @ x4 @ x5) = x0 @ x1 @ d @ x3 @ x4 @ x5"
    and "put 12 d (x0 @ x1 @ x2 @ x3 @ x4 @ x5) = x0 @ x1 @ x2 @ d @ x4 @ x5"
    and "put 16 d (x0 @ x1 @ x2 @ x3 @ x4 @ x5) = x0 @ x1 @ x2 @ x3 @ d @ x5"
    and "put 20 d (x0 @ x1 @ x2 @ x3 @ x4 @ x5) = x0 @ x1 @ x2 @ x3 @ x4 @ d"
  using assms by (simp_all add: put_def)

lemma request_bytes:
  assumes "length rbuf = 24"
  shows "slave_request_bytes e rq rbuf =
    (if rq_write rq then [ETHERBONE_BCA, rq_mask rq, 1, 0] @ word_be 4 (rq_addr rq) @ word_be 4 (rq_data rq)
     else [ETHERBONE_BCA, rq_mask rq, 0, 1] @ word_be 4 WBA_DATA @ word_be 4 (rq_addr rq))
    @ [ETHERBONE_CYC OR ETHERBONE_BCA OR ETHERBONE_RCA, 0xf, 0, 1] @ word_be 4 WBA_ERR @ word_be 4 (4 :: u32)"
proof -
  define x where "x = (\<lambda>k. take 4 (drop k rbuf))"
  have split: "rbuf = x 0 @ x 4 @ x 8 @ x 12 @ x 16 @ x 20"
  proof -
    have cut: "drop k rbuf = x k @ drop (k + 4) rbuf" for k
      unfolding x_def by (metis add.commute append_take_drop_id drop_drop)
    have "rbuf = x 0 @ drop 4 rbuf" using cut [of 0] by simp
    also have "drop 4 rbuf = x 4 @ drop 8 rbuf" using cut [of 4] by simp
    also have "drop 8 rbuf = x 8 @ drop 12 rbuf" using cut [of 8] by simp
    also have "drop 12 rbuf = x 12 @ drop 16 rbuf" using cut [of 12] by simp
    also have "drop 16 rbuf = x 16 @ drop 20 rbuf" using cut [of 16] by simp
    also have "drop 20 rbuf = x 20" using assms by (simp add: x_def)
    finally show ?thesis .
  qed
  have len: "length (x 0) = 4" "length (x 4) = 4" "length (x 8) = 4" "length (x 12) = 4" "length (x 16) = 4" "length (x 20) = 4"
    using assms by (simp_all add: x_def)
  have head: "rbuf[0 := a, 1 := b, 2 := c, 3 := d] = [a, b, c, d] @ x 4 @ x 8 @ x 12 @ x 16 @ x 20" for a b c d
  proof -
    have "0 + 4 \<le> length rbuf" using assms by simp
    from list_update_put [OF this, of a b c d] have "rbuf[0 := a, 1 := b, 2 := c, 3 := d] = put 0 [a, b, c, d] rbuf"
      by (simp only: add_0)
    then show ?thesis unfolding split using len by (simp only: put_words) (simp add: put_words len)
  qed
  have tail: "(y0 @ y1 @ y2 @ x 12 @ x 16 @ x 20)[12 + 0 := a, 12 + 1 := b, 12 + 2 := c, 12 + 3 := d]
      = y0 @ y1 @ y2 @ [a, b, c, d] @ x 16 @ x 20"
    if "length y0 = 4" "length y1 = 4" "length y2 = 4" for y0 y1 y2 a b c d
  proof -
    have "12 + 4 \<le> length (y0 @ y1 @ y2 @ x 12 @ x 16 @ x 20)" using that len by simp
    from list_update_put [OF this, of a b c d] show ?thesis
      using that len put_words(4) [of y0 y1 y2 "x 12" "x 16" "x 20" "[a, b, c, d]"] by simp
  qed
  have l4: "length [a, b, c, d] = 4" for a b c d :: u8 by simp
  show ?thesis
    by (cases "rq_write rq";
      simp only: slave_request_bytes_def Let_def if_True if_False head eb_from_cpu_be put_words len
        length_word_be l4 tail append_assoc)
qed

lemma chunk_word: "length a = k \<Longrightarrow> chunk k 4 (a @ word_be 4 (w :: u32) @ z) = word_be 4 w"
  by (simp add: chunk_def)

lemma be_word_be [simp]: "be_word (word_be 4 (w :: u32)) = w"
  by (simp add: be_word_word_be_full)

text \<open>What the user reads is a record with the access, and a record that reads the error register
  and ends the cycle.\<close>

lemma request_records:
  fixes rq :: wishbone_request
  assumes "length rbuf = 24" and B: "B = slave_request_bytes e rq rbuf"
  shows "record_len (B ! 2) (B ! 3) = 12" and "record_len (B ! 14) (B ! 15) = 12" and "length B = 24"
    and "rec_writes (take 12 B) = (if rq_write rq then [(rq_addr rq, rq_data rq)] else [])"
    and "rec_reads (take 12 B) = (if rq_write rq then [] else [rq_addr rq])"
    and "rec_writes (drop 12 B) = []" and "rec_reads (drop 12 B) = [4]"
    and "B ! 1 = rq_mask rq" and "B ! 12 AND ETHERBONE_CYC \<noteq> 0" and "B ! 12 AND ETHERBONE_RCA \<noteq> 0"
    and "B ! 0 AND ETHERBONE_CYC = 0"
proof -
  have flags: "ETHERBONE_BCA AND ETHERBONE_WCA = 0" "ETHERBONE_BCA AND ETHERBONE_WFF = 0" "ETHERBONE_BCA AND ETHERBONE_CYC = 0"
    "(ETHERBONE_CYC OR ETHERBONE_BCA OR ETHERBONE_RCA) AND ETHERBONE_CYC \<noteq> 0"
    "(ETHERBONE_CYC OR ETHERBONE_BCA OR ETHERBONE_RCA) AND ETHERBONE_RCA \<noteq> 0" by code_simp+
  define h where "h = (if rq_write rq then [ETHERBONE_BCA, rq_mask rq, 1, 0] else [ETHERBONE_BCA, rq_mask rq, 0, 1])"
  define w1 where "w1 = (if rq_write rq then rq_addr rq else WBA_DATA)"
  define w2 where "w2 = (if rq_write rq then rq_data rq else rq_addr rq)"
  define g where "g = [ETHERBONE_CYC OR ETHERBONE_BCA OR ETHERBONE_RCA, 0xf, 0, 1]"
  have bytes: "B = h @ word_be 4 w1 @ word_be 4 w2 @ g @ word_be 4 WBA_ERR @ word_be 4 (4 :: u32)"
    unfolding B request_bytes [OF assms(1)] h_def w1_def w2_def g_def by simp
  have lh: "length h = 4" "length g = 4" by (simp_all add: h_def g_def)
  have first: "take 12 B = h @ word_be 4 w1 @ word_be 4 w2" and second: "drop 12 B = g @ word_be 4 WBA_ERR @ word_be 4 (4 :: u32)"
    unfolding bytes using lh by simp_all
  have nth: "B ! 0 = h ! 0" "B ! 1 = h ! 1" "B ! 2 = h ! 2" "B ! 3 = h ! 3"
    "B ! 12 = g ! 0" "B ! 14 = g ! 2" "B ! 15 = g ! 3"
    unfolding bytes using lh by (simp_all add: nth_append)
  have w: "eb_word (take 12 B) 1 = w1" "eb_word (take 12 B) 2 = w2" "eb_word (drop 12 B) 2 = 4"
    unfolding eb_word_def first second using lh by (simp_all add: chunk_def)
  have w': "eb_word (take 12 B) (Suc (Suc 0)) = w2" "eb_word (drop 12 B) (Suc (Suc 0)) = 4"
    using w(2,3) by (simp_all only: numeral_2_eq_2)
  have nth': "take 12 B ! 0 = h ! 0" "take 12 B ! 2 = h ! 2" "take 12 B ! 3 = h ! 3"
    "drop 12 B ! 0 = g ! 0" "drop 12 B ! 2 = g ! 2" "drop 12 B ! 3 = g ! 3"
    unfolding first second using lh by (simp_all add: nth_append)
  show "length B = 24" unfolding bytes using lh by simp
  show "record_len (B ! 2) (B ! 3) = 12" by (simp add: nth h_def record_len_def)
  show "record_len (B ! 14) (B ! 15) = 12" by (simp add: nth g_def record_len_def)
  show "rec_writes (take 12 B) = (if rq_write rq then [(rq_addr rq, rq_data rq)] else [])"
    unfolding rec_writes_def nth' using w(1) w' flags(1,2) by (cases "rq_write rq") (simp_all add: h_def w1_def w2_def)
  show "rec_reads (take 12 B) = (if rq_write rq then [] else [rq_addr rq])"
    unfolding rec_reads_def answer_at_def nth' using w' w(2) by (cases "rq_write rq") (simp_all add: h_def w2_def)
  show "rec_writes (drop 12 B) = []" by (simp add: rec_writes_def nth' g_def)
  show "rec_reads (drop 12 B) = [4]" using w' w(3) by (simp add: rec_reads_def answer_at_def nth' g_def)
  show "B ! 1 = rq_mask rq" unfolding nth h_def by simp
  show "B ! 12 AND ETHERBONE_CYC \<noteq> 0" "B ! 12 AND ETHERBONE_RCA \<noteq> 0" using flags by (simp_all add: nth g_def)
  show "B ! 0 AND ETHERBONE_CYC = 0" using flags by (simp add: nth h_def)
qed

text \<open>A record that writes the data register and then the error register answers a request.\<close>

lemma slave_answer:
  assumes "length (sl_wbuf c) = 2052" and pending: "sl_pending_err c \<noteq> 0"
    and w: "take 16 (sl_wbuf c) = [flags, 0xf, 2, 0] @ word_be 4 WBA_DATA @ word_be 4 (d :: u32) @ word_be 4 (st :: u32)"
    and flags: "flags AND ETHERBONE_WCA \<noteq> 0" "flags AND ETHERBONE_WFF = 0"
  shows "etherbone_slave_in_process e wops c b
    = (c\<lparr>sl_data := d, sl_pending_err := sl_pending_err c - 1\<rparr>, w_reply wops b (st AND 1) d, 0)"
proof -
  have sub: "chunk k 4 (sl_wbuf c) = chunk k 4 (take 16 (sl_wbuf c))" if "k + 4 \<le> 16" for k
    using that by (simp add: chunk_def drop_take min_absorb1)
  have word: "eb_to_cpu e (sl_wbuf c) 4 = WBA_DATA" "eb_to_cpu e (sl_wbuf c) 8 = d" "eb_to_cpu e (sl_wbuf c) 12 = st"
    using assms(1) sub [of 4] sub [of 8] sub [of 12] unfolding w by (simp_all add: eb_to_cpu_be chunk_def)
  have nth: "sl_wbuf c ! i = take 16 (sl_wbuf c) ! i" if "i < 4" for i using that by simp
  have bytes: "sl_wbuf c ! 0 = flags" "sl_wbuf c ! 1 = 0xf" "sl_wbuf c ! 2 = 2" "sl_wbuf c ! 3 = 0"
    using nth [of 0] nth [of 1] nth [of 2] nth [of 3] unfolding w by simp_all
  have two: "unat (2 :: u8) = Suc (Suc 0)" by simp
  have base: "WBA_DATA + 4 = WBA_ERR" "WBA_ERR \<noteq> WBA_DATA" by (simp_all add: WBA_DATA_def WBA_ERR_def)
  have "slave_in_words e wops False c b 8 WBA_DATA (Suc (Suc 0))
      = (c\<lparr>sl_data := d, sl_pending_err := sl_pending_err c - 1\<rparr>, w_reply wops b (st AND 1) d, 0)"
    using word(2,3) pending base by (simp add: Let_def)
  then show ?thesis
    unfolding etherbone_slave_in_process_def Let_def bytes word(1) two using flags by simp
qed

text \<open>The file operations.\<close>

lemma slave_write_bytes:
  assumes "\<forall>i. ok i"
  shows "char_slave_aio_write e wops ok False c b iov =
    (case slave_bytes e wops c b (take (uint_length iov) (concat iov)) of (c, b, left) \<Rightarrow>
       Some (c, b, if left > 0 then - EIO else int (uint_length iov)))"
proof -
  have "0 + uint_length iov \<le> length (concat iov)" using uint_length_le [of iov] by (simp add: iov_length_def)
  from write_loop_bytes [OF assms this, of e wops 0 c b] show ?thesis
    by (simp add: char_slave_aio_write_def Let_def chunk_def split: prod.split)
qed

lemma slave_out_inv:
  assumes "slave_inv c" and "etherbone_slave_out_process e wops c b = (c', b')"
  shows "slave_inv c'"
  using assms request_bytes [of "sl_rbuf c" e]
  by (auto simp: etherbone_slave_out_process_def slave_inv_def split: if_splits prod.splits option.splits)

lemma slave_open_inv:
  assumes "length (sl_rbuf mem) = 24" "length (sl_wbuf mem) = 2052" and "char_slave_open True False mem = Inr c"
  shows "slave_inv c" and "sl_pending_err c = 0"
  using assms by (auto simp: char_slave_open_def slave_inv_def length_put)

lemma slave_read_step:
  assumes inv: "slave_inv c" and ok: "\<forall>i. ok i" and pos: "uint_length iov \<noteq> 0"
    and out: "etherbone_slave_out_process e wops c b = (c1, b1)"
    and n: "n = min (sl_rbuf_end c1 - sl_rbuf_done c1) (uint_length iov)"
  shows "\<exists>iov'. char_slave_aio_read e wops ok False nb c b iov
      = Some (c1\<lparr>sl_rbuf_done := sl_rbuf_done c1 + n\<rparr>, b1, iov', if n = 0 \<and> nb then - EAGAIN else int n)
    \<and> concat iov' = put 0 (chunk (sl_rbuf_done c1) n (sl_rbuf c1)) (concat iov)
    \<and> slave_inv (c1\<lparr>sl_rbuf_done := sl_rbuf_done c1 + n\<rparr>)"
proof -
  have i1: "slave_inv c1" by (rule slave_out_inv [OF inv out])
  then have b: "sl_rbuf_done c1 \<le> sl_rbuf_end c1" "sl_rbuf_end c1 \<le> 24" "length (sl_rbuf c1) = 24"
    by (auto simp: slave_inv_def)
  have u: "usub (sl_rbuf_end c1) (sl_rbuf_done c1) = sl_rbuf_end c1 - sl_rbuf_done c1" using b by (intro usub_le) simp_all
  have len: "length (chunk (sl_rbuf_done c1) n (sl_rbuf c1)) = n" using b n by (intro length_chunk_in) simp
  moreover have "n \<le> length (concat iov)" using n uint_length_le [of iov] by (simp add: iov_length_def)
  ultimately obtain iov' where io: "memcpy_toiovecend ok iov (chunk (sl_rbuf_done c1) n (sl_rbuf c1)) 0 = Some (iov', 0)"
    "concat iov' = put 0 (chunk (sl_rbuf_done c1) n (sl_rbuf c1)) (concat iov)"
    using to_iov_Some [of 0 "chunk (sl_rbuf_done c1) n (sl_rbuf c1)" iov ok 0] ok by (auto simp: memcpy_toiovecend_def)
  have nn: "(if sl_rbuf_end c1 - sl_rbuf_done c1 > uint_length iov then uint_length iov else sl_rbuf_end c1 - sl_rbuf_done c1) = n"
    by (simp add: n min_def)
  have "char_slave_aio_read e wops ok False nb c b iov
      = Some (c1\<lparr>sl_rbuf_done := sl_rbuf_done c1 + n\<rparr>, b1, iov', if n = 0 \<and> nb then - EAGAIN else int n)"
    unfolding char_slave_aio_read_def Let_def out prod.case u nn io(1) using pos by simp
  moreover have "slave_inv (c1\<lparr>sl_rbuf_done := sl_rbuf_done c1 + n\<rparr>)" using i1 n by (auto simp: slave_inv_def)
  ultimately show ?thesis using io(2) by blast
qed

end
