(* ===== verification/SlaveBus.thy ===== *)
theory SlaveBus
  imports EtherboneSlave PcieWb SpecWb VmeWb
begin

text \<open>
  Every request of the bus is answered exactly once. A backend counts: the requests it has handed
  out less the answers it got. The slave device keeps the same count in \<open>pending_err\<close>; closing the
  device brings it to zero. The law is stated as an interface and holds for the three bridges.
\<close>

locale wb_requests =
  fixes wops :: "'b wishbone_operations"
    and open_requests :: "'b \<Rightarrow> int"
  assumes request_some: "w_request wops b = (b', Some rq) \<Longrightarrow> open_requests b' = open_requests b + 1"
    and request_none: "w_request wops b = (b', None) \<Longrightarrow> open_requests b' = open_requests b"
    and reply_one: "0 < open_requests b \<Longrightarrow> err \<in> {0, 1} \<Longrightarrow> open_requests (w_reply wops b err d) = open_requests b - 1"
begin

definition counted :: "eb_slave \<Rightarrow> 'b \<Rightarrow> bool" where
  "counted c b \<longleftrightarrow> open_requests b = int (unat (sl_pending_err c))"

lemma out_counted:
  assumes "counted c b" and "unat (sl_pending_err c) + 1 < 2 ^ 32"
    and "etherbone_slave_out_process e wops c b = (c', b')"
  shows "counted c' b'"
proof -
  have u: "unat (sl_pending_err c + 1) = unat (sl_pending_err c) + 1"
    using assms(2) by (simp add: unat_word_ariths(1))
  have "uint (sl_pending_err c + 1) = uint (sl_pending_err c) + 1"
    by (simp only: uint_nat u of_nat_add of_nat_1)
  then show ?thesis
    using assms(1,3) request_some [of b] request_none [of b]
    by (auto simp: etherbone_slave_out_process_def counted_def split: if_splits prod.splits option.splits)
qed

lemma in_words_counted:
  "counted c b \<Longrightarrow> slave_in_words e wops wff c b rptr base n = (c', b', r) \<Longrightarrow> counted c' b'"
proof (induction n arbitrary: c b rptr base)
  case (Suc n)
  define dat where "dat = eb_to_cpu e (sl_wbuf c) rptr"
  have "dat AND 1 = (if bit dat 0 then 1 else 0)" 
    by (rule bit_word_eqI) (auto simp: bit_simps intro: gr0I)
  then have bit: "dat AND 1 \<in> {0, 1}" by (cases "bit dat 0") (simp_all only: insertI1 insertI2 if_True if_False)
  show ?case
  proof (cases "base = WBA_DATA")
    case True
    then show ?thesis
      using Suc.prems Suc.IH [of "c\<lparr>sl_data := dat\<rparr>" b]
      by (auto simp: Let_def dat_def [symmetric] counted_def split: if_splits)
  next
    case False
    show ?thesis
    proof (cases "base = WBA_ERR \<and> sl_pending_err c \<noteq> 0")
      case True
      define c1 where "c1 = c\<lparr>sl_pending_err := sl_pending_err c - 1\<rparr>"
      define b1 where "b1 = w_reply wops b (dat AND 1) (sl_data c)"
      have pos: "0 < unat (sl_pending_err c)" using True by (simp add: unat_gt_0)
      have u: "unat (sl_pending_err c - 1) = unat (sl_pending_err c) - 1" using True by (simp add: unat_minus_one)
      have o: "open_requests b = int (unat (sl_pending_err c))" using Suc.prems(1) by (simp only: counted_def)
      have "0 < open_requests b" unfolding o using pos by linarith
      then have "open_requests b1 = int (unat (sl_pending_err c)) - 1"
        unfolding b1_def o [symmetric] by (rule reply_one [OF _ bit])
      also have "\<dots> = int (unat (sl_pending_err c - 1))" unfolding u using pos by linarith
      finally have "counted c1 b1" by (simp add: counted_def c1_def)
      moreover have "slave_in_words e wops wff c1 b1 (rptr + 4) (if \<not> wff then base + 4 else base) n = (c', b', r)"
        using Suc.prems(2) True False by (cases wff) (simp_all add: Let_def dat_def c1_def b1_def)
      ultimately show ?thesis by (rule Suc.IH)
    next
      case False
      then have "(c', b', r) = (c, b, - EIO)"
        using Suc.prems(2) \<open>base \<noteq> WBA_DATA\<close> by (auto simp: Let_def split: if_splits)
      then show ?thesis using Suc.prems(1) by simp
    qed
  qed
qed simp

lemma in_counted:
  assumes "counted c b" and "etherbone_slave_in_process e wops c b = (c', b', r)" shows "counted c' b'"
  using assms in_words_counted [OF assms(1)]
  by (auto simp: etherbone_slave_in_process_def Let_def split: if_splits)

lemma bytes_counted:
  assumes "counted c b" and "slave_bytes e wops c b xs = (c', b', left)" shows "counted c' b'"
proof (rule slave_bytes_preserves [where P = counted, OF _ _ assms])
  show "counted c b \<Longrightarrow> counted (c\<lparr>sl_wbuf := w, sl_wbuf_fill := k, sl_negotiated := neg\<rparr>) b" for c b w k neg
    by (simp add: counted_def)
qed (rule in_counted)

lemma reply_all_closes: "int n = open_requests b \<Longrightarrow> open_requests (slave_reply_all wops n b) = 0"
proof (induction n arbitrary: b)
  case (Suc n)
  then have "int n = open_requests (w_reply wops b 1 0)" using reply_one [of b 1 0] by simp
  from Suc.IH [OF this] show ?case 
    by (simp add: slave_reply_all_def funpow_Suc_right del: funpow.simps(2))
qed (simp add: slave_reply_all_def)

text \<open>Closing the device answers what is open, and says so.\<close>

lemma release_closes:
  assumes "counted c b" and "unat (sl_pending_err c) < 2 ^ 31" and "char_slave_release wops c b = (b', r)"
  shows "open_requests b' = 0" and "r = (if open_requests b = 0 then 0 else - EIO)"
proof -
  have s: "sint (sl_pending_err c) = int (unat (sl_pending_err c))" by (rule sint_small [OF assms(2)])
  then have b': "b' = slave_reply_all wops (unat (sl_pending_err c)) b"
    using assms(3) by (simp add: char_slave_release_def Let_def)
  show "open_requests b' = 0"
    unfolding b' using assms(1) by (intro reply_all_closes) (simp add: counted_def)
  show "r = (if open_requests b = 0 then 0 else - EIO)"
    using assms(1,3) s by (auto simp: char_slave_release_def Let_def counted_def split: if_splits)
qed

end

subsection \<open>The bridges\<close>

text \<open>A value of 1 written to the master control register dequeues a request; 2 or 3 answers one.\<close>

fun pcie_balance :: "pcie_bar io_event list \<Rightarrow> int" where
  "pcie_balance [] = 0"
| "pcie_balance (Io_write Control off n v # io) =
     (if off = MASTER_CTL_HIGH then if v = 1 then 1 else if v = 2 \<or> v = 3 then - 1 else 0 else 0) + pcie_balance io"
| "pcie_balance (_ # io) = pcie_balance io"

lemma pcie_balance_append [simp]: "pcie_balance (xs @ ys) = pcie_balance xs + pcie_balance ys"
  by (induction xs rule: pcie_balance.induct) auto

interpretation pcie_req: wb_requests "pcie_wb_ops e hw" "\<lambda>d. pcie_balance (p_io d)" for e hw
proof (unfold_locales, goal_cases)
  case (1 b b' rq)
  then show ?case
    by (auto simp: pcie_wb_ops_def pcie_wb_request_def pcie_int_enable_def p_out_def p_in_def iowrite_def ioread_def
        Let_def CONTROL_REGISTER_HIGH_def MASTER_CTL_HIGH_def split: prod.splits if_splits)
next
  case (2 b b')
  then show ?case
    by (auto simp: pcie_wb_ops_def pcie_wb_request_def pcie_int_enable_def p_out_def p_in_def iowrite_def ioread_def
        Let_def CONTROL_REGISTER_HIGH_def MASTER_CTL_HIGH_def split: prod.splits if_splits)
next
  case (3 b err d)
  then show ?case
    by (auto simp: pcie_wb_ops_def pcie_wb_reply_def p_out_def iowrite_def MASTER_CTL_HIGH_def MASTER_DAT_LOW_def)
qed

interpretation spec_req: wb_requests "spec_wb_ops e sdb_addr hw" "\<lambda>d. 0" for e sdb_addr hw
  by unfold_locales (simp_all add: spec_wb_ops_def spec_wb_request_def)

fun vme_balance :: "endian \<Rightarrow> vme_map_win io_event list \<Rightarrow> int" where
  "vme_balance e [] = 0"
| "vme_balance e (Io_write MAP_CTRL off n v # io) =
     (if off = VME_MASTER_CTRL
      then if ntohl e v = 1 then 1 else if ntohl e v = 2 \<or> ntohl e v = 3 then - 1 else 0 else 0) + vme_balance e io"
| "vme_balance e (_ # io) = vme_balance e io"

lemma vme_balance_append [simp]: "vme_balance e (xs @ ys) = vme_balance e xs + vme_balance e ys"
  by (induction e xs rule: vme_balance.induct) auto

interpretation vme_req: wb_requests "vme_wb_ops e hw" "\<lambda>d. vme_balance e (v_io d)" for e hw
proof (unfold_locales, goal_cases)
  case (1 b b' rq)
  then show ?case
    by (auto simp: vme_wb_ops_def vme_wb_request_def v_out_def v_in_def iowrite_def ioread_def
        Let_def take_bit_word_eq_self split: prod.splits if_splits)
next
  case (2 b b')
  then show ?case
    by (auto simp: vme_wb_ops_def vme_wb_request_def v_out_def v_in_def iowrite_def ioread_def
        Let_def split: prod.splits if_splits)
next
  case (3 b err d)
  then show ?case
    by (auto simp: vme_wb_ops_def vme_wb_reply_def v_out_def iowrite_def take_bit_word_eq_self
        VME_MASTER_CTRL_def VME_MASTER_DATA_def)
qed

end
