(* ===== verification/WishboneCore.thy ===== *)
theory WishboneCore
  imports Wishbone
begin

text \<open>
  The registration of bus backends in src/pcie-wb/wishbone.c: \<open>wishbone_register\<close>,
  \<open>wishbone_unregister\<close>, and the set-up of the module. The state is the list of registered
  backends, sorted by minor number, and the character devices and class devices the kernel holds
  for them. The answers of the kernel are arguments.
\<close>

definition MKDEV :: "u32 \<Rightarrow> u32 \<Rightarrow> u32" where "MKDEV ma mi = push_bit 20 ma OR mi"
definition MAJOR :: "u32 \<Rightarrow> u32" where "MAJOR dev = drop_bit 20 dev"
definition MINOR :: "u32 \<Rightarrow> u32" where "MINOR dev = dev AND mask 20"

text \<open>The device number at an offset from the first one of a region.\<close>

definition dev_at :: "u32 \<Rightarrow> u32 \<Rightarrow> u32" where
  "dev_at first devoff = MKDEV (MAJOR first) (MINOR first + devoff)"

record wb_entry =
  e_wb :: nat  \<comment> \<open>the backend\<close>
  e_master_dev :: u32
  e_slave_dev :: u32

record wb_core =
  c_max :: u32         \<comment> \<open>\<open>max_devices\<close>\<close>
  c_master_first :: u32
  c_slave_first :: u32
  c_list :: "wb_entry list"
  c_cdevs :: "u32 set"
  c_devices :: "u32 set"

text \<open>The search for a gap: the offset and the position in the list, \<open>None\<close> when no minor is left.\<close>

fun find_gap :: "u32 \<Rightarrow> u32 \<Rightarrow> wb_entry list \<Rightarrow> u32 \<Rightarrow> nat \<Rightarrow> (u32 \<times> nat) option" where
  "find_gap max_devices first [] devoff pos = Some (devoff, pos)"
| "find_gap max_devices first (entry # es) devoff pos =
     (if e_master_dev entry \<noteq> dev_at first devoff then Some (devoff, pos)
      else if devoff = max_devices - 1 then None
      else find_gap max_devices first es (devoff + 1) (Suc pos))"

record wb_answers =
  a_master_cdev :: bool
  a_slave_cdev :: bool
  a_master_device :: bool
  a_slave_device :: bool

definition wishbone_register :: "wb_answers \<Rightarrow> nat \<Rightarrow> wb_core \<Rightarrow> wb_core \<times> int" where
  "wishbone_register ans wb c =
     (case find_gap (c_max c) (c_master_first c) (c_list c) 0 0 of
        None \<Rightarrow> (c, - ENOMEM)
      | Some (devoff, pos) \<Rightarrow>
          (let m = dev_at (c_master_first c) devoff; s = dev_at (c_slave_first c) devoff in
           if \<not> a_master_cdev ans then (c, - ENOMEM)
           else let c = c\<lparr>c_cdevs := insert m (c_cdevs c)\<rparr> in
           if \<not> a_slave_cdev ans then (c\<lparr>c_cdevs := c_cdevs c - {m}\<rparr>, - ENOMEM)
           else let c = c\<lparr>c_cdevs := insert s (c_cdevs c)\<rparr> in
           if \<not> a_master_device ans then (c\<lparr>c_cdevs := c_cdevs c - {s} - {m}\<rparr>, - ENOMEM)
           else let c = c\<lparr>c_devices := insert m (c_devices c)\<rparr> in
           if \<not> a_slave_device ans
             then (c\<lparr>c_devices := c_devices c - {m}, c_cdevs := c_cdevs c - {s} - {m}\<rparr>, - ENOMEM)
           else let c = c\<lparr>c_devices := insert s (c_devices c)\<rparr>;
                    e = \<lparr>e_wb = wb, e_master_dev = m, e_slave_dev = s\<rparr> in
             (c\<lparr>c_list := take pos (c_list c) @ e # drop pos (c_list c)\<rparr>, 0)))"

text \<open>A backend that is not in a list (its registration failed) is refused.\<close>

definition wishbone_unregister :: "nat \<Rightarrow> wb_core \<Rightarrow> wb_core \<times> int" where
  "wishbone_unregister wb c =
     (case find (\<lambda>e. e_wb e = wb) (c_list c) of
        None \<Rightarrow> (c, - EINVAL)
      | Some e \<Rightarrow>
          (c\<lparr>c_list := remove1 e (c_list c),
             c_devices := c_devices c - {e_slave_dev e} - {e_master_dev e},
             c_cdevs := c_cdevs c - {e_slave_dev e} - {e_master_dev e}\<rparr>, 0))"

subsection \<open>The module\<close>

datatype core_res = Master_class | Slave_class | Master_region | Slave_region

text \<open>The kernel's answers, negative for an error (for a class, the error of the pointer returned);
  the result and what the module holds.\<close>

record init_answers =
  i_master_class :: int
  i_slave_class :: int
  i_master_region :: int
  i_slave_region :: int

definition wishbone_init :: "u32 \<Rightarrow> init_answers \<Rightarrow> int \<times> core_res list" where
  "wishbone_init max_devices ans =
     (let overflow = MKDEV 0 (max_devices - 1) in
      if MINOR overflow \<noteq> max_devices - 1 then (- ENOMEM, [])
      else if i_master_class ans < 0 then (i_master_class ans, [])
      else let h = [Master_class] in
      if i_slave_class ans < 0 then (i_slave_class ans, remove1 Master_class h)
      else let h = Slave_class # h in
      if i_master_region ans < 0 then (- EIO, remove1 Master_class (remove1 Slave_class h))
      else let h = Master_region # h in
      if i_slave_region ans < 0
        then (- EIO, remove1 Master_class (remove1 Slave_class (remove1 Master_region h)))
      else (0, Slave_region # h))"

definition wishbone_exit :: "core_res list \<Rightarrow> core_res list" where
  "wishbone_exit h =
     remove1 Master_class (remove1 Slave_class (remove1 Master_region (remove1 Slave_region h)))"

subsection \<open>The invariant\<close>

text \<open>Every backend has the device numbers at one offset below \<open>max_devices\<close>; the list is sorted by
  offset; the kernel holds exactly the devices of the list. The regions allocated at start-up have
  \<open>max_devices\<close> minors each and different majors.\<close>

definition entry_at :: "wb_core \<Rightarrow> wb_entry \<Rightarrow> nat \<Rightarrow> bool" where
  "entry_at c e k \<longleftrightarrow> e_master_dev e = dev_at (c_master_first c) (of_nat k)
     \<and> e_slave_dev e = dev_at (c_slave_first c) (of_nat k)"

definition regions_ok :: "wb_core \<Rightarrow> bool" where
  "regions_ok c \<longleftrightarrow> 0 < unat (c_max c)
     \<and> unat (MINOR (c_master_first c)) + unat (c_max c) \<le> 2 ^ 20
     \<and> unat (MINOR (c_slave_first c)) + unat (c_max c) \<le> 2 ^ 20
     \<and> MAJOR (c_master_first c) \<noteq> MAJOR (c_slave_first c)"

definition core_inv :: "wb_core \<Rightarrow> nat list \<Rightarrow> bool" where
  "core_inv c ks \<longleftrightarrow> regions_ok c \<and> sorted_wrt (<) ks \<and> (\<forall>k \<in> set ks. k < unat (c_max c))
     \<and> list_all2 (entry_at c) (c_list c) ks \<and> distinct (map e_wb (c_list c))
     \<and> c_cdevs c = e_master_dev ` set (c_list c) \<union> e_slave_dev ` set (c_list c)
     \<and> c_devices c = c_cdevs c"

lemma bit_below: "unat (w :: 'a::len word) < 2 ^ n \<Longrightarrow> bit w i \<Longrightarrow> i < n"
proof -
  assume "unat w < 2 ^ n" and b: "bit w i"
  then have "take_bit n (unat w) = unat w" by (simp add: take_bit_nat_eq_self)
  moreover have "bit (unat w) i" using b by (simp add: bit_unsigned_iff)
  ultimately show "i < n" by (metis bit_take_bit_iff)
qed

lemma MINOR_MKDEV: "unat mi < 2 ^ 20 \<Longrightarrow> MINOR (MKDEV ma mi) = mi"
  using bit_below [of mi 20] by (intro bit_word_eqI) (auto simp: MINOR_def MKDEV_def bit_simps)

lemma MAJOR_MKDEV: "unat mi < 2 ^ 20 \<Longrightarrow> MAJOR (MKDEV (MAJOR d) mi) = MAJOR d"
proof (rule bit_word_eqI)
  fix i assume mi: "unat mi < 2 ^ 20" and "i < LENGTH(32)"
  have "\<not> bit mi (20 + i)" using bit_below [OF mi, of "20 + i"] by auto
  moreover have "bit d (20 + i) \<Longrightarrow> i < 12" using bit_imp_le_length [of d "20 + i"] by simp
  ultimately show "bit (MAJOR (MKDEV (MAJOR d) mi)) i = bit (MAJOR d) i"
    by (auto simp: MAJOR_def MKDEV_def bit_simps)
qed

lemma minor_sum:
  assumes "unat (MINOR f) + n \<le> 2 ^ 20" and "k < n"
  shows "unat (MINOR f + of_nat k) = unat (MINOR f) + k"
proof -
  have "unat (of_nat k :: u32) = k" using assms by (simp add: unat_of_nat)
  then show ?thesis using assms by (simp add: unat_word_ariths(1))
qed

lemma dev_at_fields:
  assumes "unat (MINOR f) + n \<le> 2 ^ 20" and "k < n"
  shows "MAJOR (dev_at f (of_nat k)) = MAJOR f" and "unat (MINOR (dev_at f (of_nat k))) = unat (MINOR f) + k"
  using minor_sum [OF assms] assms by (simp_all add: dev_at_def MAJOR_MKDEV MINOR_MKDEV)

lemma dev_at_inj:
  assumes "unat (MINOR f) + n \<le> 2 ^ 20" and "k < n" and "j < n"
    and "dev_at f (of_nat k) = dev_at f (of_nat j)" shows "k = j"
  using dev_at_fields(2) [OF assms(1,2)] dev_at_fields(2) [OF assms(1,3)] assms(4) by (metis add_left_cancel)

subsection \<open>The search finds the least free minor\<close>

lemma find_gap_spec:
  assumes "unat (MINOR f) + n \<le> 2 ^ 20" and "n = unat mx" and "0 < n"
    and "list_all2 (\<lambda>e k. e_master_dev e = dev_at f (of_nat k)) es ks"
    and "sorted_wrt (<) ks" and "\<forall>k \<in> set ks. k < n \<and> d \<le> k" and "d < n"
  shows "(find_gap mx f es (of_nat d) pos = None \<longleftrightarrow> {d..<n} \<subseteq> set ks)
    \<and> (\<forall>o' p. find_gap mx f es (of_nat d) pos = Some (o', p) \<longrightarrow>
        (\<exists>g i. o' = of_nat g \<and> p = pos + i \<and> i \<le> length es \<and> d \<le> g \<and> g < n \<and> {d..<g} \<subseteq> set ks \<and> g \<notin> set ks
          \<and> (\<forall>k \<in> set (take i ks). k < g) \<and> (\<forall>k \<in> set (drop i ks). g < k)))"
  using assms(4-)
proof (induction es ks arbitrary: d pos rule: list_all2_induct)
  case Nil
  then show ?case by auto
next
  case (Cons e es k ks)
  have e: "e_master_dev e = dev_at f (of_nat k)" using Cons.hyps by simp
  have k: "k < n" "d \<le> k" using Cons.prems by auto
  show ?case
  proof (cases "k = d")
    case False
    then have "e_master_dev e \<noteq> dev_at f (of_nat d)"
      using e dev_at_inj [OF assms(1) k(1) Cons.prems(3)] by auto
    then have fg: "find_gap mx f (e # es) (of_nat d) pos = Some (of_nat d, pos)" by simp
    moreover have "d \<notin> set (k # ks)" using False k Cons.prems(1) by auto
    moreover have "\<forall>j \<in> set (k # ks). d < j" using False k Cons.prems(1) by auto
    moreover have "{d..<n} \<subseteq> set (k # ks) \<Longrightarrow> d \<in> set (k # ks)" using Cons.prems(3) by auto
    ultimately show ?thesis
      using Cons.prems(3) by (intro conjI allI impI; (simp only: option.simps)?)
        (blast, rule exI [of _ d], rule exI [of _ 0], simp)
  next
    case same: True
    have mx: "of_nat d = mx - 1 \<longleftrightarrow> d = n - 1"
    proof -
      have m1: "mx - 1 = of_nat (n - 1)" using assms(2,3) by (simp add: of_nat_diff)
      have "unat mx < 2 ^ LENGTH(32)" by (rule unsigned_less)
      then have "d < 2 ^ LENGTH(32)" "n - 1 < 2 ^ LENGTH(32)" using assms(2) Cons.prems(3) by linarith+
      then have "unat (of_nat d :: u32) = d" "unat (of_nat (n - 1) :: u32) = n - 1"
        by (simp_all only: unat_of_nat mod_less)
      then show ?thesis unfolding m1 by metis
    qed
    show ?thesis
    proof (cases "d = n - 1")
      case True
      then have "{d..<n} \<subseteq> set (k # ks)" using same by auto
      then show ?thesis using mx True e same by simp
    next
      case False
      then have d: "Suc d < n" using Cons.prems(3) by simp
      have "\<forall>j \<in> set ks. j < n \<and> Suc d \<le> j" using Cons.prems(1,2) same by auto
      from Cons.IH [OF _ this d, of "Suc pos"] Cons.prems(1)
      have ih: "(find_gap mx f es (of_nat (Suc d)) (Suc pos) = None \<longleftrightarrow> {Suc d..<n} \<subseteq> set ks)"
        "\<forall>o' p. find_gap mx f es (of_nat (Suc d)) (Suc pos) = Some (o', p) \<longrightarrow>
        (\<exists>g i. o' = of_nat g \<and> p = Suc pos + i \<and> i \<le> length es \<and> Suc d \<le> g \<and> g < n \<and> {Suc d..<g} \<subseteq> set ks \<and> g \<notin> set ks
          \<and> (\<forall>k \<in> set (take i ks). k < g) \<and> (\<forall>k \<in> set (drop i ks). g < k))" by auto
      have step: "find_gap mx f (e # es) (of_nat d) pos = find_gap mx f es (of_nat (Suc d)) (Suc pos)"
        using e same mx False by (simp add: add.commute)
      have "{d..<n} = insert d {Suc d..<n}" using Cons.prems(3) by auto
      moreover have "d \<notin> {Suc d..<n}" by simp
      ultimately have "{d..<n} \<subseteq> set (k # ks) \<longleftrightarrow> {Suc d..<n} \<subseteq> set ks" using same by auto
      moreover have "\<exists>g' i'. o' = of_nat g' \<and> p = pos + i' \<and> i' \<le> length (e # es) \<and> d \<le> g' \<and> g' < n \<and> {d..<g'} \<subseteq> set (k # ks)
          \<and> g' \<notin> set (k # ks) \<and> (\<forall>j \<in> set (take i' (k # ks)). j < g') \<and> (\<forall>j \<in> set (drop i' (k # ks)). g' < j)"
        if found: "find_gap mx f es (of_nat (Suc d)) (Suc pos) = Some (o', p)" for o' p
      proof -
        from ih(2) found obtain g i where gi: "o' = of_nat g" "p = Suc pos + i" "i \<le> length es" "Suc d \<le> g" "g < n"
          "{Suc d..<g} \<subseteq> set ks" "g \<notin> set ks" "\<forall>k \<in> set (take i ks). k < g" "\<forall>k \<in> set (drop i ks). g < k" by blast
        have "{d..<g} = insert d {Suc d..<g}" using gi(4) by auto
        then show ?thesis using gi same by (intro exI [of _ g] exI [of _ "Suc i"]) auto
      qed
      ultimately show ?thesis unfolding step ih(1) by blast
    qed
  qed
qed

subsection \<open>Registration\<close>

lemma all2_set: "list_all2 P xs ys \<Longrightarrow> x \<in> set xs \<Longrightarrow> \<exists>y \<in> set ys. P x y"
  by (induction rule: list_all2_induct) auto

lemma free_devices:
  assumes inv: "core_inv c ks" and g: "g < unat (c_max c)" "g \<notin> set ks"
  shows "dev_at (c_master_first c) (of_nat g) \<notin> c_cdevs c" and "dev_at (c_slave_first c) (of_nat g) \<notin> c_cdevs c"
    and "dev_at (c_master_first c) (of_nat g) \<noteq> dev_at (c_slave_first c) (of_nat g)"
proof -
  let ?m = "dev_at (c_master_first c)" and ?s = "dev_at (c_slave_first c)" and ?n = "unat (c_max c)"
  have reg: "unat (MINOR (c_master_first c)) + ?n \<le> 2 ^ 20" "unat (MINOR (c_slave_first c)) + ?n \<le> 2 ^ 20"
    "MAJOR (c_master_first c) \<noteq> MAJOR (c_slave_first c)"
    using inv by (auto simp: core_inv_def regions_ok_def)
  have cross: "?m (of_nat i) \<noteq> ?s (of_nat j)" if "i < ?n" "j < ?n" for i j
    using dev_at_fields(1) [OF reg(1) that(1)] dev_at_fields(1) [OF reg(2) that(2)] reg(3) by metis
  have used: "\<exists>k. k < ?n \<and> k \<noteq> g \<and> (x = ?m (of_nat k) \<or> x = ?s (of_nat k))" if "x \<in> c_cdevs c" for x
  proof -
    from that inv obtain e where e: "e \<in> set (c_list c)" "x = e_master_dev e \<or> x = e_slave_dev e"
      by (auto simp: core_inv_def)
    moreover obtain k where "k \<in> set ks" "entry_at c e k"
      using all2_set [of "entry_at c" "c_list c" ks e] inv e(1) by (auto simp: core_inv_def)
    moreover have "k < ?n" using inv \<open>k \<in> set ks\<close> by (simp add: core_inv_def)
    ultimately show ?thesis using g(2) by (intro exI [of _ k]) (auto simp: entry_at_def)
  qed
  show "?m (of_nat g) \<notin> c_cdevs c"
    using used cross [OF g(1)] dev_at_inj [OF reg(1) g(1)] by metis
  show "?s (of_nat g) \<notin> c_cdevs c"
    using used cross [OF _ g(1)] dev_at_inj [OF reg(2) g(1)] by metis
  show "?m (of_nat g) \<noteq> ?s (of_nat g)" using cross [OF g(1) g(1)] .
qed

lemma gap_of_list:
  assumes inv: "core_inv c ks"
  shows "(find_gap (c_max c) (c_master_first c) (c_list c) 0 0 = None \<longleftrightarrow> {0..<unat (c_max c)} \<subseteq> set ks)
    \<and> (\<forall>o' p. find_gap (c_max c) (c_master_first c) (c_list c) 0 0 = Some (o', p) \<longrightarrow>
        (\<exists>g. o' = of_nat g \<and> p \<le> length (c_list c) \<and> g < unat (c_max c) \<and> {0..<g} \<subseteq> set ks \<and> g \<notin> set ks
          \<and> (\<forall>k \<in> set (take p ks). k < g) \<and> (\<forall>k \<in> set (drop p ks). g < k)))"
proof -
  have "unat (MINOR (c_master_first c)) + unat (c_max c) \<le> 2 ^ 20" "0 < unat (c_max c)"
    "list_all2 (\<lambda>e k. e_master_dev e = dev_at (c_master_first c) (of_nat k)) (c_list c) ks"
    "sorted_wrt (<) ks" "\<forall>k \<in> set ks. k < unat (c_max c) \<and> 0 \<le> k"
    using inv by (auto simp: core_inv_def regions_ok_def entry_at_def elim!: list_all2_mono)
  note spec = find_gap_spec [OF this(1) refl this(2-5,2), where pos = 0]
  have z: "(of_nat 0 :: u32) = 0" by simp
  show ?thesis using spec unfolding z by (simp only: add_0_left le0 simp_thms) blast
qed

text \<open>Registration by its two outcomes: everything, or nothing.\<close>

lemma core_same: "c\<lparr>c_cdevs := c_cdevs c\<rparr> = c" "c\<lparr>c_devices := c_devices c, c_cdevs := c_cdevs c\<rparr> = c"
  by (cases c; simp)+

lemma register_eq:
  assumes gap: "find_gap (c_max c) (c_master_first c) (c_list c) 0 0 = Some (o', p)"
    and m: "m = dev_at (c_master_first c) o'" "m \<notin> c_cdevs c" and s: "s = dev_at (c_slave_first c) o'" "s \<notin> c_cdevs c"
    and ms: "m \<noteq> s" and dev: "m \<notin> c_devices c"
  shows "wishbone_register ans wb c =
    (if a_master_cdev ans \<and> a_slave_cdev ans \<and> a_master_device ans \<and> a_slave_device ans
     then (c\<lparr>c_list := take p (c_list c) @ \<lparr>e_wb = wb, e_master_dev = m, e_slave_dev = s\<rparr> # drop p (c_list c),
             c_cdevs := insert s (insert m (c_cdevs c)), c_devices := insert s (insert m (c_devices c))\<rparr>, 0)
     else (c, - ENOMEM))"
proof -
  have sets: "insert m (c_cdevs c) - {m} = c_cdevs c" "insert s (insert m (c_cdevs c)) - {s} - {m} = c_cdevs c"
    "insert m (c_devices c) - {m} = c_devices c" "insert m (c_cdevs c) - {s} - {m} = c_cdevs c"
    using m(2) s(2) ms dev by auto
  show ?thesis
    unfolding wishbone_register_def gap option.case prod.case Let_def m(1) [symmetric] s(1) [symmetric]
    by (cases "a_master_cdev ans"; cases "a_slave_cdev ans"; cases "a_master_device ans"; cases "a_slave_device ans")
      (simp_all add: sets core_same)
qed

lemma find_skip: "\<forall>x \<in> set xs. \<not> P x \<Longrightarrow> P e \<Longrightarrow> find P (xs @ e # ys) = Some e"
  by (induction xs) auto

lemma register_spec:
  assumes inv: "core_inv c ks" and new: "wb \<notin> e_wb ` set (c_list c)"
    and r: "wishbone_register ans wb c = (c', r)"
  shows "r = 0 \<or> (r = - ENOMEM \<and> c' = c)"
    and "r = 0 \<longleftrightarrow> a_master_cdev ans \<and> a_slave_cdev ans \<and> a_master_device ans \<and> a_slave_device ans
      \<and> \<not> {0..<unat (c_max c)} \<subseteq> set ks"
    and "r = 0 \<Longrightarrow> \<exists>g p. g < unat (c_max c) \<and> {0..<g} \<subseteq> set ks \<and> g \<notin> set ks \<and> p \<le> length ks
      \<and> core_inv c' (take p ks @ g # drop p ks)
      \<and> c_list c' = take p (c_list c) @ \<lparr>e_wb = wb, e_master_dev = dev_at (c_master_first c) (of_nat g),
            e_slave_dev = dev_at (c_slave_first c) (of_nat g)\<rparr> # drop p (c_list c)
      \<and> wishbone_unregister wb c' = (c, 0)"
proof -
  note gap = gap_of_list [OF inv]
  have dev: "c_devices c = c_cdevs c" using inv by (simp add: core_inv_def)
  have E: "ENOMEM \<noteq> 0" by (simp add: ENOMEM_def)
  show "r = 0 \<or> (r = - ENOMEM \<and> c' = c)"
  proof (cases "find_gap (c_max c) (c_master_first c) (c_list c) 0 0")
    case None
    then show ?thesis using r by (simp add: wishbone_register_def)
  next
    case (Some q)
    obtain o' p where q: "q = (o', p)" by (cases q)
    from gap Some q obtain g where g: "o' = of_nat g" "g < unat (c_max c)" "g \<notin> set ks" by blast
    note f = free_devices [OF inv g(2,3)]
    show ?thesis
      using r register_eq [OF Some [unfolded q g(1)] refl f(1) refl f(2,3), of ans wb] f(1) dev
      by (auto split: if_splits)
  qed
  show "r = 0 \<longleftrightarrow> a_master_cdev ans \<and> a_slave_cdev ans \<and> a_master_device ans \<and> a_slave_device ans
      \<and> \<not> {0..<unat (c_max c)} \<subseteq> set ks"
  proof (cases "find_gap (c_max c) (c_master_first c) (c_list c) 0 0")
    case None
    then show ?thesis using r E gap by (auto simp: wishbone_register_def)
  next
    case (Some q)
    then have "\<not> {0..<unat (c_max c)} \<subseteq> set ks" using gap by auto
    moreover have "r = (if a_master_cdev ans \<and> a_slave_cdev ans \<and> a_master_device ans \<and> a_slave_device ans
        then 0 else - ENOMEM)"
      using r Some by (cases q) (auto simp: wishbone_register_def Let_def split: if_splits)
    ultimately show ?thesis using E by simp
  qed
  show "\<exists>g p. g < unat (c_max c) \<and> {0..<g} \<subseteq> set ks \<and> g \<notin> set ks \<and> p \<le> length ks
      \<and> core_inv c' (take p ks @ g # drop p ks)
      \<and> c_list c' = take p (c_list c) @ \<lparr>e_wb = wb, e_master_dev = dev_at (c_master_first c) (of_nat g),
            e_slave_dev = dev_at (c_slave_first c) (of_nat g)\<rparr> # drop p (c_list c)
      \<and> wishbone_unregister wb c' = (c, 0)" if r0: "r = 0"
  proof -
    obtain o' p where Some: "find_gap (c_max c) (c_master_first c) (c_list c) 0 0 = Some (o', p)"
      using r r0 E by (cases "find_gap (c_max c) (c_master_first c) (c_list c) 0 0") (auto simp: wishbone_register_def)
    from gap Some obtain g where g: "o' = of_nat g" "p \<le> length (c_list c)" "g < unat (c_max c)" "{0..<g} \<subseteq> set ks"
      "g \<notin> set ks" "\<forall>k \<in> set (take p ks). k < g" "\<forall>k \<in> set (drop p ks). g < k" by blast
    note f = free_devices [OF inv g(3,5)]
    define m where "m = dev_at (c_master_first c) (of_nat g)"
    define s where "s = dev_at (c_slave_first c) (of_nat g)"
    define e where "e = \<lparr>e_wb = wb, e_master_dev = m, e_slave_dev = s\<rparr>"
    have c': "c' = c\<lparr>c_list := take p (c_list c) @ e # drop p (c_list c),
        c_cdevs := insert s (insert m (c_cdevs c)), c_devices := insert s (insert m (c_devices c))\<rparr>"
      using r r0 E register_eq [OF Some [unfolded g(1)] refl f(1) refl f(2,3), of ans wb] f(1) dev
      by (auto simp: e_def m_def s_def split: if_splits)
    have len: "length ks = length (c_list c)" using inv by (auto simp: core_inv_def dest: list_all2_lengthD)
    have at: "entry_at c' = entry_at c" by (simp add: fun_eq_iff c' entry_at_def)
    have "entry_at c e g" by (simp add: entry_at_def e_def m_def s_def)
    then have all2: "list_all2 (entry_at c') (c_list c') (take p ks @ g # drop p ks)"
      using inv unfolding at by (auto simp: core_inv_def c' intro!: list_all2_appendI list_all2_takeI list_all2_dropI)
    have srt: "sorted_wrt (<) (take p ks @ g # drop p ks)"
      using inv g(6,7) by (auto simp: core_inv_def sorted_wrt_append intro: sorted_wrt_take sorted_wrt_drop)
        (meson order.strict_trans)
    have ws: "set (c_list c') = insert e (set (c_list c))"
      unfolding c' by simp (metis append_take_drop_id set_append)
    have e_new: "e \<notin> set (c_list c)" using new by (force simp: e_def)
    have dl: "distinct (map e_wb (c_list c'))"
    proof -
      define A where "A = take p (c_list c)"
      define B where "B = drop p (c_list c)"
      have xs: "c_list c = A @ B" by (simp add: A_def B_def)
      have "distinct (map e_wb (A @ B))" "wb \<notin> e_wb ` set (A @ B)"
        using inv new unfolding xs by (simp_all add: core_inv_def xs)
      moreover have "c_list c' = A @ e # B" by (simp add: c' A_def B_def)
      ultimately show ?thesis by (auto simp: e_def)
    qed
    have kb: "\<forall>k \<in> set (take p ks @ g # drop p ks). k < unat (c_max c)"
      using inv g(3) by (auto simp: core_inv_def dest: in_set_takeD in_set_dropD)
    have cd: "c_cdevs c' = e_master_dev ` set (c_list c') \<union> e_slave_dev ` set (c_list c')"
      unfolding ws using inv by (auto simp: core_inv_def c' e_def)
    have "c_devices c' = c_cdevs c'" using dev by (simp add: c')
    moreover have "regions_ok c'" using inv by (simp add: core_inv_def regions_ok_def c')
    moreover have "c_max c' = c_max c" by (simp add: c')
    ultimately have inv': "core_inv c' (take p ks @ g # drop p ks)"
      using srt kb all2 dl cd unfolding core_inv_def by simp
    have found: "find (\<lambda>x. e_wb x = wb) (c_list c') = Some e"
    proof -
      have "\<forall>x \<in> set (take p (c_list c)). e_wb x \<noteq> wb" using new by (auto dest: in_set_takeD)
      then show ?thesis unfolding c' by (simp add: find_skip e_def)
    qed
    have rem: "remove1 e (c_list c') = c_list c"
      using e_new by (simp add: c' remove1_append) (auto dest: in_set_takeD)
    have "c'\<lparr>c_list := c_list c, c_devices := c_devices c' - {s} - {m}, c_cdevs := c_cdevs c' - {s} - {m}\<rparr> = c"
      by (rule wb_core.equality) (use f dev in \<open>auto simp: c' m_def [symmetric] s_def [symmetric]\<close>)
    then have "wishbone_unregister wb c' = (c, 0)"
      unfolding wishbone_unregister_def found rem option.case by (simp add: e_def)
    then show ?thesis
      using g len inv' by (intro exI [of _ g] exI [of _ p]) (auto simp: c' e_def m_def s_def)
  qed
qed

lemma remove_append: "e \<notin> set xs \<Longrightarrow> remove1 e (xs @ e # ys) = xs @ ys"
  by (induction xs) auto

text \<open>Unregistering gives back the devices of the backend, and no others.\<close>

lemma unregister_spec:
  assumes inv: "core_inv c ks" and "wb \<in> e_wb ` set (c_list c)"
  obtains e k c' where "wishbone_unregister wb c = (c', 0)" "e \<in> set (c_list c)" "e_wb e = wb" "k \<in> set ks"
    "entry_at c e k" "core_inv c' (remove1 k ks)" "c_list c' = remove1 e (c_list c)"
proof -
  from assms(2) obtain e where e: "e \<in> set (c_list c)" "e_wb e = wb" by auto
  then obtain A B where xs: "c_list c = A @ e # B" by (meson split_list)
  have all2: "list_all2 (entry_at c) (A @ e # B) ks" using inv by (simp add: core_inv_def xs)
  then obtain A' k B' where ks: "ks = A' @ k # B'" and l: "list_all2 (entry_at c) A A'" "entry_at c e k"
    "list_all2 (entry_at c) B B'"
    by (auto simp: list_all2_append1 list_all2_Cons1)
  have srt: "sorted_wrt (<) (A' @ k # B')" using inv by (simp add: core_inv_def ks)
  have kn: "k \<notin> set A'" "k \<notin> set B'" using srt by (auto simp: sorted_wrt_append)
  have nA: "wb \<notin> e_wb ` set A" using inv e(2) by (auto simp: core_inv_def xs)
  then have wA: "\<forall>x \<in> set A. e_wb x \<noteq> wb" by (metis image_eqI)
  then have eA: "e \<notin> set A" using e(2) by blast
  have n: "\<forall>j \<in> set ks. j < unat (c_max c)" using inv by (simp add: core_inv_def)
  have reg: "unat (MINOR (c_master_first c)) + unat (c_max c) \<le> 2 ^ 20" "unat (MINOR (c_slave_first c)) + unat (c_max c) \<le> 2 ^ 20"
    "MAJOR (c_master_first c) \<noteq> MAJOR (c_slave_first c)"
    using inv by (auto simp: core_inv_def regions_ok_def)
  have others: "{e_master_dev x, e_slave_dev x} \<inter> {e_master_dev e, e_slave_dev e} = {}" if x: "x \<in> set A \<union> set B" for x
  proof -
    obtain j where j: "j \<in> set A' \<union> set B'" "entry_at c x j"
      using x all2_set [OF l(1)] all2_set [OF l(3)] by blast
    have jk: "j \<noteq> k" "j < unat (c_max c)" "k < unat (c_max c)" using j(1) kn n by (auto simp: ks)
    have ee: "e_master_dev x = dev_at (c_master_first c) (of_nat j)" "e_slave_dev x = dev_at (c_slave_first c) (of_nat j)"
      "e_master_dev e = dev_at (c_master_first c) (of_nat k)" "e_slave_dev e = dev_at (c_slave_first c) (of_nat k)"
      using j(2) l(2) by (simp_all add: entry_at_def)
    have "e_master_dev x \<noteq> e_master_dev e" using dev_at_inj [OF reg(1) jk(2,3)] jk(1) unfolding ee by blast
    moreover have "e_slave_dev x \<noteq> e_slave_dev e" using dev_at_inj [OF reg(2) jk(2,3)] jk(1) unfolding ee by blast
    moreover have "e_master_dev x \<noteq> e_slave_dev e"
      using dev_at_fields(1) [OF reg(1) jk(2)] dev_at_fields(1) [OF reg(2) jk(3)] reg(3) unfolding ee by metis
    moreover have "e_slave_dev x \<noteq> e_master_dev e"
      using dev_at_fields(1) [OF reg(2) jk(2)] dev_at_fields(1) [OF reg(1) jk(3)] reg(3) unfolding ee by metis
    ultimately show ?thesis by auto
  qed
  define devs where "devs = (\<lambda>xs. e_master_dev ` set xs \<union> e_slave_dev ` set (xs :: wb_entry list))"
  have cd: "c_cdevs c = devs (A @ e # B)" "c_devices c = devs (A @ e # B)"
    using inv by (auto simp: core_inv_def xs devs_def)
  have rest: "devs (A @ e # B) - {e_slave_dev e} - {e_master_dev e} = devs (A @ B)"
    using others by (fastforce simp: devs_def)
  define c' where "c' = c\<lparr>c_list := A @ B, c_devices := devs (A @ B), c_cdevs := devs (A @ B)\<rparr>"
  have "wishbone_unregister wb c = (c', 0)"
    using e(2) eA by (simp add: wishbone_unregister_def xs find_skip wA remove_append c'_def cd rest)
  moreover have at: "entry_at c' = entry_at c" by (simp add: fun_eq_iff c'_def entry_at_def)
  have "core_inv c' (A' @ B')"
    using inv srt l kn unfolding core_inv_def at
    by (auto simp: c'_def regions_ok_def devs_def ks xs sorted_wrt_append intro!: list_all2_appendI)
  then have "core_inv c' (remove1 k ks)" using kn by (simp add: ks remove_append)
  moreover have "c_list c' = remove1 e (c_list c)" using eA by (simp add: c'_def xs remove_append)
  ultimately show ?thesis using that e l(2) by (auto simp: ks)
qed

text \<open>The module's set-up holds everything or nothing.\<close>

lemma init_resources:
  assumes "wishbone_init mx ans = (r, h)"
  shows "h = [] \<or> wishbone_exit h = [] \<and> set h = {Master_class, Slave_class, Master_region, Slave_region}"
    and "r = 0 \<longleftrightarrow> h \<noteq> []"
    and "r = 0 \<Longrightarrow> 0 < unat mx \<and> unat mx \<le> 2 ^ 20"
proof -
  show "h = [] \<or> wishbone_exit h = [] \<and> set h = {Master_class, Slave_class, Master_region, Slave_region}"
    using assms by (auto simp: wishbone_init_def wishbone_exit_def Let_def split: if_splits)
  show "r = 0 \<longleftrightarrow> h \<noteq> []"
    using assms by (auto simp: wishbone_init_def Let_def EIO_def ENOMEM_def split: if_splits)
  assume "r = 0"
  then have "MINOR (MKDEV 0 (mx - 1)) = mx - 1"
    using assms by (auto simp: wishbone_init_def ENOMEM_def split: if_splits)
  then have "mx - 1 = take_bit 20 (mx - 1)" by (simp add: MINOR_def MKDEV_def take_bit_eq_mask)
  then have "unat (mx - 1) = take_bit 20 (unat (mx - 1))" by (metis unsigned_take_bit_eq)
  then have l: "unat (mx - 1) < 2 ^ 20" by (metis take_bit_nat_less_exp)
  have "mx \<noteq> 0"
  proof
    assume z: "mx = 0"
    have m: "unat (0 - 1 :: u32) = 2 ^ 32 - 1"
      by (simp add: unsigned_minus_1_eq_mask mask_eq_exp_minus_1)
    show False using l unfolding z m by simp
  qed
  then have "0 < unat mx" by (simp add: unat_gt_0)
  moreover have "unat (mx - 1) = unat mx - 1" using \<open>mx \<noteq> 0\<close> by (simp add: unat_minus_one)
  ultimately show "0 < unat mx \<and> unat mx \<le> 2 ^ 20" using l by linarith
qed

end
