(* ===== verification/DriverProbe.thy ===== *)
theory DriverProbe
  imports PcieWb SpecWb VmeWb WishboneCore
begin

text \<open>
  The \<open>probe\<close> and \<open>remove\<close> functions of the three bridges: what a driver holds of the kernel's
  resources after each of their exits. The kernel's answers are arguments; the resources held are
  a list, the registration is in the state of \<open>WishboneCore\<close>.
\<close>

datatype kres = Pci_enabled | Driver_data | Bar_region nat | Bar_map nat | Bus_master | Msi_on | Intx_off | Irq

subsection \<open>The PCI Express bridge\<close>

text \<open>\<open>setup_bar\<close> asks for the flags of BAR 0 whatever the BAR; \<open>mem0\<close> says whether that one is
  memory. The address returned by \<open>ioremap_nocache\<close> is not looked at.\<close>

definition pcie_setup_bar :: "bool \<Rightarrow> (nat \<Rightarrow> bool) \<Rightarrow> nat \<Rightarrow> kres list \<Rightarrow> kres list \<times> int" where
  "pcie_setup_bar mem0 region bar h =
     (if \<not> mem0 then (h, - ENOMEM)
      else if \<not> region bar then (h, - ENOMEM)
      else (Bar_map bar # Bar_region bar # h, 0))"

definition destroy_bar :: "nat \<Rightarrow> kres list \<Rightarrow> kres list" where
  "destroy_bar bar h = remove1 (Bar_region bar) (remove1 (Bar_map bar) h)"

record pcie_answers =
  pa_revision :: u8
  pa_enable :: bool
  pa_alloc :: bool
  pa_mem0 :: bool
  pa_region :: "nat \<Rightarrow> bool"
  pa_msi :: bool
  pa_wb :: wb_answers
  pa_irq :: bool

definition pcie_dev_init :: "pcie_bar io_event list \<Rightarrow> pcie_wb_dev" where
  "pcie_dev_init io =
     \<lparr>p_msi = True, p_mutex = False, p_window_offset = 0, p_lanes = lanes_word, p_io = io\<rparr>"

definition pcie_msi_off :: "bool \<Rightarrow> kres list \<Rightarrow> kres list" where
  "pcie_msi_off msi h = (if msi then remove1 Msi_on (remove1 Intx_off h) else h)"

text \<open>The result, the resources held, the registered backends, the device when there is one.
  \<open>wb\<close> names the backend.\<close>

definition pcie_probe ::
    "pcie_answers \<Rightarrow> nat \<Rightarrow> wb_core \<Rightarrow> pcie_bar io_event list \<Rightarrow> int \<times> kres list \<times> wb_core \<times> pcie_wb_dev option" where
  "pcie_probe ans wb core io =
     (if pa_revision ans \<noteq> 0x01 then (- EIO, [], core, None)
      else if \<not> pa_enable ans then (- EIO, [], core, None)
      else let h = [Pci_enabled] in
      if \<not> pa_alloc ans then (- EIO, remove1 Pci_enabled h, core, None)
      else let h = Driver_data # h; d = pcie_dev_init io in
      case pcie_setup_bar (pa_mem0 ans) (pa_region ans) 0 h of (h, r0) \<Rightarrow>
      if r0 < 0 then (- EIO, remove1 Pci_enabled (remove1 Driver_data h), core, None)
      else case pcie_setup_bar (pa_mem0 ans) (pa_region ans) 1 h of (h, r1) \<Rightarrow>
      if r1 < 0 then (- EIO, remove1 Pci_enabled (remove1 Driver_data (destroy_bar 0 h)), core, None)
      else let d = p_out Control WINDOW_OFFSET_LOW 4 0 d;
               d = p_out Control CONTROL_REGISTER_HIGH 4 0 d;
               h = Bus_master # h;
               msi = pa_msi ans;
               d = (if msi then d else d\<lparr>p_msi := False\<rparr>);
               h = (if msi then Intx_off # Msi_on # h else h);
               undo = (\<lambda>h. remove1 Pci_enabled (remove1 Driver_data (destroy_bar 0 (destroy_bar 1
                        (remove1 Bus_master (pcie_msi_off msi h)))))) in
      case wishbone_register (pa_wb ans) wb core of (core, rr) \<Rightarrow>
      if rr < 0 then (- EIO, undo h, core, None)
      else if \<not> pa_irq ans then (- EIO, undo h, fst (wishbone_unregister wb core), None)
      else (0, Irq # h, core, Some (pcie_int_enable True d)))"

definition pcie_remove :: "nat \<Rightarrow> kres list \<Rightarrow> wb_core \<Rightarrow> pcie_wb_dev \<Rightarrow> kres list \<times> wb_core" where
  "pcie_remove wb h core d =
     (let d = pcie_int_enable False d;
          h = remove1 Irq h;
          core = fst (wishbone_unregister wb core);
          h = pcie_msi_off (p_msi d) h;
          h = remove1 Bus_master h
      in (remove1 Pci_enabled (remove1 Driver_data (destroy_bar 0 (destroy_bar 1 h))), core))"

lemma pcie_probe_result:
  assumes inv: "core_inv core ks" and new: "wb \<notin> e_wb ` set (c_list core)"
    and r: "pcie_probe ans wb core io = (r, h, core', dev)"
  shows "r \<noteq> 0 \<Longrightarrow> r = - EIO \<and> h = [] \<and> core' = core \<and> dev = None"
    and "r = 0 \<Longrightarrow> \<exists>d. dev = Some d \<and> window_ok e d \<and> \<not> p_mutex d \<and> wb \<in> e_wb ` set (c_list core')
      \<and> pcie_remove wb h core' d = ([], core)"
proof -
  obtain core1 rr where reg: "wishbone_register (pa_wb ans) wb core = (core1, rr)"
    by (cases "wishbone_register (pa_wb ans) wb core")
  note rs = register_spec [OF inv new reg]
  have undone: "rr = 0 \<Longrightarrow> fst (wishbone_unregister wb core1) = core" using rs(3) by auto
  have listed: "rr = 0 \<Longrightarrow> wb \<in> e_wb ` set (c_list core1)" using rs(3) by auto
  have E: "EIO \<noteq> 0" "ENOMEM > 0" by (simp_all add: EIO_def ENOMEM_def)
  note defs = pcie_probe_def pcie_setup_bar_def Let_def destroy_bar_def pcie_msi_off_def reg
  show "r \<noteq> 0 \<Longrightarrow> r = - EIO \<and> h = [] \<and> core' = core \<and> dev = None"
    using r rs(1) undone E by (auto simp: defs split: if_splits)
  assume r0: "r = 0"
  have ok: "rr = 0" "core' = core1" using r r0 rs(1) E by (auto simp: defs split: if_splits)
  obtain d where d: "dev = Some d" "d = pcie_int_enable True (if pa_msi ans then p_out Control CONTROL_REGISTER_HIGH 4 0
      (p_out Control WINDOW_OFFSET_LOW 4 0 (pcie_dev_init io))
    else (p_out Control CONTROL_REGISTER_HIGH 4 0 (p_out Control WINDOW_OFFSET_LOW 4 0 (pcie_dev_init io)))\<lparr>p_msi := False\<rparr>)"
    and h: "h = Irq # (if pa_msi ans then [Intx_off, Msi_on] else [])
      @ [Bus_master, Bar_map 1, Bar_region 1, Bar_map 0, Bar_region 0, Driver_data, Pci_enabled]"
    using r r0 E by (auto simp: defs split: if_splits)
  have "window_ok e d" "\<not> p_mutex d"
    unfolding d(2) by (cases "pa_msi ans"; simp add: pcie_int_enable_def pcie_dev_init_def pcie_defs valid_lanes_word
        take_bit_word_eq_self CONTROL_REGISTER_HIGH_def WINDOW_OFFSET_LOW_def)+
  moreover have "p_msi d = pa_msi ans"
    unfolding d(2) by (simp add: pcie_int_enable_def pcie_dev_init_def Let_def)
  then have "pcie_remove wb h core' d = ([], core)"
    using undone ok h
    by (simp add: pcie_remove_def pcie_int_enable_def Let_def destroy_bar_def pcie_msi_off_def)
  ultimately show "\<exists>d. dev = Some d \<and> window_ok e d \<and> \<not> p_mutex d \<and> wb \<in> e_wb ` set (c_list core')
      \<and> pcie_remove wb h core' d = ([], core)"
    using d(1) ok listed by blast
qed

subsection \<open>The SPEC card\<close>

text \<open>The bridge's device stays enabled and bus master on every way out.\<close>

definition SPEC1_WB_VENDOR_ID :: u16 where "SPEC1_WB_VENDOR_ID = 0x1a39"
definition SPEC1_WB_REVISION_ID :: u8 where "SPEC1_WB_REVISION_ID = 1"
definition SPEC4_WB_VENDOR_ID :: u16 where "SPEC4_WB_VENDOR_ID = 0x10dc"
definition SPEC4_WB_REVISION_ID :: u8 where "SPEC4_WB_REVISION_ID = 3"

definition spec_setup_bar :: "(nat \<Rightarrow> bool) \<Rightarrow> nat \<Rightarrow> kres list \<Rightarrow> kres list \<times> int" where
  "spec_setup_bar region bar h =
     (if \<not> region bar then (h, - ENOMEM) else (Bar_map bar # Bar_region bar # h, 0))"

record spec_answers =
  sa_vendor :: u16
  sa_revision :: u8
  sa_alloc :: bool
  sa_enable :: int
  sa_region :: "nat \<Rightarrow> bool"
  sa_msi :: int
  sa_wb :: wb_answers

definition spec_probe :: "spec_answers \<Rightarrow> nat \<Rightarrow> wb_core \<Rightarrow> int \<times> kres list \<times> wb_core \<times> spec_wb_dev option" where
  "spec_probe ans wb core =
     (if sa_vendor ans = SPEC1_WB_VENDOR_ID \<and> sa_revision ans \<noteq> SPEC1_WB_REVISION_ID then (- EIO, [], core, None)
      else if sa_vendor ans = SPEC4_WB_VENDOR_ID \<and> sa_revision ans \<noteq> SPEC4_WB_REVISION_ID then (- EIO, [], core, None)
      else if \<not> sa_alloc ans then (- ENOMEM, [], core, None)
      else let h = [Driver_data] in
      if sa_enable ans < 0 then (sa_enable ans, remove1 Driver_data h, core, None)
      else let h = Bus_master # Pci_enabled # h;
               d = \<lparr>s_mutex = False, s_lanes = lanes_word, s_io = []\<rparr>;
               msi = \<not> sa_msi ans < 0;
               h = (if msi then Intx_off # Msi_on # h else h);
               fail_msi = (\<lambda>h. remove1 Driver_data (pcie_msi_off msi h)) in
      case spec_setup_bar (sa_region ans) 0 h of (h, r0) \<Rightarrow>
      if r0 < 0 then (- ENOMEM, fail_msi h, core, None)
      else case spec_setup_bar (sa_region ans) 2 h of (h, r1) \<Rightarrow>
      if r1 < 0 then (- ENOMEM, fail_msi (destroy_bar 0 h), core, None)
      else case spec_setup_bar (sa_region ans) 4 h of (h, r2) \<Rightarrow>
      if r2 < 0 then (- ENOMEM, fail_msi (destroy_bar 0 (destroy_bar 2 h)), core, None)
      else case wishbone_register (sa_wb ans) wb core of (core, rr) \<Rightarrow>
      if rr < 0 then (- ENOMEM, fail_msi (destroy_bar 0 (destroy_bar 2 (destroy_bar 4 h))), core, None)
      else (0, h, core, Some d))"

definition spec_remove :: "bool \<Rightarrow> nat \<Rightarrow> kres list \<Rightarrow> wb_core \<Rightarrow> kres list \<times> wb_core" where
  "spec_remove msi wb h core =
     (let core = fst (wishbone_unregister wb core);
          h = destroy_bar 0 (destroy_bar 2 (destroy_bar 4 h));
          h = pcie_msi_off msi h
      in (remove1 Driver_data h, core))"

lemma spec_probe_result:
  assumes inv: "core_inv core ks" and new: "wb \<notin> e_wb ` set (c_list core)"
    and r: "spec_probe ans wb core = (r, h, core', dev)"
  shows "r < 0 \<Longrightarrow> core' = core \<and> dev = None \<and> (h = [] \<or> h = [Bus_master, Pci_enabled])"
    and "r \<ge> 0 \<Longrightarrow> \<exists>d. dev = Some d \<and> valid_lanes e (s_lanes d) \<and> \<not> s_mutex d \<and> wb \<in> e_wb ` set (c_list core')
      \<and> spec_remove (\<not> sa_msi ans < 0) wb h core' = ([Bus_master, Pci_enabled], core)"
proof -
  obtain core1 rr where reg: "wishbone_register (sa_wb ans) wb core = (core1, rr)"
    by (cases "wishbone_register (sa_wb ans) wb core")
  note rs = register_spec [OF inv new reg]
  have undone: "rr = 0 \<Longrightarrow> fst (wishbone_unregister wb core1) = core" using rs(3) by auto
  have listed: "rr = 0 \<Longrightarrow> wb \<in> e_wb ` set (c_list core1)" using rs(3) by auto
  have E: "EIO > 0" "ENOMEM > 0" by (simp_all add: EIO_def ENOMEM_def)
  note defs = spec_probe_def spec_setup_bar_def Let_def destroy_bar_def pcie_msi_off_def reg
  show "r < 0 \<Longrightarrow> core' = core \<and> dev = None \<and> (h = [] \<or> h = [Bus_master, Pci_enabled])"
    using r rs(1) E by (auto simp: defs split: if_splits)
  assume "r \<ge> 0"
  then show "\<exists>d. dev = Some d \<and> valid_lanes e (s_lanes d) \<and> \<not> s_mutex d \<and> wb \<in> e_wb ` set (c_list core')
      \<and> spec_remove (\<not> sa_msi ans < 0) wb h core' = ([Bus_master, Pci_enabled], core)"
    using r rs(1) E undone listed
    by (auto simp: defs spec_remove_def valid_lanes_word split: if_splits)
qed

subsection \<open>The VME bridge\<close>

record vme_answers =
  va_lun :: int
  va_alloc :: bool
  va_map :: "vme_map_win \<Rightarrow> bool \<times> int"  \<comment> \<open>the allocation, \<open>vme_find_mapping\<close>\<close>
  va_unmap :: "vme_map_win \<Rightarrow> int"
  va_wb :: wb_answers
  va_irq :: int

text \<open>What \<open>probe\<close> leaves: the device structure as it was last, whether it was freed, the registered
  backends, whether the interrupt handler is installed.\<close>

record vme_left =
  vl_dev :: vme_wb_dev
  vl_freed :: bool
  vl_core :: wb_core
  vl_irq :: bool

definition vme_dev_init :: "u32 \<Rightarrow> vme_wb_dev" where
  "vme_dev_init slot = \<lparr>v_slot = slot, v_map = (\<lambda>_. None), v_mutex = False, v_window_offset = 0, v_io = []\<rparr>"

definition vme_unmap :: "vme_answers \<Rightarrow> vme_map_win \<Rightarrow> vme_wb_dev \<Rightarrow> vme_wb_dev" where
  "vme_unmap ans w d = fst (vme_unmap_window (va_unmap ans w) d w)"

text \<open>The labels at the end of \<open>vme_probe\<close>, each falling through to the next.\<close>

definition vme_failed_unmap_crcsr :: "vme_answers \<Rightarrow> vme_wb_dev \<Rightarrow> vme_wb_dev" where
  "vme_failed_unmap_crcsr ans d = vme_unmap ans MAP_CR_CSR d"

definition vme_failed_unmap_wb :: "vme_answers \<Rightarrow> vme_wb_dev \<Rightarrow> vme_wb_dev" where
  "vme_failed_unmap_wb ans d = vme_failed_unmap_crcsr ans (vme_unmap ans MAP_CR_CSR (vme_unmap ans MAP_REG d))"

definition vme_fail_irq :: "vme_answers \<Rightarrow> vme_wb_dev \<Rightarrow> vme_wb_dev" where
  "vme_fail_irq ans d = vme_failed_unmap_wb ans (vme_unmap ans MAP_CR_CSR (vme_unmap ans MAP_REG d))"

definition vme_probe ::
    "endian \<Rightarrow> vme_map_win device \<Rightarrow> u32 \<Rightarrow> u32 \<Rightarrow> vme_answers \<Rightarrow> u32 \<Rightarrow> u32 \<Rightarrow> u32 \<Rightarrow> nat \<Rightarrow> wb_core
     \<Rightarrow> int \<times> vme_left option" where
  "vme_probe e hw a32 a24 ans slot vector level wb core =
     (if va_lun ans \<ge> 32 then (- EINVAL, None)
      else if \<not> va_alloc ans then (- ENOMEM, None)
      else let d = vme_dev_init slot;
               left = (\<lambda>d core. Some \<lparr>vl_dev = d, vl_freed = True, vl_core = core, vl_irq = False\<rparr>) in
      case vme_map_window (fst (va_map ans MAP_CR_CSR)) (snd (va_map ans MAP_CR_CSR)) d MAP_CR_CSR of (d, error) \<Rightarrow>
      if error \<noteq> 0 then (error, left d core)
      else case vme_is_present e hw d of (d, present) \<Rightarrow>
      if \<not> present then (- EINVAL, left (vme_failed_unmap_crcsr ans d) core)
      else let d = vme_setup_csr_fa0 a32 a24 slot vector level d in
      case vme_map_window (fst (va_map ans MAP_REG)) (snd (va_map ans MAP_REG)) d MAP_REG of (d, error) \<Rightarrow>
      if error \<noteq> 0 then (error, left (vme_failed_unmap_wb ans d) core)
      else case vme_map_window (fst (va_map ans MAP_CTRL)) (snd (va_map ans MAP_CTRL)) d MAP_CTRL of (d, error) \<Rightarrow>
      if error \<noteq> 0 then (error, left (vme_failed_unmap_wb ans d) core)
      else case wishbone_register (va_wb ans) wb core of (core, rr) \<Rightarrow>
      if rr < 0 then (error, left (vme_failed_unmap_wb ans d) core)
      else if va_irq ans \<noteq> 0 then (error, left (vme_fail_irq ans d) core)
      else (0, Some \<lparr>vl_dev = init_ctrl_reg d, vl_freed = False, vl_core = core, vl_irq = True\<rparr>))"

definition vme_remove :: "vme_answers \<Rightarrow> nat \<Rightarrow> vme_left \<Rightarrow> vme_left" where
  "vme_remove ans wb l =
     (let d = vme_unmap ans MAP_CR_CSR (vl_dev l);
          d = vme_unmap ans MAP_REG d;
          d = vme_unmap ans MAP_CTRL d
      in \<lparr>vl_dev = d, vl_freed = True, vl_core = fst (wishbone_unregister wb (vl_core l)), vl_irq = False\<rparr>)"

text \<open>\<open>vme_init\<close> compares the numbers of parameters given.\<close>

definition vme_init :: "nat \<Rightarrow> nat \<Rightarrow> nat \<Rightarrow> nat \<Rightarrow> int \<Rightarrow> int" where
  "vme_init lun_num slot_num vmebase_num vector_num registered =
     (if lun_num \<noteq> slot_num \<or> lun_num \<noteq> vmebase_num \<or> lun_num \<noteq> vector_num then - EINVAL
      else registered)"

text \<open>Register accesses change no window.\<close>

lemma vme_csr_map [simp]: "v_map (vme_csr_write v off d) = v_map d" "v_slot (vme_csr_write v off d) = v_slot d"
  "v_window_offset (vme_csr_write v off d) = v_window_offset d" "v_mutex (vme_csr_write v off d) = v_mutex d"
  by (simp_all add: vme_csr_write_def iowrite32be_def Let_def v_out_def)

lemma vme_setup_map [simp]:
  "v_map (vme_setup_csr_fa0 a32 a24 b v l d) = v_map d" "v_slot (vme_setup_csr_fa0 a32 a24 b v l d) = v_slot d"
  "v_window_offset (vme_setup_csr_fa0 a32 a24 b v l d) = v_window_offset d" "v_mutex (vme_setup_csr_fa0 a32 a24 b v l d) = v_mutex d"
  by (simp_all add: vme_setup_csr_fa0_def csr_ader_def Let_def)

lemma vme_present_map:
  assumes "vme_is_present e hw d = (d', p)"
  shows "v_map d' = v_map d" "v_slot d' = v_slot d" "v_window_offset d' = v_window_offset d" "v_mutex d' = v_mutex d"
  using assms by (auto simp: vme_is_present_def v_in_def Let_def split: prod.splits)

lemma vme_unmap_map:
  assumes "\<forall>w. va_unmap ans w = 0"
  shows "v_map (vme_unmap ans w d) = (v_map d)(w := None)"
  using assms by (auto simp: vme_unmap_def vme_unmap_window_def fun_eq_iff)

lemma vme_init_ctrl:
  assumes "v_window_offset d = 0"
  shows "vme_window_ok e (init_ctrl_reg d)"
proof -
  have "ntohl e 0 = 0" by (simp add: ntohl_def)
  moreover have "VME_MASTER_CTRL \<noteq> VME_WINDOW_OFFSET_LOW" by (simp add: VME_MASTER_CTRL_def VME_WINDOW_OFFSET_LOW_def)
  ultimately show ?thesis using assms by (simp add: init_ctrl_reg_def vme_defs)
qed

lemma vme_unmap_other: "v_map (vme_unmap ans w d) w' = (if va_unmap ans w = 0 \<and> w = w' then None else v_map d w')"
  by (auto simp: vme_unmap_def vme_unmap_window_def)

lemma map_window_frame:
  "vme_map_window a r d w = (d', x) \<Longrightarrow> v_window_offset d' = v_window_offset d \<and> v_mutex d' = v_mutex d"
  by (auto simp: vme_map_window_def Let_def split: if_splits)

lemma map_window_maps: "vme_map_window a r d w = (d', 0) \<Longrightarrow> v_map d' w' \<noteq> None \<longleftrightarrow> w' = w \<or> v_map d w' \<noteq> None"
  by (auto simp: map_window_result)

lemma vme_init_ctrl_frame [simp]: "v_map (init_ctrl_reg d) = v_map d" "v_mutex (init_ctrl_reg d) = v_mutex d"
  by (simp_all add: init_ctrl_reg_def)

lemma vme_probe_result:
  assumes inv: "core_inv core ks" and new: "wb \<notin> e_wb ` set (c_list core)"
    and rel: "\<forall>w. va_unmap ans w = 0"
    and r: "vme_probe e hw a32 a24 ans slot vector level wb core = (r, Some l)"
  shows "r \<noteq> 0 \<Longrightarrow> vl_freed l \<and> (\<forall>w. v_map (vl_dev l) w = None) \<and> vl_core l = core \<and> \<not> vl_irq l"
    and "\<not> vl_freed l \<Longrightarrow> r = 0 \<and> (\<forall>w. v_map (vl_dev l) w \<noteq> None) \<and> vme_window_ok e (vl_dev l)
      \<and> \<not> v_mutex (vl_dev l) \<and> vl_irq l \<and> wb \<in> e_wb ` set (c_list (vl_core l))
      \<and> (\<forall>w. v_map (vl_dev (vme_remove ans wb l)) w = None) \<and> vl_core (vme_remove ans wb l) = core"
    and "r = 0 \<Longrightarrow> vl_freed l \<Longrightarrow> v_map (vl_dev l) MAP_CTRL \<noteq> None
      \<and> (vl_core l = core \<or> wb \<in> e_wb ` set (c_list (vl_core l)))"
proof -
  define m where "m = (\<lambda>w d. vme_map_window (fst (va_map ans w)) (snd (va_map ans w)) d w)"
  obtain d1 x1 where m1: "m MAP_CR_CSR (vme_dev_init slot) = (d1, x1)" by fastforce
  obtain d2 p where pr: "vme_is_present e hw d1 = (d2, p)" by fastforce
  define d3 where "d3 = vme_setup_csr_fa0 a32 a24 slot vector level d2"
  obtain d4 x4 where m4: "m MAP_REG d3 = (d4, x4)" by fastforce
  obtain d5 x5 where m5: "m MAP_CTRL d4 = (d5, x5)" by fastforce
  obtain core1 rr where reg: "wishbone_register (va_wb ans) wb core = (core1, rr)" by fastforce
  note rs = register_spec [OF inv new reg]
  have undone: "rr = 0 \<Longrightarrow> fst (wishbone_unregister wb core1) = core" using rs(3) by auto
  have listed: "rr = 0 \<Longrightarrow> wb \<in> e_wb ` set (c_list core1)" using rs(3) by auto
  have E: "EINVAL > 0" "ENOMEM > 0" by (simp_all add: EINVAL_def ENOMEM_def)
  have w0: "v_map (vme_dev_init slot) w = None" for w by (simp add: vme_dev_init_def)
  have maps: "v_map d3 = v_map d1" using vme_present_map [OF pr] by (simp add: d3_def)
  have f1: "x1 = 0 \<Longrightarrow> v_map d1 w \<noteq> None \<longleftrightarrow> w = MAP_CR_CSR" "x1 \<noteq> 0 \<Longrightarrow> v_map d1 w = None" for w
    using map_window_maps [of _ _ "vme_dev_init slot" MAP_CR_CSR d1 w] map_window_failed [of _ _ "vme_dev_init slot" MAP_CR_CSR d1 x1]
      m1 w0 unfolding m_def by auto
  have f4: "x4 = 0 \<Longrightarrow> v_map d4 w \<noteq> None \<longleftrightarrow> w = MAP_REG \<or> v_map d1 w \<noteq> None" "x4 \<noteq> 0 \<Longrightarrow> v_map d4 = v_map d1" for w
    using map_window_maps [of _ _ d3 MAP_REG d4 w] map_window_failed [of _ _ d3 MAP_REG d4 x4] m4 maps
    unfolding m_def by auto
  have f5: "x5 = 0 \<Longrightarrow> v_map d5 w \<noteq> None \<longleftrightarrow> w = MAP_CTRL \<or> v_map d4 w \<noteq> None" "x5 \<noteq> 0 \<Longrightarrow> v_map d5 = v_map d4" for w
    using map_window_maps [of _ _ d4 MAP_CTRL d5 w] map_window_failed [of _ _ d4 MAP_CTRL d5 x5] m5
    unfolding m_def by auto
  have off: "v_window_offset d5 = 0" "\<not> v_mutex d5"
    using map_window_frame m1 m4 m5 vme_present_map [OF pr]
    by (auto simp: m_def d3_def vme_dev_init_def)
  have all_win: "w = MAP_CR_CSR \<or> w = MAP_REG \<or> w = MAP_CTRL" for w by (cases w) auto
  define left where "left = (\<lambda>d core. Some \<lparr>vl_dev = d, vl_freed = True, vl_core = core, vl_irq = False\<rparr>)"
  have p: "(r, Some l) = (if x1 \<noteq> 0 then (x1, left d1 core)
      else if \<not> p then (- EINVAL, left (vme_failed_unmap_crcsr ans d2) core)
      else if x4 \<noteq> 0 then (x4, left (vme_failed_unmap_wb ans d4) core)
      else if x5 \<noteq> 0 then (x5, left (vme_failed_unmap_wb ans d5) core)
      else if rr < 0 then (0, left (vme_failed_unmap_wb ans d5) core1)
      else if va_irq ans \<noteq> 0 then (0, left (vme_fail_irq ans d5) core1)
      else (0, Some \<lparr>vl_dev = init_ctrl_reg d5, vl_freed = False, vl_core = core1, vl_irq = True\<rparr>))"
    using r m1 pr m4 m5 reg unfolding vme_probe_def Let_def m_def [symmetric] d3_def [symmetric]
    by (auto simp: m_def d3_def left_def split: if_splits)
  note un = vme_failed_unmap_crcsr_def vme_failed_unmap_wb_def vme_fail_irq_def vme_unmap_other rel
  have u2: "x1 = 0 \<Longrightarrow> v_map (vme_failed_unmap_crcsr ans d2) w = None" for w
    using f1(1) [of w] vme_present_map(1) [OF pr] by (auto simp: un)
  have u4: "x1 = 0 \<Longrightarrow> x4 \<noteq> 0 \<Longrightarrow> v_map (vme_failed_unmap_wb ans d4) w = None" for w
    using f1(1) [of w] f4(2) by (auto simp: un)
  have u5: "x1 = 0 \<Longrightarrow> x4 = 0 \<Longrightarrow> x5 \<noteq> 0 \<Longrightarrow> v_map (vme_failed_unmap_wb ans d5) w = None" for w
    using f1(1) [of w] f4(1) [of w] f5(2) by (auto simp: un)
  have full: "x1 = 0 \<Longrightarrow> x4 = 0 \<Longrightarrow> x5 = 0 \<Longrightarrow> v_map d5 w \<noteq> None" for w
    using f1(1) [of w] f4(1) [of w] f5(1) [of w] all_win [of w] by auto
  have leak: "x1 = 0 \<Longrightarrow> x4 = 0 \<Longrightarrow> x5 = 0 \<Longrightarrow> v_map (vme_failed_unmap_wb ans d5) MAP_CTRL \<noteq> None"
    "x1 = 0 \<Longrightarrow> x4 = 0 \<Longrightarrow> x5 = 0 \<Longrightarrow> v_map (vme_fail_irq ans d5) MAP_CTRL \<noteq> None"
    using full [of MAP_CTRL] by (simp_all add: un)
  have gone: "v_map (vl_dev (vme_remove ans wb l)) w = None" for w
    using all_win [of w] by (auto simp: vme_remove_def Let_def un)
  show "r \<noteq> 0 \<Longrightarrow> vl_freed l \<and> (\<forall>w. v_map (vl_dev l) w = None) \<and> vl_core l = core \<and> \<not> vl_irq l"
    using p f1(2) u2 u4 u5 by (auto simp: left_def split: if_splits)
  show "\<not> vl_freed l \<Longrightarrow> r = 0 \<and> (\<forall>w. v_map (vl_dev l) w \<noteq> None) \<and> vme_window_ok e (vl_dev l)
      \<and> \<not> v_mutex (vl_dev l) \<and> vl_irq l \<and> wb \<in> e_wb ` set (c_list (vl_core l))
      \<and> (\<forall>w. v_map (vl_dev (vme_remove ans wb l)) w = None) \<and> vl_core (vme_remove ans wb l) = core"
  proof -
    assume "\<not> vl_freed l"
    then have l: "l = \<lparr>vl_dev = init_ctrl_reg d5, vl_freed = False, vl_core = core1, vl_irq = True\<rparr>"
      and ok: "r = 0" "x1 = 0" "x4 = 0" "x5 = 0" "\<not> rr < 0"
      using p by (auto simp: left_def split: if_splits)
    have rr: "rr = 0" using rs(1) ok(5) E by auto
    have "vl_core (vme_remove ans wb l) = core" using undone [OF rr] by (simp add: vme_remove_def Let_def l)
    then show ?thesis
      using gone full [OF ok(2-4)] vme_init_ctrl [OF off(1), of e] off(2) listed [OF rr] ok(1) by (simp add: l)
  qed
  show "r = 0 \<Longrightarrow> vl_freed l \<Longrightarrow> v_map (vl_dev l) MAP_CTRL \<noteq> None
      \<and> (vl_core l = core \<or> wb \<in> e_wb ` set (c_list (vl_core l)))"
    using p leak rs(1) listed E by (auto simp: left_def split: if_splits)
qed

end
