(* ===== verification/WishboneDemo.thy ===== *)
theory WishboneDemo
  imports EtherboneSystem SlaveBus DriverProbe
begin

text \<open>
  The concrete states and inputs of the witnesses: a fresh master context, a bridge whose registers
  all read zero, the greeting of the protocol.
\<close>

definition demo_ctx :: eb_master where
  "demo_ctx = \<lparr>m_state = Header, m_sent = 0, m_processed = 0, m_received = 0, m_buf = replicate 8192 0\<rparr>"

definition zero_hw :: "'r device" where
  "zero_hw io r off w = 0"

definition demo_pcie :: pcie_wb_dev where
  "demo_pcie = pcie_dev_init []"

definition demo_hello :: "u8 list" where
  "demo_hello = [0x4E, 0x6F, 0x11, 0x44, 0, 0, 0, 7]"

text \<open>A record with the two low lanes enabled: one write, one read.\<close>

definition demo_record :: "u8 list" where
  "demo_record = [0, 0x3, 1, 1, 0, 0, 1, 0, 0xDE, 0xAD, 0xBE, 0xEF, 0, 0, 0, 0, 0, 0, 3, 0]"

lemma demo_ctx: "master_inv demo_ctx" "readable demo_ctx = []" "pending_in demo_ctx = []" "m_state demo_ctx = Header"
  using master_open_inv [of "replicate 8192 0" demo_ctx] by (simp_all add: demo_ctx_def char_master_open_def)

lemma demo_pcie: "window_ok e demo_pcie" "\<not> p_mutex demo_pcie"
  by (simp_all add: demo_pcie_def pcie_dev_init_def window_ok_def valid_lanes_word)

lemma demo_hello_len: "uint_length [demo_hello] = 8" "take 8 (concat [demo_hello]) = demo_hello"
  by (simp_all add: uint_length_def iov_length_def demo_hello_def)

lemma demo_hello_input: "eb_input wops Header b demo_hello = Some ([0x4E, 0x6F, 0x12, 0x44, 0, 0, 0, 7], [], Idle, b)"
  by (simp add: eb_input_def demo_hello_def eb_hello_def chunk_def eb_stream.simps)

lemma demo_hello_fits:
  "8 = min (8192 - length (readable demo_ctx) - length (pending_in demo_ctx)) (uint_length [demo_hello])"
  "pending_in demo_ctx @ take 8 (concat [demo_hello]) = demo_hello" "uint_length [demo_hello] \<noteq> 0"
  by (simp_all add: demo_ctx demo_hello_len(1)) (simp add: demo_hello_def)

lemma demo_ok: "\<forall>i :: nat. (\<lambda>_. True) i"
  by simp

text \<open>One file open, nothing written.\<close>

lemma demo_reach:
  "sys_reach Little (pcie_wb_ops Little zero_hw) demo_pcie \<lparr>y_files = (\<lambda>_. None)(0 \<mapsto> demo_ctx), y_bus = demo_pcie\<rparr>"
proof -
  let ?init = "\<lparr>y_files = \<lambda>_. None, y_bus = demo_pcie\<rparr>"
  have o: "char_master_open True (replicate 8192 0) = Inr demo_ctx" by (simp add: char_master_open_def demo_ctx_def)
  have "y_files ?init 0 = None" by simp
  moreover have "length (replicate 8192 (0 :: u8)) = 8192" by (rule length_replicate)
  ultimately have "sys_step Little (pcie_wb_ops Little zero_hw) ?init (?init\<lparr>y_files := (y_files ?init)(0 \<mapsto> demo_ctx)\<rparr>)"
    using o by (rule sys_open)
  then show ?thesis by (intro reach_step [OF reach_init]) simp
qed

text \<open>A master context after the greeting, its answer not read yet.\<close>

lemma demo_idle:
  obtains c where "master_inv c" "m_state c = Idle" "pending_in c = []" "length (readable c) + length demo_record \<le> 8192"
proof -
  have "pending_in demo_ctx @ take 8 (concat [demo_hello]) = demo_hello" by (simp add: demo_ctx) (simp add: demo_hello_def)
  note step = master_write_step [OF demo_ctx(1) demo_ok demo_hello_fits(3,1), where wops = "pcie_wb_ops Little zero_hw"
    and b = demo_pcie and e = Little and nb = False, unfolded this demo_ctx(4) demo_hello_input option.case prod.case demo_ctx(2)]
  then show ?thesis using that by (fastforce simp: demo_record_def)
qed

lemma demo_record:
  "concat [take 3 demo_record, drop 3 demo_record] = demo_record" "length demo_record = record_len (demo_record ! 2) (demo_record ! 3)"
  "demo_record ! 0 AND ETHERBONE_RCA = 0" "rec_writes demo_record = [(0x100, 0xDEADBEEF)]" "rec_reads demo_record = [0x300]"
  "length demo_record = 20"
proof -
  show "rec_writes demo_record = [(0x100, 0xDEADBEEF)]" "rec_reads demo_record = [0x300]" by code_simp+
qed (simp_all add: demo_record_def record_len_def)

end
