(* ===== verification/WishboneProperties.thy ===== *)
theory WishboneProperties
  imports WishboneDemo
begin

text \<open>
  The properties of the master character device and of the transfers the bridges make for it, each
  with a witness where it has hypotheses.
\<close>

subsection \<open>The master device\<close>

text \<open>C1: Writing to the master device takes as much as fits in the ring and answers it at once: the
  context, seen as the queue of answers not yet read and the queue of input not yet processed, does
  what the protocol \<open>eb_input\<close> says of the pending input and the bytes taken, wherever in the ring
  the queues lie; it blocks only if the protocol does.\<close>

theorem master_write_protocol:
  fixes iov :: "u8 list list"
  assumes "master_inv c" and "\<forall>i. ok i" and "uint_length iov \<noteq> 0"
    and "n = min (8192 - length (readable c) - length (pending_in c)) (uint_length iov)"
  shows "case eb_input wops (m_state c) b (pending_in c @ take n (concat iov)) of
      None \<Rightarrow> char_master_aio_write e wops ok False nb c b iov = None
    | Some (out, rest, st', b') \<Rightarrow> \<exists>c'. char_master_aio_write e wops ok False nb c b iov
          = Some (c', b', if n = 0 \<and> nb then - EAGAIN else int n)
        \<and> master_inv c' \<and> m_state c' = st' \<and> readable c' = readable c @ out \<and> pending_in c' = rest"
  by (rule master_write_step [OF assms])

theorem master_write_protocol_witness:
  "\<exists>c'. char_master_aio_write Little (pcie_wb_ops Little zero_hw) (\<lambda>_. True) False False demo_ctx demo_pcie [demo_hello]
      = Some (c', demo_pcie, 8)
    \<and> readable c' = [0x4E, 0x6F, 0x12, 0x44, 0, 0, 0, 7] \<and> pending_in c' = []"
proof -
  have "\<exists>c'. char_master_aio_write Little (pcie_wb_ops Little zero_hw) (\<lambda>_. True) False False demo_ctx demo_pcie [demo_hello]
      = Some (c', demo_pcie, if (8::nat) = 0 \<and> False then - EAGAIN else int 8)
    \<and> master_inv c' \<and> m_state c' = Idle \<and> readable c' = readable demo_ctx @ [0x4E, 0x6F, 0x12, 0x44, 0, 0, 0, 7]
    \<and> pending_in c' = []"
    using master_write_protocol [OF demo_ctx(1) demo_ok demo_hello_fits(3,1), where wops = "pcie_wb_ops Little zero_hw"
        and b = demo_pcie and e = Little and nb = False]
    unfolding demo_hello_fits(2) demo_ctx(4) demo_hello_input option.case prod.case .
  then show ?thesis by (auto simp: demo_ctx(2))
qed

text \<open>C15: Reading from the master device delivers the oldest answers, as many as fit, into the user's
  segments, and removes just these.\<close>

theorem master_read_fifo:
  fixes iov :: "u8 list list"
  assumes "master_inv c" and "\<forall>i. ok i" and "uint_length iov \<noteq> 0"
    and "n = min (length (readable c)) (uint_length iov)"
  shows "\<exists>c' iov'. char_master_aio_read ok False nb c iov
        = Some (c', iov', if n = 0 \<and> nb then - EAGAIN else int n)
      \<and> concat iov' = put 0 (take n (readable c)) (concat iov) \<and> map length iov' = map length iov
      \<and> master_inv c' \<and> m_state c' = m_state c
      \<and> readable c' = drop n (readable c) \<and> pending_in c' = pending_in c"
  by (rule master_read_step [OF assms])

theorem master_read_fifo_witness:
  "\<exists>c c' iov'. char_master_aio_read (\<lambda>_. True) False False c [[1, 2, 3], [4, 5]] = Some (c', iov', 5)
    \<and> concat iov' = [0x4E, 0x6F, 0x12, 0x44, 0] \<and> readable c' = [0, 0, 7]"
proof -
  obtain c where c: "master_inv c" "readable c = readable demo_ctx @ [0x4E, 0x6F, 0x12, 0x44, 0, 0, 0, 7]"
    using master_write_step [OF demo_ctx(1) demo_ok demo_hello_fits(3,1), where wops = "pcie_wb_ops Little zero_hw"
        and b = demo_pcie and e = Little and nb = False]
    unfolding demo_hello_fits(2) demo_ctx(4) demo_hello_input option.case prod.case by blast
  have "uint_length [[1, 2, 3 :: u8], [4, 5]] = 5" by (simp add: uint_length_def iov_length_def)
  then have n: "5 = min (length (readable c)) (uint_length [[1, 2, 3 :: u8], [4, 5]])" "uint_length [[1, 2, 3 :: u8], [4, 5]] \<noteq> 0"
    by (simp_all add: c(2) demo_ctx(2))
  show ?thesis
    using master_read_fifo [OF c(1) demo_ok n(2,1), where nb = False]
    by (auto simp: put_def c(2) demo_ctx(2))
qed

text \<open>C19: The way the input is cut into writes does not matter: if there is room for both, one write
  after another leaves the same answers, the same unprocessed input, the same state and the same bus
  as one write of both.\<close>

theorem master_write_pieces:
  fixes iov1 iov2 :: "u8 list list"
  assumes "master_inv c" and "\<forall>i. ok i" and "0 < iov_length iov1" and "0 < iov_length iov2"
    and "length (readable c) + length (pending_in c) + iov_length (iov1 @ iov2) \<le> 8192"
    and "char_master_aio_write e wops ok False nb c b iov1 = Some (c1, b1, r1)"
    and "char_master_aio_write e wops ok False nb c1 b1 iov2 = Some (c2, b2, r2)"
  shows "\<exists>c'. char_master_aio_write e wops ok False nb c b (iov1 @ iov2) = Some (c', b2, r1 + r2)
    \<and> readable c' = readable c2 \<and> pending_in c' = pending_in c2 \<and> m_state c' = m_state c2"
proof -
  define xs where "xs = concat iov1"
  define ys where "ys = concat iov2"
  have l: "iov_length iov1 = length xs" "iov_length iov2 = length ys" "iov_length (iov1 @ iov2) = length xs + length ys"
    by (simp_all add: iov_length_def xs_def ys_def)
  have u: "uint_length iov1 = length xs" "uint_length iov2 = length ys" "uint_length (iov1 @ iov2) = length xs + length ys"
    using assms(5) unfolding uint_length_def l by simp_all
  have pos: "uint_length iov1 \<noteq> 0" "uint_length iov2 \<noteq> 0" "uint_length (iov1 @ iov2) \<noteq> 0"
    using assms(3,4) unfolding u l by simp_all
  have fit1: "length xs = min (8192 - length (readable c) - length (pending_in c)) (uint_length iov1)"
    and fit12: "length xs + length ys = min (8192 - length (readable c) - length (pending_in c)) (uint_length (iov1 @ iov2))"
    using assms(5) unfolding u l by simp_all
  have tk: "take (length xs) (concat iov1) = xs" "take (length ys) (concat iov2) = ys"
    "take (length xs + length ys) (concat (iov1 @ iov2)) = xs @ ys" by (simp_all add: xs_def ys_def)
  obtain o1 p1 where e1: "eb_input wops (m_state c) b (pending_in c @ xs) = Some (o1, p1, m_state c1, b1)"
    and c1: "r1 = int (length xs)" "master_inv c1" "readable c1 = readable c @ o1" "pending_in c1 = p1"
    using master_write_step [OF assms(1,2) pos(1) fit1, where wops = wops and b = b and e = e and nb = nb] assms(3,6)
    unfolding tk l by (auto split: option.splits)
  have fit2: "length ys = min (8192 - length (readable c1) - length (pending_in c1)) (uint_length iov2)"
    using length_eb_input [OF e1] assms(5) unfolding c1(3,4) u l by simp
  obtain o2 p2 where e2: "eb_input wops (m_state c1) b1 (p1 @ ys) = Some (o2, p2, m_state c2, b2)"
    and c2: "r2 = int (length ys)" "readable c2 = readable c1 @ o2" "pending_in c2 = p2"
    using master_write_step [OF c1(2) assms(2) pos(2) fit2, where wops = wops and b = b1 and e = e and nb = nb] assms(4,7)
    unfolding tk l c1(4) by (auto split: option.splits)
  have "eb_input wops (m_state c) b (pending_in c @ xs @ ys) = Some (o1 @ o2, p2, m_state c2, b2)"
    using eb_input_append [of wops "m_state c" b "pending_in c @ xs" ys] e1 e2 by simp
  then show ?thesis
    using master_write_step [OF assms(1,2) pos(3) fit12, where wops = wops and b = b and e = e and nb = nb] assms(3) c1 c2
    unfolding tk l by auto
qed

theorem master_write_pieces_witness:
  "\<exists>c1 c2 c' b2 r. char_master_aio_write Little (pcie_wb_ops Little zero_hw) (\<lambda>_. True) False True demo_ctx demo_pcie
        [take 3 demo_hello] = Some (c1, demo_pcie, 3)
    \<and> char_master_aio_write Little (pcie_wb_ops Little zero_hw) (\<lambda>_. True) False True c1 demo_pcie
        [drop 3 demo_hello, demo_record] = Some (c2, b2, r)
    \<and> char_master_aio_write Little (pcie_wb_ops Little zero_hw) (\<lambda>_. True) False True demo_ctx demo_pcie
        ([take 3 demo_hello] @ [drop 3 demo_hello, demo_record]) = Some (c', b2, 3 + r)
    \<and> readable c' = readable c2"
proof -
  define wops :: "pcie_wb_dev wishbone_operations" where "wops = pcie_wb_ops Little zero_hw"
  have l: "0 < iov_length [take 3 demo_hello]" "0 < iov_length [drop 3 demo_hello, demo_record]"
    "length (readable demo_ctx) + length (pending_in demo_ctx)
      + iov_length ([take 3 demo_hello] @ [drop 3 demo_hello, demo_record]) \<le> 8192"
    by (simp_all add: demo_ctx iov_length_def demo_hello_def demo_record_def)
  have n: "uint_length [take 3 demo_hello] \<noteq> 0"
    "3 = min (8192 - length (readable demo_ctx) - length (pending_in demo_ctx)) (uint_length [take 3 demo_hello])"
    by (simp_all add: demo_ctx uint_length_def iov_length_def demo_hello_def)
  have inp: "eb_input wops Header demo_pcie (pending_in demo_ctx @ take 3 (concat [take 3 demo_hello]))
      = Some ([], take 3 demo_hello, Header, demo_pcie)"
    by (simp add: demo_ctx eb_input_def demo_hello_def)
  obtain c1 where w1: "char_master_aio_write Little wops (\<lambda>_. True) False True demo_ctx demo_pcie [take 3 demo_hello] = Some (c1, demo_pcie, 3)"
    and c1: "master_inv c1" "m_state c1 = Header"
    using master_write_step [OF demo_ctx(1) demo_ok n, where wops = wops and b = demo_pcie and e = Little and nb = True]
    unfolding demo_ctx(4) inp by auto
  have "m_state c1 = Cycle \<longleftrightarrow> p_mutex demo_pcie" using c1(2) demo_pcie(2) by simp
  then obtain c2 b2 r where w2: "char_master_aio_write Little wops (\<lambda>_. True) False True c1 demo_pcie [drop 3 demo_hello, demo_record]
      = Some (c2, b2, r)"
    using pcie.master_write_returns [OF c1(1) demo_ok] unfolding wops_def by blast
  show ?thesis
    using master_write_pieces [OF demo_ctx(1) demo_ok l w1 w2] w1 w2 unfolding wops_def by blast
qed

text \<open>C21: On the PCI Express bridge a write to the master device always returns, whatever is written,
  if the file is inside a cycle exactly when it holds the bus; this is kept, and closing the file
  gives the bus back.\<close>

theorem pcie_write_returns:
  assumes "master_inv c" and "\<forall>i. ok i" and "m_state c = Cycle \<longleftrightarrow> p_mutex d"
  shows "\<exists>c' d' r. char_master_aio_write e (pcie_wb_ops e hw) ok intr nb c d iov = Some (c', d', r)
    \<and> master_inv c' \<and> (m_state c' = Cycle \<longleftrightarrow> p_mutex d')
    \<and> (\<exists>d''. char_master_release (pcie_wb_ops e hw) c' d' = Some d'' \<and> \<not> p_mutex d'')"
  using pcie.master_write_returns [OF assms, where e = e and intr = intr and nb = nb and iov = iov]
    pcie.master_release_free by blast

theorem pcie_write_returns_witness:
  "\<exists>c' d' r. char_master_aio_write Big (pcie_wb_ops Big zero_hw) (\<lambda>_. True) False True demo_ctx demo_pcie
      [demo_hello, [0x20, 0xF, 1, 1]] = Some (c', d', r)"
  using pcie_write_returns [where c = demo_ctx and ok = "\<lambda>_. True" and d = demo_pcie and e = Big and hw = zero_hw
      and intr = False and nb = True and iov = "[demo_hello, [0x20, 0xF, 1, 1]]"]
    demo_ctx demo_pcie by auto

text \<open>C4: Of all files open on a PCI Express bridge at most one is inside a bus cycle, in every state
  reachable by opens, writes, reads and releases in any order; and the bus is held exactly when one
  is.\<close>

theorem pcie_mutual_exclusion:
  assumes "sys_reach e (pcie_wb_ops e' hw) d0 s" and "\<not> p_mutex d0"
  shows "(in_cycle s i \<longrightarrow> in_cycle s j \<longrightarrow> i = j) \<and> (p_mutex (y_bus s) \<longleftrightarrow> (\<exists>k. in_cycle s k))"
  using pcie_x.reach_inv [OF assms] unfolding sys_inv_def by blast

theorem pcie_mutual_exclusion_witness:
  "\<not> in_cycle \<lparr>y_files = (\<lambda>_. None)(0 \<mapsto> demo_ctx), y_bus = demo_pcie\<rparr> 3"
  using pcie_mutual_exclusion [OF demo_reach demo_pcie(2), of 3 3] demo_pcie(2) by simp

text \<open>C22: In every reachable state of the PCI Express bridge in which a file is inside a bus cycle, the
  release of this file can be taken, frees the bus, and lets the next write of every other file
  return.\<close>

theorem pcie_release_frees:
  assumes "sys_reach e (pcie_wb_ops e hw) d0 s" and "\<not> p_mutex d0" and "y_files s i = Some c" and "in_cycle s i"
  shows "\<exists>d'. sys_step e (pcie_wb_ops e hw) s (s\<lparr>y_files := (y_files s)(i := None), y_bus := d'\<rparr>) \<and> \<not> p_mutex d'
    \<and> (\<forall>j d nb iov. j \<noteq> i \<longrightarrow> y_files s j = Some d
        \<longrightarrow> (\<exists>c' d'' r. char_master_aio_write e (pcie_wb_ops e hw) (\<lambda>_. True) False nb d d' iov = Some (c', d'', r)))"
  by (rule pcie_x.release_frees [OF pcie_x.reach_inv [OF assms(1,2)] assms(3,4)])

theorem pcie_release_frees_witness:
  "\<exists>s c d'. sys_reach Little (pcie_wb_ops Little zero_hw) demo_pcie s \<and> y_files s 0 = Some c \<and> in_cycle s 0
    \<and> sys_step Little (pcie_wb_ops Little zero_hw) s (s\<lparr>y_files := (y_files s)(0 := None), y_bus := d'\<rparr>) \<and> \<not> p_mutex d'"
proof -
  define wops :: "pcie_wb_dev wishbone_operations" where "wops = pcie_wb_ops Little zero_hw"
  define s where "s = \<lparr>y_files = (\<lambda>_. None)(0 \<mapsto> demo_ctx), y_bus = demo_pcie\<rparr>"
  have s: "sys_reach Little wops demo_pcie s" "y_files s 0 = Some demo_ctx" "y_bus s = demo_pcie"
    using demo_reach by (simp_all add: s_def wops_def)
  define x where "x = demo_hello @ demo_record"
  have x: "uint_length [x] = 28" "length x = 28" by (simp_all add: uint_length_def iov_length_def x_def demo_hello_def demo_record_def)
  have n: "uint_length [x] \<noteq> 0"
    "28 = min (8192 - length (readable demo_ctx) - length (pending_in demo_ctx)) (uint_length [x])"
    using demo_ctx x by simp_all
  have inp: "pending_in demo_ctx @ take 28 (concat [x]) = x" using demo_ctx(3) x(2) by simp
  have "map_option (\<lambda>(out, rest, st, b). st) (eb_input wops Header demo_pcie x) = Some Cycle"
    unfolding wops_def x_def by code_simp
  then obtain out rest b where e: "eb_input wops Header demo_pcie x = Some (out, rest, Cycle, b)" by auto
  obtain c r where w: "char_master_aio_write Little wops (\<lambda>_. True) False False demo_ctx demo_pcie [x] = Some (c, b, r)"
    "m_state c = Cycle"
    using master_write_step [OF demo_ctx(1) demo_ok n, where wops = wops and b = demo_pcie and e = Little and nb = False]
    unfolding inp demo_ctx(4) e option.case prod.case by blast
  define t where "t = s\<lparr>y_files := (y_files s)(0 \<mapsto> c), y_bus := b\<rparr>"
  have "sys_reach Little wops demo_pcie t"
    unfolding t_def by (rule reach_step [OF s(1)]) (rule sys_write [OF s(2) w(1) [folded s(3)]])
  moreover have "y_files t 0 = Some c" "in_cycle t 0" using w(2) by (simp_all add: t_def in_cycle_def)
  ultimately show ?thesis
    using pcie_release_frees [OF _ demo_pcie(2), where e = Little and hw = zero_hw and s = t and i = 0 and c = c] unfolding wops_def
    by blast
qed

subsection \<open>The transfers on the bus\<close>

text \<open>C3: A record of bus accesses written to the master device of the PCI Express bridge, when
  nothing else is pending, makes its writes, then its reads, in order, at the addresses it gives, on
  the lanes its byte-enable mask selects, wherever the bridge's window was and wherever the ring
  starts; the values read are appended to the answers.\<close>

theorem pcie_record_transfers:
  fixes iov :: "u8 list list"
  assumes "master_inv c" and "\<forall>i. ok i" and "m_state c \<noteq> Header" and "pending_in c = []"
    and "window_ok e d" and "m_state c = Cycle \<longleftrightarrow> p_mutex d"
    and "concat iov = r" and "length r = record_len (r ! 2) (r ! 3)" and "length (readable c) + length r \<le> 8192"
    and "r ! 0 AND ETHERBONE_RCA = 0" and "l = wb_byteenable e (p_lanes d) (r ! 1)"
  shows "\<exists>c' d' vs. char_master_aio_write e (pcie_wb_ops e hw) ok False nb c d iov = Some (c', d', int (length r))
    \<and> length vs = length (rec_reads r) \<and> window_ok e d' \<and> (m_state c' = Cycle \<longleftrightarrow> p_mutex d')
    \<and> pcie_transfers d' = pcie_transfers d @ map (\<lambda>(a, x). lane_write l a x) (rec_writes r)
        @ map (\<lambda>(a, v). lane_read l a v) (zip (rec_reads r) vs)
    \<and> (0 < unat (r ! 3) \<longrightarrow> drop (length (readable c) + 4 * (answer_at r + 2)) (readable c') = concat (map (word_be 4) vs))"
proof -
  have "p_lanes (w_byteenable (pcie_wb_ops e hw) d (r ! 1)) = l"
    by (simp add: pcie_wb_ops_def pcie_wb_byteenable_def assms(11))
  with pcie.master_record_xfers [OF assms(1-10), where e = e and hw = hw and nb = nb] show ?thesis by (simp only:)
qed

theorem pcie_record_transfers_witness:
  "\<exists>c c' d' v. char_master_aio_write Little (pcie_wb_ops Little zero_hw) (\<lambda>_. True) False False c demo_pcie
        [take 3 demo_record, drop 3 demo_record] = Some (c', d', 20)
    \<and> pcie_transfers d' = [Bus_write 0x100 2 0xBEEF, Bus_read 0x300 2 v]"
proof -
  define l where "l = wb_byteenable Little (p_lanes demo_pcie) (demo_record ! 1)"
  obtain c where c: "master_inv c" "m_state c = Idle" "pending_in c = []" "length (readable c) + length demo_record \<le> 8192"
    by (rule demo_idle)
  have st: "m_state c \<noteq> Header" "m_state c = Cycle \<longleftrightarrow> p_mutex demo_pcie" using c(2) demo_pcie(2) by simp_all
  obtain c' d' vs where w: "char_master_aio_write Little (pcie_wb_ops Little zero_hw) (\<lambda>_. True) False False c demo_pcie
        [take 3 demo_record, drop 3 demo_record] = Some (c', d', int (length demo_record))"
    "length vs = length (rec_reads demo_record)"
    "pcie_transfers d' = pcie_transfers demo_pcie @ map (\<lambda>(a, x). lane_write l a x) (rec_writes demo_record)
        @ map (\<lambda>(a, v). lane_read l a v) (zip (rec_reads demo_record) vs)"
    using pcie_record_transfers [OF c(1) demo_ok st(1) c(3) demo_pcie(1) st(2) demo_record(1,2) c(4) demo_record(3) l_def,
      where hw = zero_hw and nb = False] by blast
  obtain v where v: "vs = [v]" using w(2) by (auto simp: demo_record(5) length_Suc_conv)
  have "pcie_transfers demo_pcie = []" "lane_write l 0x100 0xDEADBEEF = Bus_write 0x100 2 0xBEEF"
    unfolding l_def by code_simp+
  moreover have "lane_read l 0x300 v = Bus_read 0x300 2 (take_bit 16 v)"
    by (simp add: lane_read_def l_def demo_record_def wb_byteenable_def endian_addr_def)
  ultimately show ?thesis using w(1,3) by (auto simp: demo_record(4-6) v)
qed

text \<open>C32: On the VME bridge such a record makes its writes and reads as transfers of whole words,
  whatever its byte-enable mask.\<close>

theorem vme_record_transfers:
  fixes iov :: "u8 list list"
  assumes "master_inv c" and "\<forall>i. ok i" and "m_state c \<noteq> Header" and "pending_in c = []"
    and "vme_window_ok e d" and "m_state c = Cycle \<longleftrightarrow> v_mutex d"
    and "concat iov = r" and "length r = record_len (r ! 2) (r ! 3)" and "length (readable c) + length r \<le> 8192"
    and "r ! 0 AND ETHERBONE_RCA = 0"
  shows "\<exists>c' d' vs. char_master_aio_write e (vme_wb_ops e hw) ok False nb c d iov = Some (c', d', int (length r))
    \<and> length vs = length (rec_reads r) \<and> vme_window_ok e d' \<and> (m_state c' = Cycle \<longleftrightarrow> v_mutex d')
    \<and> vme_transfers e d' = vme_transfers e d @ map (\<lambda>(a, x). Bus_write (a AND WBM_ADD_MASK) 4 x) (rec_writes r)
        @ map (\<lambda>(a, v). Bus_read (a AND WBM_ADD_MASK) 4 v) (zip (rec_reads r) vs)
    \<and> (0 < unat (r ! 3) \<longrightarrow> drop (length (readable c) + 4 * (answer_at r + 2)) (readable c') = concat (map (word_be 4) vs))"
  using vme.master_record_xfers [OF assms, where e = e and nb = nb] by simp

theorem vme_record_transfers_witness:
  "\<exists>c c' d' v. char_master_aio_write Big (vme_wb_ops Big zero_hw) (\<lambda>_. True) False False c (vme_dev_init 3)
        [take 3 demo_record, drop 3 demo_record] = Some (c', d', 20)
    \<and> vme_transfers Big d' = [Bus_write 0x100 4 0xDEADBEEF, Bus_read 0x300 4 v]"
proof -
  have d: "vme_window_ok Big (vme_dev_init 3)" "\<not> v_mutex (vme_dev_init 3)" "vme_transfers Big (vme_dev_init 3) = []"
    by (simp_all add: vme_dev_init_def vme_window_ok_def vme_transfers_def)
  obtain c where c: "master_inv c" "m_state c = Idle" "pending_in c = []" "length (readable c) + length demo_record \<le> 8192"
    by (rule demo_idle)
  have st: "m_state c \<noteq> Header" "m_state c = Cycle \<longleftrightarrow> v_mutex (vme_dev_init 3)" using c(2) d(2) by simp_all
  obtain c' d' vs where w: "char_master_aio_write Big (vme_wb_ops Big zero_hw) (\<lambda>_. True) False False c (vme_dev_init 3)
        [take 3 demo_record, drop 3 demo_record] = Some (c', d', int (length demo_record))"
    "length vs = length (rec_reads demo_record)"
    "vme_transfers Big d' = vme_transfers Big (vme_dev_init 3)
        @ map (\<lambda>(a, x). Bus_write (a AND WBM_ADD_MASK) 4 x) (rec_writes demo_record)
        @ map (\<lambda>(a, v). Bus_read (a AND WBM_ADD_MASK) 4 v) (zip (rec_reads demo_record) vs)"
    using vme_record_transfers [OF c(1) demo_ok st(1) c(3) d(1) st(2) demo_record(1,2) c(4) demo_record(3),
      where hw = zero_hw and nb = False] by blast
  obtain v where "vs = [v]" using w(2) by (auto simp: demo_record(5) length_Suc_conv)
  then show ?thesis using w(1,3) by (auto simp: demo_record(4-6) d(3) WBM_ADD_MASK_def)
qed

end
