(* ===== verification/SlaveSystem.thy ===== *)
theory SlaveSystem
  imports SlaveBus
begin

text \<open>
  The slave device over its whole life: any sequence of reads, writes and polls after opening it.
  After fewer than 2^31 of them the count of requests left to answer cannot have overflowed, so
  closing the device answers exactly these.
\<close>

inductive slave_run ::
    "endian \<Rightarrow> 'b wishbone_operations \<Rightarrow> eb_slave \<Rightarrow> 'b \<Rightarrow> nat \<Rightarrow> eb_slave \<Rightarrow> 'b \<Rightarrow> bool"
  for e wops c0 b0 where
  run_open: "slave_run e wops c0 b0 0 c0 b0"
| run_read: "slave_run e wops c0 b0 n c b \<Longrightarrow>
     char_slave_aio_read e wops (\<lambda>_. True) intr nb c b iov = Some (c', b', iov', r) \<Longrightarrow> slave_run e wops c0 b0 (Suc n) c' b'"
| run_write: "slave_run e wops c0 b0 n c b \<Longrightarrow>
     char_slave_aio_write e wops (\<lambda>_. True) intr c b iov = Some (c', b', r) \<Longrightarrow> slave_run e wops c0 b0 (Suc n) c' b'"
| run_poll: "slave_run e wops c0 b0 n c b \<Longrightarrow>
     char_slave_poll e wops c b = (c', b', bits) \<Longrightarrow> slave_run e wops c0 b0 (Suc n) c' b'"

inductive_cases slave_run_0E: "slave_run e wops c0 b0 0 c b"

subsection \<open>Writing never adds to the count\<close>

lemma in_words_pending:
  "slave_in_words e wops wff c b rptr base n = (c', b', r) \<Longrightarrow> unat (sl_pending_err c') \<le> unat (sl_pending_err c)"
proof (induction e wops wff c b rptr base n rule: slave_in_words.induct)
  case (2 e wops wff c b rptr base n)
  have dec: "sl_pending_err c \<noteq> 0 \<Longrightarrow> unat (sl_pending_err c - 1) \<le> unat (sl_pending_err c)"
    by (simp add: unat_minus_one)
  show ?case
    using "2.prems" "2.IH"(1) [OF refl refl refl] "2.IH"(2) [OF refl refl refl _ _ _ refl refl] dec
    by (fastforce simp: Let_def split: if_splits)
qed simp

lemma in_pending:
  "etherbone_slave_in_process e wops c b = (c', b', r) \<Longrightarrow> unat (sl_pending_err c') \<le> unat (sl_pending_err c)"
  using in_words_pending by (auto simp: etherbone_slave_in_process_def Let_def split: if_splits)

lemma bytes_pending:
  assumes "slave_bytes e wops c b xs = (c', b', left)"
  shows "unat (sl_pending_err c') \<le> unat (sl_pending_err c)"
  by (rule slave_bytes_preserves [where P = "\<lambda>c1 b1. unat (sl_pending_err c1) \<le> unat (sl_pending_err c)", OF _ _ order_refl assms])
    (auto dest: in_pending)

lemma out_pending:
  assumes "etherbone_slave_out_process e wops c b = (c', b')" and "unat (sl_pending_err c) + 1 < 2 ^ 32"
  shows "unat (sl_pending_err c') \<le> unat (sl_pending_err c) + 1"
proof -
  have "unat (sl_pending_err c + 1) = unat (sl_pending_err c) + 1" using assms(2) by (simp add: unat_word_ariths(1))
  then show ?thesis
    using assms(1) by (auto simp: etherbone_slave_out_process_def split: if_splits prod.splits option.splits)
qed

text \<open>A read that succeeds takes at most one request off the bus, and hands out bytes.\<close>

lemma aio_read_cases:
  assumes "char_slave_aio_read e wops ok intr nb c b iov = Some (c', b', iov', r)"
  shows "c' = c \<and> b' = b \<or> (\<exists>c1 k. etherbone_slave_out_process e wops c b = (c1, b')
    \<and> c' = c1\<lparr>sl_rbuf_done := sl_rbuf_done c1 + k\<rparr>)"
proof (cases "uint_length iov = 0 \<or> intr")
  case True
  then show ?thesis using assms by (auto simp: char_slave_aio_read_def Let_def split: if_splits)
next
  case False
  obtain c1 b1 where o: "etherbone_slave_out_process e wops c b = (c1, b1)" by fastforce
  have "b' = b1 \<and> (\<exists>k. c' = c1\<lparr>sl_rbuf_done := sl_rbuf_done c1 + k\<rparr>)"
    using assms False unfolding char_slave_aio_read_def Let_def o
    by (auto simp: bind_eq_Some_conv)
  then show ?thesis using o by blast
qed

subsection \<open>The invariant of a run\<close>

context wb_requests
begin

lemma run_counted:
  assumes "slave_run e wops c0 b0 n c b" and "counted c0 b0" and "sl_pending_err c0 = 0" and "n < 2 ^ 31"
  shows "counted c b \<and> unat (sl_pending_err c) \<le> n"
  using assms
proof (induction rule: slave_run.induct)
  case (run_read n c b intr nb iov c' b' iov' r)
  have IH: "counted c b" "unat (sl_pending_err c) \<le> n" using run_read.IH run_read.prems by simp_all
  have small: "unat (sl_pending_err c) + 1 < 2 ^ 32" using IH(2) run_read.prems(3) by simp
  from aio_read_cases [OF run_read.hyps(2)] show ?case
  proof
    assume "\<exists>c1 k. etherbone_slave_out_process e wops c b = (c1, b') \<and> c' = c1\<lparr>sl_rbuf_done := sl_rbuf_done c1 + k\<rparr>"
    then obtain c1 k where o: "etherbone_slave_out_process e wops c b = (c1, b')"
      and c': "c' = c1\<lparr>sl_rbuf_done := sl_rbuf_done c1 + k\<rparr>" by blast
    show ?thesis using out_counted [OF IH(1) small o] out_pending [OF o small] IH(2) by (simp add: c' counted_def)
  qed (use IH in simp)
next
  case (run_write n c b intr iov c' b' r)
  have IH: "counted c b" "unat (sl_pending_err c) \<le> n" using run_write.IH run_write.prems by simp_all
  show ?case
  proof (cases intr)
    case True
    then show ?thesis using IH run_write.hyps(2) by (simp add: char_slave_aio_write_def Let_def)
  next
    case False
    obtain left where "slave_bytes e wops c b (take (uint_length iov) (concat iov)) = (c', b', left)"
      using run_write.hyps(2) slave_write_bytes [of "\<lambda>_. True" e wops c b iov] False by (auto split: prod.splits)
    from bytes_counted [OF IH(1) this] bytes_pending [OF this] show ?thesis using IH(2) by simp
  qed
next
  case (run_poll n c b c' b' bits)
  have IH: "counted c b" "unat (sl_pending_err c) \<le> n" using run_poll.IH run_poll.prems by simp_all
  have small: "unat (sl_pending_err c) + 1 < 2 ^ 32" using IH(2) run_poll.prems(3) by simp
  have o: "etherbone_slave_out_process e wops c b = (c', b')"
    using run_poll.hyps(2) by (auto simp: char_slave_poll_def split: prod.splits)
  show ?case using out_counted [OF IH(1) small o] out_pending [OF o small] IH(2) by simp
qed simp

lemma run_release:
  assumes "slave_run e wops c0 b0 n c b" and "counted c0 b0" and "sl_pending_err c0 = 0" and "n < 2 ^ 31"
    and "char_slave_release wops c b = (b', r)"
  shows "open_requests b = int (unat (sl_pending_err c)) \<and> open_requests b' = 0
    \<and> r = (if open_requests b = 0 then 0 else - EIO)"
  using run_counted [OF assms(1-4)] release_closes [OF _ _ assms(5)] assms(4) by (simp add: counted_def)

end

text \<open>The buffers stay within their bounds.\<close>

lemma run_inv: "slave_run e wops c0 b0 n c b \<Longrightarrow> slave_inv c0 \<Longrightarrow> slave_inv c"
proof (induction rule: slave_run.induct)
  case (run_read n c b intr nb iov c' b' iov' r)
  have inv: "slave_inv c" using run_read by simp
  show ?case
  proof (cases "uint_length iov = 0 \<or> intr")
    case True
    then show ?thesis using run_read.hyps(2) inv by (auto simp: char_slave_aio_read_def Let_def split: if_splits)
  next
    case False
    obtain c1 b1 where o: "etherbone_slave_out_process e wops c b = (c1, b1)" by fastforce
    show ?thesis
      using slave_read_step [OF inv _ _ o refl, of "\<lambda>_. True" iov nb] run_read.hyps(2) False by auto
  qed
next
  case (run_write n c b intr iov c' b' r)
  then show ?case
    using slave_write_bytes [of "\<lambda>_. True" e wops c b iov] slave_bytes_inv [of c e wops b]
    by (cases intr) (auto simp: char_slave_aio_write_def [where intr = True] Let_def split: prod.splits)
next
  case (run_poll n c b c' b' bits)
  then show ?case using slave_out_inv [of c e wops b] by (auto simp: char_slave_poll_def split: prod.splits)
qed

end
