(* ===== verification/SlaveProperties.thy ===== *)
theory SlaveProperties
  imports WishboneDemo SlaveSystem
begin

text \<open>
  The properties of the slave character device. The concrete context of the witnesses is a device
  just opened, or one that was greeted.
\<close>

definition demo_slave :: eb_slave where
  "demo_slave = \<lparr>sl_pending_err = 0, sl_negotiated = False, sl_data = 0, sl_rbuf_done = 0, sl_rbuf_end = 8,
     sl_rbuf = [0x4E, 0x6F, 0x11, 0x44, 0, 0, 0, 0] @ replicate 16 0, sl_wbuf_fill = 0, sl_wbuf = replicate 2052 0\<rparr>"

definition demo_greeted :: eb_slave where
  "demo_greeted = demo_slave\<lparr>sl_negotiated := True, sl_rbuf_done := 8, sl_pending_err := 1\<rparr>"

lemma demo_slave: "slave_inv demo_slave" "slave_inv demo_greeted"
  by (simp_all add: slave_inv_def demo_slave_def demo_greeted_def)

text \<open>C28: A write to the slave device returns, whatever is written: the number of bytes given, or
  an error; the buffers keep their sizes and their fill stays within the record they hold.\<close>

theorem slave_write_returns:
  assumes "slave_inv c" and "\<forall>i. ok i"
  shows "\<exists>c' b' r. char_slave_aio_write e wops ok intr c b iov = Some (c', b', r) \<and> slave_inv c'
    \<and> (r = - EINTR \<or> r = - EIO \<or> r = int (uint_length iov))"
proof (cases intr)
  case True
  then show ?thesis using assms(1) by (simp add: char_slave_aio_write_def Let_def)
next
  case False
  obtain c' b' left where s: "slave_bytes e wops c b (take (uint_length iov) (concat iov)) = (c', b', left)"
    by (metis prod_cases3)
  then show ?thesis
    using False slave_bytes_inv [OF assms(1) s] slave_write_bytes [OF assms(2), of e wops c b iov] by auto
qed

theorem slave_write_returns_witness:
  "\<exists>c' b' r. char_slave_aio_write Little (pcie_wb_ops Little zero_hw) (\<lambda>_. True) False demo_slave demo_pcie
      [[0x4E, 0x6F, 0x16], [0x44, 0, 0, 0, 0], [0, 1, 2]] = Some (c', b', r) \<and> slave_inv c'"
  using slave_write_returns [OF demo_slave(1) demo_ok, where e = Little and wops = "pcie_wb_ops Little zero_hw"
    and intr = False and b = demo_pcie and iov = "[[0x4E, 0x6F, 0x16], [0x44, 0, 0, 0, 0], [0, 1, 2]]"] by blast

text \<open>C26: A write continued by another has the effect of one write of both, on the device and on the
  bus, and fails if the one write fails.\<close>

theorem slave_write_pieces:
  fixes iov1 iov2 :: "u8 list list"
  assumes "slave_inv c" and "\<forall>i. ok i" and "iov_length (iov1 @ iov2) < 2 ^ 32"
    and "char_slave_aio_write e wops ok False c b iov1 = Some (c1, b1, int (iov_length iov1))"
  shows "\<exists>c2 b2 r r'. char_slave_aio_write e wops ok False c1 b1 iov2 = Some (c2, b2, r)
    \<and> char_slave_aio_write e wops ok False c b (iov1 @ iov2) = Some (c2, b2, r') \<and> (r = - EIO \<longleftrightarrow> r' = - EIO)"
proof -
  have len: "uint_length iov1 = iov_length iov1" "uint_length iov2 = iov_length iov2"
    "uint_length (iov1 @ iov2) = iov_length (iov1 @ iov2)"
    using assms(3) by (simp_all add: uint_length_def iov_length_def)
  have all: "take (iov_length iov) (concat iov) = concat iov" for iov :: "u8 list list" by (simp add: iov_length_def)
  obtain left where s1: "slave_bytes e wops c b (concat iov1) = (c1, b1, left)" and "\<not> left > 0"
    using assms(4) slave_write_bytes [OF assms(2), of e wops c b iov1]
    by (auto simp: len all EIO_def split: prod.splits if_splits)
  then have s: "slave_bytes e wops c b (concat iov1) = (c1, b1, 0)" by simp
  obtain c2 b2 l2 where s2: "slave_bytes e wops c1 b1 (concat iov2) = (c2, b2, l2)" by (metis prod_cases3)
  obtain c3 b3 l3 where s3: "slave_bytes e wops c b (concat iov1 @ concat iov2) = (c3, b3, l3)" by (metis prod_cases3)
  have "c3 = c2" "b3 = b2" "l3 = 0 \<longleftrightarrow> l2 = 0"
    using slave_bytes_append [OF assms(1) s, of "concat iov2"] unfolding s2 s3 by (simp_all add: taken_def)
  then show ?thesis
    using slave_write_bytes [OF assms(2), of e wops c1 b1 iov2] slave_write_bytes [OF assms(2), of e wops c b "iov1 @ iov2"]
      all [of "iov1 @ iov2"]
    by (simp add: len all s2 s3 EIO_def)
qed

theorem slave_write_pieces_witness:
  "\<exists>c1 b1 c2 b2 r. char_slave_aio_write Little (pcie_wb_ops Little zero_hw) (\<lambda>_. True) False demo_slave demo_pcie [[0x4E, 0x6F]]
      = Some (c1, b1, 2)
    \<and> char_slave_aio_write Little (pcie_wb_ops Little zero_hw) (\<lambda>_. True) False c1 b1 [[0x16, 0x44, 0]] = Some (c2, b2, r)"
proof -
  have len: "uint_length [[0x4E :: u8, 0x6F]] = 2" "sl_wbuf_fill demo_slave = 0"
    by (simp_all add: uint_length_def iov_length_def demo_slave_def)
  obtain c1 where "slave_bytes Little (pcie_wb_ops Little zero_hw) demo_slave demo_pcie [0x4E, 0x6F] = (c1, demo_pcie, 0)"
    using sb_header [of "[0x4E, 0x6F]" demo_slave 2 Little "pcie_wb_ops Little zero_hw" demo_pcie] by (simp add: len sb_nil)
  then obtain c1 b1 where w: "char_slave_aio_write Little (pcie_wb_ops Little zero_hw) (\<lambda>_. True) False
      demo_slave demo_pcie [[0x4E, 0x6F]] = Some (c1, b1, int (iov_length [[0x4E :: u8, 0x6F]]))"
    using slave_write_bytes [OF demo_ok, of Little "pcie_wb_ops Little zero_hw" demo_slave demo_pcie "[[0x4E, 0x6F]]"]
    by (simp add: len(1) iov_length_def)
  have "iov_length ([[0x4E :: u8, 0x6F]] @ [[0x16, 0x44, 0]]) < 2 ^ 32" by (simp add: iov_length_def)
  from slave_write_pieces [OF demo_slave(1) demo_ok this w] w show ?thesis by (auto simp: iov_length_def)
qed

text \<open>C9: A request of the bus reaches the reader of the slave device as one record that repeats the
  access under the same byte-enable mask, then one that reads the error register and closes the
  cycle; and it is counted as open.\<close>

theorem slave_request_reaches_reader:
  assumes "slave_inv c" and "\<forall>i. ok i" and "sl_rbuf_done c = sl_rbuf_end c" and "sl_negotiated c"
    and "w_request wops b = (b', Some rq)" and "24 \<le> uint_length iov"
  shows "\<exists>c' iov'. char_slave_aio_read e wops ok False nb c b iov = Some (c', b', iov', 24)
    \<and> sl_pending_err c' = sl_pending_err c + 1
    \<and> (let B = take 24 (concat iov') in record_len (B ! 2) (B ! 3) = 12 \<and> record_len (B ! 14) (B ! 15) = 12
      \<and> rec_writes (take 12 B) = (if rq_write rq then [(rq_addr rq, rq_data rq)] else [])
      \<and> rec_reads (take 12 B) = (if rq_write rq then [] else [rq_addr rq])
      \<and> B ! 1 = rq_mask rq \<and> B ! 0 AND ETHERBONE_CYC = 0
      \<and> rec_writes (drop 12 B) = [] \<and> rec_reads (drop 12 B) = [4]
      \<and> B ! 12 AND ETHERBONE_RCA \<noteq> 0 \<and> B ! 12 AND ETHERBONE_CYC \<noteq> 0)"
proof -
  define B where "B = slave_request_bytes e rq (sl_rbuf c)"
  define c1 where "c1 = c\<lparr>sl_pending_err := sl_pending_err c + 1, sl_rbuf_done := 0, sl_rbuf := B, sl_rbuf_end := 24\<rparr>"
  have o: "etherbone_slave_out_process e wops c b = (c1, b')"
    using assms(3-5) by (simp add: etherbone_slave_out_process_def c1_def B_def)
  have len: "length (sl_rbuf c) = 24" using assms(1) by (simp add: slave_inv_def)
  note req = request_records [OF len B_def]
  have n: "24 = min (sl_rbuf_end c1 - sl_rbuf_done c1) (uint_length iov)" "uint_length iov \<noteq> 0"
    using assms(6) by (simp_all add: c1_def)
  obtain iov' where r: "char_slave_aio_read e wops ok False nb c b iov = Some (c1\<lparr>sl_rbuf_done := sl_rbuf_done c1 + 24\<rparr>, b', iov', 24)"
    "concat iov' = put 0 (chunk (sl_rbuf_done c1) 24 (sl_rbuf c1)) (concat iov)"
    using slave_read_step [OF assms(1,2) n(2) o n(1), of nb] by auto
  have "take 24 (concat iov') = B" unfolding r(2) using req(3) by (simp add: c1_def chunk_def put_def)
  then show ?thesis using r(1) req by (auto simp: Let_def c1_def)
qed

text \<open>A bus that asks for a word to be written to address 8.\<close>

definition asking_hw :: "pcie_bar device" where
  "asking_hw io r off w = (if off = MASTER_CTL_HIGH then 0xC000000F else if off = MASTER_ADR_LOW then 8 else 0x77)"

theorem slave_request_reaches_reader_witness:
  "\<exists>c' d' iov'. char_slave_aio_read Little (pcie_wb_ops Little asking_hw) (\<lambda>_. True) False False demo_greeted demo_pcie
      [replicate 24 0, [1, 2]] = Some (c', d', iov', 24)
    \<and> rec_writes (take 12 (take 24 (concat iov'))) = [(8, 0x77)]"
proof -
  obtain d' rq where d: "w_request (pcie_wb_ops Little asking_hw) demo_pcie = (d', Some rq)"
    and rq: "rq_write rq" "rq_addr rq = 8" "rq_data rq = 0x77"
  proof -
    have "case w_request (pcie_wb_ops Little asking_hw) demo_pcie of (d', None) \<Rightarrow> False
      | (d', Some rq) \<Rightarrow> rq_write rq \<and> rq_addr rq = 8 \<and> rq_data rq = 0x77" by code_simp
    then show ?thesis using that by (auto split: prod.splits option.splits)
  qed
  have c: "sl_rbuf_done demo_greeted = sl_rbuf_end demo_greeted" "sl_negotiated demo_greeted"
    "24 \<le> uint_length [replicate 24 0, [1 :: u8, 2]]"
    by (simp_all add: demo_greeted_def demo_slave_def uint_length_def iov_length_def)
  from slave_request_reaches_reader [OF demo_slave(2) demo_ok c(1,2) d c(3), where e = Little and nb = False] show ?thesis
    by (auto simp: Let_def rq)
qed

text \<open>C18: A record that writes the data register, then the error register, of the slave device
  answers the oldest open request with this data and status; one request less is open.\<close>

theorem slave_answer_reaches_bus:
  assumes "slave_inv c" and "\<forall>i. ok i" and "sl_wbuf_fill c = 0" and "sl_negotiated c" and "sl_pending_err c \<noteq> 0"
    and "concat iov = [flags, 0xf, 2, 0] @ word_be 4 WBA_DATA @ word_be 4 (x :: u32) @ word_be 4 (st :: u32)"
    and "flags AND ETHERBONE_WCA \<noteq> 0" and "flags AND ETHERBONE_WFF = 0"
  shows "\<exists>c'. char_slave_aio_write e wops ok False c b iov = Some (c', w_reply wops b (st AND 1) x, 16)
    \<and> sl_pending_err c' = sl_pending_err c - 1 \<and> sl_data c' = x \<and> sl_wbuf_fill c' = 0"
proof -
  define ws where "ws = word_be 4 WBA_DATA @ word_be 4 x @ word_be 4 st"
  define hd where "hd = [flags, 0xf, 2, 0 :: u8]"
  have iov: "concat iov = hd @ ws" "length hd = 4" "length ws = 12" using assms(6) by (simp_all add: ws_def hd_def)
  have "length (concat iov) = 16" using iov by simp
  then have u: "uint_length iov = 16" by (simp add: uint_length_def iov_length_def)
  have lw: "length (sl_wbuf c) = 2052" using assms(1) by (simp add: slave_inv_def)
  define c1 where "c1 = c\<lparr>sl_wbuf := put 0 hd (sl_wbuf c), sl_wbuf_fill := 4\<rparr>"
  have s1: "slave_bytes e wops c b (hd @ ws) = slave_bytes e wops c1 b ws"
    using sb_header [of "hd @ ws" c 4 e wops b] assms(3) iov by (simp add: c1_def hd_def)
  have i1: "slave_inv c1" using slave_inv_small [OF assms(1), of 0 hd 4] iov(2) by (simp add: c1_def)
  define c2 where "c2 = c1\<lparr>sl_wbuf := put 4 ws (sl_wbuf c1), sl_wbuf_fill := 0\<rparr>"
  have w2: "sl_wbuf c2 = hd @ ws @ drop 16 (sl_wbuf c)"
    using lw iov(2,3) by (simp add: c2_def c1_def put_def drop_drop)
  have ans: "etherbone_slave_in_process e wops c2 b
      = (c2\<lparr>sl_data := x, sl_pending_err := sl_pending_err c2 - 1\<rparr>, w_reply wops b (st AND 1) x, 0)"
  proof (rule slave_answer [OF _ _ _ assms(7,8)])
    show "length (sl_wbuf c2) = 2052" unfolding w2 using lw iov(2,3) by simp
    show "sl_pending_err c2 \<noteq> 0" using assms(5) by (simp add: c2_def c1_def)
    show "take 16 (sl_wbuf c2) = [flags, 0xf, 2, 0] @ word_be 4 WBA_DATA @ word_be 4 x @ word_be 4 st"
      unfolding w2 by (simp add: hd_def ws_def)
  qed
  have L: "12 = slave_record_len (sl_wbuf c1) - sl_wbuf_fill c1"
    using lw by (simp add: c1_def slave_record_len_def put_def hd_def)
  have "slave_bytes e wops c1 b ws
      = (c2\<lparr>sl_data := x, sl_pending_err := sl_pending_err c2 - 1\<rparr>, w_reply wops b (st AND 1) x, 0)"
  proof -
    have pre: "ws \<noteq> []" "\<not> sl_wbuf_fill c1 < 4" "sl_negotiated c1" "take 12 ws = ws" "drop 12 ws = []" "\<not> length ws < 12"
      using iov(3) assms(4) by (auto simp: c1_def)
    have "etherbone_slave_in_process e wops
        (c1\<lparr>sl_wbuf := put (sl_wbuf_fill c1) (take 12 ws) (sl_wbuf c1), sl_wbuf_fill := 0\<rparr>) b
      = (c2\<lparr>sl_data := x, sl_pending_err := sl_pending_err c2 - 1\<rparr>, w_reply wops b (st AND 1) x, 0)"
      unfolding pre(4) ans [symmetric] by (simp add: c2_def c1_def)
    from sb_record [OF i1 pre(1-3) L this] show ?thesis unfolding pre(5) sb_nil using pre(6) by simp
  qed
  then show ?thesis
    using slave_write_bytes [OF assms(2), of e wops c b iov] s1 unfolding u iov(1)
    by (simp add: iov(2,3) c2_def c1_def)
qed

theorem slave_answer_reaches_bus_witness:
  "\<exists>c'. char_slave_aio_write Big (pcie_wb_ops Big zero_hw) (\<lambda>_. True) False demo_greeted demo_pcie
      [[0x04, 0xf, 2, 0], word_be 4 WBA_DATA @ word_be 4 (0x1234 :: u32), word_be 4 (1 :: u32)]
    = Some (c', pcie_wb_reply demo_pcie 1 0x1234, 16) \<and> sl_pending_err c' = 0"
proof -
  have c: "sl_wbuf_fill demo_greeted = 0" "sl_negotiated demo_greeted" "sl_pending_err demo_greeted \<noteq> 0"
    by (simp_all add: demo_greeted_def demo_slave_def)
  have f: "(0x04 :: u8) AND ETHERBONE_WCA \<noteq> 0" "(0x04 :: u8) AND ETHERBONE_WFF = 0" by code_simp+
  have iov: "concat [[0x04, 0xf, 2, 0 :: u8], word_be 4 WBA_DATA @ word_be 4 (0x1234 :: u32), word_be 4 (1 :: u32)]
    = [0x04, 0xf, 2, 0] @ word_be 4 WBA_DATA @ word_be 4 (0x1234 :: u32) @ word_be 4 (1 :: u32)" by simp
  from slave_answer_reaches_bus [OF demo_slave(2) demo_ok c iov f, where e = Big and wops = "pcie_wb_ops Big zero_hw"
    and b = demo_pcie] show ?thesis
    by (simp add: pcie_wb_ops_def) (auto simp: demo_greeted_def)
qed

text \<open>C8: Closing the slave device of the PCI Express bridge after any sequence of fewer than 2^31
  reads, writes and polls answers every request taken off the bus and not answered yet, and reports
  an error exactly if there was one; the buffers stay within their bounds throughout.\<close>

theorem slave_release_answers_all:
  assumes "length (sl_rbuf mem) = 24" and "length (sl_wbuf mem) = 2052" and "char_slave_open True False mem = Inr c0"
    and "pcie_balance (p_io d0) = 0" and "slave_run e (pcie_wb_ops e hw) c0 d0 n c d" and "n < 2 ^ 31"
    and "char_slave_release (pcie_wb_ops e hw) c d = (d', r)"
  shows "slave_inv c \<and> pcie_balance (p_io d) = int (unat (sl_pending_err c)) \<and> pcie_balance (p_io d') = 0
    \<and> r = (if pcie_balance (p_io d) = 0 then 0 else - EIO)"
proof -
  have o: "slave_inv c0" "sl_pending_err c0 = 0" using slave_open_inv [OF assms(1-3)] by blast+
  have "pcie_req.counted c0 d0" using assms(4) o(2) by (simp add: pcie_req.counted_def)
  then show ?thesis
    using pcie_req.run_release [OF assms(5) _ o(2) assms(6,7)] run_inv [OF assms(5) o(1)] by blast
qed

theorem slave_release_answers_all_witness:
  "\<exists>c d iov' c' r d' r'. char_slave_open True False demo_greeted = Inr c
    \<and> slave_run Little (pcie_wb_ops Little asking_hw) c demo_pcie 1 c' d
    \<and> char_slave_release (pcie_wb_ops Little asking_hw) c' d = (d', r) \<and> pcie_balance (p_io d') = 0"
proof -
  obtain c where c: "char_slave_open True False demo_greeted = Inr c" by (simp add: char_slave_open_def)
  obtain c' d p where poll: "char_slave_poll Little (pcie_wb_ops Little asking_hw) c demo_pcie = (c', d, p)"
    by (metis prod_cases3)
  have run: "slave_run Little (pcie_wb_ops Little asking_hw) c demo_pcie (Suc 0) c' d"
    by (rule run_poll [OF run_open poll])
  obtain d' r where rel: "char_slave_release (pcie_wb_ops Little asking_hw) c' d = (d', r)" by fastforce
  have "length (sl_rbuf demo_greeted) = 24" "length (sl_wbuf demo_greeted) = 2052" "pcie_balance (p_io demo_pcie) = 0"
    by (simp_all add: demo_greeted_def demo_slave_def demo_pcie_def pcie_dev_init_def)
  from slave_release_answers_all [OF this(1,2) c this(3) run _ rel] run rel c show ?thesis by auto
qed

end
