(* ===== verification/WishboneSerial.thy ===== *)
theory WishboneSerial
  imports Prelude
begin

text \<open>
  The USB serial adapter driver src/pcie-wb/wishbone-serial.c: telling the device that a stream
  begins and ends, opening and closing the port, the terminal settings, and the module's set-up.
  \<open>api\<close> is the number the code derives from the kernel version (1 to 7). The values of the
  terminal flags and the answers of the USB layer are arguments; what the driver makes the USB
  layer do is a trace.
\<close>

subsection \<open>Messages to the device\<close>

definition GSI_VENDOR_OPENCLOSE :: u8 where "GSI_VENDOR_OPENCLOSE = 0xB0"

text \<open>\<open>USB_DIR_OUT | USB_TYPE_VENDOR | USB_RECIP_INTERFACE\<close>\<close>

definition OUT_VENDOR_INTERFACE :: u8 where "OUT_VENDOR_INTERFACE = 0x41"

datatype usb_action =
    Control u8 u8 u16 u8 int   \<comment> \<open>request, type, value, interface, and the answer\<close>
  | Generic_open int
  | Generic_close
  | Kill_write_urb
  | Kill_read_urb

record ktermios =
  c_iflag :: u32
  c_oflag :: u32
  c_lflag :: u32
  c_cflag :: u32

record serial_port =
  sp_interface :: u8      \<comment> \<open>\<open>bInterfaceNumber\<close>\<close>
  sp_termios :: ktermios
  sp_low_latency :: bool
  sp_trace :: "usb_action list"

definition act :: "usb_action \<Rightarrow> serial_port \<Rightarrow> serial_port" where
  "act a p = p\<lparr>sp_trace := sp_trace p @ [a]\<rparr>"

definition usb_gsi_openclose :: "(u16 \<Rightarrow> int) \<Rightarrow> serial_port \<Rightarrow> u16 \<Rightarrow> serial_port \<times> int" where
  "usb_gsi_openclose control port v =
     (act (Control GSI_VENDOR_OPENCLOSE OUT_VENDOR_INTERFACE v (sp_interface port) (control v)) port, control v)"

subsection \<open>Terminal settings\<close>

text \<open>The flags of the kernel's terminal interface, and the kernel's setting of the baud rate.\<close>

record term_flags =
  IGNBRK :: u32
  BRKINT :: u32
  PARMRK :: u32
  ISTRIP :: u32
  INLCR :: u32
  IGNCR :: u32
  ICRNL :: u32
  IXON :: u32
  OPOST :: u32
  ECHO :: u32
  ECHONL :: u32
  ICANON :: u32
  ISIG :: u32
  IEXTEN :: u32
  CSIZE :: u32
  PARENB :: u32
  CBAUD :: u32
  CS8 :: u32

definition init_termios :: "term_flags \<Rightarrow> (u32 \<Rightarrow> u32 \<Rightarrow> ktermios \<Rightarrow> ktermios) \<Rightarrow> ktermios \<Rightarrow> ktermios" where
  "init_termios F encode_baud t =
     (let t = t\<lparr>c_iflag := c_iflag t AND NOT (IGNBRK F OR BRKINT F OR PARMRK F OR ISTRIP F
                  OR INLCR F OR IGNCR F OR ICRNL F OR IXON F)\<rparr>;
          t = t\<lparr>c_oflag := c_oflag t AND NOT (OPOST F)\<rparr>;
          t = t\<lparr>c_lflag := c_lflag t AND NOT (ECHO F OR ECHONL F OR ICANON F OR ISIG F OR IEXTEN F)\<rparr>;
          t = t\<lparr>c_cflag := c_cflag t AND NOT (CSIZE F OR PARENB F OR CBAUD F)\<rparr>;
          t = t\<lparr>c_cflag := c_cflag t OR CS8 F\<rparr>
      in encode_baud 115200 115200 t)"

definition wishbone_serial_set_termios ::
    "nat \<Rightarrow> term_flags \<Rightarrow> (u32 \<Rightarrow> u32 \<Rightarrow> ktermios \<Rightarrow> ktermios) \<Rightarrow> serial_port \<Rightarrow> serial_port" where
  "wishbone_serial_set_termios api F encode_baud p =
     p\<lparr>sp_termios := init_termios F encode_baud (sp_termios p),
       sp_low_latency := (if api \<le> 1 then True else sp_low_latency p)\<rparr>"

subsection \<open>Opening and closing the port\<close>

record usb_answers =
  ua_control :: "u16 \<Rightarrow> int"  \<comment> \<open>\<open>usb_control_msg\<close>, by the value sent\<close>
  ua_open :: int             \<comment> \<open>\<open>usb_serial_generic_open\<close>\<close>

definition wishbone_serial_open ::
    "nat \<Rightarrow> term_flags \<Rightarrow> (u32 \<Rightarrow> u32 \<Rightarrow> ktermios \<Rightarrow> ktermios) \<Rightarrow> usb_answers \<Rightarrow> serial_port \<Rightarrow> serial_port \<times> int" where
  "wishbone_serial_open api F encode_baud ua port =
     (case usb_gsi_openclose (ua_control ua) port 1 of (port, retval) \<Rightarrow>
       if retval \<noteq> 0 then (port, retval)
       else
         (let port = (if api \<le> 1 then wishbone_serial_set_termios api F encode_baud port else port);
              retval = ua_open ua;
              port = act (Generic_open retval) port
          in if retval \<noteq> 0 then (fst (usb_gsi_openclose (ua_control ua) port 0), retval)
             else (port, retval)))"

definition wishbone_serial_close :: "nat \<Rightarrow> usb_answers \<Rightarrow> serial_port \<Rightarrow> serial_port" where
  "wishbone_serial_close api ua port =
     (let port = (if api \<le> 2 then act Kill_read_urb (act Kill_write_urb port) else act Generic_close port)
      in fst (usb_gsi_openclose (ua_control ua) port 0))"

subsection \<open>The module\<close>

text \<open>For \<open>api\<close> up to 4, where the code registers its two drivers itself: the answers of the two
  registrations, and the drivers registered afterwards.\<close>

datatype serial_driver = Usb_serial_device | Usb_driver

definition wishbone_serial_init :: "int \<Rightarrow> int \<Rightarrow> serial_driver list \<times> int" where
  "wishbone_serial_init serial_ret usb_ret =
     (if serial_ret \<noteq> 0 then ([], serial_ret)
      else (let regs = [Usb_serial_device]
            in if usb_ret \<noteq> 0 then (remove1 Usb_serial_device regs, usb_ret)
               else (regs @ [Usb_driver], usb_ret)))"

definition wishbone_serial_exit :: "serial_driver list \<Rightarrow> serial_driver list" where
  "wishbone_serial_exit regs = remove1 Usb_serial_device (remove1 Usb_driver regs)"

subsection \<open>What the device is told\<close>

text \<open>Whether the device holds a stream open: the last open or close message it got.\<close>

fun told :: "bool \<Rightarrow> usb_action list \<Rightarrow> bool" where
  "told b [] = b"
| "told b (Control r t v i ret # as) = told (if ret = 0 then v = 1 else b) as"
| "told b (a # as) = told b as"

lemma told_append: "told b (as @ bs) = told (told b as) bs"
  by (induction b as rule: told.induct) simp_all

text \<open>Every open of the port comes right after an open message the device took.\<close>

definition announced :: "usb_action list \<Rightarrow> bool" where
  "announced as \<longleftrightarrow> (\<forall>k < length as. case as ! k of
     Generic_open ret \<Rightarrow> 0 < k \<and> (\<exists>i. as ! (k - 1) = Control GSI_VENDOR_OPENCLOSE OUT_VENDOR_INTERFACE 1 i 0)
   | _ \<Rightarrow> True)"

text \<open>The terminal layer opens a closed port, and closes it after a successful open.\<close>

inductive serial_step :: "nat \<Rightarrow> bool \<times> serial_port \<Rightarrow> bool \<times> serial_port \<Rightarrow> bool" for api :: nat where
  open_port: "wishbone_serial_open api F enc ua p = (q, ret) \<Longrightarrow>
    serial_step api (False, p) (ret = 0, q)"
| close_port: "serial_step api (True, p) (False, wishbone_serial_close api ua p)"

inductive_cases serial_stepE: "serial_step api (b, p) (c, q)"

inductive serial_reach :: "nat \<Rightarrow> serial_port \<Rightarrow> bool \<times> serial_port \<Rightarrow> bool" for api :: nat and p where
  start: "serial_reach api p (False, p)"
| more: "serial_reach api p s \<Longrightarrow> serial_step api s t \<Longrightarrow> serial_reach api p t"

definition close_failed :: "usb_action list \<Rightarrow> bool" where
  "close_failed as \<longleftrightarrow> (\<exists>r t i ret. Control r t 0 i ret \<in> set as \<and> ret \<noteq> 0)"

lemma close_failed_append: "close_failed (as @ bs) \<longleftrightarrow> close_failed as \<or> close_failed bs"
  by (auto simp: close_failed_def)

lemma close_failed_simps:
  "\<not> close_failed []" "close_failed (Control r t v i ret # as) \<longleftrightarrow> v = 0 \<and> ret \<noteq> 0 \<or> close_failed as"
  "close_failed (Generic_open ret # as) = close_failed as" "close_failed (Generic_close # as) = close_failed as"
  "close_failed (Kill_write_urb # as) = close_failed as" "close_failed (Kill_read_urb # as) = close_failed as"
  by (auto simp: close_failed_def)

text \<open>The messages of one call.\<close>

definition open_trace :: "usb_answers \<Rightarrow> u8 \<Rightarrow> usb_action list" where
  "open_trace ua i = Control GSI_VENDOR_OPENCLOSE OUT_VENDOR_INTERFACE 1 i (ua_control ua 1) #
     (if ua_control ua 1 \<noteq> 0 then []
      else Generic_open (ua_open ua) # (if ua_open ua = 0 then []
        else [Control GSI_VENDOR_OPENCLOSE OUT_VENDOR_INTERFACE 0 i (ua_control ua 0)]))"

lemma open_traced:
  "wishbone_serial_open api F enc ua p = (q, ret) \<Longrightarrow>
   sp_trace q = sp_trace p @ open_trace ua (sp_interface p) \<and> sp_interface q = sp_interface p
   \<and> (ret = 0 \<longleftrightarrow> ua_control ua 1 = 0 \<and> ua_open ua = 0)"
  by (auto simp: wishbone_serial_open_def usb_gsi_openclose_def act_def Let_def open_trace_def
      wishbone_serial_set_termios_def split: if_splits)

lemma close_traced:
  "sp_trace (wishbone_serial_close api ua p) = sp_trace p
     @ (if api \<le> 2 then [Kill_write_urb, Kill_read_urb] else [Generic_close])
     @ [Control GSI_VENDOR_OPENCLOSE OUT_VENDOR_INTERFACE 0 (sp_interface p) (ua_control ua 0)]"
  by (simp add: wishbone_serial_close_def usb_gsi_openclose_def act_def)

lemma announced_append: "announced as \<Longrightarrow> announced bs \<Longrightarrow> announced (as @ bs)"
  unfolding announced_def
proof (intro allI impI)
  fix k assume as: "\<forall>k<length as. case as ! k of
     Generic_open ret \<Rightarrow> 0 < k \<and> (\<exists>i. as ! (k - 1) = Control GSI_VENDOR_OPENCLOSE OUT_VENDOR_INTERFACE 1 i 0)
   | _ \<Rightarrow> True"
    and bs: "\<forall>k<length bs. case bs ! k of
     Generic_open ret \<Rightarrow> 0 < k \<and> (\<exists>i. bs ! (k - 1) = Control GSI_VENDOR_OPENCLOSE OUT_VENDOR_INTERFACE 1 i 0)
   | _ \<Rightarrow> True" and k: "k < length (as @ bs)"
  show "case (as @ bs) ! k of
     Generic_open ret \<Rightarrow> 0 < k \<and> (\<exists>i. (as @ bs) ! (k - 1) = Control GSI_VENDOR_OPENCLOSE OUT_VENDOR_INTERFACE 1 i 0)
   | _ \<Rightarrow> True"
  proof (cases "k < length as")
    case True
    then have "k - 1 < length as" by simp
    with as True show ?thesis by (auto simp: nth_append split: usb_action.splits)
  next
    case False
    define j where "j = k - length as"
    have k_j: "k = length as + j" "j < length bs" using False k by (auto simp: j_def)
    have "(as @ bs) ! (k - 1) = bs ! (j - 1)" if "0 < j"
    proof -
      from that have "k - 1 = length as + (j - 1)" by (simp add: k_j)
      then show ?thesis by simp
    qed
    moreover have "(as @ bs) ! k = bs ! j" by (simp add: k_j nth_append)
    ultimately show ?thesis using spec [OF bs, of j] k_j by (auto split: usb_action.splits)
  qed
qed

lemma announced_calls:
  "announced (open_trace ua i)"
  "announced (if api \<le> (2::nat) then [Kill_write_urb, Kill_read_urb] else [Generic_close])"
  "announced [Control r t v i x]"
  by (auto simp: announced_def open_trace_def nth_Cons less_Suc_eq split: usb_action.splits nat.splits)

lemma open_trace_facts:
  "told b (open_trace ua i) \<longleftrightarrow>
     (if ua_control ua 1 \<noteq> 0 then b else ua_open ua = 0 \<or> ua_control ua 0 \<noteq> 0)"
  "close_failed (open_trace ua i) \<longleftrightarrow> ua_control ua 1 = 0 \<and> ua_open ua \<noteq> 0 \<and> ua_control ua 0 \<noteq> 0"
  by (auto simp: open_trace_def close_failed_simps)

text \<open>The invariant of the reachable states.\<close>

definition serial_inv :: "bool \<times> serial_port \<Rightarrow> bool" where
  "serial_inv s \<longleftrightarrow> (case s of (opened, p) \<Rightarrow> announced (sp_trace p)
     \<and> (opened \<longrightarrow> told False (sp_trace p))
     \<and> (\<not> opened \<and> told False (sp_trace p) \<longrightarrow> close_failed (sp_trace p)))"

lemma serial_step_inv: "serial_step api s t \<Longrightarrow> serial_inv s \<Longrightarrow> serial_inv t"
proof (cases rule: serial_step.cases, assumption)
  fix F enc ua p q ret
  assume inv: "serial_inv s" and eq: "s = (False, p)" "t = (ret = 0, q)"
    and "wishbone_serial_open api F enc ua p = (q, ret)"
  from open_traced [OF this(4)] inv show "serial_inv t"
    unfolding eq
    by (auto simp: serial_inv_def told_append announced_append announced_calls close_failed_append
        open_trace_facts)
next
  fix p ua
  assume inv: "serial_inv s" and eq: "s = (True, p)" "t = (False, wishbone_serial_close api ua p)"
  then show "serial_inv t"
    using announced_calls(2) [of api]
    by (auto simp: serial_inv_def close_traced told_append announced_append announced_calls(3)
        close_failed_append close_failed_simps split: if_splits)
qed

lemma serial_reach_inv:
  assumes "sp_trace p = []"
  shows "serial_reach api p s \<Longrightarrow> serial_inv s"
proof (induction rule: serial_reach.induct)
  case start
  show ?case by (simp add: serial_inv_def announced_def assms)
next
  case (more s t)
  then show ?case by (blast intro: serial_step_inv)
qed

end
