(* ===== verification/DriverProperties.thy ===== *)
theory DriverProperties
  imports WishboneDemo WishboneSerial
begin

text \<open>
  The properties of the registration of backends, of the set-up of the module and of the drivers'
  \<open>probe\<close> and \<open>remove\<close>, and of the VME address windows.
\<close>

definition demo_core :: wb_core where
  "demo_core = \<lparr>c_max = 3, c_master_first = MKDEV 250 0, c_slave_first = MKDEV 251 0, c_list = [], c_cdevs = {}, c_devices = {}\<rparr>"

definition all_ok :: wb_answers where
  "all_ok = \<lparr>a_master_cdev = True, a_slave_cdev = True, a_master_device = True, a_slave_device = True\<rparr>"

lemma demo_core: "core_inv demo_core []" "c_list demo_core = []" "7 \<notin> e_wb ` set (c_list demo_core)"
proof -
  have "MINOR (MKDEV 250 0) = 0" "MINOR (MKDEV 251 0) = 0" "MAJOR (MKDEV 250 0) \<noteq> MAJOR (MKDEV 251 0)" by code_simp+
  then show "core_inv demo_core []" by (simp add: core_inv_def regions_ok_def demo_core_def)
qed (simp_all add: demo_core_def)

subsection \<open>Registration\<close>

text \<open>C13: \<open>wishbone_register\<close> gives a backend the device numbers of the least free offset, keeps the
  list sorted and in step with the devices the kernel holds; it fails exactly if no offset is free or
  the kernel refuses, and then it has changed nothing.\<close>

theorem register_least_free:
  assumes "core_inv c ks" and "wb \<notin> e_wb ` set (c_list c)" and "wishbone_register ans wb c = (c', r)"
  shows "if a_master_cdev ans \<and> a_slave_cdev ans \<and> a_master_device ans \<and> a_slave_device ans
        \<and> \<not> {0..<unat (c_max c)} \<subseteq> set ks
    then r = 0 \<and> (\<exists>g p. g < unat (c_max c) \<and> g \<notin> set ks \<and> {0..<g} \<subseteq> set ks
        \<and> core_inv c' (take p ks @ g # drop p ks)
        \<and> c_list c' = take p (c_list c) @ \<lparr>e_wb = wb, e_master_dev = dev_at (c_master_first c) (of_nat g),
            e_slave_dev = dev_at (c_slave_first c) (of_nat g)\<rparr> # drop p (c_list c))
    else r = - ENOMEM \<and> c' = c"
proof -
  note spec = register_spec [OF assms]
  have E: "ENOMEM \<noteq> 0" by (simp add: ENOMEM_def)
  show ?thesis
  proof (cases "r = 0")
    case True
    then show ?thesis using spec(2) spec(3) by (simp only: if_True simp_thms) blast
  next
    case False
    then show ?thesis using spec(1,2) by auto
  qed
qed

theorem register_least_free_witness:
  "\<exists>c'. wishbone_register all_ok 7 demo_core = (c', 0) \<and> (\<exists>g. core_inv c' [g])"
proof -
  obtain c' r where w: "wishbone_register all_ok 7 demo_core = (c', r)" by fastforce
  have "c_max demo_core = 3" by (simp add: demo_core_def)
  then have "\<not> {0..<unat (c_max demo_core)} \<subseteq> set []" by simp
  then show ?thesis using register_least_free [OF demo_core(1,3) w] w by (auto simp: all_ok_def)
qed

subsection \<open>The drivers\<close>

text \<open>C16: The \<open>probe\<close> of the PCI Express bridge ends in one of two ways: it holds nothing and no backend
  is registered, or the backend is registered, its device is ready and free, and \<open>remove\<close> gives
  everything back.\<close>

theorem pcie_probe_all_or_nothing:
  assumes "core_inv core ks" and "wb \<notin> e_wb ` set (c_list core)" and "pcie_probe ans wb core io = (r, h, core', dev)"
  shows "(r = - EIO \<and> h = [] \<and> core' = core \<and> dev = None)
    \<or> (r = 0 \<and> (\<exists>d. dev = Some d \<and> window_ok e d \<and> \<not> p_mutex d \<and> wb \<in> e_wb ` set (c_list core')
        \<and> pcie_remove wb h core' d = ([], core)))"
  using pcie_probe_result [OF assms] by blast

definition demo_pcie_answers :: pcie_answers where
  "demo_pcie_answers = \<lparr>pa_revision = 1, pa_enable = True, pa_alloc = True, pa_mem0 = True, pa_region = (\<lambda>_. True),
     pa_msi = True, pa_wb = all_ok, pa_irq = True\<rparr>"

theorem pcie_probe_all_or_nothing_witness:
  "\<exists>h core' d. pcie_probe demo_pcie_answers 7 demo_core [] = (0, h, core', Some d) \<and> pcie_remove 7 h core' d = ([], demo_core)"
proof -
  obtain core1 where reg: "wishbone_register all_ok 7 demo_core = (core1, 0)"
    by (simp add: wishbone_register_def demo_core_def all_ok_def Let_def)
  obtain r h core' dev where w: "pcie_probe demo_pcie_answers 7 demo_core [] = (r, h, core', dev)" by (metis prod_cases4)
  have "r = 0" using w by (auto simp: pcie_probe_def demo_pcie_answers_def pcie_setup_bar_def Let_def reg)
  then show ?thesis
    using pcie_probe_all_or_nothing [OF demo_core(1,3) w, of Little] w by (auto simp: EIO_def)
qed







subsection \<open>The VME address decoding\<close>



text \<open>C17: The device behind the serial adapter, in every state reachable by opening and closing the port,
  for all kernel versions: each open of the port comes right after an open message the device has
  taken; an open port is open for the device; and a closed port is open for the device only if a
  close message has failed.\<close>

theorem serial_open_announced:
  assumes "serial_reach api p (opened, q)" and "sp_trace p = []"
  shows "announced (sp_trace q) \<and> (opened \<longrightarrow> told False (sp_trace q))
    \<and> (\<not> opened \<and> told False (sp_trace q) \<longrightarrow> close_failed (sp_trace q))"
  using serial_reach_inv [OF assms(2,1)] by (simp add: serial_inv_def)

definition demo_port :: serial_port where
  "demo_port = \<lparr>sp_interface = 2, sp_termios = \<lparr>c_iflag = 0, c_oflag = 0, c_lflag = 0, c_cflag = 0\<rparr>,
     sp_low_latency = False, sp_trace = []\<rparr>"

theorem serial_open_announced_witness:
  "\<exists>q. serial_reach 3 demo_port (True, q) \<and> announced (sp_trace q) \<and> told False (sp_trace q)"
proof -
  let ?ua = "\<lparr>ua_control = (\<lambda>_. 0), ua_open = 0\<rparr>"
  obtain q where q: "wishbone_serial_open 3 undefined (\<lambda>_ _ t. t) ?ua demo_port = (q, 0)"
    by (simp add: wishbone_serial_open_def usb_gsi_openclose_def Let_def)
  from serial_reach.more [OF serial_reach.start serial_step.open_port [OF q]]
  have r: "serial_reach 3 demo_port (True, q)" by simp
  show ?thesis using serial_open_announced [OF r] r by (auto simp: demo_port_def)
qed

end
