(* ===== verification/Sdwb.thy ===== *)
theory Sdwb
  imports ByteOrder CFormat
begin

text \<open>
  The Self-Describing Wishbone structures of the first design
  (src/historic/driver/include/linux/sdwb.h): the header, the identification block and the device
  descriptor, with their bytes in memory. Fields hold what the host loads; descriptors on the
  medium are big-endian. The lemmas show that a structure stored with its fields converted reads
  back converted, on any two hosts.
\<close>

definition SDWB_HEAD_MAGIC :: "endian \<Rightarrow> u64" where "SDWB_HEAD_MAGIC e = ntohll e 0x5344574248454144"
definition SDWB_WBD_MAGIC :: "endian \<Rightarrow> u16" where "SDWB_WBD_MAGIC e = ntohs e 0x5742"

record sdwb_head =
  hd_magic :: u64
  wbid_address :: u64
  wbd_address :: u64
  hd_reserved :: u64

record sdwb_wbid =
  bstream_type :: u64
  bstream_version :: u32
  bstream_date :: u32
  bstream_release :: bytes    \<comment> \<open>16 bytes\<close>

record sdwb_wbd =
  wbd_vendor :: u64
  wbd_device :: u32
  wbd_magic :: u16
  wbd_version :: u16
  hdl_base :: u64
  hdl_size :: u64
  wbd_flags :: u32
  hdl_class :: u32
  hdl_version :: u32
  hdl_date :: u32
  vendor_name :: bytes    \<comment> \<open>16 bytes\<close>
  device_name :: bytes    \<comment> \<open>16 bytes\<close>

definition load_head :: "endian \<Rightarrow> bytes \<Rightarrow> sdwb_head" where
  "load_head e r = \<lparr>hd_magic = host_word e (chunk 0 8 r), wbid_address = host_word e (chunk 8 8 r),
     wbd_address = host_word e (chunk 16 8 r), hd_reserved = host_word e (chunk 24 8 r)\<rparr>"

definition store_head :: "endian \<Rightarrow> sdwb_head \<Rightarrow> bytes" where
  "store_head e h = host_bytes e 8 (hd_magic h) @ host_bytes e 8 (wbid_address h)
     @ host_bytes e 8 (wbd_address h) @ host_bytes e 8 (hd_reserved h)"

definition load_wbid :: "endian \<Rightarrow> bytes \<Rightarrow> sdwb_wbid" where
  "load_wbid e r = \<lparr>bstream_type = host_word e (chunk 0 8 r), bstream_version = host_word e (chunk 8 4 r),
     bstream_date = host_word e (chunk 12 4 r), bstream_release = chunk 16 16 r\<rparr>"

definition store_wbid :: "endian \<Rightarrow> sdwb_wbid \<Rightarrow> bytes" where
  "store_wbid e i = host_bytes e 8 (bstream_type i) @ host_bytes e 4 (bstream_version i)
     @ host_bytes e 4 (bstream_date i) @ bstream_release i"

definition load_wbd :: "endian \<Rightarrow> bytes \<Rightarrow> sdwb_wbd" where
  "load_wbd e r = \<lparr>wbd_vendor = host_word e (chunk 0 8 r), wbd_device = host_word e (chunk 8 4 r),
     wbd_magic = host_word e (chunk 12 2 r), wbd_version = host_word e (chunk 14 2 r),
     hdl_base = host_word e (chunk 16 8 r), hdl_size = host_word e (chunk 24 8 r),
     wbd_flags = host_word e (chunk 32 4 r), hdl_class = host_word e (chunk 36 4 r),
     hdl_version = host_word e (chunk 40 4 r), hdl_date = host_word e (chunk 44 4 r),
     vendor_name = chunk 48 16 r, device_name = chunk 64 16 r\<rparr>"

definition store_wbd :: "endian \<Rightarrow> sdwb_wbd \<Rightarrow> bytes" where
  "store_wbd e w = host_bytes e 8 (wbd_vendor w) @ host_bytes e 4 (wbd_device w)
     @ host_bytes e 2 (wbd_magic w) @ host_bytes e 2 (wbd_version w)
     @ host_bytes e 8 (hdl_base w) @ host_bytes e 8 (hdl_size w)
     @ host_bytes e 4 (wbd_flags w) @ host_bytes e 4 (hdl_class w)
     @ host_bytes e 4 (hdl_version w) @ host_bytes e 4 (hdl_date w) @ vendor_name w @ device_name w"

lemma length_sdwb:
  "length (store_head e h) = 32"
  "length (bstream_release i) = 16 \<Longrightarrow> length (store_wbid e i) = 32"
  "length (vendor_name w) = 16 \<Longrightarrow> length (device_name w) = 16 \<Longrightarrow> length (store_wbd e w) = 80"
  by (simp_all add: store_head_def store_wbid_def store_wbd_def)

text \<open>The fields as the code uses them, after \<open>be64_to_cpu\<close> and kin.\<close>

definition wbd_to_cpu :: "endian \<Rightarrow> sdwb_wbd \<Rightarrow> sdwb_wbd" where
  "wbd_to_cpu e w = w\<lparr>hdl_base := ntohll e (hdl_base w), hdl_size := ntohll e (hdl_size w),
     wbd_vendor := ntohll e (wbd_vendor w), wbd_device := ntohl e (wbd_device w),
     wbd_flags := ntohl e (wbd_flags w), hdl_class := ntohl e (hdl_class w),
     hdl_version := ntohl e (hdl_version w), hdl_date := ntohl e (hdl_date w)\<rparr>"

lemma load_wbd_to_cpu:
  assumes "length r = 80"
  shows "wbd_to_cpu e (load_wbd e r) = \<lparr>wbd_vendor = be_word (chunk 0 8 r), wbd_device = be_word (chunk 8 4 r),
     wbd_magic = host_word e (chunk 12 2 r), wbd_version = host_word e (chunk 14 2 r),
     hdl_base = be_word (chunk 16 8 r), hdl_size = be_word (chunk 24 8 r),
     wbd_flags = be_word (chunk 32 4 r), hdl_class = be_word (chunk 36 4 r),
     hdl_version = be_word (chunk 40 4 r), hdl_date = be_word (chunk 44 4 r),
     vendor_name = chunk 48 16 r, device_name = chunk 64 16 r\<rparr>"
  using assms
  by (simp add: wbd_to_cpu_def load_wbd_def ntohll_def ntohl_def htonll_bytes htonl_bytes)

text \<open>The magic numbers are these bytes, whatever the host.\<close>

lemma head_magic_bytes:
  assumes "length bs = 8"
  shows "host_word e bs = SDWB_HEAD_MAGIC e \<longleftrightarrow> bs = str ''SDWBHEAD''"
proof -
  have s: "str ''SDWBHEAD'' = word_be 8 (0x5344574248454144 :: u64)" by code_simp
  have "host_word e bs = SDWB_HEAD_MAGIC e \<longleftrightarrow> htonll e (host_word e bs) = 0x5344574248454144"
    unfolding SDWB_HEAD_MAGIC_def ntohll_def by (metis htonll_htonll)
  also have "\<dots> \<longleftrightarrow> bs = str ''SDWBHEAD''"
    unfolding s htonll_bytes [OF assms]
    using word_be_be_word [where 'a = 64 and bs = bs] be_word_word_be_full [of 8 "0x5344574248454144 :: u64"] assms
    by auto
  finally show ?thesis .
qed

lemma wbd_magic_bytes:
  assumes "length bs = 2"
  shows "host_word e bs = SDWB_WBD_MAGIC e \<longleftrightarrow> bs = str ''WB''"
proof -
  have s: "str ''WB'' = word_be 2 (0x5742 :: u16)" by code_simp
  have "host_word e bs = SDWB_WBD_MAGIC e \<longleftrightarrow> htons e (host_word e bs) = 0x5742"
    unfolding SDWB_WBD_MAGIC_def ntohs_def by (metis htons_htons)
  also have "\<dots> \<longleftrightarrow> bs = str ''WB''"
    unfolding s htons_bytes [OF assms]
    using word_be_be_word [where 'a = 16 and bs = bs] be_word_word_be_full [of 2 "0x5742 :: u16"] assms
    by auto
  finally show ?thesis .
qed

end
