(* ===== verification/WbDriver.thy ===== *)
theory WbDriver
  imports Sdwb
begin

text \<open>
  The Wishbone bus driver of the first design (src/historic/driver/wishbone.c and
  include/linux/wishbone.h): scanning the descriptors of a bus and registering its devices,
  registering and unregistering a bus, and matching devices with drivers.

  \<open>rd a n\<close> stands for the bus's \<open>read_cfg\<close>: the \<open>n\<close> bytes at \<open>a\<close>, or \<open>None\<close> where the
  buffer is not filled; the code does not look at the result and goes on with an uninitialised
  buffer, so that \<open>None\<close> is then the result of the operation as well. The answers of the kernel
  are arguments, and \<open>k_registered\<close> are the device structures the kernel has registered, by number.
\<close>

subsection \<open>Data\<close>

definition WB_ANY_VENDOR :: u64 where "WB_ANY_VENDOR = NOT 0"
definition WB_ANY_DEVICE :: u32 where "WB_ANY_DEVICE = NOT 0"
definition WB_NO_CLASS :: u32 where "WB_NO_CLASS = NOT 0"

record wb_device_id =
  id_vendor :: u64
  id_device :: u32
  id_class :: u32

record wb_device =
  wd_wbd :: sdwb_wbd
  wd_driver :: "nat option"   \<comment> \<open>the driver, a number in place of its address\<close>
  wd_no :: u32                \<comment> \<open>the number in its name\<close>
  wd_name :: bytes

record wb_bus =
  bus_num :: u32
  bus_name :: bytes
  bus_devname :: bytes
  sdwb_header_base :: u64
  bus_devices :: "wb_device list"
  bus_ndev :: u32

record wb_kernel =
  global_wb_devno :: u32
  global_wbbus_devno :: u32
  k_registered :: "u32 list"
  k_buses :: "u32 list"

record wb_kernel_answers =
  ka_alloc :: "u64 \<Rightarrow> bool"      \<comment> \<open>\<open>kzalloc\<close>, by the address of the descriptor\<close>
  ka_device :: "u32 \<Rightarrow> int"     \<comment> \<open>\<open>device_register\<close> of a device, by its number\<close>
  ka_bus :: "u32 \<Rightarrow> int"        \<comment> \<open>\<open>device_register\<close> of a bus, by its number\<close>

type_synonym read_cfg = "u64 \<Rightarrow> nat \<Rightarrow> bytes option"

subsection \<open>Devices\<close>

text \<open>A string printed with \<open>%s\<close> from a \<open>char\<close> array: what lies behind the array is read as well
  when no zero ends it.\<close>

definition c_string :: "bytes \<Rightarrow> bytes option" where
  "c_string s = (if 0 \<in> set s then Some (cut s) else None)"

definition wb_register_device ::
    "wb_kernel_answers \<Rightarrow> wb_kernel \<Rightarrow> wb_device \<Rightarrow> (wb_kernel \<times> wb_device \<times> int) option" where
  "wb_register_device ka k d =
     (let devno = global_wb_devno k + 1; k = k\<lparr>global_wb_devno := devno\<rparr>
      in do {
        vname \<leftarrow> c_string (vendor_name (wd_wbd d) @ device_name (wd_wbd d));
        dname \<leftarrow> c_string (device_name (wd_wbd d));
        let d = d\<lparr>wd_no := devno,
                  wd_name := str ''wb'' @ print_int devno @ [0x2d] @ vname @ [0x2d] @ dname\<rparr>;
        let ret = ka_device ka devno;
        Some (if 0 \<le> ret then k\<lparr>k_registered := devno # k_registered k\<rparr> else k, d, ret) })"

definition wb_unregister_device :: "wb_kernel \<Rightarrow> u32 \<Rightarrow> wb_kernel" where
  "wb_unregister_device k devno = k\<lparr>k_registered := remove1 devno (k_registered k)\<rparr>"

definition wb_get_next_device ::
    "endian \<Rightarrow> wb_kernel_answers \<Rightarrow> read_cfg \<Rightarrow> u64 \<Rightarrow> wb_device option option" where
  "wb_get_next_device e ka rd wb_ptr = do {
     bs \<leftarrow> rd wb_ptr 80;
     let wbd = load_wbd e bs;
     if wbd_magic wbd \<noteq> SDWB_WBD_MAGIC e then Some None
     else
       (let wbd = wbd_to_cpu e wbd
        in if \<not> ka_alloc ka wb_ptr then Some None
           else Some (Some \<lparr>wd_wbd = wbd, wd_driver = None, wd_no = 0, wd_name = []\<rparr>)) }"

subsection \<open>Scanning a bus\<close>

definition wb_read_sdwb_header :: "endian \<Rightarrow> read_cfg \<Rightarrow> wb_bus \<Rightarrow> sdwb_head option" where
  "wb_read_sdwb_header e rd bus = do {
     bs \<leftarrow> rd (sdwb_header_base bus) 32;
     let head = load_head e bs;
     Some (head\<lparr>wbid_address := ntohll e (wbid_address head), wbd_address := ntohll e (wbd_address head)\<rparr>) }"

text \<open>The 64-bit conversion is applied to the 32-bit fields as well.\<close>

definition wb_read_sdwb_id :: "endian \<Rightarrow> read_cfg \<Rightarrow> sdwb_head \<Rightarrow> sdwb_wbid option" where
  "wb_read_sdwb_id e rd head = do {
     bs \<leftarrow> rd (wbid_address head) 32;
     let wbid = load_wbid e bs;
     Some (wbid\<lparr>bstream_type := ntohll e (bstream_type wbid),
                bstream_version := ucast (ntohll e (ucast (bstream_version wbid))),
                bstream_date := ucast (ntohll e (ucast (bstream_date wbid)))\<rparr>) }"

text \<open>After a failed registration: every device of the list is unregistered.\<close>

definition drop_devices :: "wb_kernel \<Rightarrow> wb_bus \<Rightarrow> wb_kernel \<times> wb_bus" where
  "drop_devices k bus = (foldl wb_unregister_device k (map wd_no (bus_devices bus)),
     bus\<lparr>bus_devices := [], bus_ndev := 0\<rparr>)"

partial_function (option) scan_devices ::
    "endian \<Rightarrow> wb_kernel_answers \<Rightarrow> read_cfg \<Rightarrow> u64 \<Rightarrow> wb_kernel \<Rightarrow> wb_bus \<Rightarrow> (wb_kernel \<times> wb_bus \<times> int) option" where
  "scan_devices e ka rd wbd_ptr k bus =
     Option.bind (wb_get_next_device e ka rd wbd_ptr) (\<lambda>res.
       case res of
         None \<Rightarrow> Some (k, bus, 0)
       | Some wbdev \<Rightarrow>
           Option.bind (wb_register_device ka k wbdev) (\<lambda>(k1, wbdev1, ret).
             if ret < 0 then
               (case drop_devices k1 bus of (k2, bus2) \<Rightarrow> Some (k2, bus2, - ENODEV))
             else scan_devices e ka rd (wbd_ptr + 80) k1
               (bus\<lparr>bus_devices := wbdev1 # bus_devices bus, bus_ndev := bus_ndev bus + 1\<rparr>)))"

definition wb_scan_bus ::
    "endian \<Rightarrow> wb_kernel_answers \<Rightarrow> read_cfg \<Rightarrow> wb_kernel \<Rightarrow> wb_bus \<Rightarrow> (wb_kernel \<times> wb_bus \<times> int) option" where
  "wb_scan_bus e ka rd k bus = do {
     head \<leftarrow> wb_read_sdwb_header e rd bus;
     if hd_magic head \<noteq> SDWB_HEAD_MAGIC e then Some (k, bus, - ENODEV)
     else do {
       wbid \<leftarrow> wb_read_sdwb_id e rd head;
       scan_devices e ka rd (wbd_address head) k bus } }"

definition wb_register_bus ::
    "endian \<Rightarrow> wb_kernel_answers \<Rightarrow> read_cfg \<Rightarrow> wb_kernel \<Rightarrow> wb_bus \<Rightarrow> (wb_kernel \<times> wb_bus \<times> int) option" where
  "wb_register_bus e ka rd k bus =
     (let devno = global_wbbus_devno k + 1;
          k = k\<lparr>global_wbbus_devno := devno\<rparr>;
          bus = bus\<lparr>bus_devices := [], bus_num := devno,
                    bus_devname := str ''wb-bus'' @ print_int devno @ [0x2d] @ bus_name bus\<rparr>
      in if ka_bus ka devno < 0 then Some (k, bus, - ENODEV)
         else do {
           let k = k\<lparr>k_buses := devno # k_buses k\<rparr>;
           (k, bus, ret) \<leftarrow> wb_scan_bus e ka rd k bus;
           if ret < 0 then Some (k\<lparr>k_buses := remove1 devno (k_buses k)\<rparr>, bus, - EFAULT)
           else Some (k, bus, 0) })"

text \<open>Unregistering drops a reference to the device, and the last one frees the structure; the code
  takes the device off the list only afterwards. \<open>held\<close> are the devices with another reference.\<close>

fun unregister_devices :: "(u32 \<Rightarrow> bool) \<Rightarrow> wb_kernel \<Rightarrow> wb_device list \<Rightarrow> wb_kernel option" where
  "unregister_devices held k [] = Some k"
| "unregister_devices held k (d # ds) =
     (let k = wb_unregister_device k (wd_no d)
      in if \<not> held (wd_no d) then None else unregister_devices held k ds)"

definition wb_unregister_bus :: "(u32 \<Rightarrow> bool) \<Rightarrow> wb_kernel \<Rightarrow> wb_bus \<Rightarrow> (wb_kernel \<times> wb_bus) option" where
  "wb_unregister_bus held k bus = do {
     k \<leftarrow> unregister_devices held k (bus_devices bus);
     Some (k\<lparr>k_buses := remove1 (bus_num bus) (k_buses k)\<rparr>, bus\<lparr>bus_devices := []\<rparr>) }"

subsection \<open>Drivers\<close>

text \<open>The search through a driver's table: the index of the entry, and \<open>None\<close> where the table has no
  zero entry at its end. The local \<open>device\<close> is only assigned where the vendor is zero.\<close>

fun match_ids :: "sdwb_wbd \<Rightarrow> u32 \<Rightarrow> nat \<Rightarrow> wb_device_id list \<Rightarrow> nat option option" where
  "match_ids w device i [] = None"
| "match_ids w device i (x # xs) =
     (let device = (if id_vendor x \<noteq> 0 then device else id_device x)
      in if id_vendor x = 0 \<and> device = 0 then Some None
         else if (id_class x \<noteq> WB_NO_CLASS \<and> id_class x = hdl_class w)
            \<or> ((id_vendor x = WB_ANY_VENDOR \<or> id_vendor x = wbd_vendor w)
               \<and> (device = WB_ANY_DEVICE \<or> device = wbd_device w)) then Some (Some i)
         else match_ids w device (Suc i) xs)"

record wb_driver =
  drv_no :: nat
  id_table :: "wb_device_id list option"
  drv_probe :: "(wb_device \<Rightarrow> int) option"
  drv_remove :: "(wb_device \<Rightarrow> int) option"

definition wb_match_device :: "wb_driver \<Rightarrow> wb_device \<Rightarrow> nat option option" where
  "wb_match_device drv dev =
     (case id_table drv of None \<Rightarrow> Some None | Some ids \<Rightarrow> match_ids (wd_wbd dev) 0 0 ids)"

definition wb_bus_match :: "wb_device \<Rightarrow> wb_driver \<Rightarrow> (wb_device \<times> int) option" where
  "wb_bus_match dev drv = do {
     found \<leftarrow> wb_match_device drv dev;
     case found of None \<Rightarrow> Some (dev, 0) | Some i \<Rightarrow> Some (dev\<lparr>wd_driver := Some (drv_no drv)\<rparr>, 1) }"

text \<open>\<open>drvs\<close> gives the driver at an address.\<close>

definition wb_drv_probe :: "(nat \<Rightarrow> wb_driver) \<Rightarrow> wb_device \<Rightarrow> int" where
  "wb_drv_probe drvs dev =
     (case wd_driver dev of None \<Rightarrow> 0
      | Some n \<Rightarrow> (case drv_probe (drvs n) of None \<Rightarrow> 0 | Some probe \<Rightarrow> probe dev))"

definition wb_drv_remove :: "(nat \<Rightarrow> wb_driver) \<Rightarrow> wb_device \<Rightarrow> int" where
  "wb_drv_remove drvs dev =
     (case wd_driver dev of None \<Rightarrow> 0
      | Some n \<Rightarrow> (case drv_remove (drvs n) of None \<Rightarrow> 0 | Some remove \<Rightarrow> remove dev))"

subsection \<open>The module\<close>

text \<open>The bus type and the root device: whether each is registered, and the answer.\<close>

definition wb_init :: "int \<Rightarrow> int \<Rightarrow> (bool \<times> bool) \<times> int" where
  "wb_init bus_ret device_ret =
     (if bus_ret \<noteq> 0 then ((False, False), bus_ret)
      else if device_ret \<noteq> 0 then ((False, False), device_ret)
      else ((True, True), 0))"

definition wb_exit :: "bool \<times> bool \<Rightarrow> bool \<times> bool" where
  "wb_exit regs = (case regs of (bus_type, dev_zero) \<Rightarrow> (False, False))"

end
