(* ===== verification/WbFake.thy ===== *)
theory WbFake
  imports WbDriver
begin

text \<open>
  The simulated Wishbone bus of the first design: the generator of its firmware image
  (src/historic/driver/fw/wb_cfggen.c), which turns a text into the header, the identification
  block and the descriptors, and the bus driver that serves the image
  (src/historic/driver/fake_wb_bus.c).
\<close>

subsection \<open>The generator\<close>

record wbd_spec =
  w_major :: u32
  w_minor :: u32
  w_vendor :: u32
  w_device :: u32
  w_base :: u32
  w_sz :: u32
  w_flags :: u32
  w_class :: u32
  w_version :: u32
  w_date :: u32
  w_vname :: bytes
  w_dname :: bytes

definition sdwb_create_header :: "endian \<Rightarrow> u64 \<Rightarrow> u64 \<Rightarrow> bytes" where
  "sdwb_create_header e wbid_addr wbd_addr = store_head e
     \<lparr>hd_magic = SDWB_HEAD_MAGIC e, wbid_address = htonll e wbid_addr,
      wbd_address = htonll e wbd_addr, hd_reserved = 0\<rparr>"

text \<open>\<open>junk\<close> is what \<open>malloc\<close> returns; only the first field is assigned.\<close>

definition sdwb_create_id :: "endian \<Rightarrow> bytes \<Rightarrow> bytes" where
  "sdwb_create_id e junk =
     store_wbid e ((load_wbid e junk)\<lparr>bstream_type := htonll e 0xdeadbeefdeadbeef\<rparr>)"

definition strncpy16 :: "bytes \<Rightarrow> bytes" where
  \<comment> \<open>\<open>strncpy(d, s, 16); d[15] = 0\<close>\<close>
  "strncpy16 s = (take 16 s @ replicate (16 - length s) 0)[15 := 0]"

text \<open>The version is a 16-bit field that takes the 32-bit conversion.\<close>

definition sdwb_create_device :: "endian \<Rightarrow> wbd_spec \<Rightarrow> bytes" where
  "sdwb_create_device e s = store_wbd e
     \<lparr>wbd_vendor = htonll e (ucast (w_vendor s)), wbd_device = htonl e (w_device s),
      wbd_magic = SDWB_WBD_MAGIC e,
      wbd_version = ucast (htonl e (push_bit 8 (w_major s AND 0xFF) OR (w_minor s AND 0xFF))),
      hdl_base = htonll e (ucast (w_base s)), hdl_size = htonll e (ucast (w_sz s)),
      wbd_flags = htonl e (w_flags s), hdl_class = htonl e (w_class s),
      hdl_version = htonl e (w_version s), hdl_date = htonl e (w_date s),
      vendor_name = strncpy16 (w_vname s), device_name = strncpy16 (w_dname s)\<rparr>"

text \<open>The lines of the input: a line of numbers is followed by two lines with a name; at the end of
  the file \<open>fgets\<close> leaves the previous line in the buffer. \<open>None\<close>: a variable is used that the
  conversions have not assigned, or a name overflows its array.\<close>

definition spec_of :: "u32 list \<Rightarrow> bytes \<Rightarrow> bytes \<Rightarrow> wbd_spec" where
  "spec_of v vname dname = \<lparr>w_major = v ! 0, w_minor = v ! 1, w_vendor = v ! 2, w_device = v ! 3,
     w_base = v ! 4, w_sz = v ! 5, w_flags = v ! 6, w_class = v ! 7, w_version = v ! 8, w_date = v ! 9,
     w_vname = vname, w_dname = dname\<rparr>"

definition spec_format :: "bool list" where
  "spec_format = [False, False, True, False, True, True, True, True, False, True]"

definition next_line :: "bytes \<Rightarrow> bytes \<Rightarrow> bytes \<times> bytes" where
  "next_line buf text = (if text = [] then (buf, text) else fgets 127 text)"

function cfg_loop :: "bytes \<Rightarrow> wbd_spec list option" where
  "cfg_loop text =
     (if text = [] then Some []
      else (case fgets 127 text of (buf, rest) \<Rightarrow>
        if cut buf = [] then cfg_loop rest
        else if hd buf = 0x23 \<or> hd buf = 10 then cfg_loop rest
        else do {
          v \<leftarrow> scan_u32s spec_format (cut buf);
          let (buf1, rest1) = next_line buf rest;
          vname \<leftarrow> scan_word 16 (cut buf1);
          let (buf2, rest2) = next_line buf1 rest1;
          dname \<leftarrow> scan_word 16 (cut buf2);
          specs \<leftarrow> cfg_loop rest2;
          Some (spec_of v vname dname # specs) }))"
  by pat_completeness auto
termination
proof (relation "measure length", goal_cases)
  have next_le: "length (snd (next_line b t)) \<le> length t" for b t
    using fgets_progress [of t 126] by (cases "t = []") (auto simp: next_line_def)
  {
    case (2 inp buf rest)
    then show ?case using fgets_progress [of inp 126] by (cases "fgets 127 inp") simp
  next
    case (3 inp buf rest)
    then show ?case using fgets_progress [of inp 126] by (cases "fgets 127 inp") simp
  next
    case (4 inp buf rest v l1 buf1 rest1 vname l2 buf2 rest2 dname)
    have "length rest < length inp"
      using fgets_progress [of inp 126] 4(1,2) by (cases "fgets 127 inp") simp
    moreover have "length rest1 \<le> length rest" using next_le [of buf rest] 4 by (cases "next_line buf rest") simp
    moreover have "length rest2 \<le> length rest1" using next_le [of buf1 rest1] 4 by (cases "next_line buf1 rest1") simp
    ultimately show ?case by simp
  }
qed simp

declare cfg_loop.simps [simp del]

text \<open>The main program: the output file, where it was made, and the exit code.\<close>

definition cfggen_main :: "endian \<Rightarrow> bytes \<Rightarrow> bytes option \<Rightarrow> bool \<Rightarrow> (bytes option \<times> int) option" where
  "cfggen_main e junk fin out_ok =
     (case fin of
        None \<Rightarrow> Some (None, 1)
      | Some text \<Rightarrow>
          if \<not> out_ok then Some (None, 1)
          else do {
            specs \<leftarrow> cfg_loop text;
            let img = sdwb_create_header e 32 (32 + 32) @ sdwb_create_id e junk
                  @ concat (map (sdwb_create_device e) specs);
            Some (Some (img @ replicate (4 * 1024 * 1024 - length img) 0), 0) })"

subsection \<open>The simulated bus\<close>

text \<open>\<open>size_t\<close> has 64 bits; the result is \<open>None\<close> where the buffer is not filled, or the copy
  leaves the image because the sum wrapped around.\<close>

definition fake_read_cfg :: "bytes \<Rightarrow> read_cfg" where
  "fake_read_cfg fw addr len =
     (if (of_nat (length fw) :: u64) < addr + of_nat len then None
      else if unat addr + len \<le> length fw then Some (chunk (unat addr) len fw)
      else None)"

record fake_bus =
  fb_fw :: "bytes option"     \<comment> \<open>the firmware held\<close>
  fb_bus :: wb_bus
  fb_device :: bool           \<comment> \<open>\<open>fake_wbbus_device\<close> is registered\<close>

definition fake_fwname :: "u32 \<Rightarrow> u32 \<Rightarrow> bytes" where
  "fake_fwname spec_vendor spec_device =
     str ''fakespec-'' @ print_hex 4 (unat spec_vendor) @ [0x2d] @ print_hex 4 (unat spec_device)"

text \<open>\<open>request\<close> is \<open>request_firmware\<close>: the file of that name, or an error.\<close>

definition fake_wbbus_probe ::
    "endian \<Rightarrow> wb_kernel_answers \<Rightarrow> (bytes \<Rightarrow> int + bytes) \<Rightarrow> u32 \<Rightarrow> u32 \<Rightarrow> wb_kernel \<Rightarrow> fake_bus
     \<Rightarrow> (wb_kernel \<times> fake_bus \<times> int) option" where
  "fake_wbbus_probe e ka request spec_vendor spec_device k fb =
     (case request (fake_fwname spec_vendor spec_device) of
        Inl err \<Rightarrow> Some (k, fb, err)
      | Inr fw \<Rightarrow> do {
          let fb = fb\<lparr>fb_fw := Some fw\<rparr>;
          (k, bus, ret) \<leftarrow> wb_register_bus e ka (fake_read_cfg fw) k (fb_bus fb);
          let fb = fb\<lparr>fb_bus := bus\<rparr>;
          if ret < 0 then Some (k, fb\<lparr>fb_fw := None\<rparr>, ret) else Some (k, fb, 0) })"

definition fake_wb_bus_init ::
    "endian \<Rightarrow> wb_kernel_answers \<Rightarrow> (bytes \<Rightarrow> int + bytes) \<Rightarrow> int \<Rightarrow> u32 \<Rightarrow> u32 \<Rightarrow> wb_kernel \<Rightarrow> fake_bus
     \<Rightarrow> (wb_kernel \<times> fake_bus \<times> int) option" where
  "fake_wb_bus_init e ka request dev_ret spec_vendor spec_device k fb =
     (if dev_ret \<noteq> 0 then Some (k, fb, dev_ret)
      else do {
        let fb = fb\<lparr>fb_device := True\<rparr>;
        (k, fb, ret) \<leftarrow> fake_wbbus_probe e ka request spec_vendor spec_device k fb;
        if ret < 0 then Some (k, fb\<lparr>fb_device := False\<rparr>, ret) else Some (k, fb, 0) })"

definition fake_wb_bus_exit :: "(u32 \<Rightarrow> bool) \<Rightarrow> wb_kernel \<Rightarrow> fake_bus \<Rightarrow> (wb_kernel \<times> fake_bus) option" where
  "fake_wb_bus_exit held k fb = do {
     (k, bus) \<leftarrow> wb_unregister_bus held k (fb_bus fb);
     Some (k, fb\<lparr>fb_bus := bus, fb_fw := None, fb_device := False\<rparr>) }"

end
