(* ===== verification/WbScan.thy ===== *)
theory WbScan
  imports WbFake
begin

text \<open>
  The scan of a bus whose configuration memory holds a table of descriptors: the devices it
  registers, and what a failed registration leaves behind. The locale states what the scan asks of
  the bus's \<open>read_cfg\<close>; the simulated bus provides it for every image. With the image of the
  generator, the scan finds the devices of the generator's input.
\<close>

lemma length_str [simp]: "length (str s) = length s"
  by (simp add: str_def)

subsection \<open>The devices of a table\<close>

definition descriptor :: "bytes \<Rightarrow> bool" where
  "descriptor r \<longleftrightarrow> length r = 80 \<and> chunk 12 2 r = str ''WB'' \<and> 0 \<in> set (chunk 64 16 r)"

definition the_device :: "endian \<Rightarrow> u32 \<Rightarrow> bytes \<Rightarrow> wb_device" where
  "the_device e no r = \<lparr>wd_wbd = wbd_to_cpu e (load_wbd e r), wd_driver = None, wd_no = no,
     wd_name = str ''wb'' @ print_int no @ [0x2d] @ cut (chunk 48 32 r) @ [0x2d] @ cut (chunk 64 16 r)\<rparr>"

fun devices_of :: "endian \<Rightarrow> u32 \<Rightarrow> bytes list \<Rightarrow> wb_device list" where
  "devices_of e no [] = []"
| "devices_of e no (r # rs) = the_device e (no + 1) r # devices_of e (no + 1) rs"

lemma length_devices_of [simp]: "length (devices_of e no rs) = length rs"
  by (induction rs arbitrary: no) simp_all

text \<open>The result of the scan from a given number on: the first refused device drops them all.\<close>

fun scan_result ::
    "wb_kernel_answers \<Rightarrow> u32 list \<Rightarrow> wb_kernel \<Rightarrow> wb_bus \<Rightarrow> wb_device list \<Rightarrow> wb_kernel \<times> wb_bus \<times> int" where
  "scan_result ka old k bus [] = (k, bus, 0)"
| "scan_result ka old k bus (d # ds) =
     (let k = k\<lparr>global_wb_devno := wd_no d\<rparr>
      in if ka_device ka (wd_no d) < 0 then (k\<lparr>k_registered := old\<rparr>, bus\<lparr>bus_devices := [], bus_ndev := 0\<rparr>, - ENODEV)
         else scan_result ka old (k\<lparr>k_registered := wd_no d # k_registered k\<rparr>)
           (bus\<lparr>bus_devices := d # bus_devices bus, bus_ndev := bus_ndev bus + 1\<rparr>) ds)"

lemma scan_result_cases:
  obtains "\<forall>d\<in>set ds. 0 \<le> ka_device ka (wd_no d)"
    and "scan_result ka old k bus ds = (k\<lparr>global_wb_devno := (if ds = [] then global_wb_devno k else wd_no (last ds)),
      k_registered := map wd_no (rev ds) @ k_registered k\<rparr>,
      bus\<lparr>bus_devices := rev ds @ bus_devices bus, bus_ndev := bus_ndev bus + of_nat (length ds)\<rparr>, 0)"
  | n where "\<exists>d\<in>set ds. ka_device ka (wd_no d) < 0" and "scan_result ka old k bus ds
      = (k\<lparr>global_wb_devno := n, k_registered := old\<rparr>, bus\<lparr>bus_devices := [], bus_ndev := 0\<rparr>, - ENODEV)"
proof (induction ds arbitrary: k bus thesis)
  case Nil
  then show ?case by simp
next
  case (Cons d ds)
  let ?k = "k\<lparr>global_wb_devno := wd_no d, k_registered := wd_no d # k_registered k\<rparr>"
  let ?bus = "bus\<lparr>bus_devices := d # bus_devices bus, bus_ndev := bus_ndev bus + 1\<rparr>"
  show ?case
  proof (cases "ka_device ka (wd_no d) < 0")
    case True
    then show ?thesis by (intro Cons.prems(2) [of "wd_no d"]) (simp_all add: Let_def)
  next
    case False
    show ?thesis
      by (rule Cons.IH [of ?k ?bus]) (use False Cons.prems in \<open>auto simp: Let_def\<close>)
  qed
qed

lemma drop_all:
  "k_registered k = map wd_no ds @ old \<Longrightarrow>
   foldl wb_unregister_device k (map wd_no ds) = k\<lparr>k_registered := old\<rparr>"
proof (induction ds arbitrary: k)
  case (Cons d ds)
  have "foldl wb_unregister_device (wb_unregister_device k (wd_no d)) (map wd_no ds)
      = (wb_unregister_device k (wd_no d))\<lparr>k_registered := old\<rparr>"
    by (rule Cons.IH) (simp add: wb_unregister_device_def Cons.prems)
  then show ?case by (simp add: wb_unregister_device_def [of k "wd_no d"])
qed simp

lemma register_descriptor:
  assumes "descriptor r"
  shows "wb_register_device ka k \<lparr>wd_wbd = wbd_to_cpu e (load_wbd e r), wd_driver = None, wd_no = 0, wd_name = []\<rparr>
    = Some (let no = global_wb_devno k + 1; k = k\<lparr>global_wb_devno := no\<rparr>
            in (if 0 \<le> ka_device ka no then k\<lparr>k_registered := no # k_registered k\<rparr> else k,
                the_device e no r, ka_device ka no))"
proof -
  let ?w = "wbd_to_cpu e (load_wbd e r)"
  have names: "vendor_name ?w = chunk 48 16 r" "device_name ?w = chunk 64 16 r"
    by (simp_all add: wbd_to_cpu_def load_wbd_def)
  have "chunk 48 16 r @ chunk 64 16 r = chunk 48 32 r" using chunk_append [of 48 16 r 16] by simp
  moreover have "0 \<in> set (chunk 48 16 r @ chunk 64 16 r)" using assms by (simp add: descriptor_def)
  ultimately show ?thesis
    using assms by (simp add: wb_register_device_def c_string_def names descriptor_def the_device_def Let_def)
qed

subsection \<open>The scan\<close>

locale config_memory =
  fixes rd :: read_cfg and img :: bytes
  assumes read: "unat a + n \<le> length img \<Longrightarrow> length img < 2 ^ 64 \<Longrightarrow> rd a n = Some (chunk (unat a) n img)"
begin

lemma scan_table:
  assumes "length img < 2 ^ 64" and "\<forall>a. ka_alloc ka a" and "\<forall>r\<in>set rs. descriptor r"
    and "unat ptr + 80 * Suc (length rs) \<le> length img"
    and "\<forall>i < length rs. chunk (unat ptr + 80 * i) 80 img = rs ! i"
    and "chunk (unat ptr + 80 * length rs + 12) 2 img \<noteq> str ''WB''"
    and "k_registered k = map wd_no (bus_devices bus) @ old"
  shows "scan_devices e ka rd ptr k bus
    = Some (scan_result ka old k bus (devices_of e (global_wb_devno k) rs))"
  using assms(3-)
proof (induction rs arbitrary: ptr k bus)
  case Nil
  have bs: "rd ptr 80 = Some (chunk (unat ptr) 80 img)" using read [of ptr 80] Nil.prems(2) assms(1) by simp
  have "chunk 12 2 (chunk (unat ptr) 80 img) \<noteq> str ''WB''" using Nil.prems(4) by (simp add: chunk_chunk)
  then have "wb_get_next_device e ka rd ptr = Some None"
    using Nil.prems(2) wbd_magic_bytes [of "chunk 12 2 (chunk (unat ptr) 80 img)" e]
    by (simp add: wb_get_next_device_def bs load_wbd_def)
  then show ?case by (subst scan_devices.simps) simp
next
  case (Cons r rs)
  have r: "descriptor r" "chunk (unat ptr) 80 img = r" using Cons.prems(1,3) by auto
  have "rd ptr 80 = Some r" using read [of ptr 80] Cons.prems(2) assms(1) r(2) by simp
  moreover have "wbd_magic (load_wbd e r) = SDWB_WBD_MAGIC e"
    using r(1) wbd_magic_bytes [of "chunk 12 2 r" e] by (simp add: load_wbd_def descriptor_def)
  ultimately have dev: "wb_get_next_device e ka rd ptr = Some (Some \<lparr>wd_wbd = wbd_to_cpu e (load_wbd e r),
      wd_driver = None, wd_no = 0, wd_name = []\<rparr>)"
    using assms(2) by (simp add: wb_get_next_device_def)
  let ?no = "global_wb_devno k + 1"
  let ?d = "the_device e ?no r" let ?k = "k\<lparr>global_wb_devno := ?no\<rparr>"
  have no: "wd_no ?d = ?no" by (simp add: the_device_def)
  note reg = register_descriptor [OF r(1), of ka k e]
  show ?case
  proof (cases "ka_device ka ?no < 0")
    case True
    have "drop_devices ?k bus = (?k\<lparr>k_registered := old\<rparr>, bus\<lparr>bus_devices := [], bus_ndev := 0\<rparr>)"
      using drop_all [of ?k "bus_devices bus" old] Cons.prems(5) by (simp add: drop_devices_def)
    then show ?thesis
      using True by (subst scan_devices.simps) (simp add: dev reg no Let_def)
  next
    case False
    let ?k' = "?k\<lparr>k_registered := ?no # k_registered k\<rparr>"
    let ?bus = "bus\<lparr>bus_devices := ?d # bus_devices bus, bus_ndev := bus_ndev bus + 1\<rparr>"
    have "unat ptr + unat (80 :: u64) < 2 ^ LENGTH(64)" using Cons.prems(2) assms(1) by simp
    then have ptr: "unat (ptr + 80) = unat ptr + 80" unfolding unat_word_ariths(1) by simp
    have "scan_devices e ka rd (ptr + 80) ?k' ?bus
        = Some (scan_result ka old ?k' ?bus (devices_of e (global_wb_devno ?k') rs))"
    proof (rule Cons.IH)
      show "\<forall>r\<in>set rs. descriptor r" using Cons.prems(1) by simp
      show "unat (ptr + 80) + 80 * Suc (length rs) \<le> length img" using Cons.prems(2) by (simp add: ptr)
      show "\<forall>i<length rs. chunk (unat (ptr + 80) + 80 * i) 80 img = rs ! i"
        using Cons.prems(3) by (auto simp: ptr algebra_simps dest: spec [of _ "Suc i" for i])
      show "chunk (unat (ptr + 80) + 80 * length rs + 12) 2 img \<noteq> str ''WB''"
        using Cons.prems(4) by (simp add: ptr algebra_simps)
      show "k_registered ?k' = map wd_no (bus_devices ?bus) @ old" using Cons.prems(5) by (simp add: no)
    qed
    then show ?thesis
      using False by (subst scan_devices.simps) (simp add: dev reg no Let_def)
  qed
qed

text \<open>The whole scan, with the header and the identification block in front of the table.\<close>

lemma scan_image:
  assumes "length img < 2 ^ 64" and "\<forall>a. ka_alloc ka a" and "\<forall>r\<in>set rs. descriptor r"
    and "unat (sdwb_header_base bus) + 32 \<le> length img"
    and "chunk (unat (sdwb_header_base bus)) 8 img = str ''SDWBHEAD''"
    and "be_word (chunk (unat (sdwb_header_base bus) + 8) 8 img) = ida" and "unat (ida :: u64) + 32 \<le> length img"
    and "be_word (chunk (unat (sdwb_header_base bus) + 16) 8 img) = ptr"
    and "unat (ptr :: u64) + 80 * Suc (length rs) \<le> length img"
    and "\<forall>i < length rs. chunk (unat ptr + 80 * i) 80 img = rs ! i"
    and "chunk (unat ptr + 80 * length rs + 12) 2 img \<noteq> str ''WB''"
    and "bus_devices bus = []"
  shows "wb_scan_bus e ka rd k bus
    = Some (scan_result ka (k_registered k) k bus (devices_of e (global_wb_devno k) rs))"
proof -
  let ?b = "sdwb_header_base bus" let ?h = "chunk (unat ?b) 32 img"
  have "rd ?b 32 = Some ?h" using read assms(1,4) by blast
  then have head: "wb_read_sdwb_header e rd bus = Some ((load_head e ?h)\<lparr>wbid_address := ida, wbd_address := ptr\<rparr>)"
    using assms(4,6,8) by (simp add: wb_read_sdwb_header_def load_head_def chunk_chunk ntohll_def htonll_bytes)
  have magic: "hd_magic (load_head e ?h) = SDWB_HEAD_MAGIC e"
    using head_magic_bytes [of "chunk (unat ?b) 8 img" e] assms(4,5) by (simp add: load_head_def chunk_chunk)
  have "rd ida 32 = Some (chunk (unat ida) 32 img)" using read assms(1,7) by blast
  then obtain wbid where "wb_read_sdwb_id e rd ((load_head e ?h)\<lparr>wbid_address := ida, wbd_address := ptr\<rparr>) = Some wbid"
    by (simp add: wb_read_sdwb_id_def Let_def)
  moreover have "scan_devices e ka rd ptr k bus
      = Some (scan_result ka (k_registered k) k bus (devices_of e (global_wb_devno k) rs))"
    by (rule scan_table [OF assms(1-3,9-11)]) (simp add: assms(12))
  ultimately show ?thesis by (simp add: wb_scan_bus_def head magic)
qed

end

interpretation fake: config_memory "fake_read_cfg img" img for img
proof
  fix a :: u64 and n
  assume a: "unat a + n \<le> length img" "length img < 2 ^ 64"
  then have "n < 2 ^ LENGTH(64)" "length img < 2 ^ LENGTH(64)" by simp_all
  then have u: "unat (of_nat n :: u64) = n" "unat (of_nat (length img) :: u64) = length img"
    unfolding unat_of_nat by simp_all
  have "unat a + unat (of_nat n :: u64) < 2 ^ LENGTH(64)" unfolding u using a by simp
  then have "unat (a + of_nat n) = unat a + n" unfolding unat_word_ariths(1) u by simp
  then have "\<not> (of_nat (length img) :: u64) < a + of_nat n" using a u by (simp add: word_less_nat_alt)
  then show "fake_read_cfg img a n = Some (chunk (unat a) n img)" using a by (simp add: fake_read_cfg_def)
qed

subsection \<open>Taking a bus away\<close>

text \<open>Only when every device has another reference is the list walked over structures that are still
  there; then all of them are gone from the kernel.\<close>

lemma unregister_bus_eq:
  assumes "k_registered k = map wd_no (bus_devices bus) @ old"
  shows "wb_unregister_bus held k bus =
    (if \<forall>d\<in>set (bus_devices bus). held (wd_no d)
     then Some (k\<lparr>k_registered := old, k_buses := remove1 (bus_num bus) (k_buses k)\<rparr>, bus\<lparr>bus_devices := []\<rparr>)
     else None)"
proof -
  have "unregister_devices held k ds = (if \<forall>d\<in>set ds. held (wd_no d)
      then Some (k\<lparr>k_registered := old\<rparr>) else None)"
    if "k_registered k = map wd_no ds @ old" for ds and k :: wb_kernel
    using that by (induction ds arbitrary: k) (auto simp: wb_unregister_device_def)
  from this [OF assms] show ?thesis by (simp add: wb_unregister_bus_def)
qed

subsection \<open>The driver's table\<close>

text \<open>The number the search compares at an entry: the one of the last entry without a vendor.\<close>

fun seen_device :: "u32 \<Rightarrow> wb_device_id list \<Rightarrow> u32" where
  "seen_device d [] = d"
| "seen_device d (x # xs) = seen_device (if id_vendor x \<noteq> 0 then d else id_device x) xs"

definition entry_matches :: "sdwb_wbd \<Rightarrow> u32 \<Rightarrow> wb_device_id \<Rightarrow> bool" where
  "entry_matches w device x \<longleftrightarrow> (id_class x \<noteq> WB_NO_CLASS \<and> id_class x = hdl_class w)
     \<or> ((id_vendor x = WB_ANY_VENDOR \<or> id_vendor x = wbd_vendor w)
        \<and> (device = WB_ANY_DEVICE \<or> device = wbd_device w))"

definition zero_id :: "wb_device_id \<Rightarrow> bool" where
  "zero_id x \<longleftrightarrow> id_vendor x = 0 \<and> id_device x = 0"

lemma match_ids_find:
  assumes "\<forall>x\<in>set xs. \<not> zero_id x" and "zero_id z"
  shows "match_ids w device i (xs @ z # ys) = Some (map_option (\<lambda>j. i + j)
    (find (\<lambda>j. entry_matches w (seen_device device (take (Suc j) xs)) (xs ! j)) [0..<length xs]))"
  using assms(1)
proof (induction xs arbitrary: device i)
  case Nil
  then show ?case using assms(2) by (simp add: zero_id_def)
next
  case (Cons x xs)
  let ?d = "if id_vendor x \<noteq> 0 then device else id_device x"
  have x: "\<not> (id_vendor x = 0 \<and> ?d = 0)" using Cons.prems by (auto simp: zero_id_def)
  have upt: "[0..<length (x # xs)] = 0 # map Suc [0..<length xs]"
    unfolding map_Suc_upt by (simp add: upt_conv_Cons del: upt_Suc)
  let ?P = "\<lambda>j. entry_matches w (seen_device device (take (Suc j) (x # xs))) ((x # xs) ! j)"
  let ?Q = "\<lambda>j. entry_matches w (seen_device ?d (take (Suc j) xs)) (xs ! j)"
  have tail: "find ?P (map Suc js) = map_option Suc (find ?Q js)" for js
    by (induction js) auto
  have split: "find ?P (0 # map Suc js) = (if entry_matches w ?d x then Some 0 else map_option Suc (find ?Q js))" for js
    unfolding find.simps tail by simp
  have IH: "match_ids w ?d (Suc i) (xs @ z # ys) = Some (map_option (\<lambda>j. Suc i + j)
    (find (\<lambda>j. entry_matches w (seen_device ?d (take (Suc j) xs)) (xs ! j)) [0..<length xs]))"
    using Cons.prems by (intro Cons.IH) simp
  have step: "match_ids w device i ((x # xs) @ z # ys)
      = (if entry_matches w ?d x then Some (Some i) else match_ids w ?d (Suc i) (xs @ z # ys))"
    using x by (simp add: entry_matches_def Let_def)
  have shift: "map_option ((+) i) (map_option Suc r) = map_option ((+) (Suc i)) r" for r
    by (cases r) simp_all
  show ?case
  proof (cases "entry_matches w ?d x")
    case True
    show ?thesis unfolding step upt split if_P [OF True] by simp
  next
    case False
    show ?thesis unfolding step upt split if_not_P [OF False] IH shift ..
  qed
qed

end
