(* ===== verification/WbFirmware.thy ===== *)
theory WbFirmware
  imports WbScan
begin

text \<open>
  The image of the firmware generator, byte by byte, and what the bus driver makes of it: the
  devices of the generator's input.
\<close>

subsection \<open>The bytes of the image\<close>

lemma header_bytes:
  "sdwb_create_header e a b = str ''SDWBHEAD'' @ word_be 8 a @ word_be 8 b @ host_bytes e 8 (0 :: u64)"
proof -
  have "host_bytes e 8 (SDWB_HEAD_MAGIC e) = str ''SDWBHEAD''"
    unfolding SDWB_HEAD_MAGIC_def ntohll_def htonll_be by code_simp
  then show ?thesis by (simp add: sdwb_create_header_def store_head_def htonll_be)
qed

lemma device_bytes:
  "sdwb_create_device e s = word_be 8 (ucast (w_vendor s) :: u64) @ word_be 4 (w_device s) @ str ''WB''
     @ host_bytes e 2 (ucast (htonl e (push_bit 8 (w_major s AND 0xFF) OR (w_minor s AND 0xFF))) :: u16)
     @ word_be 8 (ucast (w_base s) :: u64) @ word_be 8 (ucast (w_sz s) :: u64)
     @ word_be 4 (w_flags s) @ word_be 4 (w_class s) @ word_be 4 (w_version s) @ word_be 4 (w_date s)
     @ strncpy16 (w_vname s) @ strncpy16 (w_dname s)"
proof -
  have "host_bytes e 2 (SDWB_WBD_MAGIC e) = str ''WB''"
    unfolding SDWB_WBD_MAGIC_def ntohs_def htons_be by code_simp
  then show ?thesis by (simp add: sdwb_create_device_def store_wbd_def htonll_be htonl_be)
qed

lemma length_strncpy16 [simp]: "length (strncpy16 s) = 16"
  by (simp add: strncpy16_def)

lemma zero_strncpy16: "0 \<in> set (strncpy16 s)"
proof -
  have "strncpy16 s ! 15 = 0" by (simp add: strncpy16_def)
  then show ?thesis using nth_mem [of 15 "strncpy16 s"] by simp
qed

text \<open>A name as the input gives it: shorter than its array, without a zero.\<close>

definition name_ok :: "bytes \<Rightarrow> bool" where
  "name_ok s \<longleftrightarrow> length s < 16 \<and> 0 \<notin> set s"

lemma strncpy16_short:
  assumes "length s < 16"
  shows "strncpy16 s = s @ 0 # replicate (15 - length s) 0"
proof -
  have "(s @ replicate (16 - length s) 0) ! 15 = (0 :: u8)" using assms by (simp add: nth_append)
  then have "(s @ replicate (16 - length s) 0)[15 := 0] = s @ replicate (16 - length s) (0 :: u8)"
    by (metis list_update_id)
  moreover obtain k where "16 - length s = Suc k" "15 - length s = k"
    using assms by (cases "16 - length s") auto
  ultimately show ?thesis using assms by (simp add: strncpy16_def)
qed

lemma cut_strncpy16: "name_ok s \<Longrightarrow> cut (strncpy16 s @ xs) = s"
  unfolding name_ok_def by (subst strncpy16_short) (auto simp: cut_def takeWhile_append1 takeWhile_tail)

lemma length_device [simp]: "length (sdwb_create_device e s) = 80"
  by (simp add: device_bytes)

lemma device_descriptor: "descriptor (sdwb_create_device e s)"
  by (simp add: descriptor_def device_bytes chunk_app_left chunk_app_right chunk_all zero_strncpy16)

text \<open>What the bus driver reads out of it.\<close>

definition device_of :: "wbd_spec \<Rightarrow> wb_device \<Rightarrow> bool" where
  "device_of s d \<longleftrightarrow> (let w = wd_wbd d in
     wbd_vendor w = ucast (w_vendor s) \<and> wbd_device w = w_device s
     \<and> hdl_base w = ucast (w_base s) \<and> hdl_size w = ucast (w_sz s) \<and> wbd_flags w = w_flags s
     \<and> hdl_class w = w_class s \<and> hdl_version w = w_version s \<and> hdl_date w = w_date s
     \<and> wd_name d = str ''wb'' @ print_int (wd_no d) @ [0x2d] @ w_vname s @ [0x2d] @ w_dname s)"

lemma the_device_of:
  assumes "name_ok (w_vname s)" and "name_ok (w_dname s)"
  shows "device_of s (the_device e' no (sdwb_create_device e s))"
proof -
  let ?r = "sdwb_create_device e s"
  have v: "chunk 48 32 ?r = strncpy16 (w_vname s) @ strncpy16 (w_dname s)" "chunk 64 16 ?r = strncpy16 (w_dname s)"
    by (simp_all add: device_bytes chunk_app_left chunk_app_right chunk_all)
  have names: "cut (chunk 48 32 ?r) = w_vname s" "cut (chunk 64 16 ?r) = w_dname s"
    unfolding v using cut_strncpy16 [OF assms(1)] cut_strncpy16 [OF assms(2), of "[]"] by simp_all
  have fields: "chunk 0 8 ?r = word_be 8 (ucast (w_vendor s) :: u64)" "chunk 8 4 ?r = word_be 4 (w_device s)"
    "chunk 16 8 ?r = word_be 8 (ucast (w_base s) :: u64)" "chunk 24 8 ?r = word_be 8 (ucast (w_sz s) :: u64)"
    "chunk 32 4 ?r = word_be 4 (w_flags s)" "chunk 36 4 ?r = word_be 4 (w_class s)"
    "chunk 40 4 ?r = word_be 4 (w_version s)" "chunk 44 4 ?r = word_be 4 (w_date s)"
    by (simp_all add: device_bytes chunk_app_left chunk_app_right chunk_all)
  show ?thesis
    by (simp add: device_of_def the_device_def load_wbd_to_cpu names fields be_word_word_be_full Let_def)
qed

lemma devices_of_specs:
  "\<forall>s\<in>set specs. name_ok (w_vname s) \<and> name_ok (w_dname s) \<Longrightarrow>
   list_all2 device_of specs (devices_of e' no (map (sdwb_create_device e) specs))"
  by (induction specs arbitrary: no) (auto simp: the_device_of)

text \<open>The generator's names are such names.\<close>

lemma scan_word_ok: "scan_word 16 (cut s) = Some w \<Longrightarrow> name_ok w"
  by (auto simp: scan_word_def name_ok_def cut_def Let_def split: if_splits
      dest!: set_takeWhileD set_dropWhileD)

lemma cfg_loop_names:
  "cfg_loop inp = Some specs \<Longrightarrow> \<forall>s\<in>set specs. name_ok (w_vname s) \<and> name_ok (w_dname s)"
proof (induction inp arbitrary: specs rule: cfg_loop.induct)
  case (1 inp)
  show ?case
  proof (cases "inp = []")
    case True
    then show ?thesis using 1(4) by (simp add: cfg_loop.simps)
  next
    case False
    obtain buf rest where g: "fgets 127 inp = (buf, rest)" by fastforce
    note p = 1(4) [unfolded cfg_loop.simps [of inp]]
    show ?thesis
    proof (cases "cut buf = [] \<or> hd buf = 0x23 \<or> hd buf = 10")
      case True
      then have "cfg_loop rest = Some specs" using p False g by (auto split: if_splits)
      then show ?thesis using 1(1,2) False g True by metis
    next
      case skip: False
      obtain buf1 rest1 where l1: "next_line buf rest = (buf1, rest1)" by fastforce
      obtain buf2 rest2 where l2: "next_line buf1 rest1 = (buf2, rest2)" by fastforce
      obtain v vname dname more where v: "scan_u32s spec_format (cut buf) = Some v"
        and l: "scan_word 16 (cut buf1) = Some vname" "scan_word 16 (cut buf2) = Some dname"
        and more: "cfg_loop rest2 = Some more" "specs = spec_of v vname dname # more"
        using p False g skip l1 l2 by (auto simp: bind_eq_Some_conv)
      have "\<forall>s\<in>set more. name_ok (w_vname s) \<and> name_ok (w_dname s)"
        using 1(3) [OF False g [symmetric] _ _ v refl l1 [symmetric] l(1) refl l2 [symmetric] l(2) more(1)] skip by blast
      then show ?thesis using more(2) scan_word_ok l by (auto simp: spec_of_def)
    qed
  qed
qed

subsection \<open>The whole image\<close>

lemma length_id: "length junk = 32 \<Longrightarrow> length (sdwb_create_id e junk) = 32"
  by (simp add: sdwb_create_id_def load_wbid_def length_sdwb)

lemma firmware_image:
  assumes "cfg_loop inp = Some specs" and "length junk = 32" and "80 * Suc (length specs) + 64 \<le> 2 ^ 22"
  obtains img where "cfggen_main e junk (Some inp) True = Some (Some img, 0)" and "length img = 2 ^ 22"
    and "chunk 0 8 img = str ''SDWBHEAD''" and "be_word (chunk 8 8 img) = (32 :: u64)"
    and "be_word (chunk 16 8 img) = (64 :: u64)"
    and "\<forall>i < length specs. chunk (64 + 80 * i) 80 img = sdwb_create_device e (specs ! i)"
    and "chunk (64 + 80 * length specs + 12) 2 img \<noteq> str ''WB''"
proof -
  let ?hd = "sdwb_create_header e 32 64" let ?id = "sdwb_create_id e junk"
  let ?rs = "map (sdwb_create_device e) specs"
  let ?pre = "?hd @ ?id @ concat ?rs"
  let ?img = "?pre @ replicate (2 ^ 22 - length ?pre) 0"
  have lens: "length ?hd = 32" "length ?id = 32" "\<forall>r\<in>set ?rs. length r = 80"
    using assms(2) by (simp_all add: header_bytes length_id)
  have tab: "length (concat ?rs) = 80 * length specs" using length_concat_const [OF lens(3)] by simp
  then have pre: "length ?pre = 64 + 80 * length specs" using lens by simp
  have "cfggen_main e junk (Some inp) True = Some (Some (?pre @ replicate (4 * 1024 * 1024 - length ?pre) 0), 0)"
    using assms(1) by (simp add: cfggen_main_def Let_def)
  then have main: "cfggen_main e junk (Some inp) True = Some (Some ?img, 0)" by (simp add: power_numeral)
  show thesis
  proof (rule that [OF main])
    show "length ?img = 2 ^ 22" using pre assms(3) by (simp del: power_numeral)
    show "chunk 0 8 ?img = str ''SDWBHEAD''" "be_word (chunk 8 8 ?img) = (32 :: u64)"
      "be_word (chunk 16 8 ?img) = (64 :: u64)"
      by (simp_all add: header_bytes chunk_app_left chunk_app_right chunk_all be_word_word_be_full)
    show "\<forall>i < length specs. chunk (64 + 80 * i) 80 ?img = sdwb_create_device e (specs ! i)"
    proof (intro allI impI)
      fix i assume i: "i < length specs"
      have "chunk (64 + 80 * i) 80 ?img = chunk (64 + 80 * i) 80 ?pre"
        by (rule chunk_app_left) (use i pre in simp)
      also have "\<dots> = chunk (i * 80) 80 (concat ?rs)"
        using lens(1,2) by (simp add: chunk_app_right mult.commute)
      also have "\<dots> = sdwb_create_device e (specs ! i)" using chunk_concat [OF lens(3)] i by simp
      finally show "chunk (64 + 80 * i) 80 ?img = sdwb_create_device e (specs ! i)" .
    qed
    have "chunk (64 + 80 * length specs + 12) 2 ?img = chunk 12 2 (replicate (2 ^ 22 - length ?pre) 0)"
      using pre by (subst chunk_app_right) simp_all
    also have "\<dots> = [0, 0]"
      using pre assms(3) by (simp add: chunk_def numeral_2_eq_2 del: power_numeral)
    finally show "chunk (64 + 80 * length specs + 12) 2 ?img \<noteq> str ''WB''" by (simp add: str_def)
  qed
qed

end
