(* ===== verification/WbOneWire.thy ===== *)
theory WbOneWire
  imports WbDriver
begin

text \<open>
  The one-wire master driver of the first design (src/historic/driver/wb_1wire.c), and the
  identifiers of the two drivers without hardware (fakeadc.c, fakedac.c). The driver's accesses of
  the bus are a trace; the values it reads are an argument, by the number of accesses before.
\<close>

definition OCOW_REG_CSR :: u64 where "OCOW_REG_CSR = 0"
definition OCOW_REG_CDR :: u64 where "OCOW_REG_CDR = 4"
definition OCOW_CSR_DAT_MASK :: u32 where "OCOW_CSR_DAT_MASK = 1"
definition OCOW_CSR_RST_MASK :: u32 where "OCOW_CSR_RST_MASK = 2"
definition OCOW_CSR_CYC_MASK :: u32 where "OCOW_CSR_CYC_MASK = 8"
definition OCOW_CSR_SEL_OFS :: nat where "OCOW_CSR_SEL_OFS = 8"
definition OCOW_CSR_SEL_MASK :: u32 where "OCOW_CSR_SEL_MASK = 0xF00"
definition OCOW_CDR_NOR_MASK :: u32 where "OCOW_CDR_NOR_MASK = 0xFFFF"
definition OCOW_CDR_OVD_OFS :: nat where "OCOW_CDR_OVD_OFS = 16"
definition OCOW_CDR_OVD_MASK :: u32 where "OCOW_CDR_OVD_MASK = 0xFFFF0000"

datatype ow_access = Ow_write u64 u32 | Ow_read u64 u32

record wb_onewire_dev =
  ow_num :: u32
  ow_port :: u32
  clk_div_nor :: u32
  clk_div_ovd :: u32
  ow_base :: u64
  ow_trace :: "ow_access list"

definition ow_writel :: "u64 \<Rightarrow> u32 \<Rightarrow> wb_onewire_dev \<Rightarrow> wb_onewire_dev" where
  "ow_writel addr v dev = dev\<lparr>ow_trace := ow_trace dev @ [Ow_write addr v]\<rparr>"

definition ow_readl :: "(nat \<Rightarrow> u32) \<Rightarrow> u64 \<Rightarrow> wb_onewire_dev \<Rightarrow> wb_onewire_dev \<times> u32" where
  "ow_readl hw addr dev =
     (dev\<lparr>ow_trace := ow_trace dev @ [Ow_read addr (hw (length (ow_trace dev)))]\<rparr>, hw (length (ow_trace dev)))"

definition wb_onewire_init_lowlevel :: "wb_onewire_dev \<Rightarrow> wb_onewire_dev" where
  "wb_onewire_init_lowlevel dev =
     (let data = (clk_div_nor dev AND OCOW_CDR_NOR_MASK)
                 OR (push_bit OCOW_CDR_OVD_OFS (clk_div_ovd dev) AND OCOW_CDR_OVD_MASK)
      in ow_writel (ow_base dev + OCOW_REG_CDR) data dev)"

text \<open>The wait for the end of a cycle; \<open>None\<close> if the bit stays set forever.\<close>

partial_function (option) wait_cyc :: "(nat \<Rightarrow> u32) \<Rightarrow> wb_onewire_dev \<Rightarrow> wb_onewire_dev option" where
  "wait_cyc hw dev =
     (case ow_readl hw (ow_base dev + OCOW_REG_CSR) dev of (dev, v) \<Rightarrow>
       if v AND OCOW_CSR_CYC_MASK \<noteq> 0 then wait_cyc hw dev else Some dev)"

definition ow_cycle :: "(nat \<Rightarrow> u32) \<Rightarrow> wb_onewire_dev \<Rightarrow> u32 \<Rightarrow> (wb_onewire_dev \<times> u8) option" where
  \<comment> \<open>what touching a bit and a reset share: start the cycle, wait, read the answer\<close>
  "ow_cycle hw dev v = do {
     let dev = ow_writel (ow_base dev + OCOW_REG_CSR) v dev;
     dev \<leftarrow> wait_cyc hw dev;
     let (dev, reg) = ow_readl hw (ow_base dev + OCOW_REG_CSR) dev;
     Some (dev, ucast (reg AND OCOW_CSR_DAT_MASK)) }"

definition wb_onewire_touch_bit :: "(nat \<Rightarrow> u32) \<Rightarrow> wb_onewire_dev \<Rightarrow> u8 \<Rightarrow> (wb_onewire_dev \<times> u8) option" where
  "wb_onewire_touch_bit hw dev b = ow_cycle hw dev
     ((push_bit OCOW_CSR_SEL_OFS (ow_port dev) AND OCOW_CSR_SEL_MASK) OR OCOW_CSR_CYC_MASK
      OR (ucast b AND OCOW_CSR_DAT_MASK))"

definition wb_onewire_reset :: "(nat \<Rightarrow> u32) \<Rightarrow> wb_onewire_dev \<Rightarrow> (wb_onewire_dev \<times> u8) option" where
  "wb_onewire_reset hw dev = ow_cycle hw dev
     ((push_bit OCOW_CSR_SEL_OFS (ow_port dev) AND OCOW_CSR_SEL_MASK) OR OCOW_CSR_CYC_MASK
      OR OCOW_CSR_RST_MASK)"

text \<open>\<open>master\<close>: the master device is registered with the one-wire layer; \<open>w1_ret\<close> is the answer.\<close>

definition wb_onewire_dev_init :: "int \<Rightarrow> wb_onewire_dev \<Rightarrow> (wb_onewire_dev \<times> bool) \<times> int" where
  "wb_onewire_dev_init w1_ret dev =
     (if w1_ret < 0 then ((dev, False), w1_ret)
      else ((wb_onewire_init_lowlevel dev, True), 0))"

definition wb_onewire_probe ::
    "bool \<Rightarrow> int \<Rightarrow> u32 \<Rightarrow> wb_device \<Rightarrow> u32 \<times> (wb_onewire_dev \<times> bool) option \<times> int" where
  \<comment> \<open>the last number given, the device's private data, and the code's result\<close>
  "wb_onewire_probe alloc_ok w1_ret devno dev =
     (if \<not> alloc_ok then (devno, None, - ENOMEM)
      else let owdev = \<lparr>ow_num = devno + 1, ow_port = 0, clk_div_nor = 624, clk_div_ovd = 124,
                        ow_base = hdl_base (wd_wbd dev), ow_trace = []\<rparr>
           in (devno + 1, Some (fst (wb_onewire_dev_init w1_ret owdev)), 0))"

text \<open>\<open>None\<close>: a master that was never added is removed.\<close>

definition wb_onewire_remove :: "wb_onewire_dev \<times> bool \<Rightarrow> int option" where
  "wb_onewire_remove ow = (case ow of (dev, master) \<Rightarrow> if master then Some 0 else None)"

definition wb_onewire_ids :: "wb_device_id list" where
  "wb_onewire_ids = [\<lparr>id_vendor = 0, id_device = 1, id_class = WB_NO_CLASS\<rparr>,
     \<lparr>id_vendor = 0, id_device = 0, id_class = 0\<rparr>]"

definition fakeadc_ids :: "wb_device_id list" where
  "fakeadc_ids = [\<lparr>id_vendor = 0, id_device = 1, id_class = WB_NO_CLASS\<rparr>,
     \<lparr>id_vendor = 0, id_device = 0, id_class = 0\<rparr>]"

definition fakedac_ids :: "wb_device_id list" where
  "fakedac_ids = [\<lparr>id_vendor = 0, id_device = 2, id_class = WB_NO_CLASS\<rparr>,
     \<lparr>id_vendor = 0, id_device = 0, id_class = 0\<rparr>]"

text \<open>The drivers without hardware only report that they were called; \<open>n\<close> stands for the address of
  the structure.\<close>

definition fakeadc_driver :: "nat \<Rightarrow> wb_driver" where
  "fakeadc_driver n = \<lparr>drv_no = n, id_table = Some fakeadc_ids,
     drv_probe = Some (\<lambda>_. 0), drv_remove = Some (\<lambda>_. 0)\<rparr>"

definition fakedac_driver :: "nat \<Rightarrow> wb_driver" where
  "fakedac_driver n = \<lparr>drv_no = n, id_table = Some fakedac_ids,
     drv_probe = Some (\<lambda>_. 0), drv_remove = Some (\<lambda>_. 0)\<rparr>"

lemma adc_takes_onewire_devices:
  "match_ids w d i fakeadc_ids = match_ids w d i wb_onewire_ids"
  by (simp add: fakeadc_ids_def wb_onewire_ids_def)

subsection \<open>The accesses of a cycle\<close>

text \<open>While the first \<open>n\<close> reads find the cycle still running.\<close>

definition ow_reads :: "(nat \<Rightarrow> u32) \<Rightarrow> u64 \<Rightarrow> nat \<Rightarrow> nat \<Rightarrow> ow_access list" where
  "ow_reads hw a from n = map (\<lambda>i. Ow_read a (hw (from + i))) [0..<n]"

lemma ow_reads_Suc: "ow_reads hw a from (Suc n) = Ow_read a (hw from) # ow_reads hw a (Suc from) n"
  unfolding ow_reads_def map_upt_Suc by simp

lemma wait_cyc_ends:
  assumes "\<forall>i < n. hw (length (ow_trace dev) + i) AND OCOW_CSR_CYC_MASK \<noteq> 0"
    and "hw (length (ow_trace dev) + n) AND OCOW_CSR_CYC_MASK = 0"
  shows "wait_cyc hw dev = Some (dev\<lparr>ow_trace := ow_trace dev
     @ ow_reads hw (ow_base dev + OCOW_REG_CSR) (length (ow_trace dev)) (Suc n)\<rparr>)"
  using assms
proof (induction n arbitrary: dev)
  case 0
  then show ?case by (subst wait_cyc.simps) (simp add: ow_readl_def Let_def ow_reads_def)
next
  case (Suc n)
  let ?dev = "fst (ow_readl hw (ow_base dev + OCOW_REG_CSR) dev)"
  have len: "length (ow_trace ?dev) = Suc (length (ow_trace dev))" "ow_base ?dev = ow_base dev"
    by (simp_all add: ow_readl_def)
  have "\<forall>i<n. hw (length (ow_trace ?dev) + i) AND OCOW_CSR_CYC_MASK \<noteq> 0"
    using Suc.prems(1) by (auto simp: len)
  from Suc.IH [OF this] Suc.prems have "wait_cyc hw ?dev = Some (?dev\<lparr>ow_trace := ow_trace ?dev
     @ ow_reads hw (ow_base dev + OCOW_REG_CSR) (Suc (length (ow_trace dev))) (Suc n)\<rparr>)"
    by (simp add: len)
  moreover have "hw (length (ow_trace dev)) AND OCOW_CSR_CYC_MASK \<noteq> 0" using Suc.prems(1) by (auto dest: spec [of _ 0])
  ultimately show ?case
    by (subst wait_cyc.simps) (simp add: ow_readl_def Let_def ow_reads_Suc [of hw _ _ "Suc n"])
qed

lemma ow_cycle_ends:
  assumes "\<forall>i < n. hw (Suc (length (ow_trace dev)) + i) AND OCOW_CSR_CYC_MASK \<noteq> 0"
    and "hw (Suc (length (ow_trace dev)) + n) AND OCOW_CSR_CYC_MASK = 0"
  shows "ow_cycle hw dev v = Some (dev\<lparr>ow_trace := ow_trace dev @ Ow_write (ow_base dev + OCOW_REG_CSR) v
       # ow_reads hw (ow_base dev + OCOW_REG_CSR) (Suc (length (ow_trace dev))) (n + 2)\<rparr>,
     ucast (hw (length (ow_trace dev) + n + 2) AND OCOW_CSR_DAT_MASK))"
proof -
  let ?dev = "ow_writel (ow_base dev + OCOW_REG_CSR) v dev"
  have "length (ow_trace ?dev) = Suc (length (ow_trace dev))" "ow_base ?dev = ow_base dev"
    by (simp_all add: ow_writel_def)
  then have "wait_cyc hw ?dev = Some (?dev\<lparr>ow_trace := ow_trace ?dev
      @ ow_reads hw (ow_base dev + OCOW_REG_CSR) (Suc (length (ow_trace dev))) (Suc n)\<rparr>)"
    using wait_cyc_ends [of n hw ?dev] assms by simp
  moreover have "ow_reads hw a s (n + 2) = ow_reads hw a s (Suc n) @ [Ow_read a (hw (s + Suc n))]" for a s
    by (simp add: ow_reads_def)
  moreover have "length (ow_reads hw a s m) = m" for a s m by (simp add: ow_reads_def)
  ultimately show ?thesis
    by (simp add: ow_cycle_def ow_writel_def ow_readl_def Let_def)
qed

text \<open>A cycle that never ends is a call that never returns.\<close>

lemma wait_cyc_hangs:
  assumes "wait_cyc hw dev = Some r"
  shows "\<exists>n. hw (length (ow_trace dev) + n) AND OCOW_CSR_CYC_MASK = 0"
  using assms
proof (induction rule: wait_cyc.raw_induct [rotated 1, consumes 1])
  case (1 wait_cyc' hw dev r)
  show ?case
  proof (cases "hw (length (ow_trace dev)) AND OCOW_CSR_CYC_MASK = 0")
    case False
    with 1(2) have "wait_cyc' hw (fst (ow_readl hw (ow_base dev + OCOW_REG_CSR) dev)) = Some r"
      by (simp add: ow_readl_def Let_def)
    from 1(1) [OF this] obtain n where "hw (length (ow_trace dev) + Suc n) AND OCOW_CSR_CYC_MASK = 0"
      by (auto simp: ow_readl_def Let_def)
    then show ?thesis by blast
  qed (rule exI [of _ 0], simp)
qed

end
