(* ===== verification/HistoricProperties.thy ===== *)
theory HistoricProperties
  imports WbFirmware WbOneWire
begin

text \<open>
  The properties of the first design's bus driver, its simulated bus, and the one-wire driver.
\<close>

lemma fake_scan:
  assumes "length img = 2 ^ 22" and "\<forall>a. ka_alloc ka a"
    and "chunk 0 8 img = str ''SDWBHEAD''" and "be_word (chunk 8 8 img) = (32 :: u64)"
    and "be_word (chunk 16 8 img) = (64 :: u64)"
    and "\<forall>i < length specs. chunk (64 + 80 * i) 80 img = sdwb_create_device e (specs ! i)"
    and "chunk (64 + 80 * length specs + 12) 2 img \<noteq> str ''WB''"
    and "80 * Suc (length specs) + 64 \<le> 2 ^ 22"
    and "sdwb_header_base bus = 0" and "bus_devices bus = []"
  shows "wb_scan_bus e' ka (fake_read_cfg img) k bus = Some (scan_result ka (k_registered k) k bus
     (devices_of e' (global_wb_devno k) (map (sdwb_create_device e) specs)))"
  by (rule fake.scan_image [where ida = 32 and ptr = 64])
    (use assms in \<open>simp_all add: device_descriptor add.commute [of 64] del: power_numeral\<close>)

text \<open>C12: The simulated bus finds the devices of the generator's input: the generator turns a text it
  can read, of at most 52427 devices, into an image of 4 MiB, and loading the bus driver with that
  image, on a host of either byte order, registers exactly the devices of the text, in its order, with
  their vendor, device, base, size, flags, class, version and date, and named after them.\<close>

theorem fake_bus_finds_devices:
  assumes "cfg_loop inp = Some specs" and "length junk = 32" and "80 * Suc (length specs) + 64 \<le> 2 ^ 22"
  shows "\<exists>img. cfggen_main e junk (Some inp) True = Some (Some img, 0) \<and> length img = 2 ^ 22
    \<and> (\<forall>e' ka request k fb v d. request (fake_fwname v d) = Inr img \<longrightarrow> (\<forall>a. ka_alloc ka a) \<longrightarrow>
        (\<forall>n. 0 \<le> ka_device ka n \<and> 0 \<le> ka_bus ka n) \<longrightarrow> sdwb_header_base (fb_bus fb) = 0 \<longrightarrow>
        (\<exists>k' fb'. fake_wb_bus_init e' ka request 0 v d k fb = Some (k', fb', 0)
          \<and> list_all2 device_of specs (rev (bus_devices (fb_bus fb')))
          \<and> k_registered k' = map wd_no (bus_devices (fb_bus fb')) @ k_registered k))"
proof -
  obtain img where img: "cfggen_main e junk (Some inp) True = Some (Some img, 0)" "length img = 2 ^ 22"
    "chunk 0 8 img = str ''SDWBHEAD''" "be_word (chunk 8 8 img) = (32 :: u64)"
    "be_word (chunk 16 8 img) = (64 :: u64)"
    "\<forall>i < length specs. chunk (64 + 80 * i) 80 img = sdwb_create_device e (specs ! i)"
    "chunk (64 + 80 * length specs + 12) 2 img \<noteq> str ''WB''"
    by (rule firmware_image [OF assms, where e = e])
  have "\<exists>k' fb'. fake_wb_bus_init e' ka request 0 v d k fb = Some (k', fb', 0)
      \<and> list_all2 device_of specs (rev (bus_devices (fb_bus fb')))
      \<and> k_registered k' = map wd_no (bus_devices (fb_bus fb')) @ k_registered k"
    if r: "request (fake_fwname v d) = Inr img" and ok: "\<forall>a. ka_alloc ka a"
      "\<forall>n. 0 \<le> ka_device ka n \<and> 0 \<le> ka_bus ka n" "sdwb_header_base (fb_bus fb) = 0"
    for e' ka request k fb v d
  proof -
    let ?no = "global_wbbus_devno k + 1"
    let ?bus = "(fb_bus fb)\<lparr>bus_devices := [], bus_num := ?no,
        bus_devname := str ''wb-bus'' @ print_int ?no @ [0x2d] @ bus_name (fb_bus fb)\<rparr>"
    let ?k = "k\<lparr>global_wbbus_devno := ?no, k_buses := ?no # k_buses k\<rparr>"
    let ?ds = "devices_of e' (global_wb_devno k) (map (sdwb_create_device e) specs)"
    have scan: "wb_scan_bus e' ka (fake_read_cfg img) ?k ?bus = Some (scan_result ka (k_registered k) ?k ?bus ?ds)"
      using fake_scan [OF img(2) ok(1) img(3-7) assms(3), of ?bus e' ?k] ok(3) by simp
    have ds: "list_all2 device_of specs ?ds" by (rule devices_of_specs) (rule cfg_loop_names [OF assms(1)])
    show ?thesis
    proof (rule scan_result_cases [of ?ds ka "k_registered k" ?k ?bus])
      assume res: "scan_result ka (k_registered k) ?k ?bus ?ds = (?k\<lparr>global_wb_devno :=
          (if ?ds = [] then global_wb_devno ?k else wd_no (last ?ds)), k_registered := map wd_no (rev ?ds) @ k_registered ?k\<rparr>,
        ?bus\<lparr>bus_devices := rev ?ds @ bus_devices ?bus, bus_ndev := bus_ndev ?bus + of_nat (length ?ds)\<rparr>, 0)"
      have "\<not> ka_bus ka ?no < 0" using ok(2) by (simp add: not_less)
      then show ?thesis
        using r scan ds unfolding res
        by (simp add: fake_wb_bus_init_def fake_wbbus_probe_def wb_register_bus_def Let_def)
    qed (use ok(2) in \<open>auto simp: not_less [symmetric]\<close>)
  qed
  then show ?thesis using img(1,2) by blast
qed

text \<open>One device: \<open>1 0 c 2 20 8 0 0 3 1\<close>, and the names \<open>C\<close> and \<open>d\<close>.\<close>

definition demo_list :: bytes where
  "demo_list = [49, 32, 48, 32, 99, 32, 50, 32, 50, 48, 32, 56, 32, 48, 32, 48, 32, 51, 32, 49] @ [10] @ [67, 10] @ [100, 10]"

definition demo_spec :: wbd_spec where
  "demo_spec = \<lparr>w_major = 1, w_minor = 0, w_vendor = 0xc, w_device = 2, w_base = 0x20, w_sz = 8,
     w_flags = 0, w_class = 0, w_version = 3, w_date = 1, w_vname = [67], w_dname = [100]\<rparr>"

lemma demo_specs: "cfg_loop demo_list = Some [demo_spec]"
  by code_simp

definition demo_kernel :: wb_kernel where
  "demo_kernel = \<lparr>global_wb_devno = 0, global_wbbus_devno = 0, k_registered = [], k_buses = []\<rparr>"

definition demo_fake :: fake_bus where
  "demo_fake = \<lparr>fb_fw = None, fb_bus = \<lparr>bus_num = 0, bus_name = str ''fake_wb_bus'', bus_devname = [],
     sdwb_header_base = 0, bus_devices = [], bus_ndev = 0\<rparr>, fb_device = False\<rparr>"

definition all_fine :: wb_kernel_answers where
  "all_fine = \<lparr>ka_alloc = (\<lambda>_. True), ka_device = (\<lambda>_. 0), ka_bus = (\<lambda>_. 0)\<rparr>"

theorem fake_bus_finds_devices_witness:
  "\<exists>img k fb d. cfggen_main Little (replicate 32 0) (Some demo_list) True = Some (Some img, 0)
    \<and> fake_wb_bus_init Big all_fine (\<lambda>_. Inr img) 0 0xbabe 0xbabe demo_kernel demo_fake = Some (k, fb, 0)
    \<and> bus_devices (fb_bus fb) = [d] \<and> wbd_vendor (wd_wbd d) = 0xc \<and> hdl_base (wd_wbd d) = 0x20"
proof -
  from fake_bus_finds_devices [OF demo_specs, of "replicate 32 0" Little]
  obtain img where img: "cfggen_main Little (replicate 32 0) (Some demo_list) True = Some (Some img, 0)"
    and find: "\<And>e' ka request k fb v d. request (fake_fwname v d) = Inr img \<Longrightarrow> (\<forall>a. ka_alloc ka a) \<Longrightarrow>
        (\<forall>n. 0 \<le> ka_device ka n \<and> 0 \<le> ka_bus ka n) \<Longrightarrow> sdwb_header_base (fb_bus fb) = 0 \<Longrightarrow>
        (\<exists>k' fb'. fake_wb_bus_init e' ka request 0 v d k fb = Some (k', fb', 0)
          \<and> list_all2 device_of [demo_spec] (rev (bus_devices (fb_bus fb')))
          \<and> k_registered k' = map wd_no (bus_devices (fb_bus fb')) @ k_registered k)"
    by auto
  have "\<forall>a. ka_alloc all_fine a" "\<forall>n. 0 \<le> ka_device all_fine n \<and> 0 \<le> ka_bus all_fine n"
    "sdwb_header_base (fb_bus demo_fake) = 0"
    by (simp_all add: all_fine_def demo_fake_def)
  from find [OF refl this, where v = "0xbabe" and d = "0xbabe" and e' = Big and k = demo_kernel]
  show ?thesis using img
    by (fastforce simp: list_all2_Cons1 device_of_def demo_spec_def Let_def)
qed

text \<open>Loading the simulated bus once the scan of its image is known: everything, or nothing.\<close>

lemma fake_init_outcomes:
  fixes k :: wb_kernel and fb :: fake_bus
  defines "no \<equiv> global_wbbus_devno k + 1"
  defines "bus \<equiv> (fb_bus fb)\<lparr>bus_devices := [], bus_num := no,
    bus_devname := str ''wb-bus'' @ print_int no @ [0x2d] @ bus_name (fb_bus fb)\<rparr>"
  defines "k1 \<equiv> k\<lparr>global_wbbus_devno := no, k_buses := no # k_buses k\<rparr>"
  assumes r: "request (fake_fwname v d) = Inr img"
    and scan: "wb_scan_bus e ka (fake_read_cfg img) k1 bus = Some (scan_result ka (k_registered k) k1 bus ds)"
    and fb: "fb_fw fb = None" "\<not> fb_device fb"
  shows "\<exists>k' fb' ret. fake_wb_bus_init e ka request 0 v d k fb = Some (k', fb', ret) \<and> ret \<le> 0
    \<and> (ret < 0 \<longrightarrow> k_registered k' = k_registered k \<and> k_buses k' = k_buses k \<and> fb_fw fb' = None \<and> \<not> fb_device fb')
    \<and> (ret = 0 \<longrightarrow> length (bus_devices (fb_bus fb')) = length ds \<and> fb_fw fb' = Some img \<and> fb_device fb'
        \<and> (\<exists>k2 fb2. fake_wb_bus_exit (\<lambda>_. True) k' fb' = Some (k2, fb2) \<and> k_registered k2 = k_registered k
            \<and> k_buses k2 = k_buses k \<and> fb_fw fb2 = None \<and> \<not> fb_device fb2 \<and> bus_devices (fb_bus fb2) = []))"
proof (cases "ka_bus ka no < 0")
  case True
  then show ?thesis
    using fb by (simp add: fake_wb_bus_init_def fake_wbbus_probe_def wb_register_bus_def Let_def r no_def ENODEV_def)
next
  case False
  note defs = fake_wb_bus_init_def fake_wbbus_probe_def wb_register_bus_def Let_def r
  show ?thesis
  proof (rule scan_result_cases [of ds ka "k_registered k" k1 bus])
    assume res: "scan_result ka (k_registered k) k1 bus ds = (k1\<lparr>global_wb_devno :=
        (if ds = [] then global_wb_devno k1 else wd_no (last ds)), k_registered := map wd_no (rev ds) @ k_registered k1\<rparr>,
      bus\<lparr>bus_devices := rev ds @ bus_devices bus, bus_ndev := bus_ndev bus + of_nat (length ds)\<rparr>, 0)"
    show ?thesis
      using False scan res unfolding no_def bus_def k1_def
      by (simp add: defs fake_wb_bus_exit_def unregister_bus_eq)
  next
    fix n
    assume "scan_result ka (k_registered k) k1 bus ds = (k1\<lparr>global_wb_devno := n, k_registered := k_registered k\<rparr>,
        bus\<lparr>bus_devices := [], bus_ndev := 0\<rparr>, - ENODEV)"
    then show ?thesis
      using False scan unfolding no_def bus_def k1_def by (simp add: defs ENODEV_def EFAULT_def)
  qed
qed

text \<open>C31: Loading the simulated bus takes everything or nothing: with an image of the generator, for all
  answers of the kernel but a failing allocation, loading returns; on failure no device, no bus, no
  firmware and no device node are left, and on success the devices and the bus are registered, so that
  unloading, if every device has another reference, takes exactly them away again.\<close>

theorem fake_bus_all_or_nothing:
  assumes "cfg_loop inp = Some specs" and "length junk = 32" and "80 * Suc (length specs) + 64 \<le> 2 ^ 22"
    and "cfggen_main e junk (Some inp) True = Some (Some img, 0)"
    and "case request (fake_fwname v d) of Inl err \<Rightarrow> err < 0 | Inr fw \<Rightarrow> fw = img"
    and "\<forall>a. ka_alloc ka a" and "dev_ret \<le> 0"
    and "sdwb_header_base (fb_bus fb) = 0" and "fb_fw fb = None" and "\<not> fb_device fb"
  shows "\<exists>k' fb' ret. fake_wb_bus_init e' ka request dev_ret v d k fb = Some (k', fb', ret) \<and> ret \<le> 0
    \<and> (ret < 0 \<longrightarrow> k_registered k' = k_registered k \<and> k_buses k' = k_buses k \<and> fb_fw fb' = None \<and> \<not> fb_device fb')
    \<and> (ret = 0 \<longrightarrow> length (bus_devices (fb_bus fb')) = length specs \<and> fb_fw fb' = Some img \<and> fb_device fb'
        \<and> (\<exists>k2 fb2. fake_wb_bus_exit (\<lambda>_. True) k' fb' = Some (k2, fb2) \<and> k_registered k2 = k_registered k
            \<and> k_buses k2 = k_buses k \<and> fb_fw fb2 = None \<and> \<not> fb_device fb2 \<and> bus_devices (fb_bus fb2) = []))"
proof (cases "dev_ret = 0")
  case False
  then show ?thesis using assms(7,9,10) by (simp add: fake_wb_bus_init_def)
next
  case dev: True
  show ?thesis
  proof (cases "request (fake_fwname v d)")
    case (Inl err)
    then show ?thesis using assms(5,9,10) dev by (simp add: fake_wb_bus_init_def fake_wbbus_probe_def)
  next
    case (Inr fw)
    then have r: "request (fake_fwname v d) = Inr img" using assms(5) by simp
    obtain img' where img': "cfggen_main e junk (Some inp) True = Some (Some img', 0)" "length img' = 2 ^ 22"
      "chunk 0 8 img' = str ''SDWBHEAD''" "be_word (chunk 8 8 img') = (32 :: u64)"
      "be_word (chunk 16 8 img') = (64 :: u64)"
      "\<forall>i < length specs. chunk (64 + 80 * i) 80 img' = sdwb_create_device e (specs ! i)"
      "chunk (64 + 80 * length specs + 12) 2 img' \<noteq> str ''WB''"
      by (rule firmware_image [OF assms(1-3), where e = e])
    then have "img' = img" using assms(4) by simp
    note img = img'(2-) [unfolded this]
    let ?no = "global_wbbus_devno k + 1"
    let ?bus = "(fb_bus fb)\<lparr>bus_devices := [], bus_num := ?no,
        bus_devname := str ''wb-bus'' @ print_int ?no @ [0x2d] @ bus_name (fb_bus fb)\<rparr>"
    let ?k = "k\<lparr>global_wbbus_devno := ?no, k_buses := ?no # k_buses k\<rparr>"
    let ?ds = "devices_of e' (global_wb_devno k) (map (sdwb_create_device e) specs)"
    have "wb_scan_bus e' ka (fake_read_cfg img) ?k ?bus = Some (scan_result ka (k_registered k) ?k ?bus ?ds)"
      using fake_scan [OF img(1) assms(6) img(2-6) assms(3), of ?bus e' ?k] assms(8) by simp
    from fake_init_outcomes [where request = request, OF r this assms(9,10)] show ?thesis by (simp add: dev)
  qed
qed

theorem fake_bus_all_or_nothing_witness:
  "\<exists>img k fb ret. cfggen_main Little (replicate 32 0) (Some demo_list) True = Some (Some img, 0)
    \<and> fake_wb_bus_init Little (all_fine\<lparr>ka_device := \<lambda>_. - 12\<rparr>) (\<lambda>_. Inr img) 0 0xbabe 0xbabe demo_kernel demo_fake
      = Some (k, fb, ret) \<and> (ret < 0 \<longrightarrow> k_registered k = [] \<and> fb_fw fb = None)"
proof -
  obtain img where img: "cfggen_main Little (replicate 32 0) (Some demo_list) True = Some (Some img, 0)"
    by (rule firmware_image [OF demo_specs, of "replicate 32 0" Little]) simp_all
  have "\<forall>a. ka_alloc (all_fine\<lparr>ka_device := \<lambda>_. - 12\<rparr>) a" "sdwb_header_base (fb_bus demo_fake) = 0"
    "fb_fw demo_fake = None" "\<not> fb_device demo_fake" "k_registered demo_kernel = []"
    by (simp_all add: all_fine_def demo_fake_def demo_kernel_def)
  then show ?thesis
    using fake_bus_all_or_nothing [OF demo_specs _ _ img, where request = "\<lambda>_. Inr img" and dev_ret = 0 and k = demo_kernel
      and fb = demo_fake and ka = "all_fine\<lparr>ka_device := \<lambda>_. - 12\<rparr>" and v = "0xbabe" and d = "0xbabe" and e' = Little] img
    by fastforce
qed

text \<open>C30: Matching a device with a driver finds the first entry of the driver's table, up to the zero
  entry, that fits the device; but the device number an entry asks for is the one of the last entry
  without a vendor. In a table without vendors every entry asks for its own number; in a table where
  all entries have vendors, no entry's number is looked at, and the device must have the number 0.\<close>

theorem driver_match_first:
  assumes "id_table drv = Some (xs @ z # ys)" and "\<forall>x\<in>set xs. \<not> zero_id x" and "zero_id z"
  defines "num \<equiv> \<lambda>j. seen_device 0 (take (Suc j) xs)"
  shows "wb_match_device drv dev
      = Some (find (\<lambda>j. entry_matches (wd_wbd dev) (num j) (xs ! j)) [0..<length xs])
    \<and> ((\<forall>x\<in>set xs. id_vendor x = 0) \<longrightarrow> (\<forall>j < length xs. num j = id_device (xs ! j)))
    \<and> ((\<forall>x\<in>set xs. id_vendor x \<noteq> 0) \<longrightarrow> (\<forall>j < length xs. num j = 0))"
proof (intro conjI impI)
  show "wb_match_device drv dev
      = Some (find (\<lambda>j. entry_matches (wd_wbd dev) (num j) (xs ! j)) [0..<length xs])"
    using match_ids_find [OF assms(2,3), of "wd_wbd dev" 0 0 ys]
    by (simp add: wb_match_device_def assms(1) num_def option.map_ident)
  have own: "seen_device d (take (Suc j) xs) = id_device (xs ! j)"
    if "\<forall>x\<in>set xs. id_vendor x = 0" "j < length xs" for d j
    using that by (induction xs arbitrary: d j) (auto simp: nth_Cons split: nat.splits)
  then show "\<forall>x\<in>set xs. id_vendor x = 0 \<Longrightarrow> \<forall>j < length xs. num j = id_device (xs ! j)"
    by (simp add: num_def)
  have none: "\<forall>x\<in>set as. id_vendor x \<noteq> 0 \<Longrightarrow> seen_device d as = d" for d as
    by (induction as arbitrary: d) auto
  show "\<forall>x\<in>set xs. id_vendor x \<noteq> 0 \<Longrightarrow> \<forall>j < length xs. num j = 0"
    unfolding num_def by (auto intro!: none dest: in_set_takeD)
qed

definition demo_driver :: "wb_device_id list \<Rightarrow> wb_driver" where
  "demo_driver ids = \<lparr>drv_no = 0, id_table = Some ids, drv_probe = None, drv_remove = None\<rparr>"

definition demo_wbdev :: "u64 \<Rightarrow> u32 \<Rightarrow> wb_device" where
  "demo_wbdev v n = \<lparr>wd_wbd = \<lparr>wbd_vendor = v, wbd_device = n, wbd_magic = 0, wbd_version = 0, hdl_base = 0, hdl_size = 0,
     wbd_flags = 0, hdl_class = 0, hdl_version = 0, hdl_date = 0, vendor_name = [], device_name = []\<rparr>,
     wd_driver = None, wd_no = 0, wd_name = []\<rparr>"

theorem driver_match_first_witness:
  "wb_match_device (fakedac_driver 0) (demo_wbdev 0 2) = Some (Some 0)
    \<and> wb_match_device (demo_driver [\<lparr>id_vendor = 0xce42, id_device = 7, id_class = WB_NO_CLASS\<rparr>,
        \<lparr>id_vendor = 0, id_device = 0, id_class = 0\<rparr>]) (demo_wbdev 0xce42 7) = Some None"
proof -
  let ?z = "\<lparr>id_vendor = 0, id_device = 0, id_class = 0\<rparr>"
  let ?dac = "\<lparr>id_vendor = 0, id_device = 2, id_class = WB_NO_CLASS\<rparr>"
  let ?v = "\<lparr>id_vendor = 0xce42, id_device = 7, id_class = WB_NO_CLASS\<rparr>"
  have "id_table (fakedac_driver 0) = Some ([?dac] @ ?z # [])" "id_table (demo_driver [?v, ?z]) = Some ([?v] @ ?z # [])"
    by (simp_all add: demo_driver_def fakedac_driver_def fakedac_ids_def)
  note t = this
  have z: "\<forall>x\<in>set [?dac]. \<not> zero_id x" "\<forall>x\<in>set [?v]. \<not> zero_id x" "zero_id ?z" by (simp_all add: zero_id_def)
  have any: "(0xce42 :: u64) \<noteq> WB_ANY_VENDOR" "(0 :: u32) \<noteq> WB_ANY_DEVICE" by code_simp+
  show ?thesis
    using driver_match_first [OF t(1) z(1,3), of "demo_wbdev 0 2"]
      driver_match_first [OF t(2) z(2,3), of "demo_wbdev 0xce42 7"] any
    by (simp add: entry_matches_def demo_wbdev_def)
qed

text \<open>C25: Exchanging a bit over the one-wire master returns exactly when the hardware ends the cycle,
  and then makes just these accesses: one write that starts the cycle with the bit on the selected
  port, reads up to the first that finds the cycle over, and one more whose data bit is the answer.\<close>

theorem onewire_cycle:
  fixes dev b hw
  defines "csr \<equiv> ow_base dev + OCOW_REG_CSR" and "from \<equiv> Suc (length (ow_trace dev))"
  defines "ready \<equiv> \<lambda>n. hw (from + n) AND OCOW_CSR_CYC_MASK = 0"
  shows "(wb_onewire_touch_bit hw dev b \<noteq> None) = (\<exists>n. ready n)
    \<and> (\<forall>n. ready n \<and> (\<forall>i < n. \<not> ready i) \<longrightarrow> wb_onewire_touch_bit hw dev b
        = Some (dev\<lparr>ow_trace := ow_trace dev
             @ [Ow_write csr (((ow_port dev AND 0xF) * 256) OR 8 OR (ucast b AND 1))] @ ow_reads hw csr from (n + 2)\<rparr>,
           ucast (hw (from + Suc n) AND 1)))"
proof -
  have "bit w n \<Longrightarrow> n < 32" for w :: u32 and n using bit_imp_le_length [of w n] by simp
  then have sel: "push_bit 8 w AND 0xF00 = (w AND 0xF) * 256" for w :: u32
  proof -
    have "(w AND 0xF) * 256 = push_bit 8 (w AND mask 4)" by (simp add: push_bit_eq_mult mask_numeral)
    moreover have "(0xF00 :: u32) = push_bit 8 (mask 4)" by code_simp
    ultimately show ?thesis by (metis push_bit_and)
  qed
  let ?v = "((ow_port dev AND 0xF) * 256) OR 8 OR (ucast b AND 1)"
  have call: "wb_onewire_touch_bit hw dev b = ow_cycle hw dev ?v"
    by (simp add: wb_onewire_touch_bit_def OCOW_CSR_SEL_OFS_def OCOW_CSR_SEL_MASK_def OCOW_CSR_CYC_MASK_def
        OCOW_CSR_DAT_MASK_def sel or.assoc)
  have ends: "ow_cycle hw dev ?v = Some (dev\<lparr>ow_trace := ow_trace dev @ [Ow_write csr ?v] @ ow_reads hw csr from (n + 2)\<rparr>,
      ucast (hw (from + Suc n) AND 1))" if "ready n" "\<forall>i < n. \<not> ready i" for n
    using ow_cycle_ends [of n hw dev ?v] that by (simp add: ready_def csr_def from_def OCOW_CSR_DAT_MASK_def)
  have "\<exists>n. ready n" if "ow_cycle hw dev ?v \<noteq> None"
  proof -
    let ?dev = "ow_writel csr ?v dev"
    from that obtain r where "wait_cyc hw ?dev = Some r"
      by (auto simp: ow_cycle_def Let_def csr_def bind_eq_Some_conv)
    from wait_cyc_hangs [OF this] show ?thesis by (auto simp: ow_writel_def ready_def from_def)
  qed
  moreover have "ow_cycle hw dev ?v \<noteq> None" if "\<exists>n. ready n"
  proof -
    from exists_least_iff [THEN iffD1, OF that] obtain n where "ready n" "\<forall>i < n. \<not> ready i" by blast
    from ends [OF this] show ?thesis by simp
  qed
  ultimately show ?thesis unfolding call using ends by blast
qed

theorem onewire_cycle_witness:
  "\<exists>dev'. wb_onewire_touch_bit (\<lambda>n. if n = 1 then 9 else 1)
      \<lparr>ow_num = 0, ow_port = 2, clk_div_nor = 624, clk_div_ovd = 124, ow_base = 0x100, ow_trace = []\<rparr> 1 = Some (dev', 1)"
proof -
  let ?dev = "\<lparr>ow_num = 0, ow_port = 2, clk_div_nor = 624, clk_div_ovd = 124, ow_base = 0x100, ow_trace = []\<rparr>"
  have c: "(9 :: u32) AND OCOW_CSR_CYC_MASK \<noteq> 0" "(1 :: u32) AND OCOW_CSR_CYC_MASK = 0" by code_simp+
  show ?thesis
    using onewire_cycle [of "\<lambda>n. if n = 1 then 9 else 1" ?dev 1, THEN conjunct2, rule_format, of 1] c by simp
qed

end
